(* ===== verification/Prelude.thy ===== *)
theory Prelude
  imports Main "HOL-Library.Word" "HOL-Library.Sublist"
begin

text \<open>
  Shared vocabulary of the development: how the Rust primitive types are represented, the pieces
  of the Rust standard library that several crates use, the collections that carry automation
  between theories, and the generic list and option lemmas of the component proofs.

  \<^item> A Rust \<^verbatim>\<open>char\<close> is a Unicode scalar value, here its code point
    (\<open>uchar\<close>), and a \<^verbatim>\<open>String\<close> or \<^verbatim>\<open>&str\<close> is the list of
    its characters (\<open>ustring\<close>). Byte lengths and byte offsets are computed through
    \<open>len_utf8\<close>. \<open>lit\<close> turns an ASCII literal into such a string.
  \<^item> \<^verbatim>\<open>u8\<close> is \<open>8 word\<close>; \<^verbatim>\<open>usize\<close> lengths and indices are
    \<open>nat\<close>; \<^verbatim>\<open>i64\<close> columns are \<open>int\<close>, with \<open>wrap_i64\<close> written
    out where an addition could leave the range.
  \<^item> A \<^verbatim>\<open>DateTime<Utc>\<close>, an \<^verbatim>\<open>Instant\<close> and a
    \<^verbatim>\<open>Duration\<close> are integers counting nanoseconds.
  \<^item> \<^verbatim>\<open>Result<T, E>\<close> is \<open>'e + 'a\<close> with \<open>Inl\<close> for
    \<^verbatim>\<open>Err\<close>; \<^verbatim>\<open>Option<T>\<close> is \<open>'a option\<close>.
\<close>

named_theorems state_edges \<open>the transition tables of the state machines\<close>
named_theorems store_laws \<open>what a lawful delegate does on a compare-and-swap\<close>
named_theorems row_defs \<open>the patch, trigger and guard functions of the tables\<close>

subsection \<open>Characters and strings\<close>

type_synonym uchar = nat
type_synonym ustring = "uchar list"
type_synonym u8 = "8 word"
type_synonym instant = int
type_synonym duration = int

definition lit :: "string \<Rightarrow> ustring" where
  "lit s = map of_char s"

lemma lit_Nil [simp]: "lit [] = []"
  by (simp add: lit_def)

lemma lit_Cons [simp]: "lit (c # cs) = of_char c # lit cs"
  by (simp add: lit_def)

lemma length_lit [simp]: "length (lit s) = length s"
  by (simp add: lit_def)

text \<open>\<^verbatim>\<open>char::len_utf8\<close>, \<^verbatim>\<open>char::len_utf16\<close> and \<^verbatim>\<open>str::len\<close>.\<close>

definition len_utf8 :: "uchar \<Rightarrow> nat" where
  "len_utf8 c = (if c < 0x80 then 1 else if c < 0x800 then 2 else if c < 0x10000 then 3 else 4)"

definition len_utf16 :: "uchar \<Rightarrow> nat" where
  "len_utf16 c = (if c < 0x10000 then 1 else 2)"

definition byte_len :: "ustring \<Rightarrow> nat" where
  "byte_len s = sum_list (map len_utf8 s)"

lemma len_utf8_pos [simp]: "0 < len_utf8 c"
  by (simp add: len_utf8_def)

lemma len_utf16_range: "1 \<le> len_utf16 c" "len_utf16 c \<le> 2"
  by (simp_all add: len_utf16_def)

text \<open>\<^verbatim>\<open>str::char_indices\<close>: every character with its byte offset.\<close>

primrec char_indices_from :: "nat \<Rightarrow> ustring \<Rightarrow> (nat \<times> uchar) list" where
  "char_indices_from off [] = []"
| "char_indices_from off (c # cs) = (off, c) # char_indices_from (off + len_utf8 c) cs"

definition char_indices :: "ustring \<Rightarrow> (nat \<times> uchar) list" where
  "char_indices s = char_indices_from 0 s"

lemma map_snd_char_indices_from [simp]: "map snd (char_indices_from off s) = s"
  by (induction s arbitrary: off) auto

lemma map_snd_char_indices [simp]: "map snd (char_indices s) = s"
  by (simp add: char_indices_def)

text \<open>\<^verbatim>\<open>char::is_ascii_digit\<close> and \<^verbatim>\<open>char::is_whitespace\<close> (the Unicode
  \<open>White_Space\<close> property).\<close>

definition is_ascii_digit :: "uchar \<Rightarrow> bool" where
  "is_ascii_digit c \<longleftrightarrow> 48 \<le> c \<and> c \<le> 57"

definition is_whitespace :: "uchar \<Rightarrow> bool" where
  "is_whitespace c \<longleftrightarrow> 9 \<le> c \<and> c \<le> 13 \<or> c = 32 \<or> c = 0x85 \<or> c = 0xA0 \<or> c = 0x1680 \<or>
     0x2000 \<le> c \<and> c \<le> 0x200A \<or> c = 0x2028 \<or> c = 0x2029 \<or> c = 0x202F \<or> c = 0x205F \<or> c = 0x3000"

text \<open>\<^verbatim>\<open>str::split_whitespace\<close>: the maximal runs of characters that are not white space.
  \<open>split_ws_acc\<close> carries the run being read.\<close>

fun split_ws_acc :: "ustring \<Rightarrow> ustring \<Rightarrow> ustring list" where
  "split_ws_acc run [] = (if run = [] then [] else [run])"
| "split_ws_acc run (c # cs) =
     (if is_whitespace c then (if run = [] then [] else [run]) @ split_ws_acc [] cs
      else split_ws_acc (run @ [c]) cs)"

definition split_whitespace :: "ustring \<Rightarrow> ustring list" where
  "split_whitespace s = split_ws_acc [] s"

lemma split_ws_acc_word:
  "list_all (\<lambda>c. \<not> is_whitespace c) w \<Longrightarrow> split_ws_acc run (w @ s) = split_ws_acc (run @ w) s"
  by (induction w arbitrary: run) auto

lemma split_ws_acc_no_ws:
  "run @ s \<noteq> [] \<Longrightarrow> list_all (\<lambda>c. \<not> is_whitespace c) s \<Longrightarrow> split_ws_acc run s = [run @ s]"
  using split_ws_acc_word [of s run "[]"] by auto

lemma split_ws_acc_tokens:
  assumes "list_all (\<lambda>c. \<not> is_whitespace c) run"
  shows "\<forall>w \<in> set (split_ws_acc run s). w \<noteq> [] \<and> list_all (\<lambda>c. \<not> is_whitespace c) w"
  using assms by (induction run s rule: split_ws_acc.induct) auto

lemma split_whitespace_tokens:
  "w \<in> set (split_whitespace s) \<Longrightarrow> w \<noteq> [] \<and> list_all (\<lambda>c. \<not> is_whitespace c) w"
  using split_ws_acc_tokens [of "[]" s] by (simp add: split_whitespace_def)

text \<open>\<^verbatim>\<open>str::starts_with\<close> is \<open>prefix\<close> and \<^verbatim>\<open>str::contains\<close> of a string is
  \<open>sublist\<close>, both from HOL-Library.\<close>

text \<open>\<^verbatim>\<open>str::trim\<close> and \<^verbatim>\<open>[String]::join\<close>.\<close>

definition trim :: "ustring \<Rightarrow> ustring" where
  "trim s = rev (dropWhile is_whitespace (rev (dropWhile is_whitespace s)))"

fun join :: "ustring \<Rightarrow> ustring list \<Rightarrow> ustring" where
  "join sep [] = []"
| "join sep [x] = x"
| "join sep (x # y # ys) = x @ sep @ join sep (y # ys)"

subsection \<open>Printing integers\<close>

fun show_nat :: "nat \<Rightarrow> ustring" where
  "show_nat n = (if n < 10 then [48 + n] else show_nat (n div 10) @ [48 + n mod 10])"

declare show_nat.simps [simp del]

definition show_int :: "int \<Rightarrow> ustring" where
  "show_int i = (if i < 0 then 45 # show_nat (nat (- i)) else show_nat (nat i))"

lemma show_nat_digits: "list_all is_ascii_digit (show_nat n)"
proof (induction n rule: show_nat.induct)
  case (1 n)
  have "list_all is_ascii_digit (show_nat (n div 10) @ [48 + n mod 10])" if "\<not> n < 10"
    using 1 that by (auto simp: is_ascii_digit_def [of "48 + n mod 10"])
  then show ?case
    by (subst show_nat.simps) (auto simp: is_ascii_digit_def [of "48 + n"])
qed

lemma show_nat_nonempty [simp]: "show_nat n \<noteq> []"
  by (subst show_nat.simps) simp

lemma show_nat_length_3: "n < 1000 \<Longrightarrow> length (show_nat n) =
    (if 100 \<le> n then 3 else if 10 \<le> n then 2 else 1)"
  by (subst show_nat.simps, subst show_nat.simps, subst show_nat.simps) auto

subsection \<open>Integers and time\<close>

definition wrap_i64 :: "int \<Rightarrow> int" where
  "wrap_i64 x = (x + 2 ^ 63) mod 2 ^ 64 - 2 ^ 63"

lemma wrap_i64_id: "- (2 ^ 63) \<le> x \<Longrightarrow> x < 2 ^ 63 \<Longrightarrow> wrap_i64 x = x"
  by (simp add: wrap_i64_def)

definition secs :: "int \<Rightarrow> duration" where
  "secs n = n * 1000000000"

definition minutes :: "int \<Rightarrow> duration" where
  "minutes n = secs (60 * n)"

lemma secs_pos [simp]: "0 < secs n \<longleftrightarrow> 0 < n"
  by (simp add: secs_def)

lemma minutes_pos [simp]: "0 < minutes n \<longleftrightarrow> 0 < n"
  by (simp add: minutes_def secs_def)

text \<open>\<^verbatim>\<open>chrono::Duration::from_std\<close>: a \<^verbatim>\<open>std::time::Duration\<close> beyond
  chrono's largest duration (\<^verbatim>\<open>i64::MAX\<close> milliseconds) does not convert.\<close>

definition from_std :: "duration \<Rightarrow> duration option" where
  "from_std d = (if d \<le> (2 ^ 63 - 1) * 1000000 then Some d else None)"

subsection \<open>Results\<close>

definition bind_res :: "'e + 'a \<Rightarrow> ('a \<Rightarrow> 'e + 'b) \<Rightarrow> 'e + 'b" where
  "bind_res r f = (case r of Inl e \<Rightarrow> Inl e | Inr x \<Rightarrow> f x)"

lemma bind_res_simps [simp]: "bind_res (Inl e) f = Inl e" "bind_res (Inr x) f = f x"
  by (simp_all add: bind_res_def)

lemma bind_res_Inr_conv: "bind_res r f = Inr y \<longleftrightarrow> (\<exists>x. r = Inr x \<and> f x = Inr y)"
  by (cases r) auto

subsection \<open>Lists\<close>

text \<open>\<^verbatim>\<open>Iterator::position\<close>.\<close>

fun position :: "('a \<Rightarrow> bool) \<Rightarrow> 'a list \<Rightarrow> nat option" where
  "position P [] = None"
| "position P (x # xs) = (if P x then Some 0 else map_option Suc (position P xs))"

lemma position_Some:
  "position P xs = Some i \<Longrightarrow> i < length xs \<and> P (xs ! i) \<and> (\<forall>j < i. \<not> P (xs ! j))"
proof (induction xs arbitrary: i)
  case (Cons x xs)
  then show ?case
    by (auto split: if_splits simp: nth_Cons less_Suc_eq_0_disj split: nat.splits)
qed simp

lemma position_None: "position P xs = None \<longleftrightarrow> (\<forall>x \<in> set xs. \<not> P x)"
  by (induction xs) auto

lemma find_in_set: "find P xs = Some x \<Longrightarrow> x \<in> set xs \<and> P x"
  by (auto simp: find_Some_iff)

text \<open>A list split by its first element with a property.\<close>

lemma find_Some_split:
  "find P xs = Some x \<Longrightarrow> \<exists>us vs. xs = us @ x # vs \<and> P x \<and> (\<forall>u \<in> set us. \<not> P u)"
proof (induction xs)
  case (Cons y ys)
  show ?case
  proof (cases "P y")
    case True
    with Cons.prems have "y # ys = [] @ x # ys" "P x" by simp_all
    then show ?thesis by (intro exI [of _ "[]"] exI [of _ ys]) auto
  next
    case False
    with Cons obtain us vs where "ys = us @ x # vs" "P x" "\<forall>u \<in> set us. \<not> P u" by auto
    with False show ?thesis by (intro exI [of _ "y # us"] exI [of _ vs]) auto
  qed
qed simp

lemma find_filter: "find P (filter Q xs) = find (\<lambda>x. Q x \<and> P x) xs"
  by (induction xs) auto

lemma find_append_None: "find P xs = None \<Longrightarrow> find P (xs @ ys) = find P ys"
  by (induction xs) auto

text \<open>The first match in a stably sorted list: nothing that matches has a smaller key, and nothing
  that matches and was inserted earlier has the same key.\<close>

lemma find_sort_key:
  assumes "find P (sort_key f xs) = Some x"
  shows "\<exists>us vs. xs = us @ x # vs \<and> P x \<and> (\<forall>u \<in> set us. P u \<longrightarrow> f x < f u)
    \<and> (\<forall>v \<in> set vs. P v \<longrightarrow> f x \<le> f v)"
proof -
  from find_Some_split [OF assms] obtain as bs where
    split: "sort_key f xs = as @ x # bs" "P x" "\<forall>a \<in> set as. \<not> P a"
    by auto
  have "sorted (map f (as @ x # bs))"
    using sorted_sort_key [of f xs] by (simp only: split)
  then have bs: "\<forall>b \<in> set bs. f x \<le> f b" by (simp add: sorted_append)
  have "set xs = set as \<union> insert x (set bs)"
    using arg_cong [OF split(1), of set] by simp
  then have least: "P y \<Longrightarrow> f x \<le> f y" if "y \<in> set xs" for y
    using that split(3) bs by auto
  have "find P (filter (\<lambda>y. f y = f x) (sort_key f xs)) = Some x"
  proof -
    have "find P (filter (\<lambda>y. f y = f x) as) = None"
      using split(3) by (auto simp: find_None_iff)
    then show ?thesis
      using split(2) by (simp add: split(1) find_append_None)
  qed
  then have "find (\<lambda>y. f y = f x \<and> P y) xs = Some x"
    by (simp add: sort_key_stable find_filter)
  from find_Some_split [OF this] obtain us vs where
    xs: "xs = us @ x # vs" and us: "\<forall>u \<in> set us. \<not> (f u = f x \<and> P u)"
    by auto
  have "f x < f u" if "u \<in> set us" "P u" for u
    using us least [of u] that xs by force
  moreover have "f x \<le> f v" if "v \<in> set vs" "P v" for v
    using least [of v] that xs by simp
  ultimately show ?thesis using xs split(2) by blast
qed

text \<open>A sorted schedule read at an index clamped to its last entry.\<close>

lemma clamped_nth_mono:
  "sorted xs \<Longrightarrow> xs \<noteq> [] \<Longrightarrow> i \<le> j \<Longrightarrow> xs ! min i (length xs - 1) \<le> xs ! min j (length xs - 1)"
  by (rule sorted_nth_mono, assumption, linarith, simp add: min_less_iff_disj)

lemma clamped_nth_bounds:
  assumes "sorted xs" "xs \<noteq> []"
  shows "hd xs \<le> xs ! min i (length xs - 1)" "xs ! min i (length xs - 1) \<le> last xs"
  using clamped_nth_mono [OF assms, of 0 i] clamped_nth_mono [OF assms, of "min i (length xs - 1)" "length xs - 1"] assms(2)
  by (simp_all add: hd_conv_nth last_conv_nth)

lemma clamped_nth_last: "xs \<noteq> [] \<Longrightarrow> length xs - 1 \<le> i \<Longrightarrow> xs ! min i (length xs - 1) = last xs"
  by (simp add: last_conv_nth min_absorb2)

end
