(* ===== verification/Packed_Column.thy ===== *)
theory Packed_Column
  imports Prelude
begin

text \<open>
  \<^verbatim>\<open>backends/crates/sms-core/src/lib.rs\<close>: multi-value columns as one space-delimited
  string with a sentinel separator at both ends. \<open>pack\<close>, \<open>unpack\<close>,
  \<open>contains\<close> and \<open>needle\<close> are the four operations of the crate.
\<close>

definition SEPARATOR :: uchar where
  "SEPARATOR = 32"

definition EMPTY :: ustring where
  "EMPTY = [32]"

datatype pack_error = ContainsSeparator ustring | PackEmpty

fun pack_loop :: "ustring \<Rightarrow> ustring list \<Rightarrow> pack_error + ustring" where
  "pack_loop packed [] = Inr packed"
| "pack_loop packed (v # vs) =
     (if v = [] then Inl PackEmpty
      else if SEPARATOR \<in> set v then Inl (ContainsSeparator v)
      else pack_loop (packed @ v @ [SEPARATOR]) vs)"

definition pack :: "ustring list \<Rightarrow> pack_error + ustring" where
  "pack values = pack_loop EMPTY values"

definition unpack :: "ustring \<Rightarrow> ustring list" where
  "unpack packed = split_whitespace packed"

definition contains :: "ustring \<Rightarrow> ustring \<Rightarrow> bool" where
  "contains packed value \<longleftrightarrow> value \<noteq> [] \<and> value \<in> set (unpack packed)"

definition needle :: "ustring \<Rightarrow> ustring" where
  "needle value = SEPARATOR # value @ [SEPARATOR]"

subsection \<open>What packing produces\<close>

definition packable :: "ustring \<Rightarrow> bool" where
  "packable v \<longleftrightarrow> v \<noteq> [] \<and> SEPARATOR \<notin> set v"

definition wordlike :: "ustring \<Rightarrow> bool" where
  "wordlike v \<longleftrightarrow> v \<noteq> [] \<and> list_all (\<lambda>c. \<not> is_whitespace c) v"

definition column :: "ustring list \<Rightarrow> ustring" where
  "column vs = SEPARATOR # concat (map (\<lambda>v. v @ [SEPARATOR]) vs)"

lemma separator_is_whitespace [simp]: "is_whitespace SEPARATOR"
  by (simp add: SEPARATOR_def is_whitespace_def)

lemma wordlike_packable: "wordlike v \<Longrightarrow> packable v"
  by (auto simp: wordlike_def packable_def list_all_iff)

lemma pack_loop_eq:
  "pack_loop p vs = (case find (\<lambda>v. \<not> packable v) vs of
     None \<Rightarrow> Inr (p @ concat (map (\<lambda>v. v @ [SEPARATOR]) vs))
   | Some v \<Rightarrow> Inl (if v = [] then PackEmpty else ContainsSeparator v))"
  by (induction p vs rule: pack_loop.induct) (auto simp: packable_def split: option.splits)

lemma pack_eq:
  "pack vs = (case find (\<lambda>v. \<not> packable v) vs of
     None \<Rightarrow> Inr (column vs)
   | Some v \<Rightarrow> Inl (if v = [] then PackEmpty else ContainsSeparator v))"
  by (simp add: pack_def pack_loop_eq EMPTY_def column_def SEPARATOR_def split: option.split)

lemma pack_Inr_iff: "pack vs = Inr p \<longleftrightarrow> list_all packable vs \<and> p = column vs"
  by (auto simp: pack_eq find_None_iff list_all_iff split: option.splits dest: find_in_set)

lemma split_ws_column_tail:
  "list_all wordlike vs \<Longrightarrow> split_ws_acc [] (concat (map (\<lambda>v. v @ [SEPARATOR]) vs)) = vs"
  by (induction vs) (auto simp: split_ws_acc_word wordlike_def)

lemma unpack_column: "list_all wordlike vs \<Longrightarrow> unpack (column vs) = vs"
  by (simp add: unpack_def split_whitespace_def column_def split_ws_column_tail)

lemma unpack_wordlike: "list_all wordlike (unpack s)"
  using split_whitespace_tokens [of _ s] by (auto simp: unpack_def wordlike_def list_all_iff)

subsection \<open>The column as an interface\<close>

text \<open>
  What a client of a multi-value column relies on: legal values can be stored, are read back
  in order, and one more legal value can be added to whatever was read.
\<close>

locale value_codec =
  fixes encode :: "'v list \<Rightarrow> 'e + 'c"
    and decode :: "'c \<Rightarrow> 'v list"
    and legal :: "'v \<Rightarrow> bool"
  assumes encode_total: "list_all legal vs \<Longrightarrow> \<exists>c. encode vs = Inr c"
    and decode_encode: "list_all legal vs \<Longrightarrow> encode vs = Inr c \<Longrightarrow> decode c = vs"
    and decode_legal: "list_all legal (decode c)"
begin

lemma add_value:
  assumes "legal v"
  shows "\<exists>c'. encode (decode c @ [v]) = Inr c' \<and> decode c' = decode c @ [v]"
proof -
  have "list_all legal (decode c @ [v])" using assms decode_legal by simp
  then show ?thesis using encode_total decode_encode by blast
qed

lemma encode_inj:
  "list_all legal vs \<Longrightarrow> list_all legal ws \<Longrightarrow> encode vs = Inr c \<Longrightarrow> encode ws = Inr c \<Longrightarrow> vs = ws"
  using decode_encode by metis

end

interpretation col: value_codec pack unpack wordlike
proof unfold_locales
  show "\<exists>c. pack vs = Inr c" if "list_all wordlike vs" for vs
    using that by (auto simp: pack_Inr_iff list_all_iff intro: wordlike_packable)
  show "unpack c = vs" if "list_all wordlike vs" "pack vs = Inr c" for vs c
    using that by (simp add: pack_Inr_iff unpack_column)
  show "list_all wordlike (unpack c)" for c
    by (rule unpack_wordlike)
qed

subsection \<open>Membership by substring\<close>

text \<open>The separators cut a string into blocks in only one way.\<close>

lemma sep_block_unique:
  assumes "SEPARATOR \<notin> set v" "SEPARATOR \<notin> set w" "v @ SEPARATOR # xs = w @ SEPARATOR # ys"
  shows "v = w \<and> xs = ys"
  using assms
proof (induction v arbitrary: w)
  case Nil
  then show ?case by (cases w) auto
next
  case (Cons a v)
  then show ?case by (cases w) auto
qed

lemma needle_prefix_iff:
  assumes "packable v" "list_all packable vs"
  shows "prefix (needle v) (column vs) \<longleftrightarrow> (\<exists>ws. vs = v # ws)"
proof (cases vs)
  case Nil
  with assms show ?thesis
    by (auto simp: needle_def column_def packable_def prefix_def)
next
  case (Cons w ws)
  have "v = w" if "v @ SEPARATOR # xs = w @ SEPARATOR # concat (map (\<lambda>v. v @ [SEPARATOR]) ws)" for xs
    using sep_block_unique [OF _ _ that] assms Cons by (simp add: packable_def)
  then show ?thesis
    using Cons by (auto simp: needle_def column_def prefix_def)
qed

lemma column_Cons: "column (v # vs) = SEPARATOR # v @ column vs"
  by (simp add: column_def)

lemma sep_suffix_of_block:
  assumes "SEPARATOR \<notin> set w" "w @ column vs = us @ SEPARATOR # zs"
  shows "\<exists>us'. us = w @ us' \<and> column vs = us' @ SEPARATOR # zs"
  using assms
proof (induction w arbitrary: us)
  case (Cons a w)
  then show ?case by (cases us) auto
qed simp

lemma needle_sublist_iff:
  assumes "packable v" "list_all packable vs"
  shows "sublist (needle v) (column vs) \<longleftrightarrow> v \<in> set vs"
  using assms(2)
proof (induction vs)
  case Nil
  show ?case
    using assms(1) by (auto simp: needle_def column_def packable_def sublist_def Cons_eq_append_conv)
next
  case (Cons w ws)
  have "v \<in> set (w # ws)" if "column (w # ws) = us @ needle v @ zs" for us zs
  proof (cases us)
    case Nil
    then have "prefix (needle v) (column (w # ws))" using that by (simp add: prefix_def)
    then show ?thesis using needle_prefix_iff [OF assms(1) Cons.prems] by auto
  next
    case (Cons a us')
    with that have "w @ column ws = us' @ SEPARATOR # v @ SEPARATOR # zs"
      by (simp add: column_Cons needle_def)
    from sep_suffix_of_block [OF _ this] Cons.prems
    obtain us'' where "column ws = us'' @ needle v @ zs"
      by (auto simp: packable_def needle_def)
    then show ?thesis using Cons.IH Cons.prems by (auto simp: sublist_def)
  qed
  moreover have "sublist (needle v) (column (w # ws))" if "v \<in> set (w # ws)"
  proof (cases "v = w")
    case True
    then have "prefix (needle v) (column (w # ws))"
      using needle_prefix_iff [OF assms(1) Cons.prems] by auto
    then show ?thesis by (rule prefix_imp_sublist)
  next
    case False
    with that Cons have "sublist (needle v) (column ws)" by auto
    moreover have "sublist (column ws) (column (w # ws))"
      by (auto simp: column_Cons sublist_def intro: exI [of _ "SEPARATOR # w"] exI [of _ "[]"])
    ultimately show ?thesis by (rule sublist_order.order.trans)
  qed
  ultimately show ?case by (auto simp: sublist_def)
qed

subsection \<open>Properties\<close>

text \<open>C33: A list of values that packs successfully is read back exactly, in order and with
  duplicates, if and only if no value contains any white-space character. Packing itself refuses
  only the space, so a packed value holding another white-space character is read back split.\<close>

theorem pack_unpack_roundtrip:
  assumes "pack vs = Inr p"
  shows "unpack p = vs \<longleftrightarrow> (\<forall>v \<in> set vs. list_all (\<lambda>c. \<not> is_whitespace c) v)"
proof -
  from assms have p: "p = column vs" and ok: "list_all packable vs"
    by (simp_all add: pack_Inr_iff)
  have "list_all wordlike vs" if "unpack p = vs"
    using unpack_wordlike [of p] that by simp
  moreover have "unpack p = vs" if "list_all wordlike vs"
    using that by (simp add: p unpack_column)
  ultimately show ?thesis
    using ok by (auto simp: list_all_iff wordlike_def packable_def)
qed

theorem pack_unpack_roundtrip_witness:
  "unpack (lit '' a b '') = [lit ''a'', lit ''b'']"
proof -
  have "pack [lit ''a'', lit ''b''] = Inr (lit '' a b '')"
    by (simp add: pack_def EMPTY_def SEPARATOR_def)
  from pack_unpack_roundtrip [OF this] show ?thesis
    by (simp add: is_whitespace_def)
qed

text \<open>On a packed column, the substring test the database runs with \<open>needle\<close> and the
  exact membership test \<open>contains\<close> both decide membership in the packed list, for values
  free of white space (longer neighbours never match).\<close>

theorem needle_decides_membership:
  assumes "pack vs = Inr p" and "\<forall>w \<in> set vs. list_all (\<lambda>c. \<not> is_whitespace c) w"
    and "v \<noteq> []" and "SEPARATOR \<notin> set v"
  shows "(sublist (needle v) p \<longleftrightarrow> v \<in> set vs) \<and> (contains p v \<longleftrightarrow> v \<in> set vs)"
proof (rule conjI)
  from assms(1) have p: "p = column vs" and ok: "list_all packable vs"
    by (simp_all add: pack_Inr_iff)
  show "sublist (needle v) p \<longleftrightarrow> v \<in> set vs"
    using needle_sublist_iff [OF _ ok] assms(3,4) by (simp add: p packable_def)
  have "list_all wordlike vs"
    using ok assms(2) by (auto simp: list_all_iff wordlike_def packable_def)
  then show "contains p v \<longleftrightarrow> v \<in> set vs"
    using assms(3) by (simp add: p contains_def unpack_column)
qed

theorem needle_decides_membership_witness:
  "\<not> sublist (needle (lit ''ab'')) (lit '' abc '') \<and> \<not> contains (lit '' abc '') (lit ''ab'')"
proof -
  have "pack [lit ''abc''] = Inr (lit '' abc '')"
    by (simp add: pack_def EMPTY_def SEPARATOR_def)
  from needle_decides_membership [OF this, of "lit ''ab''"] show ?thesis
    by (simp add: is_whitespace_def SEPARATOR_def)
qed


end
