(* ===== verification/F64.thy ===== *)
theory F64
  imports Prelude Complex_Main "HOL-Library.Log_Nat"
begin

text \<open>
  Rust's \<^verbatim>\<open>f64\<close>, IEEE 754 binary64 with rounding to nearest, ties to even, as the
  exact rational it stands for. \<open>rnd\<close> rounds a rational to the nearest representable
  number: 53 significant bits, exponent at least \<open>- 1074\<close>. The two signed zeros are one
  value, which no comparison can tell apart. The lemmas a weighted draw needs are that rounding is
  monotone and that integers up to \<open>2 ^ 53\<close> are exact.
\<close>

datatype f64 = NaN | PosInf | NegInf | Fin rat

subsection \<open>Rounding to nearest, ties to even\<close>

definition rhe :: "rat \<Rightarrow> int" where
  "rhe x = (let f = \<lfloor>x\<rfloor>; r = x - of_int f in
     if r < 1 / 2 \<or> r = 1 / 2 \<and> even f then f else f + 1)"

lemma rhe_of_int [simp]: "rhe (of_int n) = n"
  by (simp add: rhe_def)

lemma rhe_bounds: "\<lfloor>x\<rfloor> \<le> rhe x" "rhe x \<le> \<lfloor>x\<rfloor> + 1"
  by (simp_all add: rhe_def Let_def)

lemma rhe_mono:
  assumes "x \<le> y"
  shows "rhe x \<le> rhe y"
proof (cases "\<lfloor>x\<rfloor> = \<lfloor>y\<rfloor>")
  case True
  with assms show ?thesis by (auto simp: rhe_def Let_def)
next
  case False
  then have "\<lfloor>x\<rfloor> + 1 \<le> \<lfloor>y\<rfloor>" using floor_mono [OF assms] by linarith
  then show ?thesis using rhe_bounds [of x] rhe_bounds [of y] by linarith
qed

subsection \<open>The binary exponent\<close>

definition ilog2 :: "rat \<Rightarrow> int" where
  "ilog2 q = (case quotient_of q of (a, b) \<Rightarrow>
     let k = bitlen a - bitlen b in if 2 powi k \<le> q then k else k - 1)"

lemma bitlen_powi:
  assumes "0 < (a :: int)"
  shows "2 powi (bitlen a - 1) \<le> (of_int a :: rat)" "(of_int a :: rat) < 2 powi bitlen a"
proof -
  have b: "2 ^ nat (bitlen a - 1) \<le> a \<and> a < 2 ^ nat (bitlen a)" by (rule bitlen_bounds [OF assms])
  have pos: "0 < bitlen a" using b assms by (cases "0 < bitlen a") auto
  have "(of_int (2 ^ nat (bitlen a - 1)) :: rat) \<le> of_int a" using b by (simp only: of_int_le_iff)
  then show "2 powi (bitlen a - 1) \<le> (of_int a :: rat)" using pos by (simp add: power_int_def)
  have "(of_int a :: rat) < of_int (2 ^ nat (bitlen a))" using b by (simp only: of_int_less_iff)
  then show "(of_int a :: rat) < 2 powi bitlen a" using pos by (simp add: power_int_def)
qed

lemma ilog2_bounds:
  assumes "0 < q"
  shows "2 powi ilog2 q \<le> q" "q < 2 powi (ilog2 q + 1)"
proof -
  obtain a b where ab: "quotient_of q = (a, b)" by (cases "quotient_of q")
  have b: "0 < b" and q: "q = of_int a / of_int b"
    using quotient_of_denom_pos [OF ab] quotient_of_div [OF ab] by simp_all
  have a: "0 < a" using assms b by (simp add: q zero_less_divide_iff)
  have rb: "(0 :: rat) < of_int b" using b by simp
  have "(2 :: rat) powi (bitlen a - bitlen b - 1) * of_int b < 2 powi (bitlen a - bitlen b - 1) * 2 powi bitlen b"
    using bitlen_powi(2) [OF b] by (intro mult_strict_left_mono) simp_all
  also have "\<dots> = (2 powi (bitlen a - 1) :: rat)"
    by (simp flip: power_int_add)
  also have "\<dots> \<le> of_int a" by (rule bitlen_powi(1) [OF a])
  finally have lo: "2 powi (bitlen a - bitlen b - 1) < q"
    using rb by (simp add: q pos_less_divide_eq)
  have "of_int a < (2 powi bitlen a :: rat)" by (rule bitlen_powi(2) [OF a])
  also have "\<dots> = 2 powi (bitlen a - bitlen b + 1) * 2 powi (bitlen b - 1)"
    by (simp flip: power_int_add)
  also have "\<dots> \<le> 2 powi (bitlen a - bitlen b + 1) * of_int b"
    using bitlen_powi(1) [OF b] by (intro mult_left_mono) simp_all
  finally have hi: "q < 2 powi (bitlen a - bitlen b + 1)"
    using rb by (simp add: q pos_divide_less_eq)
  show "2 powi ilog2 q \<le> q" "q < 2 powi (ilog2 q + 1)"
    using lo hi by (auto simp: ilog2_def ab Let_def)
qed

lemma ilog2_less:
  assumes "0 < q" "q < 2 powi k"
  shows "ilog2 q < k"
proof -
  have "(2 :: rat) powi ilog2 q < 2 powi k"
    using ilog2_bounds(1) [OF assms(1)] assms(2) by linarith
  then show ?thesis
    using power_int_increasing [of k "ilog2 q" "2 :: rat"] by linarith
qed

lemma ilog2_mono:
  assumes "0 < a" "a \<le> b"
  shows "ilog2 a \<le> ilog2 b"
proof -
  have "0 < b" using assms by linarith
  then have "a < 2 powi (ilog2 b + 1)" using ilog2_bounds(2) [of b] assms(2) by linarith
  then show ?thesis using ilog2_less [OF assms(1)] by fastforce
qed

subsection \<open>Rounding to binary64\<close>

definition grid :: "int \<Rightarrow> rat \<Rightarrow> rat" where
  "grid e q = of_int (rhe (q / 2 powi e)) * 2 powi e"

definition expo :: "rat \<Rightarrow> int" where
  "expo q = max (ilog2 q - 52) (- 1074)"

definition rnd :: "rat \<Rightarrow> rat" where
  "rnd q = (if q = 0 then 0 else if q < 0 then - grid (expo (- q)) (- q) else grid (expo q) q)"

definition to_f64 :: "rat \<Rightarrow> f64" where
  "to_f64 q = (let r = rnd q in if 2 ^ 1024 \<le> r then PosInf else if r \<le> - (2 ^ 1024) then NegInf else Fin r)"

lemma powi_pos [simp]: "0 < (2 :: rat) powi e"
  by simp

lemma grid_mono: "a \<le> b \<Longrightarrow> grid e a \<le> grid e b"
  unfolding grid_def
  by (intro mult_right_mono) (simp_all add: rhe_mono divide_right_mono)

lemma grid_exact: "grid e (of_int k * 2 powi e) = of_int k * 2 powi e"
  by (simp add: grid_def)

lemma grid_power:
  assumes "e \<le> E"
  shows "grid e (2 powi E) = 2 powi E"
proof -
  have "(2 powi E :: rat) = of_int (2 ^ nat (E - e)) * 2 powi e"
    using assms power_int_add [of "2 :: rat" "E - e" e] by (simp add: power_int_def [of _ "E - e"])
  then show ?thesis using grid_exact [of e "2 ^ nat (E - e)"] by (simp only:)
qed

lemma rnd_mono:
  assumes "0 \<le> a" "a \<le> b"
  shows "rnd a \<le> rnd b"
proof (cases "a = 0")
  case True
  have "0 \<le> grid e b" if "0 \<le> b" for e b
    using grid_mono [OF that, of e] by (simp add: grid_def rhe_def)
  with True assms show ?thesis by (simp add: rnd_def)
next
  case False
  with assms have a: "0 < a" and b: "0 < b" by simp_all
  have "grid (expo a) a \<le> grid (expo b) b"
  proof (cases "expo a = expo b")
    case True
    then show ?thesis using grid_mono [OF assms(2)] by simp
  next
    case False
    have mono: "ilog2 a \<le> ilog2 b" by (rule ilog2_mono [OF a assms(2)])
    with False have E: "ilog2 a < ilog2 b" "expo a \<le> ilog2 b" "expo b \<le> ilog2 b"
      by (auto simp: expo_def)
    have "(2 :: rat) powi (ilog2 a + 1) \<le> 2 powi ilog2 b"
      using E(1) by (intro power_int_increasing) simp_all
    then have "a \<le> 2 powi ilog2 b" using ilog2_bounds(2) [OF a] by linarith
    then have "grid (expo a) a \<le> 2 powi ilog2 b"
      using grid_mono [of a "2 powi ilog2 b" "expo a"] grid_power [OF E(2)] by simp
    also have "\<dots> \<le> grid (expo b) b"
      using grid_mono [OF ilog2_bounds(1) [OF b], of "expo b"] grid_power [OF E(3)] by simp
    finally show ?thesis .
  qed
  with a b show ?thesis by (simp add: rnd_def)
qed

lemma rnd_0 [simp]: "rnd 0 = 0"
  by (simp add: rnd_def)

lemma rnd_nonneg: "0 \<le> q \<Longrightarrow> 0 \<le> rnd q"
  using rnd_mono [of 0 q] by simp

text \<open>A number that is an integer multiple of the spacing at its own magnitude is exact.\<close>

lemma rnd_exact:
  assumes "q = of_int k * 2 powi e" "0 < k" "k < 2 ^ 53" "- 1074 \<le> e"
  shows "rnd q = q"
proof -
  have q: "0 < q" using assms(1,2) by simp
  have "(of_int k :: rat) < of_int (2 ^ 53)" using assms(3) by (simp only: of_int_less_iff)
  then have "(of_int k :: rat) < 2 powi 53" by simp
  then have "of_int k * 2 powi e < (2 powi 53 * 2 powi e :: rat)"
    by (intro mult_strict_right_mono) simp_all
  then have "q < 2 powi (53 + e)"
    using assms(1) power_int_add [of "2 :: rat" 53 e] by simp
  then have "ilog2 q < 53 + e" by (rule ilog2_less [OF q])
  then have le: "expo q \<le> e" using assms(4) by (simp add: expo_def)
  have "(2 powi e :: rat) = of_int (2 ^ nat (e - expo q)) * 2 powi expo q"
    using le power_int_add [of "2 :: rat" "e - expo q" "expo q"] by (simp add: power_int_def [of _ "e - expo q"])
  then have "q = of_int (k * 2 ^ nat (e - expo q)) * 2 powi expo q"
    unfolding assms(1) by (simp add: mult.assoc)
  then have "grid (expo q) q = q" using grid_exact by metis
  with q show ?thesis by (simp add: rnd_def)
qed

lemma rnd_of_int:
  assumes "0 \<le> n" "n \<le> 2 ^ 53"
  shows "rnd (of_int n) = of_int n"
proof -
  consider "n = 0" | "0 < n" "n < 2 ^ 53" | "n = 2 ^ 53" using assms by linarith
  then show ?thesis
  proof cases
    case 2
    then show ?thesis using rnd_exact [of "of_int n" n 0] by simp
  next
    case 3
    then show ?thesis using rnd_exact [of "of_int n" 1 53] by simp
  qed simp
qed

lemma rnd_1 [simp]: "rnd 1 = 1"
  using rnd_of_int [of 1] by simp

lemma rnd_le_1: "0 \<le> q \<Longrightarrow> q \<le> 1 \<Longrightarrow> rnd q \<le> 1"
  using rnd_mono [of q 1] by simp

text \<open>Everything at most the largest number below one stays below one.\<close>

lemma rnd_less_1:
  assumes "0 \<le> q" "q \<le> 1 - 1 / 2 ^ 53"
  shows "rnd q < 1"
proof -
  have eq: "(1 - 1 / 2 ^ 53 :: rat) = of_int (2 ^ 53 - 1) * 2 powi (- 53)"
    by (simp add: power_int_minus field_simps)
  have "rnd (1 - 1 / 2 ^ 53) = 1 - 1 / 2 ^ 53"
    using rnd_exact [OF eq] by simp
  then have "rnd q \<le> 1 - 1 / 2 ^ 53" using rnd_mono [OF assms] by simp
  also have "\<dots> < (1 :: rat)" by simp
  finally show ?thesis .
qed

subsection \<open>Operations\<close>

fun f_add :: "f64 \<Rightarrow> f64 \<Rightarrow> f64" where
  "f_add (Fin a) (Fin b) = to_f64 (a + b)"
| "f_add NaN _ = NaN"
| "f_add _ NaN = NaN"
| "f_add PosInf NegInf = NaN"
| "f_add NegInf PosInf = NaN"
| "f_add PosInf _ = PosInf"
| "f_add NegInf _ = NegInf"
| "f_add _ PosInf = PosInf"
| "f_add _ NegInf = NegInf"

text \<open>Division by zero takes the zero as positive: the code divides by sums of non-negative
  numbers only.\<close>

fun f_div :: "f64 \<Rightarrow> f64 \<Rightarrow> f64" where
  "f_div (Fin a) (Fin b) =
     (if b = 0 then (if a = 0 then NaN else if a < 0 then NegInf else PosInf) else to_f64 (a / b))"
| "f_div NaN _ = NaN"
| "f_div _ NaN = NaN"
| "f_div (Fin _) _ = Fin 0"
| "f_div PosInf (Fin b) = (if b < 0 then NegInf else PosInf)"
| "f_div NegInf (Fin b) = (if b < 0 then PosInf else NegInf)"
| "f_div _ _ = NaN"

fun f_lt :: "f64 \<Rightarrow> f64 \<Rightarrow> bool" where
  "f_lt (Fin a) (Fin b) = (a < b)"
| "f_lt NegInf (Fin _) = True"
| "f_lt NegInf PosInf = True"
| "f_lt (Fin _) PosInf = True"
| "f_lt _ _ = False"

text \<open>\<^verbatim>\<open>f64::clamp\<close>: a NaN passes through.\<close>

definition f_clamp :: "f64 \<Rightarrow> f64 \<Rightarrow> f64 \<Rightarrow> f64" where
  "f_clamp x lo hi = (let x = (if f_lt x lo then lo else x) in if f_lt hi x then hi else x)"

definition f64_of_int :: "int \<Rightarrow> f64" where
  "f64_of_int n = to_f64 (of_int n)"

lemma to_f64_small:
  assumes "0 \<le> q" "q \<le> 2 ^ 53"
  shows "to_f64 q = Fin (rnd q)"
proof -
  have "rnd q \<le> 2 ^ 53" using rnd_mono [OF assms] rnd_of_int [of "2 ^ 53"] by simp
  moreover have "(2 :: rat) ^ 53 < 2 ^ 1024" by (rule power_strict_increasing) simp_all
  ultimately show ?thesis
    using rnd_nonneg [OF assms(1)]
    by (auto simp: to_f64_def Let_def intro: order.strict_trans1 [of _ 0])
qed

lemma f64_of_int_small: "0 \<le> n \<Longrightarrow> n \<le> 2 ^ 53 \<Longrightarrow> f64_of_int n = Fin (of_int n)"
proof -
  assume n: "0 \<le> n" "n \<le> 2 ^ 53"
  then have "(of_int n :: rat) \<le> of_int (2 ^ 53)" by (simp only: of_int_le_iff)
  with n show ?thesis by (simp add: f64_of_int_def to_f64_small rnd_of_int)
qed

lemma f_add_small:
  assumes "0 \<le> a" "0 \<le> b" "a + b \<le> 2 ^ 53"
  shows "f_add (Fin (of_int a)) (Fin (of_int b)) = Fin (of_int (a + b))"
  using f64_of_int_small [of "a + b"] assms by (simp add: f64_of_int_def)

lemma f_div_unit:
  assumes "0 \<le> a" "a \<le> b" "0 < b"
  shows "f_div (Fin (of_int a)) (Fin (of_int b)) = Fin (rnd (of_int a / of_int b))"
proof -
  have "(0 :: rat) \<le> of_int a / of_int b" "of_int a / of_int b \<le> (1 :: rat)"
    using assms by (simp_all add: divide_le_eq)
  moreover from this(2) have "of_int a / of_int b \<le> (2 ^ 53 :: rat)"
    by (rule order_trans) simp
  ultimately show ?thesis using assms to_f64_small [of "of_int a / of_int b"] by simp
qed

subsection \<open>Multiplication, ceiling and the cast to an integer\<close>

fun f_mul :: "f64 \<Rightarrow> f64 \<Rightarrow> f64" where
  "f_mul (Fin a) (Fin b) = to_f64 (a * b)"
| "f_mul NaN _ = NaN"
| "f_mul _ NaN = NaN"
| "f_mul PosInf (Fin b) = (if b = 0 then NaN else if b < 0 then NegInf else PosInf)"
| "f_mul NegInf (Fin b) = (if b = 0 then NaN else if b < 0 then PosInf else NegInf)"
| "f_mul (Fin a) PosInf = (if a = 0 then NaN else if a < 0 then NegInf else PosInf)"
| "f_mul (Fin a) NegInf = (if a = 0 then NaN else if a < 0 then PosInf else NegInf)"
| "f_mul PosInf PosInf = PosInf"
| "f_mul PosInf NegInf = NegInf"
| "f_mul NegInf PosInf = NegInf"
| "f_mul NegInf NegInf = PosInf"

text \<open>\<^verbatim>\<open>f64::ceil\<close> is exact; \<^verbatim>\<open>as i64\<close> truncates towards zero and saturates, a
  NaN giving zero.\<close>

fun f_ceil :: "f64 \<Rightarrow> f64" where
  "f_ceil (Fin a) = Fin (of_int \<lceil>a\<rceil>)"
| "f_ceil x = x"

fun f_to_i64 :: "f64 \<Rightarrow> int" where
  "f_to_i64 NaN = 0"
| "f_to_i64 PosInf = 2 ^ 63 - 1"
| "f_to_i64 NegInf = - (2 ^ 63)"
| "f_to_i64 (Fin a) =
     max (- (2 ^ 63)) (min (2 ^ 63 - 1) (if a < 0 then \<lceil>a\<rceil> else \<lfloor>a\<rfloor>))"

end
