(* ===== verification/Routing.thy ===== *)
theory Routing
  imports F64
begin

text \<open>
  \<^verbatim>\<open>backends/crates/sms-routing/src/types.rs\<close> and \<^verbatim>\<open>engine.rs\<close>: the pure
  route selection. Every input route is evaluated, the eligible routes of the highest priority form
  the band, and a band of several routes is decided by a weighted draw in floating point. A panic of
  the code (an \<^verbatim>\<open>expect\<close> that fails) is the value \<open>None\<close>.
\<close>

subsection \<open>types.rs\<close>

datatype operator_code = Mtn | Orange | Camtel | Nexttel | UnknownOperator

datatype message_class = Otp | Transactional | Notification | Marketing

record route_row =
  rt_id :: ustring
  rt_name :: ustring
  rt_priority :: int
  rt_weight :: int
  rt_enabled :: bool
  match_operator :: "operator_code option"
  match_class :: "message_class option"
  match_app_id :: "ustring option"
  match_prefix :: "ustring option"
  rt_provider_id :: ustring
  rt_failover_route_id :: "ustring option"

record provider_row =
  pr_id :: ustring
  pr_available :: bool
  pr_reason :: "ustring option"

record routing_candidate =
  rc_operator :: operator_code
  rc_class :: message_class
  rc_app_id :: ustring
  rc_msisdn_national :: ustring

datatype predicate_failure =
  OperatorFailure operator_code operator_code
| ClassFailure message_class message_class
| AppIdFailure ustring ustring
| PrefixFailure ustring ustring

datatype route_outcome =
  Excluded
| Disabled
| PredicateFailed predicate_failure
| ProviderUnavailable ustring
| Eligible (winning_band: bool)

record route_evaluation =
  ev_route_id :: ustring
  ev_route_name :: ustring
  ev_priority :: int
  ev_weight :: int
  ev_provider_id :: ustring
  ev_outcome :: route_outcome

record tie_break_range =
  tr_route_id :: ustring
  tr_weight :: int
  tr_low :: f64
  tr_high :: f64

record tie_break =
  tb_priority :: int
  tb_draw :: f64
  tb_ranges :: "tie_break_range list"
  tb_winner_route_id :: ustring

record route_winner =
  wn_route_id :: ustring
  wn_provider_id :: ustring
  wn_failover_route_id :: "ustring option"

record decision =
  evaluations :: "route_evaluation list"
  dc_tie_break :: "tie_break option"
  winner :: "route_winner option"

subsection \<open>engine.rs\<close>

definition or_else :: "'a option \<Rightarrow> 'a option \<Rightarrow> 'a option" where
  "or_else x y = (case x of Some a \<Rightarrow> Some a | None \<Rightarrow> y)"

definition failing_predicate :: "route_row \<Rightarrow> routing_candidate \<Rightarrow> predicate_failure option" where
  "failing_predicate r c =
     or_else
       (case match_operator r of
          Some x \<Rightarrow> if x \<noteq> rc_operator c then Some (OperatorFailure x (rc_operator c)) else None
        | None \<Rightarrow> None)
     (or_else
       (case match_class r of
          Some x \<Rightarrow> if x \<noteq> rc_class c then Some (ClassFailure x (rc_class c)) else None
        | None \<Rightarrow> None)
     (or_else
       (case match_app_id r of
          Some x \<Rightarrow> if x \<noteq> rc_app_id c then Some (AppIdFailure x (rc_app_id c)) else None
        | None \<Rightarrow> None)
       (case match_prefix r of
          Some x \<Rightarrow> if \<not> prefix x (rc_msisdn_national c)
                    then Some (PrefixFailure x (rc_msisdn_national c)) else None
        | None \<Rightarrow> None)))"

definition evaluate_one ::
    "route_row \<Rightarrow> (ustring \<rightharpoonup> provider_row) \<Rightarrow> routing_candidate \<Rightarrow> ustring set \<Rightarrow> route_evaluation" where
  "evaluate_one r providers c exclude =
     (let outcome =
        (if rt_id r \<in> exclude then Excluded
         else if \<not> rt_enabled r then Disabled
         else case failing_predicate r c of
           Some failure \<Rightarrow> PredicateFailed failure
         | None \<Rightarrow>
             (case providers (rt_provider_id r) of
                Some p \<Rightarrow>
                  if pr_available p then Eligible False
                  else ProviderUnavailable
                    (case pr_reason p of Some x \<Rightarrow> x | None \<Rightarrow> lit ''provider unavailable'')
              | None \<Rightarrow> ProviderUnavailable (lit ''no provider record for '' @ rt_provider_id r)))
      in \<lparr>ev_route_id = rt_id r, ev_route_name = rt_name r, ev_priority = rt_priority r,
          ev_weight = rt_weight r, ev_provider_id = rt_provider_id r, ev_outcome = outcome\<rparr>)"

text \<open>The loop over the band: \<open>acc\<close> is the share handed out so far and \<open>win\<close> the first
  member whose range the draw falls below.\<close>

fun pick_loop ::
    "bool \<Rightarrow> f64 \<Rightarrow> f64 \<Rightarrow> f64 \<Rightarrow> ustring option \<Rightarrow> tie_break_range list \<Rightarrow> route_row list
      \<Rightarrow> ustring option \<times> tie_break_range list" where
  "pick_loop uniform denom draw acc win ranges [] = (win, ranges)"
| "pick_loop uniform denom draw acc win ranges (r # rs) =
     (let share = (if uniform then Fin 1 else f64_of_int (max (rt_weight r) 0));
          low = f_div acc denom;
          acc' = f_add acc share;
          high = f_div acc' denom;
          win' = (if win = None \<and> f_lt draw high then Some (rt_id r) else win)
      in pick_loop uniform denom draw acc' win'
           (ranges @ [\<lparr>tr_route_id = rt_id r, tr_weight = rt_weight r, tr_low = low, tr_high = high\<rparr>]) rs)"

definition pick_weighted :: "route_row list \<Rightarrow> int \<Rightarrow> f64 \<Rightarrow> (ustring \<times> tie_break) option" where
  "pick_weighted band prio draw =
     (let total_weight = wrap_i64 (sum_list (map (\<lambda>r. max (rt_weight r) 0) band));
          uniform = (total_weight = 0);
          denom = (if uniform then f64_of_int (int (length band)) else f64_of_int total_weight)
      in case pick_loop uniform denom draw (Fin 0) None [] band of (win, ranges) \<Rightarrow>
         (case (case win of Some w \<Rightarrow> Some w | None \<Rightarrow> if band = [] then None else Some (rt_id (last band))) of
            None \<Rightarrow> None
          | Some w \<Rightarrow> Some (w, \<lparr>tb_priority = prio, tb_draw = draw, tb_ranges = ranges,
                               tb_winner_route_id = w\<rparr>)))"

definition DRAW_MAX :: f64 where
  "DRAW_MAX = to_f64 (9999999999 / 10000000000)"

fun max_opt :: "int list \<Rightarrow> int option" where
  "max_opt [] = None"
| "max_opt (x # xs) = (case max_opt xs of None \<Rightarrow> Some x | Some y \<Rightarrow> Some (max x y))"

definition route_won :: "route_evaluation list \<Rightarrow> tie_break option \<Rightarrow> route_row \<Rightarrow> decision" where
  "route_won evals tb r =
     \<lparr>evaluations = evals, dc_tie_break = tb,
      winner = Some \<lparr>wn_route_id = rt_id r, wn_provider_id = rt_provider_id r,
                     wn_failover_route_id = rt_failover_route_id r\<rparr>\<rparr>"

definition select_route ::
    "route_row list \<Rightarrow> (ustring \<rightharpoonup> provider_row) \<Rightarrow> routing_candidate \<Rightarrow> ustring set \<Rightarrow> f64
      \<Rightarrow> decision option" where
  "select_route routes providers c exclude draw0 =
     (let draw = f_clamp draw0 (Fin 0) DRAW_MAX;
          evals = map (\<lambda>r. evaluate_one r providers c exclude) routes
      in case max_opt (map (\<lambda>(_, r). rt_priority r)
                (filter (\<lambda>(e, _). is_Eligible (ev_outcome e)) (zip evals routes))) of
        None \<Rightarrow> Some \<lparr>evaluations = evals, dc_tie_break = None, winner = None\<rparr>
      | Some prio \<Rightarrow>
          (let in_band = (\<lambda>(e, r). rt_priority r = prio \<and> is_Eligible (ev_outcome e));
               evals' = map (\<lambda>(e, r). if in_band (e, r) then e\<lparr>ev_outcome := Eligible True\<rparr> else e)
                          (zip evals routes);
               band = map snd (filter in_band (zip evals routes))
           in if length band = 1 then Some (route_won evals' None (hd band))
              else (case pick_weighted band prio draw of
                      None \<Rightarrow> None
                    | Some (winner_id, tb) \<Rightarrow>
                        (case find (\<lambda>r. rt_id r = winner_id) band of
                           None \<Rightarrow> None
                         | Some r \<Rightarrow> Some (route_won evals' (Some tb) r)))))"

subsection \<open>Eligibility\<close>

definition predicates_match :: "route_row \<Rightarrow> routing_candidate \<Rightarrow> bool" where
  "predicates_match r c \<longleftrightarrow>
     (\<forall>x. match_operator r = Some x \<longrightarrow> x = rc_operator c) \<and>
     (\<forall>x. match_class r = Some x \<longrightarrow> x = rc_class c) \<and>
     (\<forall>x. match_app_id r = Some x \<longrightarrow> x = rc_app_id c) \<and>
     (\<forall>x. match_prefix r = Some x \<longrightarrow> prefix x (rc_msisdn_national c))"

definition eligible ::
    "(ustring \<rightharpoonup> provider_row) \<Rightarrow> routing_candidate \<Rightarrow> ustring set \<Rightarrow> route_row \<Rightarrow> bool" where
  "eligible providers c exclude r \<longleftrightarrow> rt_id r \<notin> exclude \<and> rt_enabled r \<and> predicates_match r c
     \<and> (\<exists>p. providers (rt_provider_id r) = Some p \<and> pr_available p)"

lemma failing_predicate_None: "failing_predicate r c = None \<longleftrightarrow> predicates_match r c"
  by (auto simp: failing_predicate_def predicates_match_def or_else_def split: option.splits)

lemma evaluate_one_eligible:
  "is_Eligible (ev_outcome (evaluate_one r providers c exclude)) \<longleftrightarrow> eligible providers c exclude r"
  using failing_predicate_None [of r c]
  by (auto simp: evaluate_one_def eligible_def Let_def split: option.splits)

lemma evaluate_one_not_marked: "ev_outcome (evaluate_one r providers c exclude) \<noteq> Eligible True"
  by (auto simp: evaluate_one_def Let_def split: option.splits)

lemma evaluate_one_fields [simp]:
  "ev_route_id (evaluate_one r providers c exclude) = rt_id r"
  "ev_priority (evaluate_one r providers c exclude) = rt_priority r"
  by (simp_all add: evaluate_one_def Let_def)

lemma max_opt_None [simp]: "max_opt xs = None \<longleftrightarrow> xs = []"
  by (cases xs) (auto split: option.splits)

lemma max_opt_Some: "max_opt xs = Some m \<Longrightarrow> m \<in> set xs \<and> (\<forall>x \<in> set xs. x \<le> m)"
proof (induction xs arbitrary: m)
  case (Cons x xs)
  then show ?case
    by (cases "max_opt xs") (auto simp: max_def split: if_splits)
qed simp

text \<open>The zipped lists of the code are the routes paired with their evaluations.\<close>

lemma filter_zip_map:
  "filter P (zip (map f xs) xs) = map (\<lambda>x. (f x, x)) (filter (\<lambda>x. P (f x, x)) xs)"
  by (induction xs) auto

lemma map_zip_map: "map g (zip (map f xs) xs) = map (\<lambda>x. g (f x, x)) xs"
  by (induction xs) auto

definition band_of ::
    "(ustring \<rightharpoonup> provider_row) \<Rightarrow> routing_candidate \<Rightarrow> ustring set \<Rightarrow> int \<Rightarrow> route_row list \<Rightarrow> route_row list" where
  "band_of providers c exclude prio routes =
     filter (\<lambda>r. rt_priority r = prio \<and> eligible providers c exclude r) routes"

definition marked ::
    "(ustring \<rightharpoonup> provider_row) \<Rightarrow> routing_candidate \<Rightarrow> ustring set \<Rightarrow> int \<Rightarrow> route_row list \<Rightarrow> route_evaluation list" where
  "marked providers c exclude prio routes =
     map (\<lambda>r. if rt_priority r = prio \<and> eligible providers c exclude r
              then (evaluate_one r providers c exclude)\<lparr>ev_outcome := Eligible True\<rparr>
              else evaluate_one r providers c exclude) routes"

lemma select_route_unfold:
  "select_route routes providers c exclude draw =
     (case max_opt (map rt_priority (filter (eligible providers c exclude) routes)) of
        None \<Rightarrow> Some \<lparr>evaluations = map (\<lambda>r. evaluate_one r providers c exclude) routes,
                      dc_tie_break = None, winner = None\<rparr>
      | Some prio \<Rightarrow>
          (let band = band_of providers c exclude prio routes;
               evals = marked providers c exclude prio routes
           in if length band = 1 then Some (route_won evals None (hd band))
              else (case pick_weighted band prio (f_clamp draw (Fin 0) DRAW_MAX) of
                      None \<Rightarrow> None
                    | Some (winner_id, tb) \<Rightarrow>
                        (case find (\<lambda>r. rt_id r = winner_id) band of
                           None \<Rightarrow> None
                         | Some r \<Rightarrow> Some (route_won evals (Some tb) r)))))"
proof (cases "max_opt (map rt_priority (filter (eligible providers c exclude) routes))")
  case None
  then show ?thesis
    by (simp add: select_route_def filter_zip_map comp_def evaluate_one_eligible)
next
  case (Some prio)
  then show ?thesis
    by (simp add: select_route_def filter_zip_map map_zip_map comp_def evaluate_one_eligible
        band_of_def marked_def Let_def cong: option.case_cong)
qed

subsection \<open>The draw always names a member of the band\<close>

lemma pick_loop_win:
  "fst (pick_loop u denom draw acc win ranges rs) = Some w \<Longrightarrow> win = Some w \<or> w \<in> rt_id ` set rs"
proof (induction rs arbitrary: acc win ranges)
  case (Cons r rs)
  from Cons.prems obtain acc' win' ranges' where
    win': "fst (pick_loop u denom draw acc' win' ranges' rs) = Some w" "win' = Some (rt_id r) \<or> win' = win"
    by (auto simp: Let_def split: if_splits)
  from Cons.IH [OF win'(1)] win'(2) show ?case by auto
qed simp

lemma pick_weighted_unfold:
  assumes "band \<noteq> []"
  shows "\<exists>win ranges w. pick_weighted band prio draw = Some (w, \<lparr>tb_priority = prio, tb_draw = draw,
      tb_ranges = ranges, tb_winner_route_id = w\<rparr>)
    \<and> w = (case win of Some w \<Rightarrow> w | None \<Rightarrow> rt_id (last band))
    \<and> (\<exists>u denom. pick_loop u denom draw (Fin 0) None [] band = (win, ranges))"
proof -
  define tw where "tw = wrap_i64 (sum_list (map (\<lambda>r. max (rt_weight r) 0) band))"
  define d where "d = (if tw = 0 then f64_of_int (int (length band)) else f64_of_int tw)"
  obtain win ranges where loop: "pick_loop (tw = 0) d draw (Fin 0) None [] band = (win, ranges)"
    by fastforce
  have "pick_weighted band prio draw =
      (case (case win of Some w \<Rightarrow> Some w | None \<Rightarrow> if band = [] then None else Some (rt_id (last band))) of
            None \<Rightarrow> None
          | Some w \<Rightarrow> Some (w, \<lparr>tb_priority = prio, tb_draw = draw, tb_ranges = ranges,
                               tb_winner_route_id = w\<rparr>))"
    by (simp only: pick_weighted_def Let_def tw_def [symmetric] d_def [symmetric] loop prod.case)
  then show ?thesis
    using loop assms by (cases win) (fastforce intro!: exI [of _ win] exI [of _ ranges])+
qed

lemma pick_weighted_member:
  assumes "band \<noteq> []"
  shows "\<exists>w tb r. pick_weighted band prio draw = Some (w, tb) \<and> tb_winner_route_id tb = w
    \<and> find (\<lambda>r. rt_id r = w) band = Some r \<and> r \<in> set band \<and> rt_id r = w"
proof -
  from pick_weighted_unfold [OF assms, of prio draw] obtain win ranges w u denom where
    pick: "pick_weighted band prio draw = Some (w, \<lparr>tb_priority = prio, tb_draw = draw,
      tb_ranges = ranges, tb_winner_route_id = w\<rparr>)"
    and w: "w = (case win of Some w \<Rightarrow> w | None \<Rightarrow> rt_id (last band))"
    and loop: "pick_loop u denom draw (Fin 0) None [] band = (win, ranges)"
    by blast
  have "w \<in> rt_id ` set band"
    using pick_loop_win [of u denom draw "Fin 0" None "[]" band w] loop w assms by (cases win) simp_all
  then have "find (\<lambda>r. rt_id r = w) band \<noteq> None" by (auto simp: find_None_iff)
  then obtain r where "find (\<lambda>r. rt_id r = w) band = Some r" by auto
  then show ?thesis using pick find_in_set [of "\<lambda>r. rt_id r = w" band r] by auto
qed

lemma select_route_cases:
  "(\<exists>d. select_route routes providers c exclude draw = Some d) \<and>
   (\<forall>d. select_route routes providers c exclude draw = Some d \<longrightarrow>
     (winner d = None \<and> filter (eligible providers c exclude) routes = []
        \<and> evaluations d = map (\<lambda>r. evaluate_one r providers c exclude) routes)
     \<or> (\<exists>prio r. max_opt (map rt_priority (filter (eligible providers c exclude) routes)) = Some prio
          \<and> r \<in> set (band_of providers c exclude prio routes)
          \<and> evaluations d = marked providers c exclude prio routes
          \<and> winner d = Some \<lparr>wn_route_id = rt_id r, wn_provider_id = rt_provider_id r,
                             wn_failover_route_id = rt_failover_route_id r\<rparr>))"
proof (cases "max_opt (map rt_priority (filter (eligible providers c exclude) routes))")
  case None
  then show ?thesis by (simp add: select_route_unfold)
next
  case (Some prio)
  let ?band = "band_of providers c exclude prio routes"
  have "?band \<noteq> []"
    using max_opt_Some [OF Some] by (auto simp: band_of_def filter_empty_conv)
  from pick_weighted_member [OF this, of prio "f_clamp draw (Fin 0) DRAW_MAX"] obtain w tb r where
    pick: "pick_weighted ?band prio (f_clamp draw (Fin 0) DRAW_MAX) = Some (w, tb)"
      "find (\<lambda>r. rt_id r = w) ?band = Some r" "r \<in> set ?band"
    by blast
  have hd: "hd ?band \<in> set ?band" using \<open>?band \<noteq> []\<close> by simp
  show ?thesis
  proof (cases "length ?band = 1")
    case True
    then have "select_route routes providers c exclude draw
        = Some (route_won (marked providers c exclude prio routes) None (hd ?band))"
      using Some by (simp add: select_route_unfold Let_def)
    then show ?thesis using Some hd by (auto simp: route_won_def)
  next
    case False
    then have "select_route routes providers c exclude draw
        = Some (route_won (marked providers c exclude prio routes) (Some tb) r)"
      using Some pick by (simp add: select_route_unfold Let_def)
    then show ?thesis using Some pick(3) by (auto simp: route_won_def)
  qed
qed

subsection \<open>The ranges of a weighted draw\<close>

text \<open>In exact arithmetic the member after shares \<open>a\<close> of \<open>d\<close> owns the interval from
  \<open>a / d\<close> on; the code's bounds are these quotients, rounded once.\<close>

fun exact_ranges :: "(route_row \<Rightarrow> int) \<Rightarrow> int \<Rightarrow> int \<Rightarrow> route_row list \<Rightarrow> tie_break_range list" where
  "exact_ranges sh d a [] = []"
| "exact_ranges sh d a (r # rs) =
     \<lparr>tr_route_id = rt_id r, tr_weight = rt_weight r, tr_low = Fin (rnd (of_int a / of_int d)),
      tr_high = Fin (rnd (of_int (a + sh r) / of_int d))\<rparr> # exact_ranges sh d (a + sh r) rs"

lemma length_exact_ranges [simp]: "length (exact_ranges sh d a rs) = length rs"
  by (induction rs arbitrary: a) auto

lemma pick_loop_exact:
  assumes "0 < d" "d \<le> 2 ^ 53" "0 \<le> a" "\<forall>r \<in> set rs. 0 \<le> sh r" "a + sum_list (map sh rs) \<le> d"
    and "\<forall>r \<in> set rs. (if u then Fin 1 else f64_of_int (max (rt_weight r) 0)) = Fin (of_int (sh r))"
  shows "pick_loop u (Fin (of_int d)) draw (Fin (of_int a)) win ranges rs =
    ((case win of Some w \<Rightarrow> Some w
      | None \<Rightarrow> map_option tr_route_id (find (\<lambda>t. f_lt draw (tr_high t)) (exact_ranges sh d a rs))),
     ranges @ exact_ranges sh d a rs)"
  using assms(3-6)
proof (induction rs arbitrary: a win ranges)
  case Nil
  then show ?case by (cases win) auto
next
  case (Cons r rs)
  have sum: "0 \<le> sum_list (map sh rs)" using Cons.prems(2) by (intro sum_list_nonneg) auto
  have sh: "0 \<le> sh r" "a + sh r \<le> d" using Cons.prems(2,3) sum by simp_all
  have add: "f_add (Fin (of_int a)) (Fin (of_int (sh r))) = Fin (of_int (a + sh r))"
    using f_add_small [of a "sh r"] Cons.prems(1) sh assms(2) by linarith
  have low: "f_div (Fin (of_int a)) (Fin (of_int d)) = Fin (rnd (of_int a / of_int d))"
    using f_div_unit [of a d] Cons.prems(1) sh assms(1) by linarith
  have high: "f_div (Fin (of_int (a + sh r))) (Fin (of_int d)) = Fin (rnd (of_int (a + sh r) / of_int d))"
    using f_div_unit [of "a + sh r" d] Cons.prems(1) sh assms(1) by linarith
  have share: "(if u then Fin 1 else f64_of_int (max (rt_weight r) 0)) = Fin (of_int (sh r))"
    using Cons.prems(4) by (auto simp del: of_int_add)
  show ?case
    unfolding pick_loop.simps Let_def share add low high
    using Cons.prems Cons.IH [of "a + sh r"] sh by (auto simp del: of_int_add f_lt.simps split: option.split)
qed

lemma exact_ranges_first: "rs \<noteq> [] \<Longrightarrow> tr_low (exact_ranges sh d a rs ! 0) = Fin (rnd (of_int a / of_int d))"
  by (cases rs) auto

lemma exact_ranges_chain:
  "Suc j < length rs \<Longrightarrow> tr_high (exact_ranges sh d a rs ! j) = tr_low (exact_ranges sh d a rs ! Suc j)"
proof (induction rs arbitrary: a j)
  case (Cons r rs)
  show ?case
  proof (cases j)
    case 0
    with Cons.prems have "rs \<noteq> []" by auto
    from exact_ranges_first [OF this, of sh d "a + sh r"] 0 show ?thesis by simp
  next
    case (Suc i)
    with Cons.prems have "Suc i < length rs" by simp
    from Cons.IH [OF this, of "a + sh r"] Suc show ?thesis by simp
  qed
qed simp

lemma exact_ranges_last:
  "rs \<noteq> [] \<Longrightarrow> tr_high (last (exact_ranges sh d a rs)) = Fin (rnd (of_int (a + sum_list (map sh rs)) / of_int d))"
proof (induction rs arbitrary: a)
  case (Cons r rs)
  show ?case
  proof (cases "rs = []")
    case False
    then have "exact_ranges sh d (a + sh r) rs \<noteq> []"
      by (metis length_exact_ranges length_0_conv)
    with Cons.IH [OF False, of "a + sh r"] show ?thesis by (simp add: add.assoc del: of_int_add)
  qed simp
qed simp

lemma exact_ranges_nth:
  "j < length rs \<Longrightarrow> tr_route_id (exact_ranges sh d a rs ! j) = rt_id (rs ! j)
    \<and> (sh (rs ! j) = 0 \<longrightarrow> tr_high (exact_ranges sh d a rs ! j) = tr_low (exact_ranges sh d a rs ! j))"
proof (induction rs arbitrary: a j)
  case (Cons r rs)
  then show ?case by (cases j) auto
qed simp

lemma exact_ranges_high:
  "j < length rs \<Longrightarrow> tr_high (exact_ranges sh d a rs ! j) =
     Fin (rnd (of_int (a + sum_list (map sh (take (Suc j) rs))) / of_int d))"
proof (induction rs arbitrary: a j)
  case (Cons r rs)
  show ?case
  proof (cases j)
    case (Suc i)
    with Cons.prems Cons.IH [of i "a + sh r"] show ?thesis by (simp add: add.assoc del: of_int_add)
  qed simp
qed simp

definition share_of :: "route_row list \<Rightarrow> route_row \<Rightarrow> int" where
  "share_of band r = (if \<forall>x \<in> set band. rt_weight x \<le> 0 then 1 else max (rt_weight r) 0)"

lemma share_of_nonneg [simp]: "0 \<le> share_of band r"
  by (simp add: share_of_def)

lemma sum_weights_zero:
  "sum_list (map (\<lambda>r. max (rt_weight r) 0) band) = 0 \<longleftrightarrow> (\<forall>x \<in> set band. rt_weight x \<le> 0)"
  by (subst sum_list_nonneg_eq_0_iff) (fastforce)+

lemma sum_weights_nonneg: "0 \<le> sum_list (map (\<lambda>r. max (rt_weight r) 0) band)"
  by (rule sum_list_nonneg) auto

lemma member_le_sum: "r \<in> set band \<Longrightarrow> max (rt_weight r) 0 \<le> sum_list (map (\<lambda>r. max (rt_weight r) 0) band)"
proof (induction band)
  case (Cons x xs)
  then show ?case using sum_weights_nonneg [of xs] by force
qed simp

lemma pick_weighted_exact:
  assumes "band \<noteq> []" "sum_list (map (\<lambda>r. max (rt_weight r) 0) band) \<le> 2 ^ 53" "length band \<le> 2 ^ 53"
  defines "sh \<equiv> share_of band"
  defines "rs \<equiv> exact_ranges sh (sum_list (map sh band)) 0 band"
  shows "0 < sum_list (map sh band) \<and> pick_weighted band prio draw =
    (let w = (case find (\<lambda>t. f_lt draw (tr_high t)) rs of Some t \<Rightarrow> tr_route_id t
              | None \<Rightarrow> rt_id (last band))
     in Some (w, \<lparr>tb_priority = prio, tb_draw = draw, tb_ranges = rs, tb_winner_route_id = w\<rparr>))"
proof -
  define tw where "tw = sum_list (map (\<lambda>r. max (rt_weight r) 0) band)"
  define d where "d = sum_list (map sh band)"
  have wrap: "wrap_i64 tw = tw"
    using assms(2) sum_weights_nonneg [of band] by (intro wrap_i64_id) (simp_all add: tw_def)
  have uni: "tw = 0 \<longleftrightarrow> (\<forall>x \<in> set band. rt_weight x \<le> 0)"
    by (simp add: tw_def sum_weights_zero)
  have shd: "sh = (if tw = 0 then (\<lambda>r. 1) else (\<lambda>r. max (rt_weight r) 0))"
    unfolding sh_def share_of_def uni by (rule ext) simp
  have d: "d = (if tw = 0 then int (length band) else tw)"
    by (simp add: d_def shd tw_def sum_list_triv)
  have pos: "0 < d" "d \<le> 2 ^ 53"
    using assms(1-3) sum_weights_nonneg [of band] unfolding d tw_def by auto
  have denom: "(if tw = 0 then f64_of_int (int (length band)) else f64_of_int tw) = Fin (of_int d)"
    using f64_of_int_small [of d] pos unfolding d by (cases "tw = 0") (simp_all only: if_True if_False simp_thms)
  have share: "\<forall>r \<in> set band. (if tw = 0 then Fin 1 else f64_of_int (max (rt_weight r) 0)) = Fin (of_int (sh r))"
  proof
    fix r
    assume "r \<in> set band"
    then have "max (rt_weight r) 0 \<le> 2 ^ 53" using member_le_sum [of r band] assms(2) by linarith
    then show "(if tw = 0 then Fin 1 else f64_of_int (max (rt_weight r) 0)) = Fin (of_int (sh r))"
      using f64_of_int_small [of "max (rt_weight r) 0"] by (simp add: shd)
  qed
  have "\<forall>r \<in> set band. 0 \<le> sh r" by (simp add: sh_def)
  from pick_loop_exact [OF pos _ this _ share, of 0 draw None "[]"]
  have loop: "pick_loop (tw = 0) (Fin (of_int d)) draw (Fin 0) None [] band =
      (map_option tr_route_id (find (\<lambda>t. f_lt draw (tr_high t)) rs), rs)"
    by (simp add: d_def rs_def)
  show ?thesis
    using pos(1) assms(1) unfolding d_def [symmetric]
    by (simp add: pick_weighted_def tw_def [symmetric] wrap denom loop Let_def split: option.split)
qed

text \<open>The clamp leaves a draw in the half-open unit interval, unless it is not a number.\<close>

lemma clamp_unit:
  assumes "draw \<noteq> NaN"
  shows "\<exists>q. f_clamp draw (Fin 0) DRAW_MAX = Fin q \<and> 0 \<le> q \<and> q < 1"
proof -
  have "rnd (9999999999 / 10000000000) < 1" "0 \<le> rnd (9999999999 / 10000000000)"
    by (rule rnd_less_1; simp) (rule rnd_nonneg; simp)
  moreover have "DRAW_MAX = Fin (rnd (9999999999 / 10000000000))"
    unfolding DRAW_MAX_def by (rule to_f64_small) simp_all
  ultimately obtain m where m: "DRAW_MAX = Fin m" "0 \<le> m" "m < 1" by blast
  show ?thesis using assms m(2,3) by (cases draw) (auto simp: f_clamp_def Let_def m(1))
qed

text \<open>The member the draw selects.\<close>

lemma exact_ranges_hit:
  assumes "band \<noteq> []" "0 \<le> q" "q < 1" "\<forall>r \<in> set band. 0 \<le> sh r" "d = sum_list (map sh band)" "0 < d"
  shows "\<exists>j < length band. find (\<lambda>t. f_lt (Fin q) (tr_high t)) (exact_ranges sh d 0 band)
      = Some (exact_ranges sh d 0 band ! j)
    \<and> \<not> f_lt (Fin q) (tr_low (exact_ranges sh d 0 band ! j))
    \<and> f_lt (Fin q) (tr_high (exact_ranges sh d 0 band ! j)) \<and> 0 < sh (band ! j)"
proof -
  let ?rs = "exact_ranges sh d 0 band"
  have ne: "?rs \<noteq> []" using assms(1) by (metis length_exact_ranges length_0_conv)
  have "tr_high (last ?rs) = Fin 1"
    using exact_ranges_last [OF assms(1), of sh d 0] assms(5,6) by simp
  then have "find (\<lambda>t. f_lt (Fin q) (tr_high t)) ?rs \<noteq> None"
    using last_in_set [OF ne] assms(3) by (auto simp: find_None_iff)
  then obtain j where j: "j < length band" "f_lt (Fin q) (tr_high (?rs ! j))"
    "find (\<lambda>t. f_lt (Fin q) (tr_high t)) ?rs = Some (?rs ! j)"
    and before: "\<forall>i < j. \<not> f_lt (Fin q) (tr_high (?rs ! i))"
    by (auto simp: find_Some_iff)
  have low: "\<not> f_lt (Fin q) (tr_low (?rs ! j))"
  proof (cases j)
    case 0
    then show ?thesis using exact_ranges_first [OF assms(1), of sh d 0] assms(2) by simp
  next
    case (Suc i)
    then show ?thesis using exact_ranges_chain [of i band sh d 0] before j(1) by (metis lessI)
  qed
  have "sh (band ! j) \<noteq> 0"
    using exact_ranges_nth [OF j(1), of sh d 0] low j(2) by auto
  then have "0 < sh (band ! j)" using assms(4) nth_mem [OF j(1)] by fastforce
  with j low show ?thesis by auto
qed

subsection \<open>Properties\<close>

text \<open>C23: Route selection never panics: whatever the routes, the provider table, the exclusions and
  the draw (not-a-number included), \<^verbatim>\<open>select_route\<close> returns a decision.\<close>

theorem select_route_total: "\<exists>d. select_route routes providers c exclude draw = Some d"
  using select_route_cases [of routes providers c exclude draw] by blast

text \<open>C21: The winner is one of the given routes, is not excluded, is enabled, matches the candidate on
  every predicate and has an available provider, no eligible route has a higher priority, and the
  decision names its provider and its failover route.\<close>

theorem winner_is_best:
  assumes "select_route routes providers c exclude draw = Some d" "winner d = Some w"
  shows "\<exists>r \<in> set routes. wn_route_id w = rt_id r \<and> wn_provider_id w = rt_provider_id r
    \<and> wn_failover_route_id w = rt_failover_route_id r \<and> rt_id r \<notin> exclude
    \<and> eligible providers c exclude r
    \<and> (\<forall>r' \<in> set routes. eligible providers c exclude r' \<longrightarrow> rt_priority r' \<le> rt_priority r)"
proof -
  from select_route_cases [of routes providers c exclude draw] assms obtain prio r where
    prio: "max_opt (map rt_priority (filter (eligible providers c exclude) routes)) = Some prio"
    and r: "r \<in> set (band_of providers c exclude prio routes)"
    and w: "w = \<lparr>wn_route_id = rt_id r, wn_provider_id = rt_provider_id r,
                  wn_failover_route_id = rt_failover_route_id r\<rparr>"
    by auto
  from r have "r \<in> set routes" "rt_priority r = prio" "eligible providers c exclude r"
    by (auto simp: band_of_def)
  then show ?thesis using max_opt_Some [OF prio] w by (auto simp: eligible_def)
qed

text \<open>There is a winner exactly when some route is eligible; and every route is explained, in the
  order given, the outcome of a route being ``eligible, in the winning band'' exactly for the eligible
  routes that no eligible route outranks.\<close>

theorem decision_explains:
  assumes "select_route routes providers c exclude draw = Some d"
  shows "(winner d = None \<longleftrightarrow> (\<forall>r \<in> set routes. \<not> eligible providers c exclude r))
    \<and> map ev_route_id (evaluations d) = map rt_id routes
    \<and> (\<forall>j < length routes. ev_outcome (evaluations d ! j) = Eligible True \<longleftrightarrow>
         eligible providers c exclude (routes ! j) \<and>
         (\<forall>r \<in> set routes. eligible providers c exclude r \<longrightarrow> rt_priority r \<le> rt_priority (routes ! j)))"
  using select_route_cases [of routes providers c exclude draw] assms
proof (elim conjE allE impE disjE exE)
  assume none: "winner d = None" "filter (eligible providers c exclude) routes = []"
    and ev: "evaluations d = map (\<lambda>r. evaluate_one r providers c exclude) routes"
  have "\<not> eligible providers c exclude r" if "r \<in> set routes" for r
    using none(2) that by (simp add: filter_empty_conv)
  moreover have "ev_outcome (evaluate_one (routes ! j) providers c exclude) \<noteq> Eligible True"
    if "j < length routes" for j
    using calculation [of "routes ! j"] that evaluate_one_eligible [of "routes ! j" providers c exclude]
    by auto
  ultimately show ?thesis using none ev by (simp add: comp_def)
next
  fix prio r
  assume prio: "max_opt (map rt_priority (filter (eligible providers c exclude) routes)) = Some prio"
    and r: "r \<in> set (band_of providers c exclude prio routes)"
    and ev: "evaluations d = marked providers c exclude prio routes"
    and w: "winner d = Some \<lparr>wn_route_id = rt_id r, wn_provider_id = rt_provider_id r,
                             wn_failover_route_id = rt_failover_route_id r\<rparr>"
  from r have re: "r \<in> set routes" "rt_priority r = prio" "eligible providers c exclude r"
    by (auto simp: band_of_def)
  have top: "\<forall>r' \<in> set routes. eligible providers c exclude r' \<longrightarrow> rt_priority r' \<le> prio"
    using max_opt_Some [OF prio] by auto
  have "ev_outcome (evaluations d ! j) = Eligible True \<longleftrightarrow>
         eligible providers c exclude (routes ! j) \<and>
         (\<forall>r \<in> set routes. eligible providers c exclude r \<longrightarrow> rt_priority r \<le> rt_priority (routes ! j))"
    if j: "j < length routes" for j
  proof -
    have "ev_outcome (evaluations d ! j) = Eligible True \<longleftrightarrow>
        rt_priority (routes ! j) = prio \<and> eligible providers c exclude (routes ! j)"
      using j evaluate_one_not_marked [of "routes ! j" providers c exclude]
      by (simp add: ev marked_def)
    also have "\<dots> \<longleftrightarrow> eligible providers c exclude (routes ! j) \<and> prio \<le> rt_priority (routes ! j)"
      using top nth_mem [OF j] by (auto intro: antisym)
    also have "\<dots> \<longleftrightarrow> eligible providers c exclude (routes ! j) \<and>
         (\<forall>r \<in> set routes. eligible providers c exclude r \<longrightarrow> rt_priority r \<le> rt_priority (routes ! j))"
      using top re by (auto intro: order_trans)
    finally show ?thesis .
  qed
  moreover have "map ev_route_id (evaluations d) = map rt_id routes"
    by (auto simp: ev marked_def)
  ultimately show ?thesis using w re by auto
qed auto

text \<open>C22: The weighted draw is fair and always decided by the draw. When the weights add up to at
  most $2^{53}$ the ranges tile the unit interval in the order of the band, member \<open>j\<close> ending at the
  binary64 nearest to its share of the total (equal shares when no weight is positive); the winner is
  a member whose range contains the clamped draw; and a member with no share is never drawn.\<close>

theorem weighted_draw_fair:
  assumes "band \<noteq> []" "sum_list (map (\<lambda>r. max (rt_weight r) 0) band) \<le> 2 ^ 53"
    and "length band \<le> 2 ^ 53" "draw \<noteq> NaN"
  shows "\<exists>w tb. pick_weighted band prio (f_clamp draw (Fin 0) DRAW_MAX) = Some (w, tb)
    \<and> length (tb_ranges tb) = length band
    \<and> tr_low (tb_ranges tb ! 0) = Fin 0 \<and> tr_high (last (tb_ranges tb)) = Fin 1
    \<and> (\<forall>j. Suc j < length band \<longrightarrow> tr_high (tb_ranges tb ! j) = tr_low (tb_ranges tb ! Suc j))
    \<and> (\<forall>j < length band. tr_high (tb_ranges tb ! j) = Fin (rnd
         (of_int (sum_list (map (share_of band) (take (Suc j) band)))
            / of_int (sum_list (map (share_of band) band)))))
    \<and> (\<exists>j < length band. w = rt_id (band ! j) \<and> 0 < share_of band (band ! j)
         \<and> \<not> f_lt (f_clamp draw (Fin 0) DRAW_MAX) (tr_low (tb_ranges tb ! j))
         \<and> f_lt (f_clamp draw (Fin 0) DRAW_MAX) (tr_high (tb_ranges tb ! j)))"
proof -
  let ?sh = "share_of band"
  define d where "d = sum_list (map ?sh band)"
  define rs where "rs = exact_ranges ?sh d 0 band"
  from clamp_unit [OF assms(4)] obtain q where
    q: "f_clamp draw (Fin 0) DRAW_MAX = Fin q" "0 \<le> q" "q < 1" by blast
  note exact = pick_weighted_exact [OF assms(1-3), of prio "Fin q", folded d_def, folded rs_def]
  have pos: "0 < d" using exact by blast
  from exact_ranges_hit [OF assms(1) q(2,3) _ d_def pos] obtain j where
    j: "j < length band" "find (\<lambda>t. f_lt (Fin q) (tr_high t)) rs = Some (rs ! j)"
      "\<not> f_lt (Fin q) (tr_low (rs ! j))" "f_lt (Fin q) (tr_high (rs ! j))" "0 < ?sh (band ! j)"
    by (auto simp: rs_def)
  have id: "tr_route_id (rs ! j) = rt_id (band ! j)"
    using exact_ranges_nth [OF j(1)] by (simp add: rs_def)
  have pick: "pick_weighted band prio (Fin q) = Some (rt_id (band ! j),
      \<lparr>tb_priority = prio, tb_draw = Fin q, tb_ranges = rs, tb_winner_route_id = rt_id (band ! j)\<rparr>)"
    using exact j(2) id by (simp add: Let_def)
  have ends: "tr_low (rs ! 0) = Fin 0" "tr_high (last rs) = Fin 1"
    using exact_ranges_first [OF assms(1), of ?sh d 0] exact_ranges_last [OF assms(1), of ?sh d 0] pos
    by (simp_all add: rs_def d_def)
  have chain: "\<forall>j. Suc j < length band \<longrightarrow> tr_high (rs ! j) = tr_low (rs ! Suc j)"
    using exact_ranges_chain [of _ band ?sh d 0] by (simp add: rs_def)
  have high: "\<forall>j < length band. tr_high (rs ! j) = Fin (rnd (of_int (sum_list (map ?sh (take (Suc j) band))) / of_int d))"
    using exact_ranges_high [of _ band ?sh d 0] by (simp add: rs_def)
  have len: "length rs = length band" by (simp add: rs_def)
  show ?thesis
    unfolding q(1) d_def [symmetric]
    unfolding pick
    by (rule exI, rule exI, rule conjI, rule refl)
      (use ends chain high len j in \<open>simp add: exI [of _ j]\<close>)
qed

subsection \<open>Witnesses\<close>

definition demo_route :: "ustring \<Rightarrow> int \<Rightarrow> int \<Rightarrow> route_row" where
  "demo_route i prio weight = \<lparr>rt_id = i, rt_name = i, rt_priority = prio, rt_weight = weight,
     rt_enabled = True, match_operator = Some Orange, match_class = None, match_app_id = None,
     match_prefix = Some (lit ''69''), rt_provider_id = lit ''p'', rt_failover_route_id = None\<rparr>"

definition demo_candidate :: routing_candidate where
  "demo_candidate = \<lparr>rc_operator = Orange, rc_class = Otp, rc_app_id = lit ''app'',
     rc_msisdn_national = lit ''690000000''\<rparr>"

definition demo_providers :: "ustring \<rightharpoonup> provider_row" where
  "demo_providers = [lit ''p'' \<mapsto> \<lparr>pr_id = lit ''p'', pr_available = True, pr_reason = None\<rparr>]"

lemma demo_eligible: "eligible demo_providers demo_candidate {} (demo_route i prio w)"
  by (simp add: eligible_def demo_providers_def demo_route_def predicates_match_def demo_candidate_def)

lemma demo_decision:
  "select_route [demo_route (lit ''a'') 1 5, demo_route (lit ''b'') 2 0] demo_providers demo_candidate {} (Fin 0)
   = Some (route_won (marked demo_providers demo_candidate {} 2
        [demo_route (lit ''a'') 1 5, demo_route (lit ''b'') 2 0]) None (demo_route (lit ''b'') 2 0))"
  by (simp add: select_route_unfold demo_eligible band_of_def) (simp add: demo_route_def band_of_def)

theorem winner_is_best_witness:
  "\<exists>r \<in> set [demo_route (lit ''a'') 1 5, demo_route (lit ''b'') 2 0]. lit ''b'' = rt_id r
    \<and> (\<forall>r' \<in> set [demo_route (lit ''a'') 1 5, demo_route (lit ''b'') 2 0].
         eligible demo_providers demo_candidate {} r' \<longrightarrow> rt_priority r' \<le> rt_priority r)"
  using winner_is_best [OF demo_decision, of "\<lparr>wn_route_id = lit ''b'', wn_provider_id = lit ''p'',
      wn_failover_route_id = None\<rparr>"]
  by (simp add: route_won_def) (simp add: demo_route_def)

theorem decision_explains_witness:
  "\<exists>d. select_route [demo_route (lit ''a'') 1 5, demo_route (lit ''b'') 2 0] demo_providers
        demo_candidate {} (Fin 0) = Some d
    \<and> map ev_route_id (evaluations d) = [lit ''a'', lit ''b'']"
  using decision_explains [OF demo_decision] demo_decision by (auto simp: demo_route_def)

theorem weighted_draw_fair_witness:
  "\<exists>w tb. pick_weighted [demo_route (lit ''a'') 1 0, demo_route (lit ''b'') 1 3] 1
      (f_clamp (Fin (1 / 2)) (Fin 0) DRAW_MAX) = Some (w, tb) \<and> w = lit ''b''"
proof -
  let ?band = "[demo_route (lit ''a'') 1 0, demo_route (lit ''b'') 1 3]"
  have sh: "share_of ?band (demo_route (lit ''a'') 1 0) = 0"
    by (simp add: share_of_def demo_route_def)
  have "?band \<noteq> []" "sum_list (map (\<lambda>r. max (rt_weight r) 0) ?band) \<le> 2 ^ 53"
    "length ?band \<le> 2 ^ 53" "Fin (1 / 2) \<noteq> NaN"
    by (simp_all add: demo_route_def)
  from weighted_draw_fair [OF this, of 1] obtain w tb j where
    w: "pick_weighted ?band 1 (f_clamp (Fin (1 / 2)) (Fin 0) DRAW_MAX) = Some (w, tb)"
    "j < length ?band" "w = rt_id (?band ! j)" "0 < share_of ?band (?band ! j)"
    by blast
  have "j = 1" using w(2,4) sh by (cases j) auto
  with w(1,3) show ?thesis by (simp add: demo_route_def)
qed

end
