(* ===== verification/Gsm7.thy ===== *)
theory Gsm7
  imports Prelude
begin

text \<open>
  \<^verbatim>\<open>backends/crates/sms-encoding/src/gsm7.rs\<close>: the GSM 03.38 default alphabet, its
  extension table, the classification of one character and the septet stream of a body. The tables
  are transcribed as code points. \<open>from_septets\<close> is the reference decoder (3GPP TS 23.038)
  the encoder is checked against; it has no counterpart in the crate.
\<close>

definition BASIC :: "uchar list" where
  "BASIC =
    [64, 163, 36, 165, 232, 233, 249, 236, 242, 199, 10, 216, 248, 13, 197, 229,
     916, 95, 934, 915, 923, 937, 928, 936, 931, 920, 926, 27, 198, 230, 223, 201,
     32, 33, 34, 35, 164, 37, 38, 39, 40, 41, 42, 43, 44, 45, 46, 47,
     48, 49, 50, 51, 52, 53, 54, 55, 56, 57, 58, 59, 60, 61, 62, 63,
     161, 65, 66, 67, 68, 69, 70, 71, 72, 73, 74, 75, 76, 77, 78, 79,
     80, 81, 82, 83, 84, 85, 86, 87, 88, 89, 90, 196, 214, 209, 220, 167,
     191, 97, 98, 99, 100, 101, 102, 103, 104, 105, 106, 107, 108, 109, 110, 111,
     112, 113, 114, 115, 116, 117, 118, 119, 120, 121, 122, 228, 246, 241, 252, 224]"

definition ESC :: u8 where
  "ESC = 0x1b"

definition EXTENDED :: "(u8 \<times> uchar) list" where
  "EXTENDED =
    [(0x0a, 12), (0x14, 94), (0x28, 123), (0x29, 125), (0x2f, 92), (0x3c, 91), (0x3d, 126),
     (0x3e, 93), (0x40, 124), (0x65, 0x20ac)]"

datatype gsm7_char = Basic u8 | Extended u8

fun septets :: "gsm7_char \<Rightarrow> nat" where
  "septets (Basic _) = 1"
| "septets (Extended _) = 2"

definition classify_gsm7 :: "uchar \<Rightarrow> gsm7_char option" where
  "classify_gsm7 c =
     (if c = 0x1b then None
      else case position (\<lambda>b. b = c) BASIC of
        Some i \<Rightarrow> Some (Basic (word_of_nat i))
      | None \<Rightarrow> map_option (\<lambda>(code, _). Extended code) (find (\<lambda>(_, e). e = c) EXTENDED))"

definition is_gsm7 :: "uchar \<Rightarrow> bool" where
  "is_gsm7 c \<longleftrightarrow> classify_gsm7 c \<noteq> None"

definition is_gsm7_str :: "ustring \<Rightarrow> bool" where
  "is_gsm7_str body \<longleftrightarrow> list_all is_gsm7 body"

fun to_septets_loop :: "u8 list \<Rightarrow> ustring \<Rightarrow> u8 list option" where
  "to_septets_loop out [] = Some out"
| "to_septets_loop out (c # cs) =
     (case classify_gsm7 c of
        None \<Rightarrow> None
      | Some (Basic b) \<Rightarrow> to_septets_loop (out @ [b]) cs
      | Some (Extended b) \<Rightarrow> to_septets_loop (out @ [ESC, b]) cs)"

definition to_septets :: "ustring \<Rightarrow> u8 list option" where
  "to_septets body = to_septets_loop [] body"

subsection \<open>The tables\<close>

lemma length_BASIC [simp]: "length BASIC = 128"
  by (simp add: BASIC_def)

lemma BASIC_ESC: "BASIC ! 27 = 0x1b"
  by (simp add: BASIC_def)

lemma EXTENDED_codes: "(e, c) \<in> set EXTENDED \<Longrightarrow> map_of EXTENDED e = Some c \<and> unat e < 128"
  by (auto simp: EXTENDED_def)

lemma classify_Basic:
  assumes "classify_gsm7 c = Some (Basic b)"
  shows "unat b < 128 \<and> b \<noteq> ESC \<and> BASIC ! unat b = c"
proof -
  from assms obtain i where i: "position (\<lambda>b. b = c) BASIC = Some i" "b = word_of_nat i" "c \<noteq> 27"
    by (auto simp: classify_gsm7_def split: if_splits option.splits)
  from position_Some [OF i(1)] have lt: "i < 128" and nth: "BASIC ! i = c" by simp_all
  have u: "unat b = i" using lt by (simp add: i(2) unat_of_nat)
  have "b \<noteq> ESC"
  proof
    assume "b = ESC"
    then have "i = 27" using u by (simp add: ESC_def)
    then show False using nth i(3) BASIC_ESC by simp
  qed
  then show ?thesis using lt nth u by simp
qed

lemma classify_Extended:
  assumes "classify_gsm7 c = Some (Extended b)"
  shows "(b, c) \<in> set EXTENDED"
  using assms by (auto simp: classify_gsm7_def split: if_splits option.splits dest: find_in_set)

lemma septets_range: "1 \<le> septets g" "septets g \<le> 2"
  by (cases g; simp)+

subsection \<open>Encoding and decoding\<close>

definition septets_of :: "gsm7_char \<Rightarrow> u8 list" where
  "septets_of g = (case g of Basic b \<Rightarrow> [b] | Extended b \<Rightarrow> [ESC, b])"

lemma length_septets_of [simp]: "length (septets_of g) = septets g"
  by (cases g) (simp_all add: septets_of_def)

lemma to_septets_loop_eq:
  "to_septets_loop out body =
     (if is_gsm7_str body
      then Some (out @ concat (map (\<lambda>c. septets_of (the (classify_gsm7 c))) body)) else None)"
  by (induction out body rule: to_septets_loop.induct)
    (auto simp: is_gsm7_str_def is_gsm7_def septets_of_def split: option.splits gsm7_char.splits)

lemma to_septets_eq:
  "to_septets body =
     (if is_gsm7_str body
      then Some (concat (map (\<lambda>c. septets_of (the (classify_gsm7 c))) body)) else None)"
  by (simp add: to_septets_def to_septets_loop_eq)

fun from_septets :: "u8 list \<Rightarrow> ustring option" where
  "from_septets [] = Some []"
| "from_septets (b # bs) =
     (if b = ESC then
        (case bs of
           [] \<Rightarrow> None
         | e # bs' \<Rightarrow>
             (case map_of EXTENDED e of
                None \<Rightarrow> None
              | Some c \<Rightarrow> map_option ((#) c) (from_septets bs')))
      else if unat b < 128 then map_option ((#) (BASIC ! unat b)) (from_septets bs)
      else None)"

lemma from_septets_char:
  assumes "classify_gsm7 c = Some g"
  shows "from_septets (septets_of g @ rest) = map_option ((#) c) (from_septets rest)"
proof (cases g)
  case (Basic b)
  then show ?thesis using classify_Basic assms by (simp add: septets_of_def)
next
  case (Extended b)
  then show ?thesis
    using EXTENDED_codes [OF classify_Extended] assms by (simp add: septets_of_def)
qed

lemma from_septets_concat:
  "is_gsm7_str body \<Longrightarrow>
   from_septets (concat (map (\<lambda>c. septets_of (the (classify_gsm7 c))) body)) = Some body"
  by (induction body) (auto simp: is_gsm7_str_def is_gsm7_def from_septets_char)

subsection \<open>Properties\<close>

text \<open>The septet stream of a body exists exactly when every character is in GSM 03.38, and
  decoding it gives the body back: no two bodies share a stream and the escape mechanism is
  unambiguous.\<close>

theorem to_septets_roundtrip:
  "(to_septets body \<noteq> None \<longleftrightarrow> is_gsm7_str body) \<and>
   (\<forall>ss. to_septets body = Some ss \<longrightarrow> from_septets ss = Some body)"
  by (auto simp: to_septets_eq from_septets_concat)

theorem to_septets_roundtrip_witness:
  "to_septets [0x61, 0x20ac] = Some [0x61, ESC, 0x65] \<and> from_septets [0x61, ESC, 0x65] = Some [0x61, 0x20ac]"
proof -
  have "to_septets [0x61, 0x20ac] = Some [0x61, ESC, 0x65]"
    by (simp add: to_septets_def classify_gsm7_def BASIC_def EXTENDED_def)
  then show ?thesis using to_septets_roundtrip [of "[0x61, 0x20ac]"] by blast
qed

end
