(* ===== verification/Segment.thy ===== *)
theory Segment
  imports Prelude
begin

text \<open>
  \<^verbatim>\<open>backends/crates/sms-encoding/src/segment.rs\<close>: packing per-character costs into
  message parts without splitting a two-unit character. The packing loop is checked against the
  declarative notion of a split of the body into parts: it produces one, and no split has fewer
  parts.
\<close>

definition GSM7_SINGLE :: nat where
  "GSM7_SINGLE = 160"

definition GSM7_CONCATENATED :: nat where
  "GSM7_CONCATENATED = 153"

definition UCS2_SINGLE :: nat where
  "UCS2_SINGLE = 70"

definition UCS2_CONCATENATED :: nat where
  "UCS2_CONCATENATED = 67"

lemmas segment_limits = GSM7_SINGLE_def GSM7_CONCATENATED_def UCS2_SINGLE_def UCS2_CONCATENATED_def

record packing =
  pk_length :: nat
  pk_segments :: u8
  pk_per_segment :: nat

fun pack_loop_seg :: "nat \<Rightarrow> nat \<Rightarrow> nat \<Rightarrow> nat list \<Rightarrow> nat" where
  "pack_loop_seg concatenated segments used [] = segments"
| "pack_loop_seg concatenated segments used (cost # costs) =
     (if used + cost > concatenated
      then pack_loop_seg concatenated (segments + 1) cost costs
      else pack_loop_seg concatenated segments (used + cost) costs)"

definition pack_costs :: "nat list \<Rightarrow> nat \<Rightarrow> nat \<Rightarrow> packing" where
  "pack_costs costs single concatenated =
     (let len = sum_list costs in
      if len \<le> single then \<lparr>pk_length = len, pk_segments = 1, pk_per_segment = single\<rparr>
      else \<lparr>pk_length = len,
            pk_segments = word_of_nat (min (pack_loop_seg concatenated 1 0 costs) 255),
            pk_per_segment = concatenated\<rparr>)"

subsection \<open>Splits of a body\<close>

definition is_split :: "nat \<Rightarrow> nat list \<Rightarrow> nat list list \<Rightarrow> bool" where
  "is_split cap costs parts \<longleftrightarrow> concat parts = costs \<and> (\<forall>p \<in> set parts. sum_list p \<le> cap)"

lemma pack_loop_seg_split:
  assumes "used \<le> cap" "\<forall>c \<in> set costs. c \<le> cap"
  shows "\<exists>p ps. p @ concat ps = costs \<and> used + sum_list p \<le> cap \<and> (\<forall>q \<in> set ps. sum_list q \<le> cap)
    \<and> pack_loop_seg cap s used costs = s + length ps"
  using assms
proof (induction costs arbitrary: used s)
  case Nil
  then show ?case by (intro exI [of _ "[]"]) auto
next
  case (Cons c cs)
  show ?case
  proof (cases "used + c > cap")
    case True
    from Cons.IH [of c "s + 1"] Cons.prems obtain p ps where
      "p @ concat ps = cs" "c + sum_list p \<le> cap" "\<forall>q \<in> set ps. sum_list q \<le> cap"
      "pack_loop_seg cap (s + 1) c cs = s + 1 + length ps"
      by auto
    with True Cons.prems show ?thesis
      by (intro exI [of _ "[]"] exI [of _ "(c # p) # ps"]) auto
  next
    case False
    from Cons.IH [of "used + c" s] Cons.prems False obtain p ps where
      "p @ concat ps = cs" "used + c + sum_list p \<le> cap" "\<forall>q \<in> set ps. sum_list q \<le> cap"
      "pack_loop_seg cap s (used + c) cs = s + length ps"
      by auto
    with False show ?thesis
      by (intro exI [of _ "c # p"] exI [of _ ps]) auto
  qed
qed

text \<open>The loop never falls behind another split: where the other split is in a later part, or in
  the same part with at least as many units used, the loop ends with no more parts.\<close>

lemma pack_loop_seg_least:
  assumes "p @ concat ps = costs" "u + sum_list p \<le> cap" "\<forall>q \<in> set ps. sum_list q \<le> cap"
    and "s < s2 \<or> s = s2 \<and> used \<le> u"
  shows "pack_loop_seg cap s used costs \<le> s2 + length ps"
  using assms
proof (induction "length costs + length ps" arbitrary: costs ps p s s2 used u rule: less_induct)
  case less
  show ?case
  proof (cases p)
    case Nil
    show ?thesis
    proof (cases ps)
      case Nil
      with \<open>p = []\<close> less.prems show ?thesis by auto
    next
      case (Cons q qs)
      then have "pack_loop_seg cap s used costs \<le> s2 + 1 + length qs"
        using less.prems \<open>p = []\<close> by (intro less.hyps [of costs qs q 0 s "s2 + 1"]) auto
      with Cons show ?thesis by simp
    qed
  next
    case (Cons c p')
    with less.prems(1) obtain cs where costs: "costs = c # cs" and cs: "p' @ concat ps = cs"
      by auto
    have fit: "u + c + sum_list p' \<le> cap" using less.prems(2) Cons by simp
    show ?thesis
    proof (cases "used + c > cap")
      case True
      then have "s < s2" using less.prems(4) fit by auto
      then have "pack_loop_seg cap (s + 1) c cs \<le> s2 + length ps"
        using cs fit less.prems(3) by (intro less.hyps [of cs ps p' "u + c"]) (auto simp: costs)
      with True show ?thesis by (simp add: costs)
    next
      case False
      have "pack_loop_seg cap s (used + c) cs \<le> s2 + length ps"
        using cs fit less.prems(3,4) by (intro less.hyps [of cs ps p' "u + c"]) (auto simp: costs)
      with False show ?thesis by (simp add: costs)
    qed
  qed
qed

lemma pack_loop_seg_optimal:
  assumes "\<forall>c \<in> set costs. c \<le> cap"
  shows "\<exists>parts. is_split cap costs parts \<and> length parts = pack_loop_seg cap 1 0 costs"
    and "costs \<noteq> [] \<Longrightarrow> is_split cap costs parts \<Longrightarrow> pack_loop_seg cap 1 0 costs \<le> length parts"
proof -
  from pack_loop_seg_split [of 0 cap costs 1] assms obtain p ps where
    "p @ concat ps = costs" "sum_list p \<le> cap" "\<forall>q \<in> set ps. sum_list q \<le> cap"
    "pack_loop_seg cap 1 0 costs = 1 + length ps"
    by auto
  then show "\<exists>parts. is_split cap costs parts \<and> length parts = pack_loop_seg cap 1 0 costs"
    by (intro exI [of _ "p # ps"]) (auto simp: is_split_def)
next
  assume "costs \<noteq> []" "is_split cap costs parts"
  then obtain p ps where "parts = p # ps" by (cases parts) (auto simp: is_split_def)
  with \<open>is_split cap costs parts\<close> show "pack_loop_seg cap 1 0 costs \<le> length parts"
    using pack_loop_seg_least [of p ps costs 0 cap 1 1 0] by (auto simp: is_split_def)
qed

lemma is_split_sum: "is_split cap costs parts \<Longrightarrow> sum_list costs \<le> cap * length parts"
proof (induction parts arbitrary: costs)
  case (Cons p ps)
  then have "sum_list (concat ps) \<le> cap * length ps" "sum_list p \<le> cap"
    by (auto simp: is_split_def)
  with Cons.prems show ?case by (auto simp: is_split_def)
qed (simp add: is_split_def)

lemma pack_costs_least:
  assumes "\<forall>c \<in> set costs. c \<le> concatenated" and "\<not> sum_list costs \<le> single"
  shows "\<exists>parts. is_split concatenated costs parts
      \<and> unat (pk_segments (pack_costs costs single concatenated)) = min (length parts) 255
      \<and> (\<forall>other. is_split concatenated costs other \<longrightarrow> length parts \<le> length other)"
proof -
  from pack_loop_seg_optimal(1) [OF assms(1)] obtain parts where
    parts: "is_split concatenated costs parts" "length parts = pack_loop_seg concatenated 1 0 costs"
    by auto
  have "costs \<noteq> []" using assms(2) by auto
  then have "length parts \<le> length other" if "is_split concatenated costs other" for other
    using that pack_loop_seg_optimal(2) [OF assms(1)] parts(2) by simp
  moreover have "unat (pk_segments (pack_costs costs single concatenated)) = min (length parts) 255"
    using assms(2) parts(2) by (simp add: pack_costs_def unat_of_nat)
  ultimately show ?thesis using parts(1) by blast
qed

lemma unat_eq_of_nat_255: "unat (w :: u8) = 255 \<longleftrightarrow> w = 255"
proof -
  have "unat (255 :: u8) = 255" by simp
  then show ?thesis by (metis word_unat_eq_iff)
qed

subsection \<open>Properties\<close>

text \<open>C32: For a body too long for a single message, the segment count is the least number of parts
  any split of the body can have, where a split never divides a character and no part exceeds the
  concatenated limit, saturated at 255.\<close>

theorem pack_costs_optimal:
  assumes "\<forall>c \<in> set costs. c \<le> concatenated" and "single < sum_list costs"
  shows "\<exists>parts. is_split concatenated costs parts
      \<and> unat (pk_segments (pack_costs costs single concatenated)) = min (length parts) 255
      \<and> (\<forall>other. is_split concatenated costs other \<longrightarrow> length parts \<le> length other)"
  using pack_costs_least [OF assms(1)] assms(2) by simp

text \<open>The witness is the straddling body of the crate's documentation: 152 single units, a two-unit
  character and 152 single units need three parts, although 306 units divide into two.\<close>

theorem pack_costs_optimal_witness:
  "\<exists>parts. is_split 153 (replicate 152 1 @ [2] @ replicate 152 1) parts \<and> min (length parts) 255 = 3
     \<and> (\<forall>other. is_split 153 (replicate 152 1 @ [2] @ replicate 152 1) other
          \<longrightarrow> length parts \<le> length other)"
proof -
  let ?costs = "replicate 152 1 @ [2] @ replicate 152 1 :: nat list"
  have "unat (pk_segments (pack_costs ?costs 160 153)) = 3"
    by code_simp
  moreover have "\<forall>c \<in> set ?costs. c \<le> 153" "160 < sum_list ?costs"
    by (auto simp: sum_list_replicate)
  ultimately show ?thesis using pack_costs_optimal [of ?costs 153 160] by metis
qed

end
