(* ===== verification/Encoding.thy ===== *)
theory Encoding
  imports Gsm7 Segment
begin

text \<open>
  \<^verbatim>\<open>backends/crates/sms-encoding/src/normalise.rs\<close>, \<^verbatim>\<open>translit.rs\<close> and
  \<^verbatim>\<open>lib.rs\<close>: the typographic normalisation of a body, its transliteration towards
  GSM-7 and the report \<^verbatim>\<open>analyse\<close> computes. Unicode normalisation is the crate
  \<^verbatim>\<open>unicode-normalization\<close>, which is not part of the repository: the composition of a
  string (\<open>nfc\<close>) and the decomposition of a character (\<open>nfd\<close>) are arguments.
\<close>

subsection \<open>normalise.rs\<close>

definition SUBSTITUTIONS :: "(uchar \<times> ustring) list" where
  "SUBSTITUTIONS =
    [(0x2018, [39]), (0x2019, [39]), (0x201a, [39]), (0x201b, [39]), (0x2032, [39]),
     (0x201c, [34]), (0x201d, [34]), (0x201e, [34]), (0x2033, [34]), (0x2010, [45]),
     (0x2011, [45]), (0x2012, [45]), (0x2013, [45]), (0x2014, [45]), (0x2015, [45]),
     (0x2212, [45]), (0x2026, [46, 46, 46]), (0xa0, [32]), (0x2000, [32]), (0x2001, [32]),
     (0x2002, [32]), (0x2003, [32]), (0x2004, [32]), (0x2005, [32]), (0x2006, [32]),
     (0x2007, [32]), (0x2008, [32]), (0x2009, [32]), (0x200a, [32]), (0x202f, [32]),
     (0x205f, [32]), (0x3000, [32]), (0xad, []), (0x200b, []), (0x200c, []),
     (0x200d, []), (0xfeff, [])]"

definition substitute :: "uchar \<Rightarrow> ustring option" where
  "substitute c = map_option snd (find (\<lambda>(from, _). from = c) SUBSTITUTIONS)"

fun normalise_loop :: "ustring \<Rightarrow> ustring \<Rightarrow> ustring" where
  "normalise_loop out [] = out"
| "normalise_loop out (c # cs) =
     (case substitute c of
        Some replacement \<Rightarrow> normalise_loop (out @ replacement) cs
      | None \<Rightarrow> normalise_loop (out @ [c]) cs)"

definition normalise :: "(ustring \<Rightarrow> ustring) \<Rightarrow> ustring \<Rightarrow> ustring" where
  "normalise nfc body = normalise_loop [] (nfc body)"

subsection \<open>translit.rs\<close>

definition EXPLICIT :: "(uchar \<times> ustring) list" where
  "EXPLICIT =
    [(0x153, [111, 101]), (0x152, [79, 69]), (0xab, [34]), (0xbb, [34]), (0x2039, [39]),
     (0x203a, [39]), (0x2022, [45]), (0xb7, [46]), (0x2122, [40, 84, 77, 41]), (0xa9, [40, 67, 41]),
     (0xae, [40, 82, 41]), (0x2116, [78, 111])]"

definition is_combining_mark :: "uchar \<Rightarrow> bool" where
  "is_combining_mark c \<longleftrightarrow> 0x0300 \<le> c \<and> c \<le> 0x036f \<or> 0x1ab0 \<le> c \<and> c \<le> 0x1aff
     \<or> 0x1dc0 \<le> c \<and> c \<le> 0x1dff \<or> 0x20d0 \<le> c \<and> c \<le> 0x20ff \<or> 0xfe20 \<le> c \<and> c \<le> 0xfe2f"

record replacement =
  rp_from :: uchar
  rp_to :: ustring
  rp_offset :: nat

definition replacement_for :: "(uchar \<Rightarrow> ustring) \<Rightarrow> uchar \<Rightarrow> ustring option" where
  "replacement_for nfd c =
     (if is_gsm7 c then None
      else case substitute c of
        Some to \<Rightarrow> Some to
      | None \<Rightarrow>
          (case find (\<lambda>(from, _). from = c) EXPLICIT of
             Some (_, to) \<Rightarrow> Some to
           | None \<Rightarrow>
               (let stripped = filter (\<lambda>d. \<not> is_combining_mark d) (nfd c) in
                if stripped \<noteq> [] \<and> stripped \<noteq> [c] \<and> is_gsm7_str stripped
                then Some stripped else None)))"

fun transliterate_loop ::
    "(uchar \<Rightarrow> ustring) \<Rightarrow> ustring \<Rightarrow> replacement list \<Rightarrow> (nat \<times> uchar) list \<Rightarrow> ustring \<times> replacement list" where
  "transliterate_loop nfd out reps [] = (out, reps)"
| "transliterate_loop nfd out reps ((offset, c) # cs) =
     (case replacement_for nfd c of
        Some to \<Rightarrow>
          transliterate_loop nfd (out @ to)
            (reps @ [\<lparr>rp_from = c, rp_to = to, rp_offset = offset\<rparr>]) cs
      | None \<Rightarrow> transliterate_loop nfd (out @ [c]) reps cs)"

definition transliterate_to_gsm7 :: "(uchar \<Rightarrow> ustring) \<Rightarrow> ustring \<Rightarrow> ustring \<times> replacement list" where
  "transliterate_to_gsm7 nfd body = transliterate_loop nfd [] [] (char_indices body)"

subsection \<open>lib.rs\<close>

datatype sms_encoding = Gsm7 | Ucs2

fun encoding_as_str :: "sms_encoding \<Rightarrow> ustring" where
  "encoding_as_str Gsm7 = lit ''gsm7''"
| "encoding_as_str Ucs2 = lit ''ucs2''"

record offending_char =
  oc_ch :: uchar
  oc_offset :: nat
  oc_replacement :: "ustring option"

record encoding_report =
  encoding :: sms_encoding
  er_length :: nat
  segments :: u8
  per_segment :: nat
  offending :: "offending_char list"
  suggestion :: "ustring option"
  escapes :: nat

definition remaining_in_segment :: "encoding_report \<Rightarrow> nat" where
  "remaining_in_segment r = per_segment r * unat (segments r) - er_length r"

fun analyse_loop ::
    "(uchar \<Rightarrow> ustring) \<Rightarrow> offending_char list \<Rightarrow> nat \<Rightarrow> nat list \<Rightarrow> (nat \<times> uchar) list
      \<Rightarrow> offending_char list \<times> nat \<times> nat list" where
  "analyse_loop nfd off esc costs [] = (off, esc, costs)"
| "analyse_loop nfd off esc costs ((offset, ch) # cs) =
     (case classify_gsm7 ch of
        Some g \<Rightarrow>
          analyse_loop nfd off (if septets g = 2 then esc + 1 else esc) (costs @ [septets g]) cs
      | None \<Rightarrow>
          analyse_loop nfd
            (off @ [\<lparr>oc_ch = ch, oc_offset = offset, oc_replacement = replacement_for nfd ch\<rparr>])
            esc costs cs)"

definition analyse :: "(uchar \<Rightarrow> ustring) \<Rightarrow> ustring \<Rightarrow> encoding_report" where
  "analyse nfd body =
     (case analyse_loop nfd [] 0 [] (char_indices body) of (off, esc, costs) \<Rightarrow>
      if off = [] then
        (let p = pack_costs costs GSM7_SINGLE GSM7_CONCATENATED in
         \<lparr>encoding = Gsm7, er_length = pk_length p, segments = pk_segments p,
          per_segment = pk_per_segment p, offending = off, suggestion = None, escapes = esc\<rparr>)
      else
        (let costs = map len_utf16 body;
             p = pack_costs costs UCS2_SINGLE UCS2_CONCATENATED;
             candidate = fst (transliterate_to_gsm7 nfd body)
         in
         \<lparr>encoding = Ucs2, er_length = pk_length p, segments = pk_segments p,
          per_segment = pk_per_segment p, offending = off,
          suggestion = (if is_gsm7_str candidate \<and> candidate \<noteq> body then Some candidate else None),
          escapes = 0\<rparr>))"

subsection \<open>The loops in closed form\<close>

lemma normalise_loop_eq:
  "normalise_loop out cs =
     out @ concat (map (\<lambda>c. case substitute c of Some r \<Rightarrow> r | None \<Rightarrow> [c]) cs)"
  by (induction out cs rule: normalise_loop.induct) (auto split: option.splits)

lemma normalise_eq:
  "normalise nfc body =
     concat (map (\<lambda>c. case substitute c of Some r \<Rightarrow> r | None \<Rightarrow> [c]) (nfc body))"
  by (simp add: normalise_def normalise_loop_eq)

lemma transliterate_loop_fst:
  "fst (transliterate_loop nfd out reps ics) =
     out @ concat (map (\<lambda>c. case replacement_for nfd c of Some r \<Rightarrow> r | None \<Rightarrow> [c]) (map snd ics))"
  by (induction nfd out reps ics rule: transliterate_loop.induct) (auto split: option.splits)

lemma transliterate_fst:
  "fst (transliterate_to_gsm7 nfd body) =
     concat (map (\<lambda>c. case replacement_for nfd c of Some r \<Rightarrow> r | None \<Rightarrow> [c]) body)"
  by (simp add: transliterate_to_gsm7_def transliterate_loop_fst)

definition offends :: "(uchar \<Rightarrow> ustring) \<Rightarrow> (nat \<times> uchar) list \<Rightarrow> offending_char list" where
  "offends nfd ics = map (\<lambda>(offset, ch). \<lparr>oc_ch = ch, oc_offset = offset, oc_replacement = replacement_for nfd ch\<rparr>)
     (filter (\<lambda>(_, ch). \<not> is_gsm7 ch) ics)"

lemma analyse_loop_offending:
  "fst (analyse_loop nfd off esc costs ics) = off @ offends nfd ics"
  by (induction nfd off esc costs ics rule: analyse_loop.induct)
    (auto simp: offends_def is_gsm7_def split: option.splits)

lemma analyse_loop_costs:
  "snd (snd (analyse_loop nfd off esc costs ics)) =
     costs @ map (\<lambda>c. septets (the (classify_gsm7 c))) (filter is_gsm7 (map snd ics))"
  by (induction nfd off esc costs ics rule: analyse_loop.induct)
    (auto simp: is_gsm7_def split: option.splits)

lemma analyse_loop_escapes:
  "fst (snd (analyse_loop nfd off esc costs ics)) =
     esc + length (filter (\<lambda>c. is_gsm7 c \<and> septets (the (classify_gsm7 c)) = 2) (map snd ics))"
  by (induction nfd off esc costs ics rule: analyse_loop.induct)
    (auto simp: is_gsm7_def split: option.splits)

lemma filter_char_indices_Nil:
  "filter (\<lambda>(_, ch). \<not> is_gsm7 ch) ics = [] \<longleftrightarrow> is_gsm7_str (map snd ics)"
  by (induction ics) (auto simp: is_gsm7_str_def)

lemma offends_Nil_iff: "offends nfd (char_indices body) = [] \<longleftrightarrow> is_gsm7_str body"
  using filter_char_indices_Nil [of "char_indices body"] by (simp add: offends_def)

definition gsm7_costs :: "ustring \<Rightarrow> nat list" where
  "gsm7_costs body = map (\<lambda>c. septets (the (classify_gsm7 c))) body"

lemma filter_is_gsm7: "is_gsm7_str body \<Longrightarrow> filter is_gsm7 body = body"
  by (simp add: is_gsm7_str_def list_all_iff)

lemma analyse_gsm7:
  assumes "is_gsm7_str body"
  shows "analyse nfd body =
    (let p = pack_costs (gsm7_costs body) GSM7_SINGLE GSM7_CONCATENATED in
     \<lparr>encoding = Gsm7, er_length = pk_length p, segments = pk_segments p,
      per_segment = pk_per_segment p, offending = [], suggestion = None,
      escapes = length (filter (\<lambda>c. septets (the (classify_gsm7 c)) = 2) body)\<rparr>)"
proof -
  obtain off esc costs where loop: "analyse_loop nfd [] 0 [] (char_indices body) = (off, esc, costs)"
    by (cases "analyse_loop nfd [] 0 [] (char_indices body)")
  have "off = []"
    using analyse_loop_offending [of nfd "[]" 0 "[]" "char_indices body"] loop assms
      offends_Nil_iff [of nfd body] by simp
  moreover have "costs = gsm7_costs body"
    using analyse_loop_costs [of nfd "[]" 0 "[]" "char_indices body"] loop assms
    by (simp add: gsm7_costs_def filter_is_gsm7)
  moreover have "esc = length (filter (\<lambda>c. septets (the (classify_gsm7 c)) = 2) body)"
    using analyse_loop_escapes [of nfd "[]" 0 "[]" "char_indices body"] loop assms
      filter_cong [of body body "\<lambda>c. is_gsm7 c \<and> septets (the (classify_gsm7 c)) = 2"
        "\<lambda>c. septets (the (classify_gsm7 c)) = 2"]
    by (simp add: is_gsm7_str_def list_all_iff)
  ultimately show ?thesis by (simp add: analyse_def loop)
qed

lemma analyse_ucs2:
  assumes "\<not> is_gsm7_str body"
  shows "analyse nfd body =
    (let p = pack_costs (map len_utf16 body) UCS2_SINGLE UCS2_CONCATENATED;
         candidate = fst (transliterate_to_gsm7 nfd body) in
     \<lparr>encoding = Ucs2, er_length = pk_length p, segments = pk_segments p,
      per_segment = pk_per_segment p, offending = offends nfd (char_indices body),
      suggestion = (if is_gsm7_str candidate \<and> candidate \<noteq> body then Some candidate else None),
      escapes = 0\<rparr>)"
proof -
  obtain off esc costs where loop: "analyse_loop nfd [] 0 [] (char_indices body) = (off, esc, costs)"
    by (cases "analyse_loop nfd [] 0 [] (char_indices body)")
  then have "off = offends nfd (char_indices body)"
    using analyse_loop_offending [of nfd "[]" 0 "[]" "char_indices body"] by simp
  then show ?thesis using assms offends_Nil_iff [of nfd body] by (simp add: analyse_def loop)
qed

lemma pk_length_pack_costs [simp]: "pk_length (pack_costs costs s c) = sum_list costs"
  by (simp add: pack_costs_def Let_def)

lemma gsm7_costs_septets: "to_septets body = Some ss \<Longrightarrow> sum_list (gsm7_costs body) = length ss"
  by (auto simp: to_septets_eq gsm7_costs_def length_concat comp_def split: if_splits)

subsection \<open>The substitution tables\<close>

lemma is_gsm7_iff: "is_gsm7 c \<longleftrightarrow> c \<noteq> 27 \<and> (c \<in> set BASIC \<or> c \<in> snd ` set EXTENDED)"
proof -
  have "position (\<lambda>b. b = c) BASIC = None \<longleftrightarrow> c \<notin> set BASIC"
    by (auto simp: position_None)
  moreover have "find (\<lambda>(_, e). e = c) EXTENDED = None \<longleftrightarrow> c \<notin> snd ` set EXTENDED"
    by (auto simp: find_None_iff image_iff)
  ultimately show ?thesis
    by (cases "position (\<lambda>b. b = c) BASIC"; cases "find (\<lambda>(_, e). e = c) EXTENDED")
      (simp_all add: is_gsm7_def classify_gsm7_def)
qed

lemmas gsm7_eval = is_gsm7_str_def is_gsm7_iff BASIC_def EXTENDED_def
lemmas translit_eval = replacement_for_def substitute_def SUBSTITUTIONS_def EXPLICIT_def
  is_combining_mark_def

lemma SUBSTITUTIONS_ok:
  "list_all (\<lambda>(from, to). \<not> is_gsm7 from \<and> is_gsm7_str to \<and> list_all (\<lambda>c. substitute c = None) to)
     SUBSTITUTIONS"
  by (simp add: substitute_def SUBSTITUTIONS_def gsm7_eval)

lemma EXPLICIT_ok: "list_all (\<lambda>(from, to). \<not> is_gsm7 from \<and> is_gsm7_str to) EXPLICIT"
  by (simp add: EXPLICIT_def gsm7_eval)

lemma substitute_Some:
  assumes "substitute c = Some r"
  shows "\<not> is_gsm7 c \<and> is_gsm7_str r \<and> list_all (\<lambda>d. substitute d = None) r"
proof -
  from assms have "(c, r) \<in> set SUBSTITUTIONS"
    by (auto simp: substitute_def dest: find_in_set)
  then show ?thesis using SUBSTITUTIONS_ok by (auto simp: list_all_iff)
qed

lemma replacement_for_gsm7:
  assumes "replacement_for nfd c = Some r"
  shows "is_gsm7_str r"
proof -
  have "is_gsm7_str to" if "find (\<lambda>(from, _). from = c) EXPLICIT = Some (x, to)" for x to
    using find_in_set [OF that] EXPLICIT_ok by (auto simp: list_all_iff)
  then show ?thesis
    using assms substitute_Some [of c r]
    by (auto simp: replacement_for_def Let_def split: if_splits option.splits)
qed

lemma replacement_for_None: "is_gsm7 c \<Longrightarrow> replacement_for nfd c = None"
  by (simp add: replacement_for_def)

lemma is_gsm7_str_simps [simp]:
  "is_gsm7_str []" "is_gsm7_str (c # cs) \<longleftrightarrow> is_gsm7 c \<and> is_gsm7_str cs"
  "is_gsm7_str (xs @ ys) \<longleftrightarrow> is_gsm7_str xs \<and> is_gsm7_str ys"
  by (simp_all add: is_gsm7_str_def)

lemma is_gsm7_str_concat: "is_gsm7_str (concat xss) \<longleftrightarrow> (\<forall>xs \<in> set xss. is_gsm7_str xs)"
  by (induction xss) auto

text \<open>Normalisation composes first and drops invisible characters afterwards, so an invisible
  character between a letter and its combining mark keeps the two apart: the result is not in
  composed form and normalising it once more changes it. The hypotheses are the values the Unicode
  standard gives to \<^verbatim>\<open>nfc\<close> on the two strings.\<close>

lemma normalise_not_idempotent:
  assumes "nfc [0x65, 0x200b, 0x301] = [0x65, 0x200b, 0x301]" and "nfc [0x65, 0x301] = [0xe9]"
  shows "normalise nfc [0x65, 0x200b, 0x301] = [0x65, 0x301]
    \<and> normalise nfc (normalise nfc [0x65, 0x200b, 0x301]) = [0xe9]"
  using assms by (simp add: normalise_eq substitute_def SUBSTITUTIONS_def)

subsection \<open>Properties\<close>

text \<open>A body is reported as GSM-7 exactly when its septet stream exists, its length is then
  the length of that stream, and otherwise the number of UTF-16 code units; the offending characters
  are exactly the characters outside GSM 03.38, each occurrence in input order.\<close>

theorem analyse_classifies:
  "(encoding (analyse nfd body) = Gsm7 \<longleftrightarrow> to_septets body \<noteq> None) \<and>
   er_length (analyse nfd body) =
     (case to_septets body of Some ss \<Rightarrow> length ss | None \<Rightarrow> sum_list (map len_utf16 body)) \<and>
   map oc_ch (offending (analyse nfd body)) = filter (\<lambda>c. \<not> is_gsm7 c) body"
proof -
  have chars: "map oc_ch (offends nfd ics) = filter (\<lambda>c. \<not> is_gsm7 c) (map snd ics)" for ics
    by (induction ics) (auto simp: offends_def)
  show ?thesis
  proof (cases "is_gsm7_str body")
    case True
    then obtain ss where "to_septets body = Some ss" by (auto simp: to_septets_eq)
    then show ?thesis
      using True gsm7_costs_septets [of body ss]
      by (simp add: analyse_gsm7 Let_def is_gsm7_str_def list_all_iff)
  next
    case False
    then show ?thesis
      using chars [of "char_indices body"] by (simp add: analyse_ucs2 Let_def to_septets_eq)
  qed
qed

text \<open>A suggested rewrite is only offered for a body that needs UCS-2, and always rescues it:
  analysing the suggestion reports GSM-7 with no offending character.\<close>

theorem suggestion_rescues:
  assumes "suggestion (analyse nfd body) = Some s"
  shows "encoding (analyse nfd body) = Ucs2 \<and> encoding (analyse nfd s) = Gsm7
    \<and> offending (analyse nfd s) = []"
proof -
  have "\<not> is_gsm7_str body" using assms by (auto simp: analyse_gsm7 Let_def)
  moreover from this assms have "is_gsm7_str s"
    by (auto simp: analyse_ucs2 Let_def split: if_splits)
  ultimately show ?thesis by (simp add: analyse_ucs2 analyse_gsm7 Let_def)
qed

text \<open>The witness decomposes the letter c with cedilla as the Unicode standard does.\<close>

theorem suggestion_rescues_witness:
  "encoding (analyse (\<lambda>c. if c = 0xe7 then [0x63, 0x327] else [c]) [0x63]) = Gsm7"
proof -
  let ?nfd = "\<lambda>c::nat. if c = 0xe7 then [0x63, 0x327] else [c]"
  have "suggestion (analyse ?nfd [0xe7]) = Some [0x63]"
    by (simp add: analyse_ucs2 transliterate_fst translit_eval gsm7_eval Let_def)
  from suggestion_rescues [OF this] show ?thesis by blast
qed

text \<open>The reported parts hold the whole body: unless the count is saturated at 255, the body
  and the units reported as remaining fill exactly the capacity of the reported parts.\<close>

theorem remaining_is_exact:
  assumes "segments (analyse nfd body) \<noteq> 255"
  shows "er_length (analyse nfd body) + remaining_in_segment (analyse nfd body)
    = per_segment (analyse nfd body) * unat (segments (analyse nfd body))"
proof -
  have fits: "sum_list costs \<le> pk_per_segment (pack_costs costs s c) * unat (pk_segments (pack_costs costs s c))"
    if cost_le: "\<forall>x \<in> set costs. x \<le> c" and unsaturated: "pk_segments (pack_costs costs s c) \<noteq> 255"
    for costs s c
  proof (cases "sum_list costs \<le> s")
    case True
    then show ?thesis by (simp add: pack_costs_def)
  next
    case False
    then obtain parts where parts: "is_split c costs parts"
        "unat (pk_segments (pack_costs costs s c)) = min (length parts) 255"
      using pack_costs_least [of costs c s] cost_le by auto
    moreover have "unat (pk_segments (pack_costs costs s c)) \<noteq> 255"
      using unsaturated by (simp add: unat_eq_of_nat_255)
    ultimately have "unat (pk_segments (pack_costs costs s c)) = length parts" by auto
    then show ?thesis using is_split_sum [OF parts(1)] False by (simp add: pack_costs_def)
  qed
  have "er_length (analyse nfd body) \<le> per_segment (analyse nfd body) * unat (segments (analyse nfd body))"
  proof (cases "is_gsm7_str body")
    case True
    have "x \<le> GSM7_CONCATENATED" if "x \<in> set (gsm7_costs body)" for x
      using that by (auto simp: gsm7_costs_def segment_limits intro: order_trans [OF septets_range(2)])
    with True assms show ?thesis
      using fits [of "gsm7_costs body" GSM7_CONCATENATED GSM7_SINGLE] by (simp add: analyse_gsm7 Let_def)
  next
    case False
    have "x \<le> UCS2_CONCATENATED" if "x \<in> set (map len_utf16 body)" for x
      using that by (auto simp: segment_limits intro: order_trans [OF len_utf16_range(2)])
    with False assms show ?thesis
      using fits [of "map len_utf16 body" UCS2_CONCATENATED UCS2_SINGLE]
      by (simp add: analyse_ucs2 Let_def)
  qed
  then show ?thesis by (simp add: remaining_in_segment_def)
qed

theorem remaining_is_exact_witness:
  "er_length (analyse (\<lambda>c. [c]) (lit ''4821'')) + remaining_in_segment (analyse (\<lambda>c. [c]) (lit ''4821'')) = 160"
proof -
  have "segments (analyse (\<lambda>c. [c]) (lit ''4821'')) = 1 \<and> per_segment (analyse (\<lambda>c. [c]) (lit ''4821'')) = 160"
    by (simp add: analyse_gsm7 gsm7_eval classify_gsm7_def pack_costs_def gsm7_costs_def segment_limits)
  then show ?thesis using remaining_is_exact [of "\<lambda>c. [c]" "lit ''4821''"] by simp
qed

text \<open>Transliteration only ever writes GSM-7: its output is encodable exactly when every
  character of the body was encodable or has a replacement, and a body that is already encodable is
  returned unchanged with no replacement recorded.\<close>

theorem transliterate_outcome:
  "(is_gsm7_str (fst (transliterate_to_gsm7 nfd body)) \<longleftrightarrow>
      (\<forall>c \<in> set body. is_gsm7 c \<or> replacement_for nfd c \<noteq> None)) \<and>
   (is_gsm7_str body \<longrightarrow> transliterate_to_gsm7 nfd body = (body, []))"
proof (intro conjI impI)
  have "is_gsm7_str (case replacement_for nfd c of Some r \<Rightarrow> r | None \<Rightarrow> [c]) \<longleftrightarrow>
      is_gsm7 c \<or> replacement_for nfd c \<noteq> None" for c
    by (auto split: option.splits dest: replacement_for_gsm7)
  then show "is_gsm7_str (fst (transliterate_to_gsm7 nfd body)) \<longleftrightarrow>
      (\<forall>c \<in> set body. is_gsm7 c \<or> replacement_for nfd c \<noteq> None)"
    by (simp add: transliterate_fst is_gsm7_str_concat)
next
  have "transliterate_loop nfd out reps ics = (out @ map snd ics, reps)"
    if "is_gsm7_str (map snd ics)" for out reps ics
    using that
    by (induction nfd out reps ics rule: transliterate_loop.induct) (auto simp: replacement_for_None)
  then show "transliterate_to_gsm7 nfd body = (body, [])" if "is_gsm7_str body"
    using that by (simp add: transliterate_to_gsm7_def)
qed

theorem transliterate_outcome_witness:
  "transliterate_to_gsm7 (\<lambda>c. [c]) (lit ''abc'') = (lit ''abc'', [])"
proof -
  have "is_gsm7_str (lit ''abc'')" by (simp add: gsm7_eval)
  then show ?thesis using transliterate_outcome [of "\<lambda>c. [c]" "lit ''abc''"] by blast
qed

text \<open>Normalisation removes every typographic character it knows, leaves a composed GSM-7 body
  untouched, and produces GSM-7 exactly when each character of the composed body is encodable or has
  a substitution.\<close>

theorem normalise_outcome:
  "(\<forall>c \<in> set (normalise nfc body). substitute c = None) \<and>
   (nfc body = body \<and> is_gsm7_str body \<longrightarrow> normalise nfc body = body) \<and>
   (is_gsm7_str (normalise nfc body) \<longleftrightarrow> (\<forall>c \<in> set (nfc body). is_gsm7 c \<or> substitute c \<noteq> None))"
proof (intro conjI impI)
  have "substitute d = None" if "d \<in> set (case substitute c of Some r \<Rightarrow> r | None \<Rightarrow> [c])" for c d
    using that substitute_Some [of c] by (auto simp: list_all_iff split: option.splits)
  then show "\<forall>c \<in> set (normalise nfc body). substitute c = None"
    by (auto simp: normalise_eq)
  have "substitute c = None" if "is_gsm7 c" for c
    using that substitute_Some [of c] by (cases "substitute c") auto
  then have "concat (map (\<lambda>c. case substitute c of Some r \<Rightarrow> r | None \<Rightarrow> [c]) b) = b" if "is_gsm7_str b" for b
    using that by (induction b) auto
  then show "normalise nfc body = body" if "nfc body = body \<and> is_gsm7_str body"
    using that by (simp add: normalise_eq)
  have "is_gsm7_str (case substitute c of Some r \<Rightarrow> r | None \<Rightarrow> [c]) \<longleftrightarrow>
      is_gsm7 c \<or> substitute c \<noteq> None" for c
    using substitute_Some [of c] by (auto split: option.splits)
  then show "is_gsm7_str (normalise nfc body) \<longleftrightarrow> (\<forall>c \<in> set (nfc body). is_gsm7 c \<or> substitute c \<noteq> None)"
    by (simp add: normalise_eq is_gsm7_str_concat)
qed

theorem normalise_outcome_witness:
  "normalise (\<lambda>s. s) (lit ''abc'') = lit ''abc'' \<and> is_gsm7_str (normalise (\<lambda>s. s) [0x6c, 0x2019, 0x61])"
proof -
  have "is_gsm7_str (lit ''abc'')" and "\<forall>c \<in> set [0x6c, 0x2019, 0x61]. is_gsm7 c \<or> substitute c \<noteq> None"
    by (simp_all add: gsm7_eval substitute_def SUBSTITUTIONS_def)
  then show ?thesis
    using normalise_outcome [of "\<lambda>s. s" "lit ''abc''"] normalise_outcome [of "\<lambda>s. s" "[0x6c, 0x2019, 0x61]"]
    by simp
qed

end
