(* ===== verification/Provider.thy ===== *)
theory Provider
  imports Encoding
begin

text \<open>
  The provider vocabulary: \<^verbatim>\<open>backends/crates/sms-provider/src\<close> (\<^verbatim>\<open>types.rs\<close>,
  \<^verbatim>\<open>error.rs\<close>), the classification every HTTP adapter shares
  (\<^verbatim>\<open>sms-provider-http\<close>: \<^verbatim>\<open>submit_status.rs\<close>, \<^verbatim>\<open>transport.rs\<close>) and the
  delivery-receipt parsers of the Orange and MTN adapters (\<^verbatim>\<open>dlr.rs\<close> of each).

  The type-erased cause of an error is kept as its text. \<^verbatim>\<open>reqwest\<close>'s error and status types
  are the records of what the code asks of them; the JSON decoder \<^verbatim>\<open>serde_json::from_slice\<close>
  and chrono's RFC 3339 parser are parameters.
\<close>

subsection \<open>types.rs\<close>

record submit_request =
  sub_to :: ustring
  sub_sender_id :: ustring
  sub_body :: ustring
  sub_encoding :: sms_encoding
  sub_reference :: ustring

record submit_ack =
  provider_ref :: ustring
  provider_ref_alt :: "ustring option"

record raw_callback =
  cb_headers :: "(ustring \<times> ustring) list"
  cb_body :: "u8 list"

datatype delivery_outcome =
  OutDelivered | OutUncertain | OutFailed | OutExpired | OutRejected | OutInFlight | OutUnknown

record delivery_update =
  du_provider_ref :: ustring
  du_outcome :: delivery_outcome
  du_occurred_at :: "instant option"
  du_raw_status :: ustring
  du_error_code :: "ustring option"
  du_delivering_network :: "ustring option"

subsection \<open>error.rs\<close>

datatype provider_error =
  Permanent ustring ustring
| Transient duration ustring
| Unavailable ustring "ustring option"
| ErrRejected ustring ustring
| Unsupported
| Indeterminate ustring "ustring option"

datatype routing_consequence =
  RetryThisProvider duration
| TryNextRoute
| OpenCircuitAndTryNextRoute
| FailMessage
| HoldIndeterminate

fun error_routing :: "provider_error \<Rightarrow> routing_consequence" where
  "error_routing (Permanent _ _) = TryNextRoute"
| "error_routing (Transient retry_after _) = RetryThisProvider retry_after"
| "error_routing (Unavailable _ _) = OpenCircuitAndTryNextRoute"
| "error_routing (ErrRejected _ _) = FailMessage"
| "error_routing Unsupported = FailMessage"
| "error_routing (Indeterminate _ _) = HoldIndeterminate"

text \<open>The \<^verbatim>\<open>Display\<close> the \<^verbatim>\<open>#[error(...)]\<close> attributes derive; \<open>show_dur\<close> is the
  \<^verbatim>\<open>Debug\<close> text of a duration.\<close>

fun provider_error_to_string :: "(duration \<Rightarrow> ustring) \<Rightarrow> provider_error \<Rightarrow> ustring" where
  "provider_error_to_string show_dur (Permanent code msg) = code @ lit '': '' @ msg"
| "provider_error_to_string show_dur (Transient after msg) = lit ''retry after '' @ show_dur after @ lit '': '' @ msg"
| "provider_error_to_string show_dur (Unavailable msg _) = lit ''provider unavailable: '' @ msg"
| "provider_error_to_string show_dur (ErrRejected code msg) = code @ lit '': '' @ msg"
| "provider_error_to_string show_dur Unsupported = lit ''not supported by this provider''"
| "provider_error_to_string show_dur (Indeterminate msg _) = lit ''submission outcome unknown, possibly sent: '' @ msg"

subsection \<open>sms-provider-http\<close>

record status_code =
  as_u16 :: nat
  is_server_error :: bool
  status_shown :: ustring

definition classify_common_submit_status ::
    "status_code \<Rightarrow> ustring \<Rightarrow> ustring \<Rightarrow> duration \<Rightarrow> provider_error" where
  "classify_common_submit_status status body provider rate_limit_retry_after =
     (if as_u16 status = 429 then Transient rate_limit_retry_after (lit ''rate limited: '' @ body)
      else if is_server_error status then
        Unavailable (provider @ lit '' returned '' @ status_shown status @ lit '': '' @ body) None
      else ErrRejected (lit ''http_'' @ show_nat (as_u16 status)) body)"

record transport_error =
  is_connect :: bool
  is_timeout :: bool
  is_body :: bool
  transport_shown :: ustring

definition classify_transport_error :: "transport_error \<Rightarrow> ustring \<Rightarrow> provider_error" where
  "classify_transport_error error provider =
     (if is_connect error then
        Unavailable (lit ''submit request failed to connect: '' @ transport_shown error)
          (Some (transport_shown error))
      else if is_timeout error \<or> is_body error then
        Indeterminate (lit ''submit request timed out or was interrupted after the connection was '' @
            lit ''already established; '' @ provider @ lit '' may have received it: '' @ transport_shown error)
          (Some (transport_shown error))
      else Unavailable (lit ''submit request failed: '' @ transport_shown error)
          (Some (transport_shown error)))"

subsection \<open>Orange: dlr.rs\<close>

record delivery_info_entry =
  delivery_status :: ustring

datatype delivery_info_field = One delivery_info_entry | Many "delivery_info_entry list"

record delivery_info_notification =
  callback_data :: "ustring option"
  delivery_info :: delivery_info_field

fun into_entries :: "delivery_info_field \<Rightarrow> delivery_info_entry list" where
  "into_entries (One entry) = [entry]"
| "into_entries (Many entries) = entries"

definition orange_outcome_of :: "ustring \<Rightarrow> delivery_outcome" where
  "orange_outcome_of status =
     (if status = lit ''DeliveredToTerminal'' then OutDelivered
      else if status = lit ''DeliveryImpossible'' then OutFailed
      else if status = lit ''DeliveryUncertain'' then OutUncertain
      else if status = lit ''DeliveredToNetwork'' \<or> status = lit ''MessageWaiting'' then OutInFlight
      else OutUnknown)"

definition orange_parse_dlr ::
    "(u8 list \<Rightarrow> ustring + delivery_info_notification) \<Rightarrow> raw_callback
      \<Rightarrow> provider_error + delivery_update list" where
  "orange_parse_dlr from_slice raw =
     (case from_slice (cb_body raw) of
        Inl error \<Rightarrow> Inl (ErrRejected (lit ''MALFORMED_DLR'')
          (lit ''could not parse delivery notification: '' @ error))
      | Inr parsed \<Rightarrow>
          (case callback_data parsed of
             None \<Rightarrow> Inl (ErrRejected (lit ''MISSING_CALLBACK_DATA'')
               (lit ''delivery notification carried no callbackData (resource_id) to correlate '' @
                lit ''against''))
           | Some ref \<Rightarrow> Inr (map (\<lambda>entry.
               \<lparr>du_provider_ref = ref, du_outcome = orange_outcome_of (delivery_status entry),
                du_occurred_at = None, du_raw_status = delivery_status entry, du_error_code = None,
                du_delivering_network = None\<rparr>) (into_entries (delivery_info parsed)))))"

subsection \<open>MTN: dlr.rs\<close>

record mtn_delivery_notification =
  client_correlator_id :: "ustring option"
  mtn_delivery_status :: "ustring option"
  details :: "ustring option"
  completed_date :: "ustring option"
  dlr_error :: "ustring option"

definition mtn_outcome_of :: "ustring \<Rightarrow> delivery_outcome" where
  "mtn_outcome_of status =
     (if status = lit ''DELIVERED'' then OutDelivered
      else if status = lit ''EXPIRED'' then OutExpired
      else if status = lit ''REJECTED'' then OutRejected
      else if status = lit ''UNDELIVERED'' then OutFailed
      else if status = lit ''ACCEPTD'' \<or> status = lit ''ENROUTE'' then OutInFlight
      else if status = lit ''DELETED'' then OutRejected
      else if status = lit ''UNKNOWN'' then OutUnknown
      else OutUnknown)"

definition parse_completed_date :: "(ustring \<Rightarrow> instant option) \<Rightarrow> ustring option \<Rightarrow> instant option" where
  "parse_completed_date rfc3339 raw = (case raw of None \<Rightarrow> None | Some text \<Rightarrow> rfc3339 text)"

definition mtn_parse_dlr ::
    "(u8 list \<Rightarrow> ustring + mtn_delivery_notification) \<Rightarrow> (ustring \<Rightarrow> instant option) \<Rightarrow> raw_callback
      \<Rightarrow> provider_error + delivery_update list" where
  "mtn_parse_dlr from_slice rfc3339 raw =
     (case from_slice (cb_body raw) of
        Inl error \<Rightarrow> Inl (ErrRejected (lit ''MALFORMED_DLR'')
          (lit ''could not parse delivery notification: '' @ error))
      | Inr parsed \<Rightarrow>
          (case (case client_correlator_id parsed of
                   Some i \<Rightarrow> if i \<noteq> [] then Some i else None | None \<Rightarrow> None) of
             None \<Rightarrow> Inl (ErrRejected (lit ''MISSING_CLIENT_CORRELATOR_ID'')
               (lit ''delivery notification carried no clientCorrelatorId to correlate against''))
           | Some ref \<Rightarrow>
               (let raw_status = (case mtn_delivery_status parsed of Some s \<Rightarrow> s | None \<Rightarrow> [])
                in Inr [\<lparr>du_provider_ref = ref, du_outcome = mtn_outcome_of raw_status,
                         du_occurred_at = parse_completed_date rfc3339 (completed_date parsed),
                         du_raw_status = raw_status,
                         du_error_code = (case dlr_error parsed of Some e \<Rightarrow> Some e | None \<Rightarrow> details parsed),
                         du_delivering_network = None\<rparr>])))"

subsection \<open>What the parsers promise\<close>

text \<open>The contract the receipt pipeline relies on, whatever the adapter: every update carries the
  status text the provider sent, classified by the adapter's own vocabulary, under a reference the
  callback named.\<close>

locale dlr_parser =
  fixes parse :: "raw_callback \<Rightarrow> provider_error + delivery_update list"
    and outcome_of :: "ustring \<Rightarrow> delivery_outcome"
  assumes outcome_is_classified:
      "parse raw = Inr us \<Longrightarrow> u \<in> set us \<Longrightarrow> du_outcome u = outcome_of (du_raw_status u)"
    and one_reference: "parse raw = Inr us \<Longrightarrow> u \<in> set us \<Longrightarrow> v \<in> set us
      \<Longrightarrow> du_provider_ref u = du_provider_ref v"
    and rejects_only: "parse raw = Inl e \<Longrightarrow> \<exists>code msg. e = ErrRejected code msg"
begin

lemma never_guesses:
  assumes "parse raw = Inr us" "u \<in> set us" "du_outcome u = OutDelivered"
  shows "outcome_of (du_raw_status u) = OutDelivered"
  using outcome_is_classified [OF assms(1,2)] assms(3) by simp

lemma refusal_is_final: "parse raw = Inl e \<Longrightarrow> error_routing e = FailMessage"
  using rejects_only by fastforce

end

interpretation orange: dlr_parser "orange_parse_dlr from_slice" orange_outcome_of
  by unfold_locales (auto simp: orange_parse_dlr_def split: sum.splits option.splits)

interpretation mtn: dlr_parser "mtn_parse_dlr from_slice rfc3339" mtn_outcome_of
  by unfold_locales (auto simp: mtn_parse_dlr_def Let_def split: sum.splits option.splits)

lemma orange_delivered_iff: "orange_outcome_of s = OutDelivered \<longleftrightarrow> s = lit ''DeliveredToTerminal''"
  by (simp add: orange_outcome_of_def)

lemma mtn_delivered_iff: "mtn_outcome_of s = OutDelivered \<longleftrightarrow> s = lit ''DELIVERED''"
  by (simp add: mtn_outcome_of_def)

text \<open>Neither adapter ever reports a delivery the provider did not: an update says ``delivered''
  exactly when its status text is the provider's own word for it, and a callback that is refused is
  refused for good, with nothing to retry elsewhere.\<close>

theorem dlr_never_invents_delivery:
  "(\<forall>us u. orange_parse_dlr oslice raw = Inr us \<and> u \<in> set us \<longrightarrow>
      (du_outcome u = OutDelivered \<longleftrightarrow> du_raw_status u = lit ''DeliveredToTerminal''))
   \<and> (\<forall>us u. mtn_parse_dlr mslice rfc3339 raw = Inr us \<and> u \<in> set us \<longrightarrow>
      (du_outcome u = OutDelivered \<longleftrightarrow> du_raw_status u = lit ''DELIVERED''))
   \<and> (\<forall>e. orange_parse_dlr oslice raw = Inl e \<or> mtn_parse_dlr mslice rfc3339 raw = Inl e \<longrightarrow>
      error_routing e = FailMessage)"
proof (intro conjI allI impI)
  fix us u
  assume a: "orange_parse_dlr oslice raw = Inr us \<and> u \<in> set us"
  show "du_outcome u = OutDelivered \<longleftrightarrow> du_raw_status u = lit ''DeliveredToTerminal''"
    unfolding orange.outcome_is_classified [OF conjunct1 [OF a] conjunct2 [OF a]] by (rule orange_delivered_iff)
next
  fix us u
  assume a: "mtn_parse_dlr mslice rfc3339 raw = Inr us \<and> u \<in> set us"
  show "du_outcome u = OutDelivered \<longleftrightarrow> du_raw_status u = lit ''DELIVERED''"
    unfolding mtn.outcome_is_classified [OF conjunct1 [OF a] conjunct2 [OF a]] by (rule mtn_delivered_iff)
next
  fix e
  assume "orange_parse_dlr oslice raw = Inl e \<or> mtn_parse_dlr mslice rfc3339 raw = Inl e"
  then show "error_routing e = FailMessage"
    using orange.refusal_is_final mtn.refusal_is_final by blast
qed

definition demo_orange_slice :: "u8 list \<Rightarrow> ustring + delivery_info_notification" where
  "demo_orange_slice bs = (if bs = [] then Inl [] else
     Inr \<lparr>callback_data = Some (lit ''res-1''),
          delivery_info = One \<lparr>delivery_status = lit ''DeliveredToTerminal''\<rparr>\<rparr>)"

theorem dlr_never_invents_delivery_witness:
  "\<exists>u. orange_parse_dlr demo_orange_slice \<lparr>cb_headers = [], cb_body = [1]\<rparr> = Inr [u]
    \<and> du_outcome u = OutDelivered \<and> du_provider_ref u = lit ''res-1''"
  using dlr_never_invents_delivery [of demo_orange_slice "\<lparr>cb_headers = [], cb_body = [1]\<rparr>"]
  by (simp add: orange_parse_dlr_def demo_orange_slice_def)

text \<open>A submission is held as possibly sent exactly when the transport failed after the
  connection was up, by a timeout or an interrupted body; every other transport failure, and every
  answer with a status, is one the sender may act on. A rate limit retries the same provider after the
  negotiated delay, a server error opens the circuit, and any other status fails the message.\<close>

theorem submit_failures_classified:
  assumes "is_server_error s \<longleftrightarrow> 500 \<le> as_u16 s \<and> as_u16 s < 600"
  shows "(error_routing (classify_transport_error e p) = HoldIndeterminate \<longleftrightarrow>
        \<not> is_connect e \<and> (is_timeout e \<or> is_body e))
    \<and> (error_routing (classify_transport_error e p) \<noteq> HoldIndeterminate \<longrightarrow>
        error_routing (classify_transport_error e p) = OpenCircuitAndTryNextRoute)
    \<and> error_routing (classify_common_submit_status s body p after) =
        (if as_u16 s = 429 then RetryThisProvider after
         else if 500 \<le> as_u16 s \<and> as_u16 s < 600 then OpenCircuitAndTryNextRoute else FailMessage)"
  using assms by (simp add: classify_transport_error_def classify_common_submit_status_def)

theorem submit_failures_classified_witness:
  "error_routing (classify_common_submit_status
      \<lparr>as_u16 = 503, is_server_error = True, status_shown = lit ''503''\<rparr> [] (lit ''orange'') (secs 1))
    = OpenCircuitAndTryNextRoute
   \<and> error_routing (classify_transport_error \<lparr>is_connect = False, is_timeout = True, is_body = False,
      transport_shown = []\<rparr> (lit ''orange'')) = HoldIndeterminate"
  using submit_failures_classified [of "\<lparr>as_u16 = 503, is_server_error = True, status_shown = lit ''503''\<rparr>"
      "\<lparr>is_connect = False, is_timeout = True, is_body = False, transport_shown = []\<rparr>" "lit ''orange''" "[]" "secs 1"]
  by simp

end
