(* ===== verification/Store.thy ===== *)
theory Store
  imports Packed_Column Routing Provider
begin

text \<open>
  The shared database as the Rust code sees it: the enums and the row types of
  \<^verbatim>\<open>schemas/vsms.cstack\<close> that the worker and the receipt pipeline read and write (a row
  record holds the columns those parts use), the \<^verbatim>\<open>Update...Input\<close> patches, the transition
  tables with the guard triggers of
  \<^verbatim>\<open>backends/migrations/postgres/0002_bootstrap/up.sql\<close>, and the mapping of database errors
  (\<^verbatim>\<open>sms-api/src/errors.rs\<close>).

  A patch field is \<^verbatim>\<open>Option<T>\<close>, \<open>None\<close> meaning the column is not touched; for a
  nullable column it is an option of an option. An update through the generated delegate with
  \<^verbatim>\<open>if_match\<close> applies the patch, lets the trigger check and stamp the row, and adds one to the
  version column.
\<close>

subsection \<open>Enums\<close>

datatype schema_operator = mtn | orange | camtel | nexttel | unknown_operator

datatype schema_class = otp | transactional | notification | marketing

datatype schema_encoding = gsm7 | ucs2

datatype message_state =
  Accepted | Queued | Routed | Submitted | Delivered | Uncertain | Undelivered | MsgFailed
| Expired | Rejected | Cancelled

datatype job_state = JobPending | JobRunning | JobSucceeded | JobFailed | JobDead | JobCancelled

datatype attempt_state = AttPending | Delivering | AttSucceeded | AttFailed | AttDead

datatype provider_state = Active | Degraded | ProviderDisabled | Draining

datatype webhook_delivery_mode = sealed | hmac

datatype schema_outcome =
  delivered | uncertain | failed | expired | rejected | in_flight | unknown_outcome

subsection \<open>Rows\<close>

text \<open>A \<^verbatim>\<open>Decimal\<close> is its mantissa and its scale.\<close>

type_synonym decimal = "int \<times> nat"

record message =
  msg_id :: ustring
  msg_appId :: ustring
  msg_msisdn :: ustring
  msg_msisdnHash :: ustring
  msg_operator :: schema_operator
  msg_class :: schema_class
  msg_senderIdValue :: ustring
  msg_priority :: int
  msg_body :: "ustring option"
  msg_bodyHash :: ustring
  msg_bodyLength :: int
  msg_encoding :: schema_encoding
  msg_segments :: int
  msg_state :: message_state
  msg_stateReason :: "ustring option"
  msg_routeId :: "ustring option"
  msg_providerId :: "ustring option"
  msg_providerMessageRef :: "ustring option"
  msg_providerMessageRefAlt :: "ustring option"
  msg_excludedRouteIds :: "ustring option"
  msg_attempts :: int
  msg_maxAttempts :: int
  msg_leaseOwner :: "ustring option"
  msg_leaseUntil :: "instant option"
  msg_scheduledAt :: "instant option"
  msg_expiresAt :: instant
  msg_submittedAt :: "instant option"
  msg_finalizedAt :: "instant option"
  msg_createdAt :: instant
  msg_updatedAt :: instant
  msg_clientRef :: "ustring option"
  msg_idempotencyKey :: "ustring option"
  msg_purgedAt :: "instant option"
  msg_version :: int

record job =
  job_id :: ustring
  job_kind :: ustring
  job_payload :: ustring
  job_st :: job_state
  job_priority :: int
  job_runAt :: instant
  job_leaseOwner :: "ustring option"
  job_leaseUntil :: "instant option"
  job_attempts :: int
  job_maxAttempts :: int
  job_lastError :: "ustring option"
  job_startedAt :: "instant option"
  job_finishedAt :: "instant option"
  job_dedupeKey :: "ustring option"
  job_createdAt :: instant
  job_version :: int

record attempt =
  att_id :: ustring
  att_endpointId :: ustring
  att_st :: attempt_state
  att_attempts :: int
  att_leaseOwner :: "ustring option"
  att_leaseUntil :: "instant option"
  att_nextAttemptAt :: "instant option"
  att_lastStatusCode :: "int option"
  att_lastError :: "ustring option"
  att_deliveredAt :: "instant option"
  att_lastAttemptAt :: "instant option"
  att_sourceEventId :: ustring
  att_eventType :: ustring
  att_payload :: ustring
  att_version :: int

record endpoint =
  ep_id :: ustring
  ep_deliveryMode :: webhook_delivery_mode
  ep_active :: bool
  ep_circuitOpenUntil :: "instant option"
  ep_consecutiveFailures :: int
  ep_maxAttempts :: int
  ep_appId :: ustring
  ep_url :: ustring
  ep_audience :: "ustring option"
  ep_secret :: "ustring option"
  ep_prevSecret :: "ustring option"
  ep_secretRotatedAt :: "instant option"
  ep_version :: int

record provider =
  prov_id :: ustring
  prov_key :: ustring
  prov_state :: provider_state
  prov_consecutiveFailures :: int
  prov_circuitOpenUntil :: "instant option"
  prov_costPerSegmentXaf :: decimal
  prov_version :: int

record route =
  route_id :: ustring
  route_name :: ustring
  route_priority :: int
  route_weight :: int
  route_enabled :: bool
  route_matchOperator :: "schema_operator option"
  route_matchClass :: "schema_class option"
  route_matchAppId :: "ustring option"
  route_matchPrefix :: "ustring option"
  route_providerId :: ustring
  route_failoverRouteId :: "ustring option"

record receipt_input =
  rec_messageId :: ustring
  rec_providerId :: ustring
  rec_providerMessageRef :: ustring
  rec_outcome :: schema_outcome
  rec_rawStatus :: ustring
  rec_errorCode :: "ustring option"
  rec_networkCode :: schema_operator
  rec_occurredAt :: "instant option"
  rec_rawPayload :: ustring

text \<open>A stored receipt carries its key and the time it was received; a new job carries the columns its
  creator gives; an envelope nonce is kept until it expires.\<close>

record stored_receipt =
  sr_id :: ustring
  sr_receivedAt :: instant
  sr_input :: receipt_input

record job_input =
  ji_kind :: ustring
  ji_dedupeKey :: "ustring option"
  ji_payload :: ustring
  ji_priority :: int
  ji_runAt :: instant
  ji_maxAttempts :: int

record nonce =
  nonce_id :: ustring
  nonce_expiresAt :: instant

subsection \<open>Patches\<close>

definition touch :: "'a \<Rightarrow> 'a option \<Rightarrow> 'a" where
  "touch old p = (case p of None \<Rightarrow> old | Some new \<Rightarrow> new)"

lemma touch_simps [simp]: "touch old None = old" "touch old (Some new) = new"
  by (simp_all add: touch_def)

record message_patch =
  mp_state :: "message_state option"
  mp_stateReason :: "ustring option option"
  mp_routeId :: "ustring option option"
  mp_providerId :: "ustring option option"
  mp_providerMessageRef :: "ustring option option"
  mp_providerMessageRefAlt :: "ustring option option"
  mp_excludedRouteIds :: "ustring option option"
  mp_attempts :: "int option"
  mp_leaseOwner :: "ustring option option"
  mp_leaseUntil :: "instant option option"
  mp_msisdn :: "ustring option"
  mp_body :: "ustring option option"
  mp_clientRef :: "ustring option option"
  mp_idempotencyKey :: "ustring option option"
  mp_purgedAt :: "instant option option"

definition no_message_patch :: message_patch where
  "no_message_patch = \<lparr>mp_state = None, mp_stateReason = None, mp_routeId = None, mp_providerId = None,
     mp_providerMessageRef = None, mp_providerMessageRefAlt = None, mp_excludedRouteIds = None,
     mp_attempts = None, mp_leaseOwner = None, mp_leaseUntil = None, mp_msisdn = None, mp_body = None,
     mp_clientRef = None, mp_idempotencyKey = None, mp_purgedAt = None\<rparr>"

definition patch_message :: "message_patch \<Rightarrow> message \<Rightarrow> message" where
  "patch_message p m = m\<lparr>
     msg_state := touch (msg_state m) (mp_state p),
     msg_stateReason := touch (msg_stateReason m) (mp_stateReason p),
     msg_routeId := touch (msg_routeId m) (mp_routeId p),
     msg_providerId := touch (msg_providerId m) (mp_providerId p),
     msg_providerMessageRef := touch (msg_providerMessageRef m) (mp_providerMessageRef p),
     msg_providerMessageRefAlt := touch (msg_providerMessageRefAlt m) (mp_providerMessageRefAlt p),
     msg_excludedRouteIds := touch (msg_excludedRouteIds m) (mp_excludedRouteIds p),
     msg_attempts := touch (msg_attempts m) (mp_attempts p),
     msg_leaseOwner := touch (msg_leaseOwner m) (mp_leaseOwner p),
     msg_leaseUntil := touch (msg_leaseUntil m) (mp_leaseUntil p),
     msg_msisdn := touch (msg_msisdn m) (mp_msisdn p),
     msg_body := touch (msg_body m) (mp_body p),
     msg_clientRef := touch (msg_clientRef m) (mp_clientRef p),
     msg_idempotencyKey := touch (msg_idempotencyKey m) (mp_idempotencyKey p),
     msg_purgedAt := touch (msg_purgedAt m) (mp_purgedAt p)\<rparr>"

record job_patch =
  jp_state :: "job_state option"
  jp_attempts :: "int option"
  jp_runAt :: "instant option"
  jp_leaseOwner :: "ustring option option"
  jp_leaseUntil :: "instant option option"
  jp_lastError :: "ustring option option"

definition no_job_patch :: job_patch where
  "no_job_patch = \<lparr>jp_state = None, jp_attempts = None, jp_runAt = None, jp_leaseOwner = None,
     jp_leaseUntil = None, jp_lastError = None\<rparr>"

definition patch_job :: "job_patch \<Rightarrow> job \<Rightarrow> job" where
  "patch_job p j = j\<lparr>
     job_st := touch (job_st j) (jp_state p),
     job_attempts := touch (job_attempts j) (jp_attempts p),
     job_runAt := touch (job_runAt j) (jp_runAt p),
     job_leaseOwner := touch (job_leaseOwner j) (jp_leaseOwner p),
     job_leaseUntil := touch (job_leaseUntil j) (jp_leaseUntil p),
     job_lastError := touch (job_lastError j) (jp_lastError p)\<rparr>"

record attempt_patch =
  ap_state :: "attempt_state option"
  ap_attempts :: "int option"
  ap_leaseOwner :: "ustring option option"
  ap_leaseUntil :: "instant option option"
  ap_nextAttemptAt :: "instant option option"
  ap_lastStatusCode :: "int option option"
  ap_lastError :: "ustring option option"
  ap_lastAttemptAt :: "instant option option"

definition no_attempt_patch :: attempt_patch where
  "no_attempt_patch = \<lparr>ap_state = None, ap_attempts = None, ap_leaseOwner = None, ap_leaseUntil = None,
     ap_nextAttemptAt = None, ap_lastStatusCode = None, ap_lastError = None, ap_lastAttemptAt = None\<rparr>"

definition patch_attempt :: "attempt_patch \<Rightarrow> attempt \<Rightarrow> attempt" where
  "patch_attempt p a = a\<lparr>
     att_st := touch (att_st a) (ap_state p),
     att_attempts := touch (att_attempts a) (ap_attempts p),
     att_leaseOwner := touch (att_leaseOwner a) (ap_leaseOwner p),
     att_leaseUntil := touch (att_leaseUntil a) (ap_leaseUntil p),
     att_nextAttemptAt := touch (att_nextAttemptAt a) (ap_nextAttemptAt p),
     att_lastStatusCode := touch (att_lastStatusCode a) (ap_lastStatusCode p),
     att_lastError := touch (att_lastError a) (ap_lastError p),
     att_lastAttemptAt := touch (att_lastAttemptAt a) (ap_lastAttemptAt p)\<rparr>"

record provider_patch =
  pp_consecutiveFailures :: "int option"
  pp_circuitOpenUntil :: "instant option option"

definition no_provider_patch :: provider_patch where
  "no_provider_patch = \<lparr>pp_consecutiveFailures = None, pp_circuitOpenUntil = None\<rparr>"

definition patch_provider :: "provider_patch \<Rightarrow> provider \<Rightarrow> provider" where
  "patch_provider p r = r\<lparr>
     prov_consecutiveFailures := touch (prov_consecutiveFailures r) (pp_consecutiveFailures p),
     prov_circuitOpenUntil := touch (prov_circuitOpenUntil r) (pp_circuitOpenUntil p)\<rparr>"

record endpoint_patch =
  epp_active :: "bool option"
  epp_consecutiveFailures :: "int option"
  epp_circuitOpenUntil :: "instant option option"
  epp_deliveryMode :: "webhook_delivery_mode option"
  epp_audience :: "ustring option option"
  epp_secret :: "ustring option option"
  epp_prevSecret :: "ustring option option"
  epp_secretRotatedAt :: "instant option option"

definition no_endpoint_patch :: endpoint_patch where
  "no_endpoint_patch = \<lparr>epp_active = None, epp_consecutiveFailures = None, epp_circuitOpenUntil = None,
     epp_deliveryMode = None, epp_audience = None, epp_secret = None, epp_prevSecret = None,
     epp_secretRotatedAt = None\<rparr>"

definition patch_endpoint :: "endpoint_patch \<Rightarrow> endpoint \<Rightarrow> endpoint" where
  "patch_endpoint p e = e\<lparr>
     ep_active := touch (ep_active e) (epp_active p),
     ep_consecutiveFailures := touch (ep_consecutiveFailures e) (epp_consecutiveFailures p),
     ep_circuitOpenUntil := touch (ep_circuitOpenUntil e) (epp_circuitOpenUntil p),
     ep_deliveryMode := touch (ep_deliveryMode e) (epp_deliveryMode p),
     ep_audience := touch (ep_audience e) (epp_audience p),
     ep_secret := touch (ep_secret e) (epp_secret p),
     ep_prevSecret := touch (ep_prevSecret e) (epp_prevSecret p),
     ep_secretRotatedAt := touch (ep_secretRotatedAt e) (epp_secretRotatedAt p)\<rparr>"

lemmas patch_defs [row_defs] = patch_message_def patch_job_def patch_attempt_def patch_provider_def patch_endpoint_def
  no_message_patch_def no_job_patch_def no_attempt_patch_def no_provider_patch_def no_endpoint_patch_def

subsection \<open>The transition tables\<close>

definition message_state_transitions :: "(message_state \<times> message_state) list" where
  [state_edges]: "message_state_transitions =
    [(Accepted, Queued), (Accepted, Rejected), (Accepted, Cancelled), (Accepted, Expired),
     (Queued, Routed), (Queued, Cancelled), (Queued, Expired), (Queued, MsgFailed),
     (Routed, Submitted), (Routed, Queued), (Routed, MsgFailed), (Routed, Expired),
     (Routed, Cancelled), (Routed, Uncertain),
     (Submitted, Delivered), (Submitted, Uncertain), (Submitted, Undelivered),
     (Submitted, MsgFailed), (Submitted, Expired),
     (Uncertain, Delivered), (Uncertain, MsgFailed), (Uncertain, Expired),
     (Undelivered, Queued), (Undelivered, MsgFailed), (Undelivered, Expired)]"

definition job_state_transitions :: "(job_state \<times> job_state) list" where
  [state_edges]: "job_state_transitions =
    [(JobPending, JobRunning), (JobPending, JobCancelled),
     (JobRunning, JobSucceeded), (JobRunning, JobFailed), (JobRunning, JobPending),
     (JobFailed, JobPending), (JobFailed, JobDead), (JobFailed, JobCancelled),
     (JobDead, JobPending)]"

definition attempt_state_transitions :: "(attempt_state \<times> attempt_state) list" where
  [state_edges]: "attempt_state_transitions =
    [(AttPending, Delivering), (AttFailed, Delivering),
     (Delivering, AttSucceeded), (Delivering, AttFailed), (Delivering, AttDead),
     (AttFailed, AttPending), (AttDead, AttPending)]"

text \<open>The guard every trigger starts with: a same-state write passes, any other needs a row of the
  transition table. The interface: a table and the states nothing leaves.\<close>

definition guard_allows :: "('s \<times> 's) list \<Rightarrow> 's \<Rightarrow> 's \<Rightarrow> bool" where
  "guard_allows table old new \<longleftrightarrow> old = new \<or> (old, new) \<in> set table"

locale guarded_machine =
  fixes table :: "('s \<times> 's) list" and terminal :: "'s \<Rightarrow> bool"
  assumes terminal_final: "terminal s \<Longrightarrow> (s, t) \<notin> set table"
begin

lemma guard_terminal: "terminal s \<Longrightarrow> guard_allows table s t \<Longrightarrow> t = s"
  using terminal_final by (auto simp: guard_allows_def)

lemma path_from_terminal: "(guard_allows table)\<^sup>*\<^sup>* s t \<Longrightarrow> terminal s \<Longrightarrow> t = s"
  by (induction rule: rtranclp_induct) (auto dest: guard_terminal)

end

fun message_terminal :: "message_state \<Rightarrow> bool" where
  "message_terminal s \<longleftrightarrow> s \<in> {Delivered, MsgFailed, Expired, Rejected, Cancelled}"

fun job_terminal :: "job_state \<Rightarrow> bool" where
  "job_terminal s \<longleftrightarrow> s \<in> {JobSucceeded, JobCancelled}"

fun attempt_terminal :: "attempt_state \<Rightarrow> bool" where
  "attempt_terminal s \<longleftrightarrow> s = AttSucceeded"

interpretation message_machine: guarded_machine message_state_transitions message_terminal
  by unfold_locales (auto simp: state_edges)

interpretation job_machine: guarded_machine job_state_transitions job_terminal
  by unfold_locales (auto simp: state_edges)

interpretation attempt_machine: guarded_machine attempt_state_transitions attempt_terminal
  by unfold_locales (auto simp: state_edges)

subsection \<open>Inserting a job\<close>

text \<open>The unique index \<^verbatim>\<open>jobs_dedupe_idx\<close>: two jobs that are pending, running or failed
  never share a kind and a deduplication key.\<close>

definition dedupe_blocks :: "job_input \<Rightarrow> job \<Rightarrow> bool" where
  "dedupe_blocks i j \<longleftrightarrow> ji_dedupeKey i \<noteq> None \<and> job_dedupeKey j = ji_dedupeKey i \<and> job_kind j = ji_kind i
     \<and> job_st j \<in> {JobPending, JobRunning, JobFailed}"

definition new_job :: "ustring \<Rightarrow> instant \<Rightarrow> int \<Rightarrow> job_input \<Rightarrow> job" where
  "new_job key now version i = \<lparr>job_id = key, job_kind = ji_kind i, job_payload = ji_payload i, job_st = JobPending,
     job_priority = ji_priority i, job_runAt = ji_runAt i, job_leaseOwner = None, job_leaseUntil = None,
     job_attempts = 0, job_maxAttempts = ji_maxAttempts i, job_lastError = None, job_startedAt = None,
     job_finishedAt = None, job_dedupeKey = ji_dedupeKey i, job_createdAt = now, job_version = version\<rparr>"

subsection \<open>Inserting a message\<close>

text \<open>The columns a creator gives; the database stores the message accepted, with no attempt made. The unique index
  on \<^verbatim>\<open>(app_id, idempotency_key)\<close> keeps two messages of an application from sharing a key, and the
  schema bounds the number of segments.\<close>

record message_input =
  mi_appId :: ustring
  mi_clientRef :: "ustring option"
  mi_idempotencyKey :: "ustring option"
  mi_msisdn :: ustring
  mi_msisdnHash :: ustring
  mi_operator :: schema_operator
  mi_senderIdValue :: ustring
  mi_class :: schema_class
  mi_priority :: int
  mi_body :: "ustring option"
  mi_bodyHash :: ustring
  mi_bodyLength :: int
  mi_encoding :: schema_encoding
  mi_segments :: int
  mi_maxAttempts :: int
  mi_scheduledAt :: "instant option"
  mi_expiresAt :: instant

definition new_message :: "ustring \<Rightarrow> instant \<Rightarrow> int \<Rightarrow> message_input \<Rightarrow> message" where
  "new_message key now version i = \<lparr>msg_id = key, msg_appId = mi_appId i, msg_msisdn = mi_msisdn i,
     msg_msisdnHash = mi_msisdnHash i, msg_operator = mi_operator i, msg_class = mi_class i,
     msg_senderIdValue = mi_senderIdValue i, msg_priority = mi_priority i, msg_body = mi_body i,
     msg_bodyHash = mi_bodyHash i, msg_bodyLength = mi_bodyLength i, msg_encoding = mi_encoding i,
     msg_segments = mi_segments i, msg_state = Accepted, msg_stateReason = None, msg_routeId = None,
     msg_providerId = None, msg_providerMessageRef = None, msg_providerMessageRefAlt = None,
     msg_excludedRouteIds = None, msg_attempts = 0, msg_maxAttempts = mi_maxAttempts i, msg_leaseOwner = None,
     msg_leaseUntil = None, msg_scheduledAt = mi_scheduledAt i, msg_expiresAt = mi_expiresAt i,
     msg_submittedAt = None, msg_finalizedAt = None, msg_createdAt = now, msg_updatedAt = now,
     msg_clientRef = mi_clientRef i, msg_idempotencyKey = mi_idempotencyKey i, msg_purgedAt = None,
     msg_version = version\<rparr>"

definition same_key_blocks :: "message_input \<Rightarrow> message \<Rightarrow> bool" where
  "same_key_blocks i m \<longleftrightarrow> mi_idempotencyKey i \<noteq> None \<and> msg_idempotencyKey m = mi_idempotencyKey i
     \<and> msg_appId m = mi_appId i"

definition segments_in_range :: "message_input \<Rightarrow> bool" where
  "segments_in_range i \<longleftrightarrow> 1 \<le> mi_segments i \<and> mi_segments i \<le> 10"

subsection \<open>The guard triggers\<close>

text \<open>\<open>None\<close> is the exception with SQLSTATE SM001; \<open>now\<close> is the database's clock.\<close>

definition messages_guard_transition :: "instant \<Rightarrow> message \<Rightarrow> message \<Rightarrow> message option" where
  "messages_guard_transition now old new =
     (if msg_state new = msg_state old then Some new
      else if (msg_state old, msg_state new) \<notin> set message_state_transitions then None
      else
        (let new1 = (if message_terminal (msg_state new) \<and> msg_finalizedAt new = None
                     then new\<lparr>msg_finalizedAt := Some now\<rparr> else new);
             new2 = (if msg_state new = Submitted \<and> msg_submittedAt new1 = None
                     then new1\<lparr>msg_submittedAt := Some now\<rparr> else new1)
         in Some new2))"

definition jobs_guard_transition :: "instant \<Rightarrow> job \<Rightarrow> job \<Rightarrow> job option" where
  "jobs_guard_transition now old new =
     (if job_st new = job_st old then Some new
      else if (job_st old, job_st new) \<notin> set job_state_transitions then None
      else
        (let new1 = (if job_st new = JobRunning \<and> job_startedAt new = None
                     then new\<lparr>job_startedAt := Some now\<rparr> else new);
             new2 = (if job_st new \<in> {JobSucceeded, JobDead, JobCancelled} \<and> job_finishedAt new1 = None
                     then new1\<lparr>job_finishedAt := Some now\<rparr> else new1)
         in Some new2))"

definition attempts_guard_transition :: "instant \<Rightarrow> attempt \<Rightarrow> attempt \<Rightarrow> attempt option" where
  "attempts_guard_transition now old new =
     (if att_st new = att_st old then Some new
      else if (att_st old, att_st new) \<notin> set attempt_state_transitions then None
      else Some (if att_st new = AttSucceeded \<and> att_deliveredAt new = None
                 then new\<lparr>att_deliveredAt := Some now\<rparr> else new))"

text \<open>The row an update leaves, when the trigger lets it through; \<^verbatim>\<open>touch_updated_at\<close> stamps
  the messages it passes.\<close>

definition touch_updated_at :: "instant \<Rightarrow> message \<Rightarrow> message" where
  "touch_updated_at now m = m\<lparr>msg_updatedAt := now\<rparr>"

definition write_message :: "instant \<Rightarrow> message_patch \<Rightarrow> message \<Rightarrow> message option" where
  "write_message now p m = map_option (touch_updated_at now) (messages_guard_transition now m
     ((patch_message p m)\<lparr>msg_version := msg_version m + 1\<rparr>))"

definition write_job :: "instant \<Rightarrow> job_patch \<Rightarrow> job \<Rightarrow> job option" where
  "write_job now p j = jobs_guard_transition now j ((patch_job p j)\<lparr>job_version := job_version j + 1\<rparr>)"

definition write_attempt :: "instant \<Rightarrow> attempt_patch \<Rightarrow> attempt \<Rightarrow> attempt option" where
  "write_attempt now p a = attempts_guard_transition now a
     ((patch_attempt p a)\<lparr>att_version := att_version a + 1\<rparr>)"

lemmas write_defs [row_defs] = write_message_def write_job_def write_attempt_def
  touch_updated_at_def messages_guard_transition_def jobs_guard_transition_def attempts_guard_transition_def

lemma write_message_Some:
  assumes "write_message now p m = Some m'"
  shows "guard_allows message_state_transitions (msg_state m) (msg_state m')
    \<and> msg_version m' = msg_version m + 1 \<and> msg_id m' = msg_id m
    \<and> msg_state m' = touch (msg_state m) (mp_state p)
    \<and> msg_attempts m' = touch (msg_attempts m) (mp_attempts p)
    \<and> msg_maxAttempts m' = msg_maxAttempts m
    \<and> msg_routeId m' = touch (msg_routeId m) (mp_routeId p)
    \<and> msg_providerId m' = touch (msg_providerId m) (mp_providerId p)
    \<and> msg_excludedRouteIds m' = touch (msg_excludedRouteIds m) (mp_excludedRouteIds p)
    \<and> msg_providerMessageRef m' = touch (msg_providerMessageRef m) (mp_providerMessageRef p)
    \<and> msg_expiresAt m' = msg_expiresAt m
    \<and> msg_leaseUntil m' = touch (msg_leaseUntil m) (mp_leaseUntil p)
    \<and> msg_leaseOwner m' = touch (msg_leaseOwner m) (mp_leaseOwner p)"
  using assms
  by (auto simp: write_message_def messages_guard_transition_def patch_message_def guard_allows_def
      touch_updated_at_def Let_def split: if_splits)

lemma write_message_allowed:
  "(\<exists>m'. write_message now p m = Some m') \<longleftrightarrow>
     guard_allows message_state_transitions (msg_state m) (touch (msg_state m) (mp_state p))"
  by (auto simp: write_message_def messages_guard_transition_def patch_message_def guard_allows_def Let_def)

lemma write_job_Some:
  assumes "write_job now p j = Some j'"
  shows "guard_allows job_state_transitions (job_st j) (job_st j')
    \<and> job_version j' = job_version j + 1 \<and> job_id j' = job_id j
    \<and> job_st j' = touch (job_st j) (jp_state p)
    \<and> job_attempts j' = touch (job_attempts j) (jp_attempts p)"
  using assms
  by (auto simp: write_job_def jobs_guard_transition_def patch_job_def guard_allows_def Let_def split: if_splits)

lemma write_job_allowed:
  "(\<exists>j'. write_job now p j = Some j') \<longleftrightarrow>
     guard_allows job_state_transitions (job_st j) (touch (job_st j) (jp_state p))"
  by (auto simp: write_job_def jobs_guard_transition_def patch_job_def guard_allows_def Let_def)

lemma write_attempt_Some:
  assumes "write_attempt now p a = Some a'"
  shows "guard_allows attempt_state_transitions (att_st a) (att_st a')
    \<and> att_version a' = att_version a + 1 \<and> att_id a' = att_id a
    \<and> att_st a' = touch (att_st a) (ap_state p)
    \<and> att_attempts a' = touch (att_attempts a) (ap_attempts p)"
  using assms
  by (auto simp: write_attempt_def attempts_guard_transition_def patch_attempt_def guard_allows_def
      split: if_splits)

lemma write_attempt_allowed:
  "(\<exists>a'. write_attempt now p a = Some a') \<longleftrightarrow>
     guard_allows attempt_state_transitions (att_st a) (touch (att_st a) (ap_state p))"
  by (auto simp: write_attempt_def attempts_guard_transition_def patch_attempt_def guard_allows_def)

end
