(* ===== verification/Errors.thy ===== *)
theory Errors
  imports Prelude
begin

text \<open>
  \<^verbatim>\<open>backends/crates/sms-api/src/errors.rs\<close>: the framework's error values as far as the code
  tells them apart, and the mapping of database rejections onto client errors. \<^verbatim>\<open>OtherError\<close>
  stands for the constructors of \<^verbatim>\<open>CratestackError\<close> no modelled code matches on; the
  \<^verbatim>\<open>Display\<close> of the framework's error is the parameter \<open>to_string\<close>. The metric the
  mapping records is not part of its result.
\<close>

record db_error_info =
  db_detail :: ustring
  db_sqlstate_of :: "ustring option"
  db_constraint_of :: "ustring option"

datatype cratestack_error =
  PreconditionFailed ustring
| Forbidden ustring
| Conflict ustring
| Validation ustring
| NotFound ustring
| Unauthorized ustring
| BadRequest ustring
| UnsupportedMediaType ustring
| Internal ustring
| DatabaseTyped db_error_info
| OtherError ustring

fun db_sqlstate :: "cratestack_error \<Rightarrow> ustring option" where
  "db_sqlstate (DatabaseTyped info) = db_sqlstate_of info"
| "db_sqlstate _ = None"

fun db_constraint :: "cratestack_error \<Rightarrow> ustring option" where
  "db_constraint (DatabaseTyped info) = db_constraint_of info"
| "db_constraint _ = None"

definition SM001 :: ustring where "SM001 = lit ''SM001''"
definition UNIQUE_VIOLATION :: ustring where "UNIQUE_VIOLATION = lit ''23505''"
definition CHECK_VIOLATION :: ustring where "CHECK_VIOLATION = lit ''23514''"

definition WEBHOOK_ENDPOINT_RULES :: "(ustring \<times> ustring) list" where
  "WEBHOOK_ENDPOINT_RULES =
    [(lit ''webhook_endpoints_audience_not_vsms_check'',
      lit ''the audience cannot be vsms: that is the name the gateway's own routes answer to''),
     (lit ''webhook_endpoints_audience_only_for_sealed_check'',
      lit ''an hmac endpoint names no audience: leave it out (or clear it, when switching from sealed)''),
     (lit ''webhook_endpoints_audience_required_for_sealed_check'',
      lit ''a sealed endpoint needs an audience''),
     (lit ''webhook_endpoints_delivery_mode_hmac_needs_secret_check'',
      lit ''an hmac endpoint needs a secret''),
     (lit ''webhook_endpoints_delivery_mode_sealed_holds_no_secret_check'',
      lit ''a sealed endpoint holds no secret: secret, prevSecret and secretRotatedAt must be null''),
     (lit ''webhook_endpoints_url_sealable_for_sealed_check'',
      lit ''a sealed endpoint's URL must be http(s) with an ASCII host, no credentials, query or '' @
      lit ''fragment, and no `{`, `}` or `%` in its path: a delivery binds the path as its route'')]"

definition webhook_endpoint_rule :: "ustring \<Rightarrow> ustring option" where
  "webhook_endpoint_rule constraint =
     (if \<not> prefix (lit ''webhook_endpoints_'') constraint then None
      else
        (let message = (case find (\<lambda>(name, _). name = constraint) WEBHOOK_ENDPOINT_RULES of
                          Some (_, m) \<Rightarrow> m
                        | None \<Rightarrow> lit ''the endpoint breaks a rule the database holds'')
         in Some (message @ lit '' ('' @ constraint @ lit '')'')))"

text \<open>\<^verbatim>\<open>str::split_once\<close> followed by gluing the separator back on: the text from its first
  occurrence.\<close>

fun from_first :: "ustring \<Rightarrow> ustring \<Rightarrow> ustring option" where
  "from_first sep [] = (if sep = [] then Some [] else None)"
| "from_first sep (c # cs) = (if prefix sep (c # cs) then Some (c # cs) else from_first sep cs)"

definition illegal_transition_message :: "(cratestack_error \<Rightarrow> ustring) \<Rightarrow> cratestack_error \<Rightarrow> ustring" where
  "illegal_transition_message to_string error =
     (case from_first (lit ''illegal'') (to_string error) of
        Some rest \<Rightarrow> rest
      | None \<Rightarrow> lit ''illegal state transition'')"

definition map_database_error :: "(cratestack_error \<Rightarrow> ustring) \<Rightarrow> cratestack_error \<Rightarrow> cratestack_error" where
  "map_database_error to_string error =
     (case db_sqlstate error of
        None \<Rightarrow> error
      | Some code \<Rightarrow>
          if code = SM001 then Conflict (illegal_transition_message to_string error)
          else if code = UNIQUE_VIOLATION then
            Conflict (case db_constraint error of
                        None \<Rightarrow> lit ''resource already exists''
                      | Some c \<Rightarrow> lit ''resource already exists ('' @ c @ lit '')'')
          else if code = CHECK_VIOLATION then
            (case Option.bind (db_constraint error) webhook_endpoint_rule of
               Some message \<Rightarrow> Validation message
             | None \<Rightarrow> error)
          else error)"

definition is_illegal_transition :: "cratestack_error \<Rightarrow> bool" where
  "is_illegal_transition error \<longleftrightarrow> db_sqlstate error = Some SM001"

lemma sqlstates_distinct [simp]:
  "SM001 \<noteq> UNIQUE_VIOLATION" "SM001 \<noteq> CHECK_VIOLATION" "UNIQUE_VIOLATION \<noteq> CHECK_VIOLATION"
  "UNIQUE_VIOLATION \<noteq> SM001" "CHECK_VIOLATION \<noteq> SM001" "CHECK_VIOLATION \<noteq> UNIQUE_VIOLATION"
  by (simp_all add: SM001_def UNIQUE_VIOLATION_def CHECK_VIOLATION_def)

lemma map_database_error_keeps:
  "db_sqlstate e = None \<Longrightarrow> map_database_error ts e = e"
  by (simp add: map_database_error_def)

lemma map_database_error_not_lost:
  "map_database_error ts e = PreconditionFailed r \<longleftrightarrow> e = PreconditionFailed r"
  "map_database_error ts e = Forbidden r \<longleftrightarrow> e = Forbidden r"
  by (cases e; auto simp: map_database_error_def split: option.splits if_splits)+

text \<open>The mapping of database errors hides nothing it should not: a lost race and a denied write
  pass through untouched and nothing else becomes one of them; an illegal transition and a duplicate
  key become conflicts, a broken webhook-endpoint rule becomes a validation error, and every other
  database fault stays the fault it was. Applying it twice changes nothing more.\<close>

theorem map_database_error_exact:
  "map_database_error ts e =
     (if is_illegal_transition e then Conflict (illegal_transition_message ts e)
      else if db_sqlstate e = Some UNIQUE_VIOLATION then
        Conflict (lit ''resource already exists'' @
          (case db_constraint e of None \<Rightarrow> [] | Some c \<Rightarrow> lit '' ('' @ c @ lit '')''))
      else if db_sqlstate e = Some CHECK_VIOLATION \<and>
          (\<exists>c. db_constraint e = Some c \<and> prefix (lit ''webhook_endpoints_'') c) then
        Validation (the (webhook_endpoint_rule (the (db_constraint e))))
      else e)
   \<and> map_database_error ts (map_database_error ts e) = map_database_error ts e
   \<and> (map_database_error ts e = PreconditionFailed r \<longleftrightarrow> e = PreconditionFailed r)
   \<and> (map_database_error ts e = Forbidden r \<longleftrightarrow> e = Forbidden r)"
proof -
  have "map_database_error ts e =
     (if is_illegal_transition e then Conflict (illegal_transition_message ts e)
      else if db_sqlstate e = Some UNIQUE_VIOLATION then
        Conflict (lit ''resource already exists'' @
          (case db_constraint e of None \<Rightarrow> [] | Some c \<Rightarrow> lit '' ('' @ c @ lit '')''))
      else if db_sqlstate e = Some CHECK_VIOLATION \<and>
          (\<exists>c. db_constraint e = Some c \<and> prefix (lit ''webhook_endpoints_'') c) then
        Validation (the (webhook_endpoint_rule (the (db_constraint e))))
      else e)"
    by (auto simp: map_database_error_def is_illegal_transition_def webhook_endpoint_rule_def Let_def
        split: option.split)
  moreover have "map_database_error ts (map_database_error ts e) = map_database_error ts e"
    by (auto simp: map_database_error_def [of ts e] map_database_error_keeps split: option.splits)
  ultimately show ?thesis using map_database_error_not_lost by blast
qed

end
