(* ===== verification/Api_Store.thy ===== *)
theory Api_Store
  imports Store Errors
begin

text \<open>
  The tables only the API reads and writes: applications, their clients and signing keys, people, console keys,
  opt-outs, consent, senders, the operator prefixes and the trail of delivery lookups, as
  \<^verbatim>\<open>schemas/vsms.cstack\<close> declares them (a row record holds the columns the procedures use), the
  requests the procedures make of the generated delegates on these tables, and what the database answers
  (\<open>lawful_api\<close>). A read returns distinct stored rows that pass the filter, and all of them when it returns
  fewer than the limit; an insert takes a key nobody has and obeys the unique indexes; a write to a missing row fails.
\<close>

subsection \<open>Rows\<close>

record app =
  app_id :: ustring
  app_defaultSenderIdId :: "ustring option"
  app_monthlyQuota :: int
  app_transliterateToGsm7 :: bool
  app_active :: bool

record app_client_input =
  aci_appId :: ustring
  aci_clientId :: ustring
  aci_label :: ustring
  aci_scopes :: ustring

record app_client =
  ac_id :: ustring
  ac_input :: app_client_input
  ac_active :: bool
  ac_retiredAt :: "instant option"

datatype client_key_alg = ed25519

record client_key_input =
  cki_appClientId :: ustring
  cki_alg :: client_key_alg
  cki_publicKey :: "u8 list"
  cki_thumbprint :: ustring
  cki_label :: "ustring option"

record client_key =
  ck_id :: ustring
  ck_input :: client_key_input
  ck_revokedAt :: "instant option"

datatype console_key_alg = esp256

record console_key_input =
  coki_userId :: ustring
  coki_alg :: console_key_alg
  coki_publicKey :: "u8 list"
  coki_thumbprint :: ustring
  coki_label :: "ustring option"
  coki_pairedAt :: instant
  coki_expiresAt :: instant

record console_key =
  cok_id :: ustring
  cok_input :: console_key_input
  cok_revokedAt :: "instant option"

record user =
  usr_id :: ustring
  usr_subject :: ustring
  usr_email :: ustring
  usr_displayName :: ustring
  usr_roleKey :: ustring
  usr_active :: bool
  usr_version :: int

record user_input =
  ui_subject :: ustring
  ui_email :: ustring
  ui_displayName :: ustring
  ui_roleKey :: ustring

record federated_link =
  fl_id :: ustring
  fl_issuer :: ustring
  fl_subject :: ustring
  fl_userId :: ustring

record role =
  role_id :: ustring
  role_key :: ustring
  role_permissions :: ustring

datatype client_auth_method = private_key_jwt | auth_none

record oauth_client =
  oc_id :: ustring
  oc_clientId :: ustring
  oc_appClientId :: "ustring option"
  oc_scopes :: ustring
  oc_tokenEndpointAuthMethod :: client_auth_method
  oc_active :: bool

record operator_prefix_rule =
  opr_id :: ustring
  opr_prefix :: ustring
  opr_operator :: schema_operator
  opr_active :: bool

datatype opt_out_source = inbound_stop | source_admin | imported | source_operator

record opt_out_input =
  ooi_msisdnHash :: ustring
  ooi_msisdn :: ustring
  ooi_source :: opt_out_source
  ooi_scope :: ustring
  ooi_reason :: "ustring option"
  ooi_optedOutAt :: instant

record opt_out =
  oo_id :: ustring
  oo_input :: opt_out_input
  oo_createdAt :: instant

record consent_record =
  cr_id :: ustring
  cr_appId :: ustring
  cr_msisdnHash :: ustring
  cr_scope :: schema_class

record sender_id =
  sid_id :: ustring
  sid_value :: ustring
  sid_active :: bool

datatype registration_status = reg_pending | reg_submitted | reg_approved | reg_rejected

record sender_id_registration =
  sir_id :: ustring
  sir_senderIdId :: ustring
  sir_status :: registration_status

datatype lookup_key_kind = message_id_key | client_ref_key | msisdn_key

datatype lookup_outcome = lookup_pending | lookup_answered | lookup_over_budget

record lookup_input =
  li_actorSub :: ustring
  li_actorKind :: ustring
  li_actorRole :: ustring
  li_actorAppId :: "ustring option"
  li_keyKind :: lookup_key_kind
  li_keyValue :: ustring
  li_appIdFilter :: "ustring option"
  li_outcome :: lookup_outcome
  li_resultCount :: "int option"

record delivery_lookup =
  dl_id :: ustring
  dl_input :: lookup_input
  dl_createdAt :: instant

record api_tables =
  a_apps :: "ustring \<rightharpoonup> app"
  a_clients :: "ustring \<rightharpoonup> app_client"
  a_client_keys :: "ustring \<rightharpoonup> client_key"
  a_console_keys :: "ustring \<rightharpoonup> console_key"
  a_users :: "ustring \<rightharpoonup> user"
  a_links :: "ustring \<rightharpoonup> federated_link"
  a_roles :: "ustring \<rightharpoonup> role"
  a_oauth_clients :: "ustring \<rightharpoonup> oauth_client"
  a_prefix_rules :: "ustring \<rightharpoonup> operator_prefix_rule"
  a_opt_outs :: "ustring \<rightharpoonup> opt_out"
  a_consents :: "ustring \<rightharpoonup> consent_record"
  a_senders :: "ustring \<rightharpoonup> sender_id"
  a_registrations :: "ustring \<rightharpoonup> sender_id_registration"
  a_lookups :: "ustring \<rightharpoonup> delivery_lookup"

definition no_api_rows :: api_tables where
  "no_api_rows = \<lparr>a_apps = (\<lambda>_. None), a_clients = (\<lambda>_. None), a_client_keys = (\<lambda>_. None),
     a_console_keys = (\<lambda>_. None), a_users = (\<lambda>_. None), a_links = (\<lambda>_. None), a_roles = (\<lambda>_. None),
     a_oauth_clients = (\<lambda>_. None), a_prefix_rules = (\<lambda>_. None),
     a_opt_outs = (\<lambda>_. None), a_consents = (\<lambda>_. None), a_senders = (\<lambda>_. None),
     a_registrations = (\<lambda>_. None), a_lookups = (\<lambda>_. None)\<rparr>"

subsection \<open>Requests and answers\<close>

datatype api_request =
  FindApps "app \<Rightarrow> bool" "int option"
| FindAppClients "app_client \<Rightarrow> bool" "int option"
| CreateAppClient app_client_input
| FindClientKeys "client_key \<Rightarrow> bool" "int option"
| CreateClientKey client_key_input
| RevokeClientKey ustring instant
| FindConsoleKeys "console_key \<Rightarrow> bool" "int option"
| CreateConsoleKey console_key_input
| RevokeConsoleKey ustring instant
| FindUsers "user \<Rightarrow> bool" "int option"
| CreateUser user_input
| UpdateUserSubject ustring ustring int
| FindLinks "federated_link \<Rightarrow> bool" "int option"
| CreateLink ustring ustring ustring
| FindRoles "role \<Rightarrow> bool" "int option"
| FindOauthClients "oauth_client \<Rightarrow> bool" "int option"
| FindPrefixRules "operator_prefix_rule \<Rightarrow> bool"
| FindOptOuts "opt_out \<Rightarrow> bool" "int option"
| CreateOptOut opt_out_input
| FindConsents "consent_record \<Rightarrow> bool" "int option"
| FindSenders "sender_id \<Rightarrow> bool" "int option"
| FindRegistrations "sender_id_registration \<Rightarrow> bool" "int option"
| CreateLookup lookup_input
| CountLookups "delivery_lookup \<Rightarrow> bool"
| SettleLookup ustring lookup_outcome "int option"

datatype api_answer =
  Apps "cratestack_error + app list"
| AppClients "cratestack_error + app_client list"
| AppClientRow "cratestack_error + app_client"
| ClientKeys "cratestack_error + client_key list"
| ClientKeyRow "cratestack_error + client_key"
| ConsoleKeys "cratestack_error + console_key list"
| ConsoleKeyRow "cratestack_error + console_key"
| Users "cratestack_error + user list"
| UserRow "cratestack_error + user"
| Links "cratestack_error + federated_link list"
| LinkRow "cratestack_error + unit"
| Roles "cratestack_error + role list"
| OauthClients "cratestack_error + oauth_client list"
| PrefixRules "cratestack_error + operator_prefix_rule list"
| OptOuts "cratestack_error + opt_out list"
| OptOutRow "cratestack_error + opt_out"
| Consents "cratestack_error + consent_record list"
| Senders "cratestack_error + sender_id list"
| Registrations "cratestack_error + sender_id_registration list"
| LookupRow "cratestack_error + delivery_lookup"
| LookupCount "cratestack_error + int"

text \<open>What a query on a table answers, how many rows a count sees, and what an insert does. \<open>clash\<close> is the
  table's unique indexes.\<close>

definition in_limit :: "int option \<Rightarrow> 'a list \<Rightarrow> bool" where
  "in_limit l xs \<longleftrightarrow> (case l of None \<Rightarrow> True | Some n \<Rightarrow> int (length xs) \<le> n)"

definition below_limit :: "int option \<Rightarrow> 'a list \<Rightarrow> bool" where
  "below_limit l xs \<longleftrightarrow> (case l of None \<Rightarrow> True | Some n \<Rightarrow> int (length xs) < n)"

definition selects :: "('k \<rightharpoonup> 'r) \<Rightarrow> ('r \<Rightarrow> 'k) \<Rightarrow> ('r \<Rightarrow> bool) \<Rightarrow> int option \<Rightarrow> 'r list \<Rightarrow> bool" where
  "selects tbl key f l rows \<longleftrightarrow> in_limit l rows \<and> distinct rows \<and> (\<forall>r \<in> set rows. f r \<and> tbl (key r) = Some r)
     \<and> (below_limit l rows \<longrightarrow> (\<forall>i r. tbl i = Some r \<and> f r \<longrightarrow> r \<in> set rows))"

definition counts :: "('k \<rightharpoonup> 'r) \<Rightarrow> ('r \<Rightarrow> bool) \<Rightarrow> int \<Rightarrow> bool" where
  "counts tbl f n \<longleftrightarrow> n = int (card {i. \<exists>r. tbl i = Some r \<and> f r})"

definition inserts :: "('k \<rightharpoonup> 'r) \<Rightarrow> ('r \<Rightarrow> bool) \<Rightarrow> 'k \<Rightarrow> 'r \<Rightarrow> ('k \<rightharpoonup> 'r) \<Rightarrow> bool" where
  "inserts tbl clash i r tbl' \<longleftrightarrow> tbl i = None \<and> (\<forall>j s. tbl j = Some s \<longrightarrow> \<not> clash s) \<and> tbl' = tbl(i \<mapsto> r)"

lemma selects_rows: "selects tbl key f l rows \<Longrightarrow> r \<in> set rows \<Longrightarrow> f r \<and> tbl (key r) = Some r"
  by (simp add: selects_def)

lemma selects_none: "selects tbl key f (Some 1) [] \<Longrightarrow> tbl i = Some r \<Longrightarrow> \<not> f r"
  by (force simp: selects_def below_limit_def)

lemma selects_one:
  "tbl (key r) = Some r \<Longrightarrow> f r \<Longrightarrow> selects tbl key f (Some 1) [r]"
  by (simp add: selects_def in_limit_def below_limit_def)

lemma selects_Nil:
  "0 \<le> n \<Longrightarrow> (\<And>i r. tbl i = Some r \<Longrightarrow> \<not> f r) \<Longrightarrow> selects tbl key f (Some n) []"
  by (auto simp: selects_def in_limit_def below_limit_def)

lemma counts_unique: "counts tbl f m \<Longrightarrow> counts tbl f n \<Longrightarrow> m = n"
  by (simp add: counts_def)

text \<open>The row a create stores: the input's columns, no retirement, no revocation, the defaults of the schema.\<close>

definition new_app_client :: "ustring \<Rightarrow> app_client_input \<Rightarrow> app_client" where
  "new_app_client i x = \<lparr>ac_id = i, ac_input = x, ac_active = True, ac_retiredAt = None\<rparr>"

definition new_client_key :: "ustring \<Rightarrow> client_key_input \<Rightarrow> client_key" where
  "new_client_key i x = \<lparr>ck_id = i, ck_input = x, ck_revokedAt = None\<rparr>"

definition new_console_key :: "ustring \<Rightarrow> console_key_input \<Rightarrow> console_key" where
  "new_console_key i x = \<lparr>cok_id = i, cok_input = x, cok_revokedAt = None\<rparr>"

definition new_user :: "ustring \<Rightarrow> int \<Rightarrow> user_input \<Rightarrow> user" where
  "new_user i v x = \<lparr>usr_id = i, usr_subject = ui_subject x, usr_email = ui_email x,
     usr_displayName = ui_displayName x, usr_roleKey = ui_roleKey x, usr_active = True, usr_version = v\<rparr>"

definition new_opt_out :: "ustring \<Rightarrow> instant \<Rightarrow> opt_out_input \<Rightarrow> opt_out" where
  "new_opt_out i now x = \<lparr>oo_id = i, oo_input = x, oo_createdAt = now\<rparr>"

definition new_lookup :: "ustring \<Rightarrow> instant \<Rightarrow> lookup_input \<Rightarrow> delivery_lookup" where
  "new_lookup i now x = \<lparr>dl_id = i, dl_input = x, dl_createdAt = now\<rparr>"

lemmas new_row_defs [row_defs] = new_app_client_def new_client_key_def new_console_key_def new_user_def
  new_opt_out_def new_lookup_def

definition settle_lookup_row :: "lookup_outcome \<Rightarrow> int option \<Rightarrow> delivery_lookup \<Rightarrow> delivery_lookup" where
  "settle_lookup_row out n r = r\<lparr>dl_input := (dl_input r)\<lparr>li_outcome := out, li_resultCount := n\<rparr>\<rparr>"

definition lawful_api :: "api_tables \<Rightarrow> api_request \<Rightarrow> api_answer \<Rightarrow> api_tables \<Rightarrow> bool" where
  "lawful_api A q a A' \<longleftrightarrow> (case q of
     FindApps f l \<Rightarrow> A' = A \<and> ((\<exists>e. a = Apps (Inl e)) \<or> (\<exists>rows. a = Apps (Inr rows) \<and> selects (a_apps A) app_id f l rows))
   | FindAppClients f l \<Rightarrow> A' = A \<and> ((\<exists>e. a = AppClients (Inl e))
       \<or> (\<exists>rows. a = AppClients (Inr rows) \<and> selects (a_clients A) ac_id f l rows))
   | CreateAppClient x \<Rightarrow> (\<exists>e. a = AppClientRow (Inl e)) \<and> A' = A
       \<or> (\<exists>i t. a = AppClientRow (Inr (new_app_client i x)) \<and> A' = A\<lparr>a_clients := t\<rparr>
          \<and> inserts (a_clients A) (\<lambda>s. aci_clientId (ac_input s) = aci_clientId x) i (new_app_client i x) t)
   | FindClientKeys f l \<Rightarrow> A' = A \<and> ((\<exists>e. a = ClientKeys (Inl e))
       \<or> (\<exists>rows. a = ClientKeys (Inr rows) \<and> selects (a_client_keys A) ck_id f l rows))
   | CreateClientKey x \<Rightarrow> (\<exists>e. a = ClientKeyRow (Inl e)) \<and> A' = A
       \<or> (\<exists>i t. a = ClientKeyRow (Inr (new_client_key i x)) \<and> A' = A\<lparr>a_client_keys := t\<rparr>
          \<and> inserts (a_client_keys A) (\<lambda>s. cki_thumbprint (ck_input s) = cki_thumbprint x) i (new_client_key i x) t)
   | RevokeClientKey i now \<Rightarrow> (\<exists>e. a = ClientKeyRow (Inl e)) \<and> A' = A
       \<or> (\<exists>k. a_client_keys A i = Some k \<and> a = ClientKeyRow (Inr (k\<lparr>ck_revokedAt := Some now\<rparr>))
          \<and> A' = A\<lparr>a_client_keys := (a_client_keys A)(i \<mapsto> k\<lparr>ck_revokedAt := Some now\<rparr>)\<rparr>)
   | FindConsoleKeys f l \<Rightarrow> A' = A \<and> ((\<exists>e. a = ConsoleKeys (Inl e))
       \<or> (\<exists>rows. a = ConsoleKeys (Inr rows) \<and> selects (a_console_keys A) cok_id f l rows))
   | CreateConsoleKey x \<Rightarrow> (\<exists>e. a = ConsoleKeyRow (Inl e)) \<and> A' = A
       \<or> (\<exists>i t. a = ConsoleKeyRow (Inr (new_console_key i x)) \<and> A' = A\<lparr>a_console_keys := t\<rparr>
          \<and> inserts (a_console_keys A) (\<lambda>s. coki_thumbprint (cok_input s) = coki_thumbprint x) i (new_console_key i x) t)
   | RevokeConsoleKey i now \<Rightarrow> (\<exists>e. a = ConsoleKeyRow (Inl e)) \<and> A' = A
       \<or> (\<exists>k. a_console_keys A i = Some k \<and> a = ConsoleKeyRow (Inr (k\<lparr>cok_revokedAt := Some now\<rparr>))
          \<and> A' = A\<lparr>a_console_keys := (a_console_keys A)(i \<mapsto> k\<lparr>cok_revokedAt := Some now\<rparr>)\<rparr>)
   | FindUsers f l \<Rightarrow> A' = A \<and> ((\<exists>e. a = Users (Inl e)) \<or> (\<exists>rows. a = Users (Inr rows) \<and> selects (a_users A) usr_id f l rows))
   | CreateUser x \<Rightarrow> (\<exists>e. a = UserRow (Inl e)) \<and> A' = A
       \<or> (\<exists>i v t. a = UserRow (Inr (new_user i v x)) \<and> A' = A\<lparr>a_users := t\<rparr>
          \<and> inserts (a_users A) (\<lambda>s. usr_email s = ui_email x \<or> usr_subject s = ui_subject x) i (new_user i v x) t)
   | UpdateUserSubject i subject v \<Rightarrow> (\<exists>e. a = UserRow (Inl e)) \<and> A' = A
       \<or> (\<exists>u. a_users A i = Some u \<and> usr_version u = v
          \<and> (\<forall>j s. a_users A j = Some s \<and> j \<noteq> i \<longrightarrow> usr_subject s \<noteq> subject)
          \<and> a = UserRow (Inr (u\<lparr>usr_subject := subject, usr_version := v + 1\<rparr>))
          \<and> A' = A\<lparr>a_users := (a_users A)(i \<mapsto> u\<lparr>usr_subject := subject, usr_version := v + 1\<rparr>)\<rparr>)
   | FindLinks f l \<Rightarrow> A' = A \<and> ((\<exists>e. a = Links (Inl e)) \<or> (\<exists>rows. a = Links (Inr rows) \<and> selects (a_links A) fl_id f l rows))
   | CreateLink iss sub uid \<Rightarrow> (\<exists>e. a = LinkRow (Inl e)) \<and> A' = A
       \<or> (\<exists>i t. a = LinkRow (Inr ()) \<and> A' = A\<lparr>a_links := t\<rparr>
          \<and> inserts (a_links A) (\<lambda>s. fl_issuer s = iss \<and> fl_subject s = sub) i
              \<lparr>fl_id = i, fl_issuer = iss, fl_subject = sub, fl_userId = uid\<rparr> t)
   | FindRoles f l \<Rightarrow> A' = A \<and> ((\<exists>e. a = Roles (Inl e)) \<or> (\<exists>rows. a = Roles (Inr rows) \<and> selects (a_roles A) role_id f l rows))
   | FindOauthClients f l \<Rightarrow> A' = A \<and> ((\<exists>e. a = OauthClients (Inl e))
       \<or> (\<exists>rows. a = OauthClients (Inr rows) \<and> selects (a_oauth_clients A) oc_id f l rows))
   | FindPrefixRules f \<Rightarrow> A' = A \<and> ((\<exists>e. a = PrefixRules (Inl e))
       \<or> (\<exists>rows. a = PrefixRules (Inr rows) \<and> selects (a_prefix_rules A) opr_id f None rows))
   | FindOptOuts f l \<Rightarrow> A' = A \<and> ((\<exists>e. a = OptOuts (Inl e))
       \<or> (\<exists>rows. a = OptOuts (Inr rows) \<and> selects (a_opt_outs A) oo_id f l rows))
   | CreateOptOut x \<Rightarrow> (\<exists>e. a = OptOutRow (Inl e)) \<and> A' = A
       \<or> (\<exists>i now t. a = OptOutRow (Inr (new_opt_out i now x)) \<and> A' = A\<lparr>a_opt_outs := t\<rparr>
          \<and> inserts (a_opt_outs A) (\<lambda>s. ooi_msisdnHash (oo_input s) = ooi_msisdnHash x) i (new_opt_out i now x) t)
   | FindConsents f l \<Rightarrow> A' = A \<and> ((\<exists>e. a = Consents (Inl e))
       \<or> (\<exists>rows. a = Consents (Inr rows) \<and> selects (a_consents A) cr_id f l rows))
   | FindSenders f l \<Rightarrow> A' = A \<and> ((\<exists>e. a = Senders (Inl e))
       \<or> (\<exists>rows. a = Senders (Inr rows) \<and> selects (a_senders A) sid_id f l rows))
   | FindRegistrations f l \<Rightarrow> A' = A \<and> ((\<exists>e. a = Registrations (Inl e))
       \<or> (\<exists>rows. a = Registrations (Inr rows) \<and> selects (a_registrations A) sir_id f l rows))
   | CreateLookup x \<Rightarrow> (\<exists>e. a = LookupRow (Inl e)) \<and> A' = A
       \<or> (\<exists>i now t. a = LookupRow (Inr (new_lookup i now x)) \<and> A' = A\<lparr>a_lookups := t\<rparr>
          \<and> inserts (a_lookups A) (\<lambda>_. False) i (new_lookup i now x) t)
   | CountLookups f \<Rightarrow> A' = A \<and> ((\<exists>e. a = LookupCount (Inl e))
       \<or> (\<exists>n. a = LookupCount (Inr n) \<and> counts (a_lookups A) f n))
   | SettleLookup i out n \<Rightarrow> (\<exists>e. a = LookupRow (Inl e)) \<and> A' = A
       \<or> (\<exists>k. a_lookups A i = Some k \<and> a = LookupRow (Inr (settle_lookup_row out n k))
          \<and> A' = A\<lparr>a_lookups := (a_lookups A)(i \<mapsto> settle_lookup_row out n k)\<rparr>))"

end
