(* ===== verification/Program.thy ===== *)
theory Program
  imports Api_Store
begin

text \<open>
  The effects of the asynchronous Rust code. A handler is a \<open>prog\<close>: it returns, panics, or asks
  the outside world one thing (a read or write of the database, the clock, the random number
  generator, a provider) and goes on with the answer. What answers is not modelled code: the framework's
  delegates, PostgreSQL, the operating system, the provider. Their behaviour is the parameter
  \<open>answers\<close> of the step relation, and what the code relies on is \<open>lawful\<close>.

  Processes run interleaved over the shared tables, are started at any time and may be killed between any
  two calls. A rule-based calculus (\<open>wp\<close>) says of one program, for every answer it may get, that
  each write it issues is justified by a row it has read (\<open>snaps\<close>); the locale
  \<open>protocol\<close> turns this into invariants of every interleaving.
\<close>

subsection \<open>Requests and answers\<close>

text \<open>One HTTP request: where it goes, its headers, its body, and whether redirects are followed; its answer is
  the status or the text of a transport error.\<close>

record http_request =
  http_url :: ustring
  http_headers :: "(ustring \<times> ustring) list"
  http_body :: "u8 list"
  http_redirects :: bool

datatype skey = KInt int | KStr ustring | KDec decimal

datatype 'r order = Asc "'r \<Rightarrow> skey option" | Desc "'r \<Rightarrow> skey option"

text \<open>The order of the rows by the first column asked for: numbers by value, nulls above everything; the collation of
  strings is the database's.\<close>

fun skey_le :: "skey option \<Rightarrow> skey option \<Rightarrow> bool" where
  "skey_le x None = True"
| "skey_le None (Some k) = False"
| "skey_le (Some (KInt i)) (Some (KInt j)) = (i \<le> j)"
| "skey_le (Some (KDec (i, s))) (Some (KDec (j, t))) = (i * 10 ^ t \<le> j * 10 ^ s)"
| "skey_le (Some k) (Some k') = True"

fun in_order :: "'r order list \<Rightarrow> 'r list \<Rightarrow> bool" where
  "in_order [] rows = True"
| "in_order (Asc k # o_by) rows = sorted_wrt (\<lambda>x y. skey_le (k x) (k y)) rows"
| "in_order (Desc k # o_by) rows = sorted_wrt (\<lambda>x y. skey_le (k y) (k x)) rows"

lemma in_order_short [simp]: "in_order o_by []" "in_order o_by [x]"
  by (cases o_by; cases "hd o_by"; simp)+

datatype request =
  ReqNow
| ReqRandom
| FindMessages "message \<Rightarrow> bool" "message order list" "int option"
| UpdateMessage ustring message_patch int
| FindJobs "job \<Rightarrow> bool" "job order list" "int option"
| UpdateJob ustring job_patch int
| FindAttempts "attempt \<Rightarrow> bool" "attempt order list" "int option"
| UpdateAttempt ustring attempt_patch int
| FindEndpoints "endpoint \<Rightarrow> bool" "int option"
| UpdateEndpoint ustring endpoint_patch int
| FindProviders "provider \<Rightarrow> bool" "provider order list" "int option"
| UpdateProvider ustring provider_patch int
| FindRoutes "route order list"
| CreateReceipt receipt_input
| FindReceipts "stored_receipt \<Rightarrow> bool" "stored_receipt order list" "int option"
| DeleteReceipt ustring
| CreateJob job_input
| FindNonces "nonce \<Rightarrow> bool" "nonce order list" "int option"
| DeleteNonce ustring
| Submit ustring submit_request
| Post http_request
| CreateMessage message_input
| CountMessages "message \<Rightarrow> bool"
| CountJobs "job \<Rightarrow> bool"
| CountAttempts "attempt \<Rightarrow> bool"
| Api api_request
| TxBegin
| TxCommit
| TxAbort

datatype response =
  Time instant
| Draw f64
| Messages "cratestack_error + message list"
| MessageRow "cratestack_error + message"
| Jobs "cratestack_error + job list"
| JobRow "cratestack_error + job"
| Attempts "cratestack_error + attempt list"
| AttemptRow "cratestack_error + attempt"
| Endpoints "cratestack_error + endpoint list"
| Providers "cratestack_error + provider list"
| ProviderRow "cratestack_error + provider"
| Routes "cratestack_error + route list"
| EndpointRow "cratestack_error + endpoint"
| ReceiptRow "cratestack_error + unit"
| Receipts "cratestack_error + stored_receipt list"
| Deleted "cratestack_error + unit"
| Nonces "cratestack_error + nonce list"
| HttpResult "ustring + int"
| SubmitResult "provider_error + submit_ack"
| Count "cratestack_error + int"
| ApiAnswer api_answer
| TxDone "cratestack_error + unit"

datatype 'a prog = Ret 'a | Panic | Call request "response \<Rightarrow> 'a prog"

primrec bind_prog :: "'a prog \<Rightarrow> ('a \<Rightarrow> 'b prog) \<Rightarrow> 'b prog" where
  "bind_prog (Ret x) f = f x"
| "bind_prog Panic f = Panic"
| "bind_prog (Call req k) f = Call req (\<lambda>r. bind_prog (k r) f)"

text \<open>\<^verbatim>\<open>?\<close> on a result: an error returns early.\<close>

definition try_prog :: "('e + 'a) prog \<Rightarrow> ('a \<Rightarrow> ('e + 'b) prog) \<Rightarrow> ('e + 'b) prog" where
  "try_prog p f = bind_prog p (\<lambda>r. case r of Inl e \<Rightarrow> Ret (Inl e) | Inr x \<Rightarrow> f x)"

text \<open>The calls. Each takes the answer of its own kind; an answer of another kind does not exist.\<close>

definition utc_now :: "instant prog" where
  "utc_now = Call ReqNow (\<lambda>r. case r of Time t \<Rightarrow> Ret t | _ \<Rightarrow> Panic)"

definition random_f64 :: "f64 prog" where
  "random_f64 = Call ReqRandom (\<lambda>r. case r of Draw d \<Rightarrow> Ret d | _ \<Rightarrow> Panic)"

definition find_messages ::
    "(message \<Rightarrow> bool) \<Rightarrow> message order list \<Rightarrow> int option \<Rightarrow> (cratestack_error + message list) prog" where
  "find_messages f o_by l = Call (FindMessages f o_by l) (\<lambda>r. case r of Messages x \<Rightarrow> Ret x | _ \<Rightarrow> Panic)"

definition update_message :: "ustring \<Rightarrow> message_patch \<Rightarrow> int \<Rightarrow> (cratestack_error + message) prog" where
  "update_message i p v = Call (UpdateMessage i p v) (\<lambda>r. case r of MessageRow x \<Rightarrow> Ret x | _ \<Rightarrow> Panic)"

definition find_jobs ::
    "(job \<Rightarrow> bool) \<Rightarrow> job order list \<Rightarrow> int option \<Rightarrow> (cratestack_error + job list) prog" where
  "find_jobs f o_by l = Call (FindJobs f o_by l) (\<lambda>r. case r of Jobs x \<Rightarrow> Ret x | _ \<Rightarrow> Panic)"

definition update_job :: "ustring \<Rightarrow> job_patch \<Rightarrow> int \<Rightarrow> (cratestack_error + job) prog" where
  "update_job i p v = Call (UpdateJob i p v) (\<lambda>r. case r of JobRow x \<Rightarrow> Ret x | _ \<Rightarrow> Panic)"

definition find_attempts ::
    "(attempt \<Rightarrow> bool) \<Rightarrow> attempt order list \<Rightarrow> int option \<Rightarrow> (cratestack_error + attempt list) prog" where
  "find_attempts f o_by l = Call (FindAttempts f o_by l) (\<lambda>r. case r of Attempts x \<Rightarrow> Ret x | _ \<Rightarrow> Panic)"

definition update_attempt :: "ustring \<Rightarrow> attempt_patch \<Rightarrow> int \<Rightarrow> (cratestack_error + attempt) prog" where
  "update_attempt i p v = Call (UpdateAttempt i p v) (\<lambda>r. case r of AttemptRow x \<Rightarrow> Ret x | _ \<Rightarrow> Panic)"

definition find_endpoints ::
    "(endpoint \<Rightarrow> bool) \<Rightarrow> int option \<Rightarrow> (cratestack_error + endpoint list) prog" where
  "find_endpoints f l = Call (FindEndpoints f l) (\<lambda>r. case r of Endpoints x \<Rightarrow> Ret x | _ \<Rightarrow> Panic)"

definition update_endpoint :: "ustring \<Rightarrow> endpoint_patch \<Rightarrow> int \<Rightarrow> (cratestack_error + endpoint) prog" where
  "update_endpoint i p v = Call (UpdateEndpoint i p v) (\<lambda>r. case r of EndpointRow x \<Rightarrow> Ret x | _ \<Rightarrow> Panic)"

definition find_providers ::
    "(provider \<Rightarrow> bool) \<Rightarrow> provider order list \<Rightarrow> int option \<Rightarrow> (cratestack_error + provider list) prog" where
  "find_providers f o_by l = Call (FindProviders f o_by l) (\<lambda>r. case r of Providers x \<Rightarrow> Ret x | _ \<Rightarrow> Panic)"

definition update_provider :: "ustring \<Rightarrow> provider_patch \<Rightarrow> int \<Rightarrow> (cratestack_error + provider) prog" where
  "update_provider i p v = Call (UpdateProvider i p v) (\<lambda>r. case r of ProviderRow x \<Rightarrow> Ret x | _ \<Rightarrow> Panic)"

definition find_routes :: "route order list \<Rightarrow> (cratestack_error + route list) prog" where
  "find_routes o_by = Call (FindRoutes o_by) (\<lambda>r. case r of Routes x \<Rightarrow> Ret x | _ \<Rightarrow> Panic)"

definition create_receipt :: "receipt_input \<Rightarrow> (cratestack_error + unit) prog" where
  "create_receipt i = Call (CreateReceipt i) (\<lambda>r. case r of ReceiptRow x \<Rightarrow> Ret x | _ \<Rightarrow> Panic)"

definition find_receipts ::
    "(stored_receipt \<Rightarrow> bool) \<Rightarrow> stored_receipt order list \<Rightarrow> int option \<Rightarrow> (cratestack_error + stored_receipt list) prog" where
  "find_receipts f o_by l = Call (FindReceipts f o_by l) (\<lambda>r. case r of Receipts x \<Rightarrow> Ret x | _ \<Rightarrow> Panic)"

definition delete_receipt :: "ustring \<Rightarrow> (cratestack_error + unit) prog" where
  "delete_receipt i = Call (DeleteReceipt i) (\<lambda>r. case r of Deleted x \<Rightarrow> Ret x | _ \<Rightarrow> Panic)"

definition create_job :: "job_input \<Rightarrow> (cratestack_error + job) prog" where
  "create_job i = Call (CreateJob i) (\<lambda>r. case r of JobRow x \<Rightarrow> Ret x | _ \<Rightarrow> Panic)"

definition find_nonces ::
    "(nonce \<Rightarrow> bool) \<Rightarrow> nonce order list \<Rightarrow> int option \<Rightarrow> (cratestack_error + nonce list) prog" where
  "find_nonces f o_by l = Call (FindNonces f o_by l) (\<lambda>r. case r of Nonces x \<Rightarrow> Ret x | _ \<Rightarrow> Panic)"

definition delete_nonce :: "ustring \<Rightarrow> (cratestack_error + unit) prog" where
  "delete_nonce i = Call (DeleteNonce i) (\<lambda>r. case r of Deleted x \<Rightarrow> Ret x | _ \<Rightarrow> Panic)"

definition post :: "http_request \<Rightarrow> (ustring + int) prog" where
  "post req = Call (Post req) (\<lambda>r. case r of HttpResult x \<Rightarrow> Ret x | _ \<Rightarrow> Panic)"

definition submit :: "ustring \<Rightarrow> submit_request \<Rightarrow> (provider_error + submit_ack) prog" where
  "submit key req = Call (Submit key req) (\<lambda>r. case r of SubmitResult x \<Rightarrow> Ret x | _ \<Rightarrow> Panic)"

definition create_message :: "message_input \<Rightarrow> (cratestack_error + message) prog" where
  "create_message i = Call (CreateMessage i) (\<lambda>r. case r of MessageRow x \<Rightarrow> Ret x | _ \<Rightarrow> Panic)"

definition count_messages :: "(message \<Rightarrow> bool) \<Rightarrow> (cratestack_error + int) prog" where
  "count_messages f = Call (CountMessages f) (\<lambda>r. case r of Count x \<Rightarrow> Ret x | _ \<Rightarrow> Panic)"

definition count_jobs :: "(job \<Rightarrow> bool) \<Rightarrow> (cratestack_error + int) prog" where
  "count_jobs f = Call (CountJobs f) (\<lambda>r. case r of Count x \<Rightarrow> Ret x | _ \<Rightarrow> Panic)"

definition count_attempts :: "(attempt \<Rightarrow> bool) \<Rightarrow> (cratestack_error + int) prog" where
  "count_attempts f = Call (CountAttempts f) (\<lambda>r. case r of Count x \<Rightarrow> Ret x | _ \<Rightarrow> Panic)"

definition find_apps :: "(app \<Rightarrow> bool) \<Rightarrow> int option \<Rightarrow> (cratestack_error + app list) prog" where
  "find_apps f l = Call (Api (FindApps f l)) (\<lambda>r. case r of ApiAnswer (Apps x) \<Rightarrow> Ret x | _ \<Rightarrow> Panic)"

definition find_app_clients :: "(app_client \<Rightarrow> bool) \<Rightarrow> int option \<Rightarrow> (cratestack_error + app_client list) prog" where
  "find_app_clients f l = Call (Api (FindAppClients f l)) (\<lambda>r. case r of ApiAnswer (AppClients x) \<Rightarrow> Ret x | _ \<Rightarrow> Panic)"

definition create_app_client :: "app_client_input \<Rightarrow> (cratestack_error + app_client) prog" where
  "create_app_client i = Call (Api (CreateAppClient i)) (\<lambda>r. case r of ApiAnswer (AppClientRow x) \<Rightarrow> Ret x | _ \<Rightarrow> Panic)"

definition find_client_keys :: "(client_key \<Rightarrow> bool) \<Rightarrow> int option \<Rightarrow> (cratestack_error + client_key list) prog" where
  "find_client_keys f l = Call (Api (FindClientKeys f l)) (\<lambda>r. case r of ApiAnswer (ClientKeys x) \<Rightarrow> Ret x | _ \<Rightarrow> Panic)"

definition create_client_key :: "client_key_input \<Rightarrow> (cratestack_error + client_key) prog" where
  "create_client_key i = Call (Api (CreateClientKey i)) (\<lambda>r. case r of ApiAnswer (ClientKeyRow x) \<Rightarrow> Ret x | _ \<Rightarrow> Panic)"

definition revoke_client_key :: "ustring \<Rightarrow> instant \<Rightarrow> (cratestack_error + client_key) prog" where
  "revoke_client_key i now = Call (Api (RevokeClientKey i now)) (\<lambda>r. case r of ApiAnswer (ClientKeyRow x) \<Rightarrow> Ret x | _ \<Rightarrow> Panic)"

definition find_console_keys :: "(console_key \<Rightarrow> bool) \<Rightarrow> int option \<Rightarrow> (cratestack_error + console_key list) prog" where
  "find_console_keys f l = Call (Api (FindConsoleKeys f l)) (\<lambda>r. case r of ApiAnswer (ConsoleKeys x) \<Rightarrow> Ret x | _ \<Rightarrow> Panic)"

definition create_console_key :: "console_key_input \<Rightarrow> (cratestack_error + console_key) prog" where
  "create_console_key i = Call (Api (CreateConsoleKey i)) (\<lambda>r. case r of ApiAnswer (ConsoleKeyRow x) \<Rightarrow> Ret x | _ \<Rightarrow> Panic)"

definition revoke_console_key :: "ustring \<Rightarrow> instant \<Rightarrow> (cratestack_error + console_key) prog" where
  "revoke_console_key i now = Call (Api (RevokeConsoleKey i now)) (\<lambda>r. case r of ApiAnswer (ConsoleKeyRow x) \<Rightarrow> Ret x | _ \<Rightarrow> Panic)"

definition find_users :: "(user \<Rightarrow> bool) \<Rightarrow> int option \<Rightarrow> (cratestack_error + user list) prog" where
  "find_users f l = Call (Api (FindUsers f l)) (\<lambda>r. case r of ApiAnswer (Users x) \<Rightarrow> Ret x | _ \<Rightarrow> Panic)"

definition create_user :: "user_input \<Rightarrow> (cratestack_error + user) prog" where
  "create_user i = Call (Api (CreateUser i)) (\<lambda>r. case r of ApiAnswer (UserRow x) \<Rightarrow> Ret x | _ \<Rightarrow> Panic)"

definition update_user_subject :: "ustring \<Rightarrow> ustring \<Rightarrow> int \<Rightarrow> (cratestack_error + user) prog" where
  "update_user_subject i s v = Call (Api (UpdateUserSubject i s v)) (\<lambda>r. case r of ApiAnswer (UserRow x) \<Rightarrow> Ret x | _ \<Rightarrow> Panic)"

definition find_links :: "(federated_link \<Rightarrow> bool) \<Rightarrow> int option \<Rightarrow> (cratestack_error + federated_link list) prog" where
  "find_links f l = Call (Api (FindLinks f l)) (\<lambda>r. case r of ApiAnswer (Links x) \<Rightarrow> Ret x | _ \<Rightarrow> Panic)"

definition create_link :: "ustring \<Rightarrow> ustring \<Rightarrow> ustring \<Rightarrow> (cratestack_error + unit) prog" where
  "create_link iss sub u = Call (Api (CreateLink iss sub u)) (\<lambda>r. case r of ApiAnswer (LinkRow x) \<Rightarrow> Ret x | _ \<Rightarrow> Panic)"

definition find_roles :: "(role \<Rightarrow> bool) \<Rightarrow> int option \<Rightarrow> (cratestack_error + role list) prog" where
  "find_roles f l = Call (Api (FindRoles f l)) (\<lambda>r. case r of ApiAnswer (Roles x) \<Rightarrow> Ret x | _ \<Rightarrow> Panic)"

definition find_oauth_clients :: "(oauth_client \<Rightarrow> bool) \<Rightarrow> int option \<Rightarrow> (cratestack_error + oauth_client list) prog" where
  "find_oauth_clients f l = Call (Api (FindOauthClients f l)) (\<lambda>r. case r of ApiAnswer (OauthClients x) \<Rightarrow> Ret x | _ \<Rightarrow> Panic)"

definition find_prefix_rules :: "(operator_prefix_rule \<Rightarrow> bool) \<Rightarrow> (cratestack_error + operator_prefix_rule list) prog" where
  "find_prefix_rules f = Call (Api (FindPrefixRules f)) (\<lambda>r. case r of ApiAnswer (PrefixRules x) \<Rightarrow> Ret x | _ \<Rightarrow> Panic)"

definition find_opt_outs :: "(opt_out \<Rightarrow> bool) \<Rightarrow> int option \<Rightarrow> (cratestack_error + opt_out list) prog" where
  "find_opt_outs f l = Call (Api (FindOptOuts f l)) (\<lambda>r. case r of ApiAnswer (OptOuts x) \<Rightarrow> Ret x | _ \<Rightarrow> Panic)"

definition create_opt_out :: "opt_out_input \<Rightarrow> (cratestack_error + opt_out) prog" where
  "create_opt_out i = Call (Api (CreateOptOut i)) (\<lambda>r. case r of ApiAnswer (OptOutRow x) \<Rightarrow> Ret x | _ \<Rightarrow> Panic)"

definition find_consents :: "(consent_record \<Rightarrow> bool) \<Rightarrow> int option \<Rightarrow> (cratestack_error + consent_record list) prog" where
  "find_consents f l = Call (Api (FindConsents f l)) (\<lambda>r. case r of ApiAnswer (Consents x) \<Rightarrow> Ret x | _ \<Rightarrow> Panic)"

definition find_senders :: "(sender_id \<Rightarrow> bool) \<Rightarrow> int option \<Rightarrow> (cratestack_error + sender_id list) prog" where
  "find_senders f l = Call (Api (FindSenders f l)) (\<lambda>r. case r of ApiAnswer (Senders x) \<Rightarrow> Ret x | _ \<Rightarrow> Panic)"

definition find_registrations :: "(sender_id_registration \<Rightarrow> bool) \<Rightarrow> int option \<Rightarrow> (cratestack_error + sender_id_registration list) prog" where
  "find_registrations f l = Call (Api (FindRegistrations f l)) (\<lambda>r. case r of ApiAnswer (Registrations x) \<Rightarrow> Ret x | _ \<Rightarrow> Panic)"

definition create_lookup :: "lookup_input \<Rightarrow> (cratestack_error + delivery_lookup) prog" where
  "create_lookup i = Call (Api (CreateLookup i)) (\<lambda>r. case r of ApiAnswer (LookupRow x) \<Rightarrow> Ret x | _ \<Rightarrow> Panic)"

definition count_lookups :: "(delivery_lookup \<Rightarrow> bool) \<Rightarrow> (cratestack_error + int) prog" where
  "count_lookups f = Call (Api (CountLookups f)) (\<lambda>r. case r of ApiAnswer (LookupCount x) \<Rightarrow> Ret x | _ \<Rightarrow> Panic)"

definition settle_lookup :: "ustring \<Rightarrow> lookup_outcome \<Rightarrow> int option \<Rightarrow> (cratestack_error + delivery_lookup) prog" where
  "settle_lookup i out n = Call (Api (SettleLookup i out n)) (\<lambda>r. case r of ApiAnswer (LookupRow x) \<Rightarrow> Ret x | _ \<Rightarrow> Panic)"

definition tx_call :: "request \<Rightarrow> (cratestack_error + unit) prog" where
  "tx_call q = Call q (\<lambda>r. case r of TxDone x \<Rightarrow> Ret x | _ \<Rightarrow> Panic)"

text \<open>\<^verbatim>\<open>db.transaction(...)\<close>: the body's statements between begin and commit; a body that fails is
  rolled back and its error returned. The code reads the outcome of a rollback nowhere.\<close>

definition transaction :: "(cratestack_error + 'a) prog \<Rightarrow> (cratestack_error + 'a) prog" where
  "transaction body = try_prog (tx_call TxBegin) (\<lambda>_. bind_prog body (\<lambda>r. case r of
     Inl e \<Rightarrow> bind_prog (tx_call TxAbort) (\<lambda>_. Ret (Inl e))
   | Inr x \<Rightarrow> try_prog (tx_call TxCommit) (\<lambda>_. Ret (Inr x))))"

lemmas call_defs = utc_now_def random_f64_def find_messages_def update_message_def find_jobs_def
  update_job_def find_attempts_def update_attempt_def find_endpoints_def find_providers_def
  update_provider_def find_routes_def create_receipt_def submit_def update_endpoint_def find_receipts_def
  delete_receipt_def create_job_def find_nonces_def delete_nonce_def post_def create_message_def count_messages_def
  count_jobs_def count_attempts_def tx_call_def

lemmas api_call_defs = find_roles_def find_oauth_clients_def find_apps_def find_app_clients_def create_app_client_def find_client_keys_def create_client_key_def revoke_client_key_def
  find_console_keys_def create_console_key_def revoke_console_key_def find_users_def create_user_def update_user_subject_def
  find_links_def create_link_def find_prefix_rules_def find_opt_outs_def create_opt_out_def find_consents_def
  find_senders_def find_registrations_def create_lookup_def count_lookups_def settle_lookup_def

lemma bind_prog_assoc: "bind_prog (bind_prog p f) g = bind_prog p (\<lambda>x. bind_prog (f x) g)"
  by (induction p) auto

lemma bind_Ret: "bind_prog p Ret = p"
  by (induction p) auto

subsection \<open>Counting calls\<close>

text \<open>Whatever it is answered, the program makes at most \<open>n\<close> calls of the kind \<open>P\<close> on any of its paths.\<close>

primrec makes_at_most :: "(request \<Rightarrow> bool) \<Rightarrow> 'a prog \<Rightarrow> nat \<Rightarrow> bool" where
  "makes_at_most P (Ret x) n \<longleftrightarrow> True"
| "makes_at_most P Panic n \<longleftrightarrow> True"
| "makes_at_most P (Call req k) n \<longleftrightarrow>
     (if P req then 0 < n \<and> (\<forall>r. makes_at_most P (k r) (n - 1)) else \<forall>r. makes_at_most P (k r) n)"

lemma makes_mono: "makes_at_most P p n \<Longrightarrow> n \<le> n' \<Longrightarrow> makes_at_most P p n'"
proof (induction p arbitrary: n n')
  case (Call req k)
  have IH: "makes_at_most P (k r) i \<Longrightarrow> i \<le> i' \<Longrightarrow> makes_at_most P (k r) i'" for r i i'
    by (rule Call.IH) simp_all
  show ?case
    using Call.prems IH [of _ n n'] IH [of _ "n - 1" "n' - 1"] by (auto split: if_splits)
qed simp_all

lemma makes_bind:
  "makes_at_most P p a \<Longrightarrow> (\<And>x. makes_at_most P (f x) b) \<Longrightarrow> makes_at_most P (bind_prog p f) (a + b)"
proof (induction p arbitrary: a)
  case (Ret x)
  then show ?case using makes_mono [of P "f x" b "a + b"] by simp
next
  case (Call req k)
  have IH: "makes_at_most P (k r) i \<Longrightarrow> makes_at_most P (bind_prog (k r) f) (i + b)" for r i
    by (rule Call.IH) (simp_all add: Call.prems(2))
  show ?case
    using Call.prems(1) IH [of _ a] IH [of _ "a - 1"] by (auto split: if_splits)
qed simp

lemmas makes_bind0 = makes_bind [where a = 0 and b = 0, simplified]

lemma makes_try0:
  "makes_at_most P p 0 \<Longrightarrow> (\<And>x. makes_at_most P (f x) 0) \<Longrightarrow> makes_at_most P (try_prog p f) 0"
  unfolding try_prog_def by (rule makes_bind0) (simp_all split: sum.split)

fun is_submission :: "request \<Rightarrow> bool" where
  "is_submission (Submit _ _) = True"
| "is_submission _ = False"

fun is_post :: "request \<Rightarrow> bool" where
  "is_post (Post _) = True"
| "is_post _ = False"

subsection \<open>The shared tables and what a lawful database answers\<close>

record tables =
  t_messages :: "ustring \<rightharpoonup> message"
  t_jobs :: "ustring \<rightharpoonup> job"
  t_attempts :: "ustring \<rightharpoonup> attempt"
  t_endpoints :: "ustring \<rightharpoonup> endpoint"
  t_providers :: "ustring \<rightharpoonup> provider"
  t_routes :: "ustring \<rightharpoonup> route"
  t_receipts :: "ustring \<rightharpoonup> stored_receipt"
  t_nonces :: "ustring \<rightharpoonup> nonce"
  t_api :: api_tables

type_synonym world = "tables \<Rightarrow> request \<Rightarrow> response \<Rightarrow> tables \<Rightarrow> bool"

text \<open>A read returns stored rows that pass the filter, no more than the limit, and changes nothing. A
  write with \<^verbatim>\<open>if_match\<close> either fails and changes nothing, or finds the row at the given version,
  applies the patch and the trigger, and returns the row it stored. An insert uses a key nobody has and obeys the
  unique index; a delete removes one row. Nothing else touches the tables. The marks of a transaction do nothing by
  themselves here: the interleavings of its statements include every serial one, and a process that stops before its
  first write stands for a rollback; \<open>solo\<close> below has the rollback.\<close>

definition lawful_answer :: "tables \<Rightarrow> request \<Rightarrow> response \<Rightarrow> tables \<Rightarrow> bool" where
  "lawful_answer T req r T' \<longleftrightarrow> (case req of
     ReqNow \<Rightarrow> (\<exists>t. r = Time t) \<and> T' = T
   | ReqRandom \<Rightarrow> (\<exists>d. r = Draw d) \<and> T' = T
   | FindMessages f o_by l \<Rightarrow> T' = T \<and> ((\<exists>e. r = Messages (Inl e)) \<or> (\<exists>rows. r = Messages (Inr rows) \<and> in_limit l rows \<and> in_order o_by rows
       \<and> (\<forall>m \<in> set rows. f m \<and> t_messages T (msg_id m) = Some m)))
   | UpdateMessage i p v \<Rightarrow> (\<exists>e. r = MessageRow (Inl e)) \<and> T' = T
       \<or> (\<exists>row now m. r = MessageRow (Inr row) \<and> t_messages T i = Some m \<and> msg_version m = v
          \<and> write_message now p m = Some row \<and> T' = T\<lparr>t_messages := (t_messages T)(i \<mapsto> row)\<rparr>)
   | FindJobs f o_by l \<Rightarrow> T' = T \<and> ((\<exists>e. r = Jobs (Inl e)) \<or> (\<exists>rows. r = Jobs (Inr rows) \<and> in_limit l rows \<and> in_order o_by rows
       \<and> (\<forall>j \<in> set rows. f j \<and> t_jobs T (job_id j) = Some j)))
   | UpdateJob i p v \<Rightarrow> (\<exists>e. r = JobRow (Inl e)) \<and> T' = T
       \<or> (\<exists>row now j. r = JobRow (Inr row) \<and> t_jobs T i = Some j \<and> job_version j = v
          \<and> write_job now p j = Some row \<and> T' = T\<lparr>t_jobs := (t_jobs T)(i \<mapsto> row)\<rparr>)
   | FindAttempts f o_by l \<Rightarrow> T' = T \<and> ((\<exists>e. r = Attempts (Inl e)) \<or> (\<exists>rows. r = Attempts (Inr rows) \<and> in_limit l rows \<and> in_order o_by rows
       \<and> (\<forall>a \<in> set rows. f a \<and> t_attempts T (att_id a) = Some a)))
   | UpdateAttempt i p v \<Rightarrow> (\<exists>e. r = AttemptRow (Inl e)) \<and> T' = T
       \<or> (\<exists>row now a. r = AttemptRow (Inr row) \<and> t_attempts T i = Some a \<and> att_version a = v
          \<and> write_attempt now p a = Some row \<and> T' = T\<lparr>t_attempts := (t_attempts T)(i \<mapsto> row)\<rparr>)
   | FindEndpoints f l \<Rightarrow> T' = T \<and> ((\<exists>e. r = Endpoints (Inl e)) \<or> (\<exists>rows. r = Endpoints (Inr rows) \<and> in_limit l rows
       \<and> (\<forall>e \<in> set rows. f e \<and> t_endpoints T (ep_id e) = Some e)))
   | UpdateEndpoint i p v \<Rightarrow> (\<exists>e. r = EndpointRow (Inl e)) \<and> T' = T
       \<or> (\<exists>row old. r = EndpointRow (Inr row) \<and> t_endpoints T i = Some old \<and> ep_version old = v
          \<and> row = (patch_endpoint p old)\<lparr>ep_version := ep_version old + 1\<rparr>
          \<and> T' = T\<lparr>t_endpoints := (t_endpoints T)(i \<mapsto> row)\<rparr>)
   | FindProviders f o_by l \<Rightarrow> T' = T \<and> ((\<exists>e. r = Providers (Inl e)) \<or> (\<exists>rows. r = Providers (Inr rows) \<and> in_limit l rows \<and> in_order o_by rows
       \<and> (\<forall>p \<in> set rows. f p \<and> t_providers T (prov_id p) = Some p)))
   | UpdateProvider i p v \<Rightarrow> (\<exists>e. r = ProviderRow (Inl e)) \<and> T' = T
       \<or> (\<exists>row old. r = ProviderRow (Inr row) \<and> t_providers T i = Some old \<and> prov_version old = v
          \<and> row = (patch_provider p old)\<lparr>prov_version := prov_version old + 1\<rparr>
          \<and> T' = T\<lparr>t_providers := (t_providers T)(i \<mapsto> row)\<rparr>)
   | FindRoutes o_by \<Rightarrow> T' = T \<and> ((\<exists>e. r = Routes (Inl e)) \<or> (\<exists>rows. r = Routes (Inr rows) \<and> in_order o_by rows \<and> (\<forall>y \<in> set rows. t_routes T (route_id y) = Some y)))
   | CreateReceipt i \<Rightarrow> (\<exists>e. r = ReceiptRow (Inl e)) \<and> T' = T
       \<or> (\<exists>key now. r = ReceiptRow (Inr ()) \<and> t_receipts T key = None \<and> T' = T\<lparr>t_receipts := (t_receipts T)(key \<mapsto>
            \<lparr>sr_id = key, sr_receivedAt = now, sr_input = i\<rparr>)\<rparr>)
   | FindReceipts f o_by l \<Rightarrow> T' = T \<and> ((\<exists>e. r = Receipts (Inl e)) \<or> (\<exists>rows. r = Receipts (Inr rows) \<and> in_limit l rows \<and> in_order o_by rows
       \<and> (\<forall>x \<in> set rows. f x \<and> t_receipts T (sr_id x) = Some x)))
   | DeleteReceipt i \<Rightarrow> (\<exists>e. r = Deleted (Inl e)) \<and> T' = T
       \<or> r = Deleted (Inr ()) \<and> T' = T\<lparr>t_receipts := (t_receipts T)(i := None)\<rparr>
   | CreateJob i \<Rightarrow> (\<exists>e. r = JobRow (Inl e)) \<and> T' = T
       \<or> (\<exists>key now v. r = JobRow (Inr (new_job key now v i)) \<and> t_jobs T key = None
          \<and> (\<forall>x j. t_jobs T x = Some j \<longrightarrow> \<not> dedupe_blocks i j)
          \<and> T' = T\<lparr>t_jobs := (t_jobs T)(key \<mapsto> new_job key now v i)\<rparr>)
   | FindNonces f o_by l \<Rightarrow> T' = T \<and> ((\<exists>e. r = Nonces (Inl e)) \<or> (\<exists>rows. r = Nonces (Inr rows) \<and> in_limit l rows \<and> in_order o_by rows
       \<and> (\<forall>x \<in> set rows. f x \<and> t_nonces T (nonce_id x) = Some x)))
   | DeleteNonce i \<Rightarrow> (\<exists>e. r = Deleted (Inl e)) \<and> T' = T
       \<or> r = Deleted (Inr ()) \<and> T' = T\<lparr>t_nonces := (t_nonces T)(i := None)\<rparr>
   | Submit _ _ \<Rightarrow> (\<exists>x. r = SubmitResult x) \<and> T' = T
   | Post _ \<Rightarrow> (\<exists>x. r = HttpResult x) \<and> T' = T
   | CreateMessage i \<Rightarrow> (\<exists>e. r = MessageRow (Inl e)) \<and> T' = T
       \<or> (\<exists>key now v. r = MessageRow (Inr (new_message key now v i)) \<and> t_messages T key = None
          \<and> (\<forall>x m. t_messages T x = Some m \<longrightarrow> \<not> same_key_blocks i m) \<and> segments_in_range i
          \<and> T' = T\<lparr>t_messages := (t_messages T)(key \<mapsto> new_message key now v i)\<rparr>)
   | CountMessages f \<Rightarrow> T' = T \<and> ((\<exists>e. r = Count (Inl e)) \<or> (\<exists>n. r = Count (Inr n) \<and> counts (t_messages T) f n))
   | CountJobs f \<Rightarrow> T' = T \<and> ((\<exists>e. r = Count (Inl e)) \<or> (\<exists>n. r = Count (Inr n) \<and> counts (t_jobs T) f n))
   | CountAttempts f \<Rightarrow> T' = T \<and> ((\<exists>e. r = Count (Inl e)) \<or> (\<exists>n. r = Count (Inr n) \<and> counts (t_attempts T) f n))
   | Api q \<Rightarrow> (\<exists>a A. r = ApiAnswer a \<and> lawful_api (t_api T) q a A \<and> T' = T\<lparr>t_api := A\<rparr>)
   | TxBegin \<Rightarrow> (\<exists>x. r = TxDone x) \<and> T' = T
   | TxCommit \<Rightarrow> (\<exists>x. r = TxDone x) \<and> T' = T
   | TxAbort \<Rightarrow> (\<exists>x. r = TxDone x) \<and> T' = T)"

definition lawful :: "world \<Rightarrow> bool" where
  "lawful answers \<longleftrightarrow> (\<forall>T req r T'. answers T req r T' \<longrightarrow> lawful_answer T req r T')"

subsection \<open>One program alone\<close>

text \<open>A run of one program to its end with nobody else writing.\<close>

inductive alone :: "world \<Rightarrow> tables \<Rightarrow> 'a prog \<Rightarrow> tables \<Rightarrow> 'a \<Rightarrow> bool" for answers where
  alone_ret: "alone answers T (Ret x) T x"
| alone_call: "answers T req r T' \<Longrightarrow> alone answers T' (k r) U x \<Longrightarrow> alone answers T (Call req k) U x"

inductive_simps alone_Ret [simp]: "alone answers T (Ret x) U y"
inductive_simps alone_Panic [simp]: "alone answers T Panic U y"
inductive_simps alone_Call: "alone answers T (Call req k) U y"

lemma alone_bind [simp]:
  "alone answers T (bind_prog p f) U y \<longleftrightarrow> (\<exists>V x. alone answers T p V x \<and> alone answers V (f x) U y)"
  by (induction p arbitrary: T) (auto simp: alone_Call)

lemma alone_tryE:
  assumes "alone answers T (try_prog p f) U y"
  obtains e where "alone answers T p U (Inl e)" "y = Inl e"
  | V x where "alone answers T p V (Inr x)" "alone answers V (f x) U y"
proof -
  from assms obtain V r where r: "alone answers T p V r"
    and go: "alone answers V (case r of Inl e \<Rightarrow> Ret (Inl e) | Inr x \<Rightarrow> f x) U y"
    unfolding try_prog_def alone_bind by blast
  show ?thesis
    using that r go by (cases r) simp_all
qed

lemma alone_lawful:
  assumes "lawful answers" "alone answers T (Call req k) U y"
  obtains r T' where "lawful_answer T req r T'" "alone answers T' (k r) U y"
  using assms unfolding alone_Call lawful_def by blast

lemma alone_utc_now: "lawful answers \<Longrightarrow> alone answers T utc_now U t \<Longrightarrow> U = T"
  unfolding utc_now_def by (erule alone_lawful, assumption) (auto simp: lawful_answer_def)

lemma alone_find_messages:
  assumes "lawful answers" "alone answers T (find_messages f o_by l) U x"
  shows "U = T \<and> (\<forall>rows. x = Inr rows \<longrightarrow> (\<forall>m \<in> set rows. f m \<and> t_messages T (msg_id m) = Some m))"
proof -
  from assms obtain r T' where law: "lawful_answer T (FindMessages f o_by l) r T'"
    and r: "alone answers T' (case r of Messages x \<Rightarrow> Ret x | _ \<Rightarrow> Panic) U x"
    unfolding find_messages_def by (rule alone_lawful)
  from r have "r = Messages x" "T' = U" by (simp_all split: response.splits)
  with law show ?thesis by (auto simp: lawful_answer_def)
qed

lemma alone_update_message:
  assumes "lawful answers" "alone answers T (update_message i p v) U x"
  obtains e where "x = Inl e" "U = T"
  | row now m where "x = Inr row" "t_messages T i = Some m" "msg_version m = v"
      "write_message now p m = Some row" "U = T\<lparr>t_messages := (t_messages T)(i \<mapsto> row)\<rparr>"
proof -
  from assms obtain r T' where law: "lawful_answer T (UpdateMessage i p v) r T'"
    and r: "alone answers T' (case r of MessageRow x \<Rightarrow> Ret x | _ \<Rightarrow> Panic) U x"
    unfolding update_message_def by (rule alone_lawful)
  from r have "r = MessageRow x" "T' = U" by (simp_all split: response.splits)
  with law show ?thesis using that by (auto simp: lawful_answer_def)
qed

lemma alone_update_job:
  assumes "lawful answers" "alone answers T (update_job i p v) U x"
  obtains e where "x = Inl e" "U = T"
  | row now j where "x = Inr row" "t_jobs T i = Some j" "job_version j = v"
      "write_job now p j = Some row" "U = T\<lparr>t_jobs := (t_jobs T)(i \<mapsto> row)\<rparr>"
proof -
  from assms obtain r T' where law: "lawful_answer T (UpdateJob i p v) r T'"
    and r: "alone answers T' (case r of JobRow x \<Rightarrow> Ret x | _ \<Rightarrow> Panic) U x"
    unfolding update_job_def by (rule alone_lawful)
  from r have "r = JobRow x" "T' = U" by (simp_all split: response.splits)
  with law show ?thesis using that by (auto simp: lawful_answer_def)
qed

lemma alone_update_attempt:
  assumes "lawful answers" "alone answers T (update_attempt i p v) U x"
  obtains e where "x = Inl e" "U = T"
  | row now a where "x = Inr row" "t_attempts T i = Some a" "att_version a = v"
      "write_attempt now p a = Some row" "U = T\<lparr>t_attempts := (t_attempts T)(i \<mapsto> row)\<rparr>"
proof -
  from assms obtain r T' where law: "lawful_answer T (UpdateAttempt i p v) r T'"
    and r: "alone answers T' (case r of AttemptRow x \<Rightarrow> Ret x | _ \<Rightarrow> Panic) U x"
    unfolding update_attempt_def by (rule alone_lawful)
  from r have "r = AttemptRow x" "T' = U" by (simp_all split: response.splits)
  with law show ?thesis using that by (auto simp: lawful_answer_def)
qed

lemma alone_update_endpoint:
  assumes "lawful answers" "alone answers T (update_endpoint i p v) U x"
  obtains e where "x = Inl e" "U = T"
  | old where "t_endpoints T i = Some old" "ep_version old = v"
      "x = Inr ((patch_endpoint p old)\<lparr>ep_version := ep_version old + 1\<rparr>)"
      "U = T\<lparr>t_endpoints := (t_endpoints T)(i \<mapsto> (patch_endpoint p old)\<lparr>ep_version := ep_version old + 1\<rparr>)\<rparr>"
proof -
  from assms obtain r T' where law: "lawful_answer T (UpdateEndpoint i p v) r T'"
    and r: "alone answers T' (case r of EndpointRow x \<Rightarrow> Ret x | _ \<Rightarrow> Panic) U x"
    unfolding update_endpoint_def by (rule alone_lawful)
  from r have "r = EndpointRow x" "T' = U" by (simp_all split: response.splits)
  with law show ?thesis using that by (auto simp: lawful_answer_def)
qed

lemma alone_create_job:
  assumes "lawful answers" "alone answers T (create_job i) U x"
  obtains e where "x = Inl e" "U = T"
  | key now v where "x = Inr (new_job key now v i)" "t_jobs T key = None"
      "\<forall>y j. t_jobs T y = Some j \<longrightarrow> \<not> dedupe_blocks i j"
      "U = T\<lparr>t_jobs := (t_jobs T)(key \<mapsto> new_job key now v i)\<rparr>"
proof -
  from assms obtain r T' where law: "lawful_answer T (CreateJob i) r T'"
    and r: "alone answers T' (case r of JobRow x \<Rightarrow> Ret x | _ \<Rightarrow> Panic) U x"
    unfolding create_job_def by (rule alone_lawful)
  from r have "r = JobRow x" "T' = U" by (simp_all split: response.splits)
  with law show ?thesis using that by (auto simp: lawful_answer_def)
qed

lemma alone_bindI:
  "alone answers T p V x \<Longrightarrow> alone answers V (f x) U y \<Longrightarrow> alone answers T (bind_prog p f) U y"
  unfolding alone_bind by blast

subsection \<open>Interleaved processes\<close>

type_synonym config = "tables \<times> unit prog list"

text \<open>The programs of \<open>Start\<close> are started at will; a process is killed at will; a process makes one
  call at a time.\<close>

inductive sys_step :: "world \<Rightarrow> unit prog set \<Rightarrow> config \<Rightarrow> config \<Rightarrow> bool" for answers Start where
  spawn: "p \<in> Start \<Longrightarrow> sys_step answers Start (T, ps) (T, p # ps)"
| crash: "sys_step answers Start (T, ps @ p # qs) (T, ps @ qs)"
| call: "answers T req r T' \<Longrightarrow>
    sys_step answers Start (T, ps @ Call req k # qs) (T', ps @ k r # qs)"

inductive_cases sys_stepE [elim]: "sys_step answers Start c c'"

definition reachable :: "world \<Rightarrow> unit prog set \<Rightarrow> tables \<Rightarrow> config \<Rightarrow> bool" where
  "reachable answers Start T0 c \<longleftrightarrow> (sys_step answers Start)\<^sup>*\<^sup>* (T0, []) c"

subsection \<open>Rows only move forward\<close>

text \<open>A row read earlier is either still the stored one or has been superseded by a higher version.\<close>

definition historic :: "('r \<Rightarrow> 'k) \<Rightarrow> ('r \<Rightarrow> int) \<Rightarrow> ('k \<rightharpoonup> 'r) \<Rightarrow> 'r \<Rightarrow> bool" where
  "historic key ver tbl r \<longleftrightarrow>
     (\<exists>cur. tbl (key r) = Some cur \<and> ver r \<le> ver cur \<and> (ver r = ver cur \<longrightarrow> cur = r))"

lemma historic_current: "tbl (key r) = Some r \<Longrightarrow> historic key ver tbl r"
  by (auto simp: historic_def)

lemma historic_same: "historic key ver tbl r \<Longrightarrow> tbl (key r) = Some cur \<Longrightarrow> ver cur = ver r \<Longrightarrow> cur = r"
  by (auto simp: historic_def)

lemma historic_update:
  "historic key ver tbl r \<Longrightarrow> tbl i = Some old \<Longrightarrow> ver new = ver old + 1
    \<Longrightarrow> historic key ver (tbl(i \<mapsto> new)) r"
  by (auto simp: historic_def)

text \<open>What one call can do to one table: nothing, a new row under a fresh key, or one version step of one row
  along the guard.\<close>

definition version_step :: "('r \<Rightarrow> int) \<Rightarrow> ('r \<Rightarrow> 's) \<Rightarrow> ('s \<times> 's) list \<Rightarrow> ('k \<rightharpoonup> 'r) \<Rightarrow> ('k \<rightharpoonup> 'r) \<Rightarrow> bool" where
  "version_step ver st table tbl tbl' \<longleftrightarrow> tbl' = tbl \<or>
     (\<exists>i new. tbl i = None \<and> tbl' = tbl(i \<mapsto> new)) \<or>
     (\<exists>i old new. tbl i = Some old \<and> tbl' = tbl(i \<mapsto> new) \<and> ver new = ver old + 1
        \<and> guard_allows table (st old) (st new))"

lemma version_step_refl [simp]: "version_step ver st table tbl tbl"
  by (simp add: version_step_def)

lemma version_step_new: "tbl i = None \<Longrightarrow> version_step ver st table tbl (tbl(i \<mapsto> new))"
  unfolding version_step_def by blast

lemma historic_new:
  "historic key ver tbl r \<Longrightarrow> tbl i = None \<Longrightarrow> historic key ver (tbl(i \<mapsto> new)) r"
  by (auto simp: historic_def)

lemma version_step_upd:
  "tbl i = Some old \<Longrightarrow> ver new = ver old + 1 \<Longrightarrow> guard_allows table (st old) (st new)
    \<Longrightarrow> version_step ver st table tbl (tbl(i \<mapsto> new))"
  by (auto simp: version_step_def)

lemma lawful_version_steps:
  assumes "lawful_answer T req r T'"
  shows "version_step msg_version msg_state message_state_transitions (t_messages T) (t_messages T')
    \<and> version_step job_version job_st job_state_transitions (t_jobs T) (t_jobs T')
    \<and> version_step att_version att_st attempt_state_transitions (t_attempts T) (t_attempts T')
    \<and> t_routes T' = t_routes T"
  using assms
  by (cases req)
    (auto simp: lawful_answer_def intro: version_step_new
      dest!: write_message_Some write_job_Some write_attempt_Some,
      (rule version_step_upd, assumption, simp, simp)+)

lemma sys_step_answers:
  assumes "lawful answers" "sys_step answers Start (T, ps) (T', ps')"
  shows "T' = T \<or> (\<exists>req r. lawful_answer T req r T')"
  using assms(2) by (rule sys_stepE) (use assms(1) in \<open>simp_all add: lawful_def, blast\<close>)

lemma run_version_steps:
  assumes "lawful answers" "(sys_step answers Start)\<^sup>*\<^sup>* (T, ps) (T', ps')"
  shows "(version_step msg_version msg_state message_state_transitions)\<^sup>*\<^sup>* (t_messages T) (t_messages T')
    \<and> (version_step job_version job_st job_state_transitions)\<^sup>*\<^sup>* (t_jobs T) (t_jobs T')
    \<and> (version_step att_version att_st attempt_state_transitions)\<^sup>*\<^sup>* (t_attempts T) (t_attempts T')
    \<and> t_routes T' = t_routes T"
  using assms(2)
proof (induction "(T', ps')" arbitrary: T' ps' rule: rtranclp_induct)
  case (step c)
  obtain U us where c: "c = (U, us)" by (cases c)
  from step.hyps(3) [OF c] have IH: "(version_step msg_version msg_state message_state_transitions)\<^sup>*\<^sup>* (t_messages T) (t_messages U)"
    "(version_step job_version job_st job_state_transitions)\<^sup>*\<^sup>* (t_jobs T) (t_jobs U)"
    "(version_step att_version att_st attempt_state_transitions)\<^sup>*\<^sup>* (t_attempts T) (t_attempts U)"
    "t_routes U = t_routes T" by auto
  from sys_step_answers [OF assms(1)] step.hyps(2) c have
    "T' = U \<or> (\<exists>req r. lawful_answer U req r T')" by blast
  then show ?case
    using IH lawful_version_steps by (auto intro: rtranclp.rtrancl_into_rtrancl)
qed simp

lemma version_step_row:
  assumes "version_step ver st table tbl tbl'" "tbl i = Some r"
  shows "\<exists>r'. tbl' i = Some r' \<and> (r' = r \<or> ver r' = ver r + 1 \<and> guard_allows table (st r) (st r'))"
  using assms by (auto simp: version_step_def)

lemma version_run_row:
  assumes "(version_step ver st table)\<^sup>*\<^sup>* tbl tbl'" "tbl i = Some r"
  shows "\<exists>r'. tbl' i = Some r' \<and> ver r \<le> ver r' \<and> (ver r' = ver r \<longrightarrow> r' = r)
    \<and> (guard_allows table)\<^sup>*\<^sup>* (st r) (st r')"
  using assms(1)
proof (induction rule: rtranclp_induct)
  case base
  then show ?case using assms(2) by auto
next
  case (step y z)
  then obtain r' where r': "y i = Some r'" "ver r \<le> ver r'" "ver r' = ver r \<longrightarrow> r' = r"
    "(guard_allows table)\<^sup>*\<^sup>* (st r) (st r')" by auto
  from version_step_row [OF step.hyps(2) r'(1)] obtain r'' where
    r'': "z i = Some r''" "r'' = r' \<or> ver r'' = ver r' + 1 \<and> guard_allows table (st r') (st r'')" by auto
  from r''(2) show ?case
  proof
    assume "r'' = r'"
    then show ?thesis using r' r''(1) by auto
  next
    assume "ver r'' = ver r' + 1 \<and> guard_allows table (st r') (st r'')"
    then show ?thesis using r' r''(1) by (auto intro: rtranclp.rtrancl_into_rtrancl)
  qed
qed

text \<open>A lost version never comes back: once a write has succeeded on a version, every later write that
  asks for that version fails.\<close>

lemma message_version_once:
  assumes "lawful answers" "answers T (UpdateMessage i p v) (MessageRow (Inr row)) T'"
    and "(sys_step answers Start)\<^sup>*\<^sup>* (T', ps) (U, qs)"
    and "answers U (UpdateMessage i p' v) (MessageRow x) U'"
  shows "\<exists>e. x = Inl e"
proof (cases x)
  case (Inr row')
  from assms(1,2) have "lawful_answer T (UpdateMessage i p v) (MessageRow (Inr row)) T'"
    by (simp add: lawful_def)
  then have first: "t_messages T' i = Some row" "msg_version row = v + 1"
    by (auto simp: lawful_answer_def dest!: write_message_Some)
  from version_run_row [OF conjunct1 [OF run_version_steps [OF assms(1,3)]] first(1)]
  obtain cur where cur: "t_messages U i = Some cur" "v + 1 \<le> msg_version cur"
    using first(2) by auto
  from assms(1,4) Inr have "lawful_answer U (UpdateMessage i p' v) (MessageRow (Inr row')) U'"
    by (simp add: lawful_def)
  then show ?thesis using cur by (auto simp: lawful_answer_def)
qed simp

subsection \<open>A calculus for one program\<close>

record snaps =
  sn_messages :: "message set"
  sn_jobs :: "job set"
  sn_attempts :: "attempt set"

definition no_snaps :: snaps where
  "no_snaps = \<lparr>sn_messages = {}, sn_jobs = {}, sn_attempts = {}\<rparr>"

text \<open>What the rows of each table satisfy, which patch may be written over which row, and which
  submission a message row justifies.\<close>

record rules =
  inv_message :: "message \<Rightarrow> bool"
  may_message :: "message \<Rightarrow> message_patch \<Rightarrow> bool"
  may_submit :: "message \<Rightarrow> submit_request \<Rightarrow> bool"
  inv_job :: "job \<Rightarrow> bool"
  may_job :: "job \<Rightarrow> job_patch \<Rightarrow> bool"
  inv_attempt :: "attempt \<Rightarrow> bool"
  may_attempt :: "attempt \<Rightarrow> attempt_patch \<Rightarrow> bool"
  inv_route :: "route \<Rightarrow> bool"
  may_panic :: bool

definition permitted :: "rules \<Rightarrow> snaps \<Rightarrow> request \<Rightarrow> bool" where
  "permitted P K req \<longleftrightarrow> (case req of
     UpdateMessage i p v \<Rightarrow> (\<exists>m \<in> sn_messages K. msg_id m = i \<and> msg_version m = v \<and> may_message P m p)
   | UpdateJob i p v \<Rightarrow> (\<exists>j \<in> sn_jobs K. job_id j = i \<and> job_version j = v \<and> may_job P j p)
   | UpdateAttempt i p v \<Rightarrow> (\<exists>a \<in> sn_attempts K. att_id a = i \<and> att_version a = v \<and> may_attempt P a p)
   | Submit _ req \<Rightarrow> (\<exists>m \<in> sn_messages K. inv_message P m \<and> may_submit P m req)
   | CreateJob i \<Rightarrow> (\<forall>key now v. inv_job P (new_job key now v i))
   | CreateMessage i \<Rightarrow> (\<forall>key now v. inv_message P (new_message key now v i))
   | _ \<Rightarrow> True)"

definition expected :: "rules \<Rightarrow> snaps \<Rightarrow> request \<Rightarrow> response \<Rightarrow> bool" where
  "expected P K req r \<longleftrightarrow> (case req of
     ReqNow \<Rightarrow> (\<exists>t. r = Time t)
   | ReqRandom \<Rightarrow> (\<exists>d. r = Draw d)
   | FindMessages f _ l \<Rightarrow> (\<exists>e. r = Messages (Inl e)) \<or> (\<exists>rows. r = Messages (Inr rows)
       \<and> in_limit l rows \<and> (\<forall>m \<in> set rows. f m \<and> inv_message P m))
   | UpdateMessage i p v \<Rightarrow> (\<exists>e. r = MessageRow (Inl e)) \<or> (\<exists>row. r = MessageRow (Inr row)
       \<and> (\<exists>now. \<exists>m \<in> sn_messages K. msg_id m = i \<and> msg_version m = v \<and> write_message now p m = Some row)
       \<and> inv_message P row)
   | FindJobs f _ l \<Rightarrow> (\<exists>e. r = Jobs (Inl e)) \<or> (\<exists>rows. r = Jobs (Inr rows)
       \<and> in_limit l rows \<and> (\<forall>j \<in> set rows. f j \<and> inv_job P j))
   | UpdateJob i p v \<Rightarrow> (\<exists>e. r = JobRow (Inl e)) \<or> (\<exists>row. r = JobRow (Inr row)
       \<and> (\<exists>now. \<exists>j \<in> sn_jobs K. job_id j = i \<and> job_version j = v \<and> write_job now p j = Some row)
       \<and> inv_job P row)
   | FindAttempts f _ l \<Rightarrow> (\<exists>e. r = Attempts (Inl e)) \<or> (\<exists>rows. r = Attempts (Inr rows)
       \<and> in_limit l rows \<and> (\<forall>a \<in> set rows. f a \<and> inv_attempt P a))
   | UpdateAttempt i p v \<Rightarrow> (\<exists>e. r = AttemptRow (Inl e)) \<or> (\<exists>row. r = AttemptRow (Inr row)
       \<and> (\<exists>now. \<exists>a \<in> sn_attempts K. att_id a = i \<and> att_version a = v \<and> write_attempt now p a = Some row)
       \<and> inv_attempt P row)
   | FindEndpoints f l \<Rightarrow> (\<exists>e. r = Endpoints (Inl e)) \<or> (\<exists>rows. r = Endpoints (Inr rows)
       \<and> in_limit l rows \<and> (\<forall>e \<in> set rows. f e))
   | UpdateEndpoint i p v \<Rightarrow> (\<exists>x. r = EndpointRow x)
   | FindProviders f _ l \<Rightarrow> (\<exists>e. r = Providers (Inl e)) \<or> (\<exists>rows. r = Providers (Inr rows)
       \<and> in_limit l rows \<and> (\<forall>p \<in> set rows. f p))
   | UpdateProvider i p v \<Rightarrow> (\<exists>x. r = ProviderRow x)
   | FindRoutes _ \<Rightarrow> (\<exists>e. r = Routes (Inl e)) \<or> (\<exists>rows. r = Routes (Inr rows) \<and> (\<forall>y \<in> set rows. inv_route P y))
   | CreateReceipt i \<Rightarrow> (\<exists>x. r = ReceiptRow x)
   | FindReceipts f _ l \<Rightarrow> (\<exists>e. r = Receipts (Inl e)) \<or> (\<exists>rows. r = Receipts (Inr rows)
       \<and> in_limit l rows \<and> (\<forall>x \<in> set rows. f x))
   | DeleteReceipt i \<Rightarrow> (\<exists>x. r = Deleted x)
   | CreateJob i \<Rightarrow> (\<exists>e. r = JobRow (Inl e)) \<or> (\<exists>row. r = JobRow (Inr row)
       \<and> (\<exists>key now v. row = new_job key now v i) \<and> inv_job P row)
   | FindNonces f _ l \<Rightarrow> (\<exists>e. r = Nonces (Inl e)) \<or> (\<exists>rows. r = Nonces (Inr rows)
       \<and> in_limit l rows \<and> (\<forall>x \<in> set rows. f x))
   | DeleteNonce i \<Rightarrow> (\<exists>x. r = Deleted x)
   | Submit _ _ \<Rightarrow> (\<exists>x. r = SubmitResult x)
   | Post _ \<Rightarrow> (\<exists>x. r = HttpResult x)
   | CreateMessage i \<Rightarrow> (\<exists>e. r = MessageRow (Inl e)) \<or> (\<exists>row. r = MessageRow (Inr row)
       \<and> (\<exists>key now v. row = new_message key now v i) \<and> inv_message P row)
   | CountMessages f \<Rightarrow> (\<exists>x. r = Count x)
   | CountJobs f \<Rightarrow> (\<exists>x. r = Count x)
   | CountAttempts f \<Rightarrow> (\<exists>x. r = Count x)
   | Api q \<Rightarrow> (\<exists>a. r = ApiAnswer a \<and> (\<exists>A A'. lawful_api A q a A'))
   | TxBegin \<Rightarrow> (\<exists>x. r = TxDone x)
   | TxCommit \<Rightarrow> (\<exists>x. r = TxDone x)
   | TxAbort \<Rightarrow> (\<exists>x. r = TxDone x))"

definition learn :: "snaps \<Rightarrow> response \<Rightarrow> snaps" where
  "learn K r = (case r of
     Messages (Inr rows) \<Rightarrow> K\<lparr>sn_messages := sn_messages K \<union> set rows\<rparr>
   | MessageRow (Inr row) \<Rightarrow> K\<lparr>sn_messages := insert row (sn_messages K)\<rparr>
   | Jobs (Inr rows) \<Rightarrow> K\<lparr>sn_jobs := sn_jobs K \<union> set rows\<rparr>
   | JobRow (Inr row) \<Rightarrow> K\<lparr>sn_jobs := insert row (sn_jobs K)\<rparr>
   | Attempts (Inr rows) \<Rightarrow> K\<lparr>sn_attempts := sn_attempts K \<union> set rows\<rparr>
   | AttemptRow (Inr row) \<Rightarrow> K\<lparr>sn_attempts := insert row (sn_attempts K)\<rparr>
   | _ \<Rightarrow> K)"

primrec wp :: "rules \<Rightarrow> 'a prog \<Rightarrow> snaps \<Rightarrow> ('a \<Rightarrow> snaps \<Rightarrow> bool) \<Rightarrow> bool" where
  "wp P (Ret x) K Q \<longleftrightarrow> Q x K"
| "wp P Panic K Q \<longleftrightarrow> may_panic P"
| "wp P (Call req k) K Q \<longleftrightarrow> permitted P K req \<and> (\<forall>r. expected P K req r \<longrightarrow> wp P (k r) (learn K r) Q)"

lemma wp_bind [simp]: "wp P (bind_prog p f) K Q \<longleftrightarrow> wp P p K (\<lambda>x K'. wp P (f x) K' Q)"
  by (induction p arbitrary: K) auto

lemma wp_mono: "wp P p K Q \<Longrightarrow> (\<And>x K'. Q x K' \<Longrightarrow> Q' x K') \<Longrightarrow> wp P p K Q'"
  by (induction p arbitrary: K) auto

lemma learn_simps [simp]:
  "learn K (Time t) = K" "learn K (Draw d) = K"
  "learn K (Messages (Inl e)) = K" "learn K (MessageRow (Inl e)) = K"
  "learn K (Jobs (Inl e)) = K" "learn K (JobRow (Inl e)) = K"
  "learn K (Attempts (Inl e)) = K" "learn K (AttemptRow (Inl e)) = K"
  "learn K (Endpoints x) = K" "learn K (Providers y) = K" "learn K (ProviderRow z) = K"
  "learn K (Routes u) = K" "learn K (ReceiptRow v) = K" "learn K (SubmitResult w) = K"
  "learn K (EndpointRow er) = K" "learn K (Receipts rs) = K" "learn K (Deleted dl) = K" "learn K (Nonces ns) = K"
  "learn K (HttpResult hr) = K" "learn K (Count cn) = K" "learn K (ApiAnswer aa) = K" "learn K (TxDone td) = K"
  "learn K (Messages (Inr ms)) = K\<lparr>sn_messages := sn_messages K \<union> set ms\<rparr>"
  "learn K (MessageRow (Inr m)) = K\<lparr>sn_messages := insert m (sn_messages K)\<rparr>"
  "learn K (Jobs (Inr js)) = K\<lparr>sn_jobs := sn_jobs K \<union> set js\<rparr>"
  "learn K (JobRow (Inr j)) = K\<lparr>sn_jobs := insert j (sn_jobs K)\<rparr>"
  "learn K (Attempts (Inr as)) = K\<lparr>sn_attempts := sn_attempts K \<union> set as\<rparr>"
  "learn K (AttemptRow (Inr a)) = K\<lparr>sn_attempts := insert a (sn_attempts K)\<rparr>"
  by (simp_all add: learn_def)

lemma all_results:
  "(\<forall>r. (\<exists>e. r = C (Inl e)) \<or> (\<exists>x. r = C (Inr x) \<and> S x) \<longrightarrow> W r) \<longleftrightarrow>
     (\<forall>e. W (C (Inl e))) \<and> (\<forall>x. S x \<longrightarrow> W (C (Inr x)))"
  by blast

lemma all_answers: "(\<forall>r. (\<exists>x. r = C x) \<longrightarrow> W r) \<longleftrightarrow> (\<forall>x. W (C x))"
  by blast

text \<open>Snapshots are only ever added.\<close>

definition extends :: "snaps \<Rightarrow> snaps \<Rightarrow> bool" where
  "extends K K' \<longleftrightarrow> sn_messages K \<subseteq> sn_messages K' \<and> sn_jobs K \<subseteq> sn_jobs K' \<and> sn_attempts K \<subseteq> sn_attempts K'"

lemma extends_refl [simp]: "extends K K"
  by (simp add: extends_def)

lemma extends_trans: "extends K K' \<Longrightarrow> extends K' K'' \<Longrightarrow> extends K K''"
  by (auto simp: extends_def)

lemma extends_learn: "extends K (learn K r)"
  by (auto simp: extends_def learn_def split: response.splits sum.splits)

lemma wp_grow: "wp P p K Q \<Longrightarrow> wp P p K (\<lambda>x K'. Q x K' \<and> extends K K')"
proof (induction p arbitrary: K)
  case (Call req k)
  show ?case
    unfolding wp.simps
  proof (intro conjI allI impI)
    show "permitted P K req" using Call.prems by simp
    fix r
    assume "expected P K req r"
    then have "wp P (k r) (learn K r) (\<lambda>x K'. Q x K' \<and> extends (learn K r) K')"
      using Call.prems by (intro Call.IH) auto
    then show "wp P (k r) (learn K r) (\<lambda>x K'. Q x K' \<and> extends K K')"
      by (rule wp_mono) (blast intro: extends_trans extends_learn)
  qed
qed auto

lemma wp_utc_now [simp]: "wp P utc_now K Q \<longleftrightarrow> (\<forall>t. Q t K)"
  unfolding utc_now_def wp.simps permitted_def expected_def request.case all_answers [where C = Time]
  by simp

lemma wp_random [simp]: "wp P random_f64 K Q \<longleftrightarrow> (\<forall>d. Q d K)"
  unfolding random_f64_def wp.simps permitted_def expected_def request.case all_answers [where C = Draw]
  by simp

lemma wp_find_messages [simp]:
  "wp P (find_messages f o_by l) K Q \<longleftrightarrow> (\<forall>e. Q (Inl e) K) \<and>
     (\<forall>rows. in_limit l rows \<and> (\<forall>m \<in> set rows. f m \<and> inv_message P m) \<longrightarrow>
        Q (Inr rows) (K\<lparr>sn_messages := sn_messages K \<union> set rows\<rparr>))"
  unfolding find_messages_def wp.simps permitted_def expected_def request.case all_results [where C = Messages]
  by simp

lemma wp_update_message [simp]:
  "wp P (update_message i p v) K Q \<longleftrightarrow>
     (\<exists>m \<in> sn_messages K. msg_id m = i \<and> msg_version m = v \<and> may_message P m p) \<and> (\<forall>e. Q (Inl e) K) \<and>
     (\<forall>row now m. m \<in> sn_messages K \<and> msg_id m = i \<and> msg_version m = v
        \<and> write_message now p m = Some row \<and> inv_message P row \<longrightarrow>
        Q (Inr row) (K\<lparr>sn_messages := insert row (sn_messages K)\<rparr>))"
  unfolding update_message_def wp.simps permitted_def expected_def request.case all_results [where C = MessageRow]
  by auto

lemma wp_find_jobs [simp]:
  "wp P (find_jobs f o_by l) K Q \<longleftrightarrow> (\<forall>e. Q (Inl e) K) \<and>
     (\<forall>rows. in_limit l rows \<and> (\<forall>j \<in> set rows. f j \<and> inv_job P j) \<longrightarrow>
        Q (Inr rows) (K\<lparr>sn_jobs := sn_jobs K \<union> set rows\<rparr>))"
  unfolding find_jobs_def wp.simps permitted_def expected_def request.case all_results [where C = Jobs]
  by simp

lemma wp_update_job [simp]:
  "wp P (update_job i p v) K Q \<longleftrightarrow>
     (\<exists>j \<in> sn_jobs K. job_id j = i \<and> job_version j = v \<and> may_job P j p) \<and> (\<forall>e. Q (Inl e) K) \<and>
     (\<forall>row now j. j \<in> sn_jobs K \<and> job_id j = i \<and> job_version j = v
        \<and> write_job now p j = Some row \<and> inv_job P row \<longrightarrow>
        Q (Inr row) (K\<lparr>sn_jobs := insert row (sn_jobs K)\<rparr>))"
  unfolding update_job_def wp.simps permitted_def expected_def request.case all_results [where C = JobRow]
  by auto

lemma wp_find_attempts [simp]:
  "wp P (find_attempts f o_by l) K Q \<longleftrightarrow> (\<forall>e. Q (Inl e) K) \<and>
     (\<forall>rows. in_limit l rows \<and> (\<forall>a \<in> set rows. f a \<and> inv_attempt P a) \<longrightarrow>
        Q (Inr rows) (K\<lparr>sn_attempts := sn_attempts K \<union> set rows\<rparr>))"
  unfolding find_attempts_def wp.simps permitted_def expected_def request.case all_results [where C = Attempts]
  by simp

lemma wp_update_attempt [simp]:
  "wp P (update_attempt i p v) K Q \<longleftrightarrow>
     (\<exists>a \<in> sn_attempts K. att_id a = i \<and> att_version a = v \<and> may_attempt P a p) \<and> (\<forall>e. Q (Inl e) K) \<and>
     (\<forall>row now a. a \<in> sn_attempts K \<and> att_id a = i \<and> att_version a = v
        \<and> write_attempt now p a = Some row \<and> inv_attempt P row \<longrightarrow>
        Q (Inr row) (K\<lparr>sn_attempts := insert row (sn_attempts K)\<rparr>))"
  unfolding update_attempt_def wp.simps permitted_def expected_def request.case all_results [where C = AttemptRow]
  by auto

lemma wp_find_endpoints [simp]:
  "wp P (find_endpoints f l) K Q \<longleftrightarrow> (\<forall>e. Q (Inl e) K) \<and>
     (\<forall>rows. in_limit l rows \<and> (\<forall>e \<in> set rows. f e) \<longrightarrow> Q (Inr rows) K)"
  unfolding find_endpoints_def wp.simps permitted_def expected_def request.case all_results [where C = Endpoints]
  by simp

lemma wp_find_providers [simp]:
  "wp P (find_providers f o_by l) K Q \<longleftrightarrow> (\<forall>e. Q (Inl e) K) \<and>
     (\<forall>rows. in_limit l rows \<and> (\<forall>p \<in> set rows. f p) \<longrightarrow> Q (Inr rows) K)"
  unfolding find_providers_def wp.simps permitted_def expected_def request.case all_results [where C = Providers]
  by simp

lemma wp_update_provider [simp]: "wp P (update_provider i p v) K Q \<longleftrightarrow> (\<forall>x. Q x K)"
  unfolding update_provider_def wp.simps permitted_def expected_def request.case all_answers [where C = ProviderRow]
  by simp

lemma wp_find_routes [simp]:
  "wp P (find_routes o_by) K Q \<longleftrightarrow> (\<forall>e. Q (Inl e) K) \<and>
     (\<forall>rows. (\<forall>y \<in> set rows. inv_route P y) \<longrightarrow> Q (Inr rows) K)"
  unfolding find_routes_def wp.simps permitted_def expected_def request.case all_results [where C = Routes]
  by simp

lemma wp_create_receipt [simp]: "wp P (create_receipt i) K Q \<longleftrightarrow> (\<forall>x. Q x K)"
  unfolding create_receipt_def wp.simps permitted_def expected_def request.case all_answers [where C = ReceiptRow]
  by simp

lemma wp_update_endpoint [simp]: "wp P (update_endpoint i p v) K Q \<longleftrightarrow> (\<forall>x. Q x K)"
  unfolding update_endpoint_def wp.simps permitted_def expected_def request.case all_answers [where C = EndpointRow]
  by simp

lemma wp_find_receipts [simp]:
  "wp P (find_receipts f o_by l) K Q \<longleftrightarrow> (\<forall>e. Q (Inl e) K) \<and>
     (\<forall>rows. in_limit l rows \<and> (\<forall>x \<in> set rows. f x) \<longrightarrow> Q (Inr rows) K)"
  unfolding find_receipts_def wp.simps permitted_def expected_def request.case all_results [where C = Receipts]
  by simp

lemma wp_delete_receipt [simp]: "wp P (delete_receipt i) K Q \<longleftrightarrow> (\<forall>x. Q x K)"
  unfolding delete_receipt_def wp.simps permitted_def expected_def request.case all_answers [where C = Deleted]
  by simp

lemma wp_create_job [simp]:
  "wp P (create_job i) K Q \<longleftrightarrow> (\<forall>key now v. inv_job P (new_job key now v i)) \<and> (\<forall>e. Q (Inl e) K) \<and>
     (\<forall>row. (\<exists>key now v. row = new_job key now v i) \<and> inv_job P row \<longrightarrow>
        Q (Inr row) (K\<lparr>sn_jobs := insert row (sn_jobs K)\<rparr>))"
  unfolding create_job_def wp.simps permitted_def expected_def request.case all_results [where C = JobRow]
  by auto

lemma wp_find_nonces [simp]:
  "wp P (find_nonces f o_by l) K Q \<longleftrightarrow> (\<forall>e. Q (Inl e) K) \<and>
     (\<forall>rows. in_limit l rows \<and> (\<forall>x \<in> set rows. f x) \<longrightarrow> Q (Inr rows) K)"
  unfolding find_nonces_def wp.simps permitted_def expected_def request.case all_results [where C = Nonces]
  by simp

lemma wp_delete_nonce [simp]: "wp P (delete_nonce i) K Q \<longleftrightarrow> (\<forall>x. Q x K)"
  unfolding delete_nonce_def wp.simps permitted_def expected_def request.case all_answers [where C = Deleted]
  by simp

lemma wp_post [simp]: "wp P (post req) K Q \<longleftrightarrow> (\<forall>x. Q x K)"
  unfolding post_def wp.simps permitted_def expected_def request.case all_answers [where C = HttpResult]
  by simp

lemma wp_submit [simp]: "wp P (submit key req) K Q \<longleftrightarrow>
    (\<exists>m \<in> sn_messages K. inv_message P m \<and> may_submit P m req) \<and> (\<forall>x. Q x K)"
  unfolding submit_def wp.simps permitted_def expected_def request.case all_answers [where C = SubmitResult]
  by simp

lemma wp_create_message [simp]:
  "wp P (create_message i) K Q \<longleftrightarrow> (\<forall>key now v. inv_message P (new_message key now v i)) \<and> (\<forall>e. Q (Inl e) K) \<and>
     (\<forall>row. (\<exists>key now v. row = new_message key now v i) \<and> inv_message P row \<longrightarrow>
        Q (Inr row) (K\<lparr>sn_messages := insert row (sn_messages K)\<rparr>))"
  unfolding create_message_def wp.simps permitted_def expected_def request.case all_results [where C = MessageRow]
  by auto

lemma wp_counts [simp]:
  "wp P (count_messages fm) K Q \<longleftrightarrow> (\<forall>x. Q x K)"
  "wp P (count_jobs fj) K Q \<longleftrightarrow> (\<forall>x. Q x K)"
  "wp P (count_attempts fa) K Q \<longleftrightarrow> (\<forall>x. Q x K)"
  unfolding call_defs wp.simps permitted_def expected_def request.case all_answers [where C = Count]
  by simp_all

lemma wp_tx_call [simp]:
  "wp P (tx_call TxBegin) K Q \<longleftrightarrow> (\<forall>x. Q x K)"
  "wp P (tx_call TxCommit) K Q \<longleftrightarrow> (\<forall>x. Q x K)"
  "wp P (tx_call TxAbort) K Q \<longleftrightarrow> (\<forall>x. Q x K)"
  unfolding call_defs wp.simps permitted_def expected_def request.case all_answers [where C = TxDone]
  by simp_all

text \<open>Of the tables of the API the calculus keeps only that the answer fits the question.\<close>

lemma wp_api:
  assumes "\<And>a A A'. lawful_api A q a A' \<Longrightarrow> wp P (k (ApiAnswer a)) K Q"
  shows "wp P (Call (Api q) k) K Q"
  using assms by (auto simp: permitted_def expected_def)

lemma wp_apiI:
  "(\<And>x. Qfind_roles x K) \<Longrightarrow> wp P (find_roles frl lrl) K Qfind_roles"
  "(\<And>x. Qfind_oauth x K) \<Longrightarrow> wp P (find_oauth_clients foc loc) K Qfind_oauth"
  "(\<And>x. Qfind_apps x K) \<Longrightarrow> wp P (find_apps f1 l1) K Qfind_apps"
  "(\<And>x. Qfind_app_clients x K) \<Longrightarrow> wp P (find_app_clients f2 l2) K Qfind_app_clients"
  "(\<And>x. Qcreate_app_client x K) \<Longrightarrow> wp P (create_app_client i3) K Qcreate_app_client"
  "(\<And>x. Qfind_client_keys x K) \<Longrightarrow> wp P (find_client_keys f4 l4) K Qfind_client_keys"
  "(\<And>x. Qcreate_client_key x K) \<Longrightarrow> wp P (create_client_key i5) K Qcreate_client_key"
  "(\<And>x. Qrevoke_client_key x K) \<Longrightarrow> wp P (revoke_client_key i6 now6) K Qrevoke_client_key"
  "(\<And>x. Qfind_console_keys x K) \<Longrightarrow> wp P (find_console_keys f7 l7) K Qfind_console_keys"
  "(\<And>x. Qcreate_console_key x K) \<Longrightarrow> wp P (create_console_key i8) K Qcreate_console_key"
  "(\<And>x. Qrevoke_console_key x K) \<Longrightarrow> wp P (revoke_console_key i9 now9) K Qrevoke_console_key"
  "(\<And>x. Qfind_users x K) \<Longrightarrow> wp P (find_users f10 l10) K Qfind_users"
  "(\<And>x. Qcreate_user x K) \<Longrightarrow> wp P (create_user i11) K Qcreate_user"
  "(\<And>x. Qupdate_user_subject x K) \<Longrightarrow> wp P (update_user_subject i12 s12 v12) K Qupdate_user_subject"
  "(\<And>x. Qfind_links x K) \<Longrightarrow> wp P (find_links f13 l13) K Qfind_links"
  "(\<And>x. Qcreate_link x K) \<Longrightarrow> wp P (create_link iss14 sub14 u14) K Qcreate_link"
  "(\<And>x. Qfind_prefix_rules x K) \<Longrightarrow> wp P (find_prefix_rules f15) K Qfind_prefix_rules"
  "(\<And>x. Qfind_opt_outs x K) \<Longrightarrow> wp P (find_opt_outs f16 l16) K Qfind_opt_outs"
  "(\<And>x. Qcreate_opt_out x K) \<Longrightarrow> wp P (create_opt_out i17) K Qcreate_opt_out"
  "(\<And>x. Qfind_consents x K) \<Longrightarrow> wp P (find_consents f18 l18) K Qfind_consents"
  "(\<And>x. Qfind_senders x K) \<Longrightarrow> wp P (find_senders f19 l19) K Qfind_senders"
  "(\<And>x. Qfind_registrations x K) \<Longrightarrow> wp P (find_registrations f20 l20) K Qfind_registrations"
  "(\<And>x. Qcreate_lookup x K) \<Longrightarrow> wp P (create_lookup i21) K Qcreate_lookup"
  "(\<And>x. Qcount_lookups x K) \<Longrightarrow> wp P (count_lookups f22) K Qcount_lookups"
  "(\<And>x. Qsettle_lookup x K) \<Longrightarrow> wp P (settle_lookup i23 out23 n23) K Qsettle_lookup"
  unfolding api_call_defs by (rule wp_api, (auto simp: lawful_api_def) [1])+

lemma wp_try [simp]:
  "wp P (try_prog p f) K Q \<longleftrightarrow>
     wp P p K (\<lambda>x K'. case x of Inl e \<Rightarrow> Q (Inl e) K' | Inr y \<Rightarrow> wp P (f y) K' Q)"
proof -
  have "(\<lambda>x K'. wp P (case x of Inl e \<Rightarrow> Ret (Inl e) | Inr y \<Rightarrow> f y) K' Q) =
      (\<lambda>x K'. case x of Inl e \<Rightarrow> Q (Inl e) K' | Inr y \<Rightarrow> wp P (f y) K' Q)"
    by (intro ext) (simp split: sum.split)
  then show ?thesis by (simp add: try_prog_def)
qed

text \<open>The rules with a stated intermediate condition.\<close>

lemma wp_bindI:
  assumes "wp P p K R" "\<And>x K'. R x K' \<Longrightarrow> extends K K' \<Longrightarrow> wp P (f x) K' Q"
  shows "wp P (bind_prog p f) K Q"
  using wp_mono [OF wp_grow [OF assms(1)], of "\<lambda>x K'. wp P (f x) K' Q"] assms(2) by simp

lemma wp_tryI:
  assumes "wp P p K R" "\<And>e K'. R (Inl e) K' \<Longrightarrow> extends K K' \<Longrightarrow> Q (Inl e) K'"
    and "\<And>y K'. R (Inr y) K' \<Longrightarrow> extends K K' \<Longrightarrow> wp P (f y) K' Q"
  shows "wp P (try_prog p f) K Q"
  unfolding try_prog_def
proof (rule wp_bindI [OF assms(1)])
  show "wp P (case x of Inl e \<Rightarrow> Ret (Inl e) | Inr y \<Rightarrow> f y) K' Q" if "R x K'" "extends K K'" for x K'
    using that assms(2,3) by (cases x) simp_all
qed

subsection \<open>Invariants of every interleaving\<close>

definition inv_tables :: "rules \<Rightarrow> tables \<Rightarrow> bool" where
  "inv_tables P T \<longleftrightarrow>
     (\<forall>i m. t_messages T i = Some m \<longrightarrow> msg_id m = i \<and> inv_message P m) \<and>
     (\<forall>i j. t_jobs T i = Some j \<longrightarrow> job_id j = i \<and> inv_job P j) \<and>
     (\<forall>i a. t_attempts T i = Some a \<longrightarrow> att_id a = i \<and> inv_attempt P a) \<and>
     (\<forall>i y. t_routes T i = Some y \<longrightarrow> inv_route P y)"

definition valid_snaps :: "tables \<Rightarrow> snaps \<Rightarrow> bool" where
  "valid_snaps T K \<longleftrightarrow>
     (\<forall>m \<in> sn_messages K. historic msg_id msg_version (t_messages T) m) \<and>
     (\<forall>j \<in> sn_jobs K. historic job_id job_version (t_jobs T) j) \<and>
     (\<forall>a \<in> sn_attempts K. historic att_id att_version (t_attempts T) a)"

lemma valid_no_snaps [simp]: "valid_snaps T no_snaps"
  by (simp add: valid_snaps_def no_snaps_def)

lemma historic_write:
  "historic msg_id msg_version tm m0 \<Longrightarrow> tm i = Some m \<Longrightarrow> write_message now mp m = Some m' \<Longrightarrow>
     historic msg_id msg_version (tm(i \<mapsto> m')) m0"
  "historic job_id job_version tj j0 \<Longrightarrow> tj i = Some j \<Longrightarrow> write_job now jp j = Some j' \<Longrightarrow>
     historic job_id job_version (tj(i \<mapsto> j')) j0"
  "historic att_id att_version ta a0 \<Longrightarrow> ta i = Some a \<Longrightarrow> write_attempt now ap a = Some a' \<Longrightarrow>
     historic att_id att_version (ta(i \<mapsto> a')) a0"
  by (auto dest!: write_message_Some write_job_Some write_attempt_Some intro!: historic_update)

lemma valid_snaps_keep:
  assumes "valid_snaps T K" "lawful_answer T req r T'"
  shows "valid_snaps T' K"
  using assms
  by (cases req) (auto simp: valid_snaps_def lawful_answer_def, (blast intro: historic_write historic_new)+)

text \<open>What a lawful database stores after a permitted call: the answer is an expected one, the
  invariants of the rows still hold, and the rows learned are current.\<close>

locale row_rules =
  fixes P :: rules
  assumes keeps_message: "inv_message P m \<Longrightarrow> may_message P m mp \<Longrightarrow> write_message now mp m = Some m'
      \<Longrightarrow> inv_message P m'"
    and keeps_job: "inv_job P j \<Longrightarrow> may_job P j jp \<Longrightarrow> write_job now jp j = Some j' \<Longrightarrow> inv_job P j'"
    and keeps_attempt: "inv_attempt P a \<Longrightarrow> may_attempt P a ap \<Longrightarrow> write_attempt now ap a = Some a'
      \<Longrightarrow> inv_attempt P a'"
    and legal_message: "may_message P m mp \<Longrightarrow>
      guard_allows message_state_transitions (msg_state m) (touch (msg_state m) (mp_state mp))"
    and legal_job: "may_job P j jp \<Longrightarrow>
      guard_allows job_state_transitions (job_st j) (touch (job_st j) (jp_state jp))"
    and legal_attempt: "may_attempt P a ap \<Longrightarrow>
      guard_allows attempt_state_transitions (att_st a) (touch (att_st a) (ap_state ap))"
begin

lemma permitted_message:
  assumes "permitted P K (UpdateMessage i p v)" "valid_snaps T K" "t_messages T i = Some m" "msg_version m = v"
  shows "m \<in> sn_messages K \<and> msg_id m = i \<and> may_message P m p"
proof -
  from assms(1) obtain m0 where m0: "m0 \<in> sn_messages K" "msg_id m0 = i" "msg_version m0 = v" "may_message P m0 p"
    by (auto simp: permitted_def)
  with assms(2-4) have "m = m0"
    using historic_same [of msg_id msg_version "t_messages T" m0 m] by (simp add: valid_snaps_def)
  with m0 show ?thesis by simp
qed

lemma permitted_job:
  assumes "permitted P K (UpdateJob i p v)" "valid_snaps T K" "t_jobs T i = Some j" "job_version j = v"
  shows "j \<in> sn_jobs K \<and> job_id j = i \<and> may_job P j p"
proof -
  from assms(1) obtain j0 where j0: "j0 \<in> sn_jobs K" "job_id j0 = i" "job_version j0 = v" "may_job P j0 p"
    by (auto simp: permitted_def)
  with assms(2-4) have "j = j0"
    using historic_same [of job_id job_version "t_jobs T" j0 j] by (simp add: valid_snaps_def)
  with j0 show ?thesis by simp
qed

lemma permitted_attempt:
  assumes "permitted P K (UpdateAttempt i p v)" "valid_snaps T K" "t_attempts T i = Some a" "att_version a = v"
  shows "a \<in> sn_attempts K \<and> att_id a = i \<and> may_attempt P a p"
proof -
  from assms(1) obtain a0 where a0: "a0 \<in> sn_attempts K" "att_id a0 = i" "att_version a0 = v" "may_attempt P a0 p"
    by (auto simp: permitted_def)
  with assms(2-4) have "a = a0"
    using historic_same [of att_id att_version "t_attempts T" a0 a] by (simp add: valid_snaps_def)
  with a0 show ?thesis by simp
qed

lemma answer_update_message:
  assumes "permitted P K (UpdateMessage i p v)" "valid_snaps T K" "inv_tables P T"
    and "t_messages T i = Some m" "msg_version m = v" "write_message now p m = Some row"
    and "T' = T\<lparr>t_messages := (t_messages T)(i \<mapsto> row)\<rparr>" "r = MessageRow (Inr row)"
  shows "expected P K (UpdateMessage i p v) r \<and> inv_tables P T' \<and> valid_snaps T' (learn K r)"
proof -
  from permitted_message [OF assms(1,2,4,5)] have m: "m \<in> sn_messages K" "msg_id m = i" "may_message P m p"
    by auto
  have inv: "inv_message P row"
    using keeps_message [OF _ m(3) assms(6)] assms(3,4) by (simp add: inv_tables_def)
  have id: "msg_id row = i" using write_message_Some [OF assms(6)] m(2) by simp
  have "valid_snaps T' K"
    by (rule valid_snaps_keep [OF assms(2), of "UpdateMessage i p v" r])
      (use assms(4-8) in \<open>auto simp: lawful_answer_def\<close>)
  moreover have "historic msg_id msg_version (t_messages T') row"
    using id assms(7) by (intro historic_current) simp
  moreover have "inv_tables P T'" using assms(3,7) inv id by (auto simp: inv_tables_def)
  ultimately show ?thesis
    using m assms(5,6,8) inv by (auto simp: expected_def valid_snaps_def)
qed

lemma answer_update_job:
  assumes "permitted P K (UpdateJob i p v)" "valid_snaps T K" "inv_tables P T"
    and "t_jobs T i = Some j" "job_version j = v" "write_job now p j = Some row"
    and "T' = T\<lparr>t_jobs := (t_jobs T)(i \<mapsto> row)\<rparr>" "r = JobRow (Inr row)"
  shows "expected P K (UpdateJob i p v) r \<and> inv_tables P T' \<and> valid_snaps T' (learn K r)"
proof -
  from permitted_job [OF assms(1,2,4,5)] have j: "j \<in> sn_jobs K" "job_id j = i" "may_job P j p" by auto
  have inv: "inv_job P row"
    using keeps_job [OF _ j(3) assms(6)] assms(3,4) by (simp add: inv_tables_def)
  have id: "job_id row = i" using write_job_Some [OF assms(6)] j(2) by simp
  have "valid_snaps T' K"
    by (rule valid_snaps_keep [OF assms(2), of "UpdateJob i p v" r])
      (use assms(4-8) in \<open>auto simp: lawful_answer_def\<close>)
  moreover have "historic job_id job_version (t_jobs T') row"
    using id assms(7) by (intro historic_current) simp
  moreover have "inv_tables P T'" using assms(3,7) inv id by (auto simp: inv_tables_def)
  ultimately show ?thesis
    using j assms(5,6,8) inv by (auto simp: expected_def valid_snaps_def)
qed

lemma answer_update_attempt:
  assumes "permitted P K (UpdateAttempt i p v)" "valid_snaps T K" "inv_tables P T"
    and "t_attempts T i = Some a" "att_version a = v" "write_attempt now p a = Some row"
    and "T' = T\<lparr>t_attempts := (t_attempts T)(i \<mapsto> row)\<rparr>" "r = AttemptRow (Inr row)"
  shows "expected P K (UpdateAttempt i p v) r \<and> inv_tables P T' \<and> valid_snaps T' (learn K r)"
proof -
  from permitted_attempt [OF assms(1,2,4,5)] have a: "a \<in> sn_attempts K" "att_id a = i" "may_attempt P a p"
    by auto
  have inv: "inv_attempt P row"
    using keeps_attempt [OF _ a(3) assms(6)] assms(3,4) by (simp add: inv_tables_def)
  have id: "att_id row = i" using write_attempt_Some [OF assms(6)] a(2) by simp
  have "valid_snaps T' K"
    by (rule valid_snaps_keep [OF assms(2), of "UpdateAttempt i p v" r])
      (use assms(4-8) in \<open>auto simp: lawful_answer_def\<close>)
  moreover have "historic att_id att_version (t_attempts T') row"
    using id assms(7) by (intro historic_current) simp
  moreover have "inv_tables P T'" using assms(3,7) inv id by (auto simp: inv_tables_def)
  ultimately show ?thesis
    using a assms(5,6,8) inv by (auto simp: expected_def valid_snaps_def)
qed

lemma answer_sound:
  assumes "permitted P K req" "valid_snaps T K" "inv_tables P T" "lawful_answer T req r T'"
  shows "expected P K req r \<and> inv_tables P T' \<and> valid_snaps T' (learn K r)"
proof (cases req)
  case (UpdateMessage i p v)
  from assms(4) consider e where "r = MessageRow (Inl e)" "T' = T"
    | row now m where "r = MessageRow (Inr row)" "t_messages T i = Some m" "msg_version m = v"
        "write_message now p m = Some row" "T' = T\<lparr>t_messages := (t_messages T)(i \<mapsto> row)\<rparr>"
    unfolding UpdateMessage by (auto simp: lawful_answer_def)
  then show ?thesis
  proof cases
    case 1
    then show ?thesis using assms UpdateMessage by (simp add: expected_def)
  next
    case 2
    show ?thesis
      unfolding UpdateMessage by (rule answer_update_message [OF assms(1) [unfolded UpdateMessage] assms(2,3) 2(2-5,1)])
  qed
next
  case (UpdateJob i p v)
  from assms(4) consider e where "r = JobRow (Inl e)" "T' = T"
    | row now j where "r = JobRow (Inr row)" "t_jobs T i = Some j" "job_version j = v"
        "write_job now p j = Some row" "T' = T\<lparr>t_jobs := (t_jobs T)(i \<mapsto> row)\<rparr>"
    unfolding UpdateJob by (auto simp: lawful_answer_def)
  then show ?thesis
  proof cases
    case 1
    then show ?thesis using assms UpdateJob by (simp add: expected_def)
  next
    case 2
    show ?thesis
      unfolding UpdateJob by (rule answer_update_job [OF assms(1) [unfolded UpdateJob] assms(2,3) 2(2-5,1)])
  qed
next
  case (UpdateAttempt i p v)
  from assms(4) consider e where "r = AttemptRow (Inl e)" "T' = T"
    | row now a where "r = AttemptRow (Inr row)" "t_attempts T i = Some a" "att_version a = v"
        "write_attempt now p a = Some row" "T' = T\<lparr>t_attempts := (t_attempts T)(i \<mapsto> row)\<rparr>"
    unfolding UpdateAttempt by (auto simp: lawful_answer_def)
  then show ?thesis
  proof cases
    case 1
    then show ?thesis using assms UpdateAttempt by (simp add: expected_def)
  next
    case 2
    show ?thesis
      unfolding UpdateAttempt by (rule answer_update_attempt [OF assms(1) [unfolded UpdateAttempt] assms(2,3) 2(2-5,1)])
  qed
next
  case (FindMessages f x l)
  with assms show ?thesis
    by (auto simp: lawful_answer_def expected_def valid_snaps_def inv_tables_def intro: historic_current; blast)
next
  case (FindJobs f x l)
  with assms show ?thesis
    by (auto simp: lawful_answer_def expected_def valid_snaps_def inv_tables_def intro: historic_current; blast)
next
  case (FindAttempts f x l)
  with assms show ?thesis
    by (auto simp: lawful_answer_def expected_def valid_snaps_def inv_tables_def intro: historic_current; blast)
next
  case (FindRoutes x)
  with assms show ?thesis
    by (auto simp: lawful_answer_def expected_def valid_snaps_def inv_tables_def; blast)
next
  case (CreateJob i)
  from assms(4) consider e where "r = JobRow (Inl e)" "T' = T"
    | key now v where "r = JobRow (Inr (new_job key now v i))" "t_jobs T key = None"
        "T' = T\<lparr>t_jobs := (t_jobs T)(key \<mapsto> new_job key now v i)\<rparr>"
    unfolding CreateJob by (auto simp: lawful_answer_def)
  then show ?thesis
  proof cases
    case 1
    then show ?thesis using assms CreateJob by (simp add: expected_def)
  next
    case 2
    have inv: "inv_job P (new_job key now v i)" using assms(1) CreateJob by (simp add: permitted_def)
    have "valid_snaps T' K" by (rule valid_snaps_keep [OF assms(2,4)])
    moreover have "historic job_id job_version (t_jobs T') (new_job key now v i)"
      using 2(3) by (intro historic_current) (simp add: new_job_def)
    moreover have "inv_tables P T'"
      using assms(3) 2(3) inv by (auto simp: inv_tables_def new_job_def)
    ultimately show ?thesis
      using 2(1) inv CreateJob by (auto simp: expected_def valid_snaps_def)
  qed
next
  case (CreateMessage i)
  from assms(4) consider e where "r = MessageRow (Inl e)" "T' = T"
    | key now v where "r = MessageRow (Inr (new_message key now v i))" "t_messages T key = None"
        "T' = T\<lparr>t_messages := (t_messages T)(key \<mapsto> new_message key now v i)\<rparr>"
    unfolding CreateMessage by (auto simp: lawful_answer_def)
  then show ?thesis
  proof cases
    case 1
    then show ?thesis using assms CreateMessage by (simp add: expected_def)
  next
    case 2
    have inv: "inv_message P (new_message key now v i)" using assms(1) CreateMessage by (simp add: permitted_def)
    have "valid_snaps T' K" by (rule valid_snaps_keep [OF assms(2,4)])
    moreover have "historic msg_id msg_version (t_messages T') (new_message key now v i)"
      using 2(3) by (intro historic_current) (simp add: new_message_def)
    moreover have "inv_tables P T'"
      using assms(3) 2(3) inv by (auto simp: inv_tables_def new_message_def)
    ultimately show ?thesis
      using 2(1) inv CreateMessage by (auto simp: expected_def valid_snaps_def)
  qed
next
  case (Api q)
  with assms show ?thesis
    by (auto simp: lawful_answer_def expected_def inv_tables_def valid_snaps_def)
qed (use assms in \<open>auto simp: lawful_answer_def expected_def inv_tables_def valid_snaps_def\<close>)

end

text \<open>One program run to its end, with any number of steps of others between its calls: other processes
  replace rows along the guards, one version at a time, and keep the invariants of the rows.\<close>

definition interferes :: "rules \<Rightarrow> tables \<Rightarrow> tables \<Rightarrow> bool" where
  "interferes P T T' \<longleftrightarrow> inv_tables P T'
     \<and> (version_step msg_version msg_state message_state_transitions)\<^sup>*\<^sup>* (t_messages T) (t_messages T')
     \<and> (version_step job_version job_st job_state_transitions)\<^sup>*\<^sup>* (t_jobs T) (t_jobs T')
     \<and> (version_step att_version att_st attempt_state_transitions)\<^sup>*\<^sup>* (t_attempts T) (t_attempts T')"

inductive yields :: "rules \<Rightarrow> world \<Rightarrow> tables \<Rightarrow> 'a prog \<Rightarrow> tables \<Rightarrow> 'a \<Rightarrow> bool" for P answers where
  yields_ret: "yields P answers T (Ret x) T x"
| yields_call: "answers T req r T' \<Longrightarrow> interferes P T' T'' \<Longrightarrow> yields P answers T'' (k r) U x
    \<Longrightarrow> yields P answers T (Call req k) U x"

lemma interferes_refl: "inv_tables P T \<Longrightarrow> interferes P T T"
  by (simp add: interferes_def)

lemma historic_run:
  assumes "historic key ver tbl r" "(version_step ver st table)\<^sup>*\<^sup>* tbl tbl'"
  shows "historic key ver tbl' r"
proof -
  from assms(1) obtain cur where cur: "tbl (key r) = Some cur" "ver r \<le> ver cur" "ver r = ver cur \<longrightarrow> cur = r"
    by (auto simp: historic_def)
  from version_run_row [OF assms(2) cur(1)] obtain cur' where
    "tbl' (key r) = Some cur'" "ver cur \<le> ver cur'" "ver cur' = ver cur \<longrightarrow> cur' = cur" by blast
  with cur show ?thesis by (auto simp: historic_def)
qed

lemma valid_snaps_interferes: "valid_snaps T K \<Longrightarrow> interferes P T T' \<Longrightarrow> valid_snaps T' K"
  by (auto simp: valid_snaps_def interferes_def intro: historic_run)

context row_rules
begin

lemma yields_post:
  assumes "yields P answers T p U x" "lawful answers" "inv_tables P T" "valid_snaps T K" "wp P p K Q"
  shows "\<exists>K'. Q x K' \<and> valid_snaps U K' \<and> inv_tables P U"
  using assms
proof (induction arbitrary: K rule: yields.induct)
  case (yields_ret T x)
  then show ?case by auto
next
  case (yields_call T req r T' T'' k U x)
  have law: "lawful_answer T req r T'" using yields_call.hyps(1) yields_call.prems(1) by (simp add: lawful_def)
  have per: "permitted P K req" and rest: "expected P K req r \<Longrightarrow> wp P (k r) (learn K r) Q"
    using yields_call.prems(4) by simp_all
  from answer_sound [OF per yields_call.prems(3,2) law] have
    ok: "expected P K req r" "valid_snaps T' (learn K r)" by auto
  have "valid_snaps T'' (learn K r)"
    by (rule valid_snaps_interferes [OF ok(2) yields_call.hyps(2)])
  moreover have "inv_tables P T''" using yields_call.hyps(2) by (simp add: interferes_def)
  ultimately show ?case using yields_call.IH [OF yields_call.prems(1)] rest [OF ok(1)] by blast
qed

end

text \<open>Many processes: each started program is safe on its own, so every interleaving is.\<close>

definition safe_config :: "rules \<Rightarrow> config \<Rightarrow> bool" where
  "safe_config P c \<longleftrightarrow> inv_tables P (fst c) \<and>
     (\<forall>p \<in> set (snd c). \<exists>K. valid_snaps (fst c) K \<and> wp P p K (\<lambda>_ _. True))"

locale protocol = row_rules +
  fixes answers :: world and Start :: "unit prog set"
  assumes answers_lawful: "lawful answers"
    and start_safe: "p \<in> Start \<Longrightarrow> wp P p no_snaps (\<lambda>_ _. True)"
begin

lemma call_safe:
  assumes "safe_config P (T, ps @ Call req k # qs)" "answers T req r T'"
  shows "safe_config P (T', ps @ k r # qs)"
proof -
  from assms(2) answers_lawful have law: "lawful_answer T req r T'" by (simp add: lawful_def)
  from assms(1) obtain K where K: "valid_snaps T K" "permitted P K req"
    "\<forall>r. expected P K req r \<longrightarrow> wp P (k r) (learn K r) (\<lambda>_ _. True)"
    by (auto simp: safe_config_def)
  from assms(1) have inv: "inv_tables P T" by (simp add: safe_config_def)
  from answer_sound [OF K(2,1) inv law] have
    step: "wp P (k r) (learn K r) (\<lambda>_ _. True)" "inv_tables P T'" "valid_snaps T' (learn K r)"
    using K(3) by auto
  have "\<exists>K. valid_snaps T' K \<and> wp P p K (\<lambda>_ _. True)" if "p \<in> set ps \<union> set qs" for p
  proof -
    from assms(1) that have "\<exists>K. valid_snaps T K \<and> wp P p K (\<lambda>_ _. True)"
      by (auto simp: safe_config_def)
    then show ?thesis using valid_snaps_keep [OF _ law] by blast
  qed
  with step show ?thesis by (auto simp: safe_config_def)
qed

lemma step_safe: "sys_step answers Start c c' \<Longrightarrow> safe_config P c \<Longrightarrow> safe_config P c'"
proof (induction rule: sys_step.induct)
  case (spawn p T ps)
  then have "\<exists>K. valid_snaps T K \<and> wp P p K (\<lambda>_ _. True)"
    using start_safe by (intro exI [of _ no_snaps]) simp
  with spawn show ?case by (auto simp: safe_config_def)
next
  case (crash T ps p qs)
  then show ?case by (auto simp: safe_config_def)
next
  case (call T req r T' ps k qs)
  then show ?case by (blast intro: call_safe)
qed

lemma run_safe: "(sys_step answers Start)\<^sup>*\<^sup>* c c' \<Longrightarrow> safe_config P c \<Longrightarrow> safe_config P c'"
  by (induction rule: rtranclp_induct) (auto intro: step_safe)

lemma reachable_safe:
  assumes "inv_tables P T0" "reachable answers Start T0 c"
  shows "safe_config P c"
  using assms run_safe [of "(T0, [])" c] by (simp add: reachable_def safe_config_def)

text \<open>No write is ever refused by a guard trigger, and no process panics.\<close>

lemma no_illegal_message_write:
  assumes "inv_tables P T0" "reachable answers Start T0 (T, ps)" "Call (UpdateMessage i p v) k \<in> set ps"
    and "t_messages T i = Some m" "msg_version m = v"
  shows "\<exists>m'. write_message now p m = Some m'"
proof -
  from reachable_safe [OF assms(1,2)] assms(3) obtain K where
    "valid_snaps T K" "permitted P K (UpdateMessage i p v)"
    by (fastforce simp: safe_config_def)
  with permitted_message [OF this(2,1) assms(4,5)] show ?thesis
    using legal_message by (simp add: write_message_allowed)
qed

lemma no_illegal_job_write:
  assumes "inv_tables P T0" "reachable answers Start T0 (T, ps)" "Call (UpdateJob i p v) k \<in> set ps"
    and "t_jobs T i = Some j" "job_version j = v"
  shows "\<exists>j'. write_job now p j = Some j'"
proof -
  from reachable_safe [OF assms(1,2)] assms(3) obtain K where
    "valid_snaps T K" "permitted P K (UpdateJob i p v)"
    by (fastforce simp: safe_config_def)
  with permitted_job [OF this(2,1) assms(4,5)] show ?thesis
    using legal_job by (simp add: write_job_allowed)
qed

lemma no_illegal_attempt_write:
  assumes "inv_tables P T0" "reachable answers Start T0 (T, ps)" "Call (UpdateAttempt i p v) k \<in> set ps"
    and "t_attempts T i = Some a" "att_version a = v"
  shows "\<exists>a'. write_attempt now p a = Some a'"
proof -
  from reachable_safe [OF assms(1,2)] assms(3) obtain K where
    "valid_snaps T K" "permitted P K (UpdateAttempt i p v)"
    by (fastforce simp: safe_config_def)
  with permitted_attempt [OF this(2,1) assms(4,5)] show ?thesis
    using legal_attempt by (simp add: write_attempt_allowed)
qed

lemma submissions_justified:
  assumes "inv_tables P T0" "reachable answers Start T0 (T, ps)" "Call (Submit key req) k \<in> set ps"
  shows "\<exists>m cur. may_submit P m req \<and> inv_message P m \<and> t_messages T (msg_id m) = Some cur
    \<and> msg_version m \<le> msg_version cur \<and> (msg_version m = msg_version cur \<longrightarrow> cur = m)"
proof -
  from reachable_safe [OF assms(1,2)] assms(3) obtain K where
    "valid_snaps T K" "permitted P K (Submit key req)"
    by (fastforce simp: safe_config_def)
  then show ?thesis
    by (fastforce simp: permitted_def valid_snaps_def historic_def)
qed

lemma never_panics:
  assumes "\<not> may_panic P" "inv_tables P T0" "reachable answers Start T0 (T, ps)"
  shows "Panic \<notin> set ps"
  using reachable_safe [OF assms(2,3)] assms(1) by (auto simp: safe_config_def)

lemma rows_keep_invariant:
  assumes "inv_tables P T0" "reachable answers Start T0 (T, ps)"
  shows "inv_tables P T"
  using reachable_safe [OF assms] by (simp add: safe_config_def)

end

end
