(* ===== verification/Msisdn.thy ===== *)
theory Msisdn
  imports Prelude
begin

text \<open>
  \<^verbatim>\<open>backends/crates/sms-msisdn/src\<close>: parsing a number into canonical E.164 form,
  classifying its line, masking it, and the operator-prefix table. The crate
  \<^verbatim>\<open>phonenumber\<close> and its metadata are not part of the repository: what the code calls
  of it is the record \<open>phonelib\<close>, an argument of every definition that uses it. A number
  is parsed by \<open>lib_parse\<close>, its country's metadata is found by \<open>lib_metadata\<close>, and
  \<open>lib_country\<close> reads a country identifier.
\<close>

subsection \<open>What the library provides\<close>

datatype region = Region ustring

datatype parse_error =
  InvalidCountryCode | NoNumber | TooShortAfterIdd | TooShortNsn | TooLong | MalformedInteger

record phone_number =
  pn_code :: nat
  pn_national :: ustring

record descriptor =
  d_pattern :: ustring
  is_match :: "ustring \<Rightarrow> bool"
  possible_length :: "nat list"

record metadata =
  md_id :: ustring
  md_general :: descriptor
  md_fixed_line :: "descriptor option"
  md_mobile :: "descriptor option"
  md_toll_free :: "descriptor option"
  md_premium_rate :: "descriptor option"
  md_shared_cost :: "descriptor option"
  md_personal_number :: "descriptor option"
  md_voip :: "descriptor option"
  md_pager :: "descriptor option"
  md_uan :: "descriptor option"
  md_voicemail :: "descriptor option"

record phonelib =
  lib_parse :: "region \<Rightarrow> ustring \<Rightarrow> parse_error + phone_number"
  lib_metadata :: "phone_number \<Rightarrow> metadata option"
  lib_country :: "ustring \<Rightarrow> region option"

subsection \<open>plan.rs: line types\<close>

datatype line_type =
  Mobile | FixedLineOrMobile | FixedLine | TollFree | PremiumRate | SharedCost | Voip
| PersonalNumber | Pager | Uan | Voicemail | Unallocated

fun is_addressable :: "line_type \<Rightarrow> bool" where
  "is_addressable Mobile = True"
| "is_addressable FixedLineOrMobile = True"
| "is_addressable _ = False"

fun line_type_as_str :: "line_type \<Rightarrow> ustring" where
  "line_type_as_str Mobile = lit ''mobile''"
| "line_type_as_str FixedLineOrMobile = lit ''fixed_line_or_mobile''"
| "line_type_as_str FixedLine = lit ''fixed_line''"
| "line_type_as_str TollFree = lit ''toll_free''"
| "line_type_as_str PremiumRate = lit ''premium_rate''"
| "line_type_as_str SharedCost = lit ''shared_cost''"
| "line_type_as_str Voip = lit ''voip''"
| "line_type_as_str PersonalNumber = lit ''personal_number''"
| "line_type_as_str Pager = lit ''pager''"
| "line_type_as_str Uan = lit ''uan''"
| "line_type_as_str Voicemail = lit ''voicemail''"
| "line_type_as_str Unallocated = lit ''unallocated''"

definition matches :: "descriptor option \<Rightarrow> ustring \<Rightarrow> bool" where
  "matches d n \<longleftrightarrow> (case d of None \<Rightarrow> False | Some x \<Rightarrow> is_match x n)"

definition line_type_of :: "metadata \<Rightarrow> ustring \<Rightarrow> line_type" where
  "line_type_of m n =
     (if \<not> is_match (md_general m) n then Unallocated
      else case find (\<lambda>(d, _). matches d n)
          [(md_premium_rate m, PremiumRate), (md_toll_free m, TollFree),
           (md_shared_cost m, SharedCost), (md_voip m, Voip),
           (md_personal_number m, PersonalNumber), (md_pager m, Pager),
           (md_uan m, Uan), (md_voicemail m, Voicemail)] of
        Some (_, t) \<Rightarrow> t
      | None \<Rightarrow>
          if matches (md_fixed_line m) n then
            (if map_option d_pattern (md_fixed_line m) = map_option d_pattern (md_mobile m)
                \<or> matches (md_mobile m) n
             then FixedLineOrMobile else FixedLine)
          else if matches (md_mobile m) n then Mobile else Unallocated)"

fun length_loop :: "nat \<Rightarrow> bool \<Rightarrow> descriptor list \<Rightarrow> bool" where
  "length_loop len any [] = (\<not> any)"
| "length_loop len any (d # ds) =
     (if possible_length d = [] then length_loop len any ds
      else if len \<in> set (possible_length d) then True
      else length_loop len True ds)"

definition length_is_possible :: "metadata \<Rightarrow> nat \<Rightarrow> bool" where
  "length_is_possible m len =
     (if len > 0xFFFF then False
      else length_loop len False
        (List.map_filter id
          [md_fixed_line m, md_mobile m, md_toll_free m, md_premium_rate m, md_shared_cost m,
           md_personal_number m, md_voip m, md_pager m, md_uan m, md_voicemail m]))"

subsection \<open>lib.rs: parsing\<close>

definition CM_COUNTRY_CODE :: nat where
  "CM_COUNTRY_CODE = 237"

definition MAX_E164_DIGITS :: nat where
  "MAX_E164_DIGITS = 15"

datatype msisdn_error =
  MsisdnEmpty
| InvalidCharacter uchar
| UnknownRegion ustring
| UnknownCountryCode ustring
| LegacyEightDigit ustring
| BadLength nat
| NotAllocated ustring
| NotAddressable ustring line_type

record msisdn =
  e164 :: ustring
  national_offset :: nat
  m_region :: "region option"
  m_line_type :: line_type

definition SEPARATORS :: "uchar list" where
  "SEPARATORS = [32, 9, 45, 46, 47, 40, 41, 91, 93, 0xa0, 0x202f]"

definition country_code_digits :: "nat \<Rightarrow> nat" where
  "country_code_digits code = (if code \<ge> 100 then 3 else if code \<ge> 10 then 2 else 1)"

fun sanitise_loop :: "ustring \<Rightarrow> bool \<Rightarrow> nat \<Rightarrow> ustring \<Rightarrow> msisdn_error + ustring" where
  "sanitise_loop out seen_plus digits [] = (if digits = 0 then Inl MsisdnEmpty else Inr out)"
| "sanitise_loop out seen_plus digits (c # cs) =
     (if c \<in> set SEPARATORS then sanitise_loop out seen_plus digits cs
      else if c = 43 then
        (if seen_plus \<or> digits > 0 then Inl (InvalidCharacter c)
         else sanitise_loop (out @ [43]) True digits cs)
      else if is_ascii_digit c then sanitise_loop (out @ [c]) seen_plus (digits + 1) cs
      else Inl (InvalidCharacter c))"

definition sanitise :: "ustring \<Rightarrow> msisdn_error + ustring" where
  "sanitise input = sanitise_loop [] False 0 input"

definition region_from_metadata_id :: "phonelib \<Rightarrow> ustring \<Rightarrow> region option" where
  "region_from_metadata_id L i = lib_country L i"

definition CM :: region where
  "CM = Region (lit ''CM'')"

definition parse_in :: "phonelib \<Rightarrow> ustring \<Rightarrow> region \<Rightarrow> msisdn_error + msisdn" where
  "parse_in L input region =
     bind_res (sanitise input) (\<lambda>candidate.
       let digit_count = length candidate - (if prefix [43] candidate then 1 else 0) in
       case lib_parse L region candidate of
         Inl InvalidCountryCode \<Rightarrow> Inl (UnknownCountryCode (dropWhile (\<lambda>c. c = 43) candidate))
       | Inl _ \<Rightarrow> Inl (BadLength digit_count)
       | Inr parsed \<Rightarrow>
           let country_code = pn_code parsed;
               national = pn_national parsed;
               offset = 1 + country_code_digits country_code;
               e = 43 # show_nat country_code @ national;
               meta = lib_metadata L parsed;
               line = (case meta of None \<Rightarrow> Unallocated | Some m \<Rightarrow> line_type_of m national)
           in
           if country_code_digits country_code + length national > MAX_E164_DIGITS
           then Inl (BadLength (length national))
           else if line = Unallocated then
             (if country_code = CM_COUNTRY_CODE \<and> length national = 8
                 \<and> \<not> prefix (lit ''88'') national
              then Inl (LegacyEightDigit national)
              else if (case meta of None \<Rightarrow> False | Some m \<Rightarrow> length_is_possible m (length national))
              then Inl (NotAllocated national)
              else Inl (BadLength (length national)))
           else Inr \<lparr>e164 = e, national_offset = offset,
                     m_region = (case meta of None \<Rightarrow> None
                                 | Some m \<Rightarrow> region_from_metadata_id L (md_id m)),
                     m_line_type = line\<rparr>)"

definition msisdn_parse :: "phonelib \<Rightarrow> ustring \<Rightarrow> msisdn_error + msisdn" where
  "msisdn_parse L input = parse_in L input CM"

definition national :: "msisdn \<Rightarrow> ustring" where
  "national m = drop (national_offset m) (e164 m)"

definition parse_mobile_in :: "phonelib \<Rightarrow> ustring \<Rightarrow> region \<Rightarrow> msisdn_error + msisdn" where
  "parse_mobile_in L input region =
     bind_res (parse_in L input region) (\<lambda>m.
       if is_addressable (m_line_type m) then Inr m
       else Inl (NotAddressable (national m) (m_line_type m)))"

definition parse_mobile :: "phonelib \<Rightarrow> ustring \<Rightarrow> msisdn_error + msisdn" where
  "parse_mobile L input = parse_mobile_in L input CM"

definition masked :: "msisdn \<Rightarrow> ustring" where
  "masked m =
     (let nat' = national m;
          keep = min 2 (length nat');
          hidden = length nat' - keep
      in take (national_offset m) (e164 m) @ replicate hidden 42 @ drop hidden nat')"

definition classify_in :: "phonelib \<Rightarrow> ustring \<Rightarrow> region \<Rightarrow> line_type option" where
  "classify_in L number region =
     (case parse_in L number region of
        Inr parsed \<Rightarrow> Some (m_line_type parsed)
      | Inl (NotAllocated _) \<Rightarrow> Some Unallocated
      | Inl _ \<Rightarrow> None)"

definition classify_msisdn :: "phonelib \<Rightarrow> ustring \<Rightarrow> line_type option" where
  "classify_msisdn L number = classify_in L number CM"

subsection \<open>region.rs\<close>

definition is_ascii_alphabetic :: "uchar \<Rightarrow> bool" where
  "is_ascii_alphabetic c \<longleftrightarrow> 65 \<le> c \<and> c \<le> 90 \<or> 97 \<le> c \<and> c \<le> 122"

definition to_ascii_uppercase :: "ustring \<Rightarrow> ustring" where
  "to_ascii_uppercase s = map (\<lambda>c. if 97 \<le> c \<and> c \<le> 122 then c - 32 else c) s"

definition region_from_str :: "phonelib \<Rightarrow> ustring \<Rightarrow> msisdn_error + region" where
  "region_from_str L s =
     (let trimmed = trim s in
      if byte_len trimmed \<noteq> 2 \<or> \<not> list_all is_ascii_alphabetic trimmed
      then Inl (UnknownRegion trimmed)
      else case region_from_metadata_id L (to_ascii_uppercase trimmed) of
        None \<Rightarrow> Inl (UnknownRegion trimmed)
      | Some r \<Rightarrow> Inr r)"

subsection \<open>operator.rs\<close>

type_synonym prefix_table = "(ustring \<times> ustring) list"

definition prefix_table_new :: "(ustring \<times> ustring) list \<Rightarrow> prefix_table" where
  "prefix_table_new rows =
     sort_key (\<lambda>(p, _). - int (byte_len p))
       (filter (\<lambda>(p, _). p \<noteq> [] \<and> list_all is_ascii_digit p) rows)"

definition lookup_national :: "prefix_table \<Rightarrow> ustring \<Rightarrow> ustring option" where
  "lookup_national entries n = map_option snd (find (\<lambda>(p, _). prefix p n) entries)"

definition lookup_operator :: "prefix_table \<Rightarrow> msisdn \<Rightarrow> ustring option" where
  "lookup_operator entries m = lookup_national entries (national m)"

subsection \<open>Sanitising\<close>

lemma byte_len_digits: "list_all is_ascii_digit s \<Longrightarrow> byte_len s = length s"
  by (induction s) (auto simp: byte_len_def len_utf8_def is_ascii_digit_def)

lemma separators_not_digits: "c \<in> set SEPARATORS \<Longrightarrow> \<not> is_ascii_digit c \<and> c \<noteq> 43"
  by (auto simp: SEPARATORS_def is_ascii_digit_def)

lemma sanitise_loop_filter:
  "sanitise_loop out p d cs = sanitise_loop out p d (filter (\<lambda>c. c \<notin> set SEPARATORS) cs)"
  by (induction out p d cs rule: sanitise_loop.induct) auto

lemma sanitise_loop_digits:
  assumes "list_all (\<lambda>c. c \<notin> set SEPARATORS) cs" "p \<or> 0 < d"
  shows "sanitise_loop out p d cs = Inr s \<longleftrightarrow>
    list_all is_ascii_digit cs \<and> (0 < d \<or> cs \<noteq> []) \<and> s = out @ cs"
  using assms
  by (induction out p d cs rule: sanitise_loop.induct) (auto simp: is_ascii_digit_def)

lemma sanitise_Inr_iff:
  "sanitise input = Inr s \<longleftrightarrow> s = filter (\<lambda>c. c \<notin> set SEPARATORS) input \<and>
     (\<exists>ds. ds \<noteq> [] \<and> list_all is_ascii_digit ds \<and> (s = ds \<or> s = 43 # ds))"
proof -
  let ?kept = "filter (\<lambda>c. c \<notin> set SEPARATORS) input"
  have sep: "list_all (\<lambda>c. c \<notin> set SEPARATORS) ?kept" by (simp add: list_all_iff)
  have "sanitise input = sanitise_loop [] False 0 ?kept"
    unfolding sanitise_def by (rule sanitise_loop_filter)
  moreover have "sanitise_loop [] False 0 ?kept = Inr s \<longleftrightarrow> s = ?kept \<and>
     (\<exists>ds. ds \<noteq> [] \<and> list_all is_ascii_digit ds \<and> (s = ds \<or> s = 43 # ds))"
  proof (cases ?kept)
    case (Cons c cs)
    with sep have c: "c \<notin> set SEPARATORS" and cs: "list_all (\<lambda>c. c \<notin> set SEPARATORS) cs"
      by simp_all
    show ?thesis
      unfolding Cons using c sanitise_loop_digits [OF cs] by (auto simp: is_ascii_digit_def)
  qed auto
  ultimately show ?thesis by simp
qed

subsection \<open>Well-formed numbers\<close>

definition wf_msisdn :: "msisdn \<Rightarrow> bool" where
  "wf_msisdn m \<longleftrightarrow> (\<exists>code. 0 < code \<and> code < 1000 \<and> national_offset m = 1 + length (show_nat code)
     \<and> e164 m = 43 # show_nat code @ national m)
   \<and> list_all is_ascii_digit (tl (e164 m)) \<and> length (tl (e164 m)) \<le> 15
   \<and> m_line_type m \<noteq> Unallocated"

text \<open>What the library documents about a parsed number: an E.164 calling code of one to three
  digits and a national number made of digits.\<close>

definition lib_digits :: "phonelib \<Rightarrow> bool" where
  "lib_digits L \<longleftrightarrow> (\<forall>r s p. lib_parse L r s = Inr p \<longrightarrow>
     0 < pn_code p \<and> pn_code p < 1000 \<and> list_all is_ascii_digit (pn_national p))"

text \<open>And that it reads an E.164 string back as the number it denotes, whatever the region.\<close>

definition lib_canonical :: "phonelib \<Rightarrow> bool" where
  "lib_canonical L \<longleftrightarrow> (\<forall>r s p r'. lib_parse L r s = Inr p \<longrightarrow>
     lib_parse L r' (43 # show_nat (pn_code p) @ pn_national p) = Inr p)"

lemma country_code_digits_show: "code < 1000 \<Longrightarrow> country_code_digits code = length (show_nat code)"
  by (simp add: country_code_digits_def show_nat_length_3)

text \<open>A successful parse, read backwards through every early return.\<close>

lemma parse_in_Inr:
  assumes "parse_in L input r = Inr m"
  shows "\<exists>cand p. sanitise input = Inr cand \<and> lib_parse L r cand = Inr p
    \<and> country_code_digits (pn_code p) + length (pn_national p) \<le> MAX_E164_DIGITS
    \<and> m = \<lparr>e164 = 43 # show_nat (pn_code p) @ pn_national p,
          national_offset = 1 + country_code_digits (pn_code p),
          m_region = (case lib_metadata L p of None \<Rightarrow> None
                      | Some md \<Rightarrow> region_from_metadata_id L (md_id md)),
          m_line_type = (case lib_metadata L p of None \<Rightarrow> Unallocated
                         | Some md \<Rightarrow> line_type_of md (pn_national p))\<rparr>
    \<and> m_line_type m \<noteq> Unallocated"
proof -
  from assms obtain cand where cand: "sanitise input = Inr cand"
    by (cases "sanitise input") (simp_all add: parse_in_def)
  show ?thesis
  proof (cases "lib_parse L r cand")
    case (Inl e)
    with assms cand show ?thesis by (cases e) (simp_all add: parse_in_def Let_def)
  next
    case (Inr p)
    with assms cand show ?thesis
      by (simp add: parse_in_def Let_def not_less split: if_split_asm) auto
  qed
qed

lemma parse_in_wf:
  assumes "lib_digits L" "parse_in L input r = Inr m"
  shows "wf_msisdn m"
proof -
  from parse_in_Inr [OF assms(2)] obtain cand p where p: "lib_parse L r cand = Inr p"
    "country_code_digits (pn_code p) + length (pn_national p) \<le> MAX_E164_DIGITS"
    "e164 m = 43 # show_nat (pn_code p) @ pn_national p"
    "national_offset m = 1 + country_code_digits (pn_code p)" "m_line_type m \<noteq> Unallocated"
    by fastforce
  from assms(1) p(1) have code: "0 < pn_code p" "pn_code p < 1000"
    and digits: "list_all is_ascii_digit (pn_national p)"
    unfolding lib_digits_def by blast+
  have off: "national_offset m = 1 + length (show_nat (pn_code p))"
    using p(4) country_code_digits_show [OF code(2)] by simp
  then have "national m = pn_national p" by (simp add: national_def p(3))
  moreover have "length (tl (e164 m)) \<le> 15"
    using p(2,3) country_code_digits_show [OF code(2)] by (simp add: MAX_E164_DIGITS_def)
  moreover have "list_all is_ascii_digit (tl (e164 m))"
    using digits show_nat_digits by (simp add: p(3))
  ultimately show ?thesis
    unfolding wf_msisdn_def using code off p(3,5) by metis
qed

text \<open>A concrete library that satisfies both assumptions, for the witnesses: every number is
  Cameroonian, and a national number of nine digits starting with 6 is mobile.\<close>

definition cm_descriptor :: descriptor where
  "cm_descriptor = \<lparr>d_pattern = lit ''6[0-9]+'', is_match = (\<lambda>n. length n = 9 \<and> prefix (lit ''6'') n),
     possible_length = [9]\<rparr>"

definition cm_lib :: phonelib where
  "cm_lib = \<lparr>lib_parse = (\<lambda>_ s.
       let n = (if prefix (lit ''+237'') s then drop 4 s else s)
       in if list_all is_ascii_digit n then Inr \<lparr>pn_code = 237, pn_national = n\<rparr> else Inl NoNumber),
     lib_metadata = (\<lambda>_. Some \<lparr>md_id = lit ''CM'', md_general = cm_descriptor, md_fixed_line = None,
       md_mobile = Some cm_descriptor, md_toll_free = None, md_premium_rate = None,
       md_shared_cost = None, md_personal_number = None, md_voip = None, md_pager = None,
       md_uan = None, md_voicemail = None\<rparr>),
     lib_country = (\<lambda>c. if c = lit ''CM'' then Some CM else None)\<rparr>"

lemma show_nat_237: "show_nat 237 = lit ''237''"
  by (simp add: show_nat.simps [of 237] show_nat.simps [of 23] show_nat.simps [of 2])

lemma cm_lib_digits: "lib_digits cm_lib"
  by (auto simp: lib_digits_def cm_lib_def Let_def split: if_splits)

lemma cm_lib_canonical: "lib_canonical cm_lib"
  by (auto simp: lib_canonical_def cm_lib_def Let_def show_nat_237 split: if_splits)

lemma cm_lib_example:
  "parse_in cm_lib (lit ''+237 677 12 34 56'') CM = Inr \<lparr>e164 = lit ''+237677123456'',
     national_offset = 4, m_region = Some CM, m_line_type = Mobile\<rparr>"
proof -
  have "sanitise (lit ''+237 677 12 34 56'') = Inr (lit ''+237677123456'')"
    by (simp add: sanitise_def SEPARATORS_def is_ascii_digit_def)
  moreover have "lib_parse cm_lib CM (lit ''+237677123456'')
      = Inr \<lparr>pn_code = 237, pn_national = lit ''677123456''\<rparr>"
    by (simp add: cm_lib_def is_ascii_digit_def)
  ultimately show ?thesis
    by (simp add: parse_in_def country_code_digits_def MAX_E164_DIGITS_def)
      (simp add: cm_lib_def line_type_of_def matches_def cm_descriptor_def
        region_from_metadata_id_def show_nat_237)
qed

subsection \<open>Properties\<close>

text \<open>Sanitising never rewrites a recipient. It succeeds exactly when what remains after
  dropping the separators is at least one digit, optionally preceded by a single plus sign, and then
  returns precisely those characters.\<close>

theorem sanitise_exact:
  "sanitise input = Inr s \<longleftrightarrow> s = filter (\<lambda>c. c \<notin> set SEPARATORS) input \<and>
     (\<exists>ds. ds \<noteq> [] \<and> list_all is_ascii_digit ds \<and> (s = ds \<or> s = 43 # ds))"
  by (rule sanitise_Inr_iff)

text \<open>C34: Every number the crate hands out is well-formed: a plus sign, a calling code of one to
  three digits and the national number, all digits, at most fifteen of them, the recorded offset
  falling exactly where the national number starts, and a line type other than unallocated; and a
  number accepted for sending is moreover addressable. Assumes the library's documented result.\<close>

theorem parsed_numbers_wf:
  assumes "lib_digits L"
  shows "(parse_in L input r = Inr m \<longrightarrow> wf_msisdn m) \<and>
    (parse_mobile_in L input r = Inr m \<longrightarrow> wf_msisdn m \<and> is_addressable (m_line_type m))"
  using parse_in_wf [OF assms]
  by (auto simp: parse_mobile_in_def bind_res_Inr_conv split: if_splits)

theorem parsed_numbers_wf_witness:
  "wf_msisdn \<lparr>e164 = lit ''+237677123456'', national_offset = 4, m_region = Some CM, m_line_type = Mobile\<rparr>"
  using parsed_numbers_wf [OF cm_lib_digits, of "lit ''+237 677 12 34 56'' " CM] cm_lib_example by blast

text \<open>The canonical form is a fixed point: parsing a number's own E.164 string gives the same
  number, in whatever region it is read, provided the library reads its own canonical strings
  back.\<close>

theorem e164_reparses:
  assumes "lib_digits L" and "lib_canonical L" and "parse_in L input r = Inr m"
  shows "parse_in L (e164 m) r' = Inr m"
proof -
  from parse_in_Inr [OF assms(3)] obtain cand p where p: "lib_parse L r cand = Inr p"
    "country_code_digits (pn_code p) + length (pn_national p) \<le> MAX_E164_DIGITS"
    "m = \<lparr>e164 = 43 # show_nat (pn_code p) @ pn_national p,
          national_offset = 1 + country_code_digits (pn_code p),
          m_region = (case lib_metadata L p of None \<Rightarrow> None
                      | Some md \<Rightarrow> region_from_metadata_id L (md_id md)),
          m_line_type = (case lib_metadata L p of None \<Rightarrow> Unallocated
                         | Some md \<Rightarrow> line_type_of md (pn_national p))\<rparr>"
    "m_line_type m \<noteq> Unallocated"
    by blast
  have digits: "list_all is_ascii_digit (show_nat (pn_code p) @ pn_national p)"
    using assms(1) p(1) show_nat_digits unfolding lib_digits_def by auto
  then have "\<forall>c \<in> set (e164 m). c \<notin> set SEPARATORS"
    using separators_not_digits by (auto simp: p(3) list_all_iff)
  then have "filter (\<lambda>c. c \<notin> set SEPARATORS) (e164 m) = e164 m"
    by (rule filter_True)
  moreover have "e164 m = 43 # show_nat (pn_code p) @ pn_national p" by (simp add: p(3))
  ultimately have "sanitise (e164 m) = Inr (e164 m)"
    unfolding sanitise_Inr_iff using digits
    by (intro conjI exI [of _ "show_nat (pn_code p) @ pn_national p"]) simp_all
  moreover have "lib_parse L r' (e164 m) = Inr p"
    using assms(2) p(1,3) unfolding lib_canonical_def by auto
  ultimately show ?thesis
    using p(2,3,4) by (simp add: parse_in_def Let_def)
qed

theorem e164_reparses_witness:
  "parse_in cm_lib (lit ''+237677123456'') (Region (lit ''US'')) = Inr \<lparr>e164 = lit ''+237677123456'',
     national_offset = 4, m_region = Some CM, m_line_type = Mobile\<rparr>"
  using e164_reparses [OF cm_lib_digits cm_lib_canonical cm_lib_example, of "Region (lit ''US'')"]
  by simp

text \<open>Masking keeps the length, the calling code and the last two digits of a well-formed
  number, and replaces every other digit by an asterisk.\<close>

theorem masked_hides:
  assumes "wf_msisdn m" and "2 \<le> length (national m)"
  shows "length (masked m) = length (e164 m)
    \<and> take (national_offset m) (masked m) = take (national_offset m) (e164 m)
    \<and> drop (length (e164 m) - 2) (masked m) = drop (length (e164 m) - 2) (e164 m)
    \<and> (\<forall>i. national_offset m \<le> i \<and> i < length (e164 m) - 2 \<longrightarrow> masked m ! i = 42)"
proof -
  obtain cc n where e: "e164 m = cc @ n" "national_offset m = length cc" "national m = n"
    using assms(1) unfolding wf_msisdn_def by (metis append_Cons length_Cons plus_1_eq_Suc)
  have m: "masked m = cc @ replicate (length n - 2) 42 @ drop (length n - 2) n"
    using assms(2) by (simp add: masked_def e Let_def)
  show ?thesis
    using assms(2) by (auto simp: m e nth_append)
qed

theorem masked_hides_witness:
  "masked \<lparr>e164 = lit ''+237677123456'', national_offset = 4, m_region = Some CM, m_line_type = Mobile\<rparr> ! 5 = 42"
proof -
  let ?m = "\<lparr>e164 = lit ''+237677123456'', national_offset = 4, m_region = Some CM, m_line_type = Mobile\<rparr>"
  have "wf_msisdn ?m" using parse_in_wf [OF cm_lib_digits cm_lib_example] .
  moreover have "national ?m = lit ''677123456''" by (simp add: national_def)
  ultimately show ?thesis using masked_hides [of ?m] by simp
qed

text \<open>The operator table answers with the longest matching prefix, and among equally long ones
  with the row inserted first; rows whose prefix is empty or not all digits are ignored; and no answer
  means that no usable row matches.\<close>

theorem longest_prefix_wins:
  "(lookup_national (prefix_table_new rows) n = None \<longleftrightarrow>
      (\<forall>(p, _) \<in> set rows. p \<noteq> [] \<and> list_all is_ascii_digit p \<longrightarrow> \<not> prefix p n)) \<and>
   (lookup_national (prefix_table_new rows) n = Some op \<longrightarrow>
      (\<exists>us p vs. filter (\<lambda>(p, _). p \<noteq> [] \<and> list_all is_ascii_digit p) rows = us @ (p, op) # vs
         \<and> prefix p n
         \<and> (\<forall>(q, _) \<in> set us. prefix q n \<longrightarrow> length q < length p)
         \<and> (\<forall>(q, _) \<in> set vs. prefix q n \<longrightarrow> length q \<le> length p)))"
proof (intro conjI impI)
  let ?ok = "filter (\<lambda>(p, _). p \<noteq> [] \<and> list_all is_ascii_digit p) rows"
  let ?key = "\<lambda>(p, _ :: ustring). - int (byte_len p)"
  show "lookup_national (prefix_table_new rows) n = None \<longleftrightarrow>
      (\<forall>(p, _) \<in> set rows. p \<noteq> [] \<and> list_all is_ascii_digit p \<longrightarrow> \<not> prefix p n)"
    by (auto simp: lookup_national_def prefix_table_new_def find_None_iff)
  assume "lookup_national (prefix_table_new rows) n = Some op"
  then obtain p where "find (\<lambda>(p, _). prefix p n) (sort_key ?key ?ok) = Some (p, op)"
    by (auto simp: lookup_national_def prefix_table_new_def)
  from find_sort_key [OF this] obtain us vs where split: "?ok = us @ (p, op) # vs" "prefix p n"
    "\<forall>u \<in> set us. (case u of (q, _) \<Rightarrow> prefix q n) \<longrightarrow> ?key (p, op) < ?key u"
    "\<forall>v \<in> set vs. (case v of (q, _) \<Rightarrow> prefix q n) \<longrightarrow> ?key (p, op) \<le> ?key v"
    by auto
  have "byte_len q = length q" if "(q, x) \<in> set ?ok" for q x
    using that by (auto simp: byte_len_digits)
  then have len: "byte_len q = length q" if "(q, x) \<in> set us \<or> (q, x) = (p, op) \<or> (q, x) \<in> set vs" for q x
    using that unfolding split(1) by auto
  have "length q < length p" if "(q, x) \<in> set us" "prefix q n" for q x
    using split(3) that len [of q x] len [of p op] by force
  moreover have "length q \<le> length p" if "(q, x) \<in> set vs" "prefix q n" for q x
    using split(4) that len [of q x] len [of p op] by force
  ultimately show "\<exists>us p vs. ?ok = us @ (p, op) # vs \<and> prefix p n
      \<and> (\<forall>(q, _) \<in> set us. prefix q n \<longrightarrow> length q < length p)
      \<and> (\<forall>(q, _) \<in> set vs. prefix q n \<longrightarrow> length q \<le> length p)"
    using split(1,2) by (intro exI [of _ us] exI [of _ p] exI [of _ vs]) auto
qed

theorem longest_prefix_wins_witness:
  "\<exists>us p vs. [(lit ''6'', lit ''unknown''), (lit ''655'', lit ''orange'')] = us @ (p, lit ''orange'') # vs
     \<and> prefix p (lit ''655123456'') \<and> (\<forall>(q, _) \<in> set us. prefix q (lit ''655123456'') \<longrightarrow> length q < length p)"
proof -
  let ?rows = "[(lit ''6'', lit ''unknown''), (lit ''655'', lit ''orange'')]"
  have "lookup_national (prefix_table_new ?rows) (lit ''655123456'') = Some (lit ''orange'')"
    by (simp add: prefix_table_new_def lookup_national_def is_ascii_digit_def byte_len_def len_utf8_def)
  then obtain us p vs where
    "filter (\<lambda>(p, _). p \<noteq> [] \<and> list_all is_ascii_digit p) ?rows = us @ (p, lit ''orange'') # vs"
    "prefix p (lit ''655123456'')"
    "\<forall>(q, _) \<in> set us. prefix q (lit ''655123456'') \<longrightarrow> length q < length p"
    using longest_prefix_wins [of ?rows "lit ''655123456''" "lit ''orange''"] by blast
  moreover have "filter (\<lambda>(p, _). p \<noteq> [] \<and> list_all is_ascii_digit p) ?rows = ?rows"
    by (simp add: is_ascii_digit_def)
  ultimately show ?thesis by (intro exI [of _ us] exI [of _ p] exI [of _ vs]) simp
qed

end
