(* ===== verification/Worker_Routing.thy ===== *)
theory Worker_Routing
  imports Program Msisdn
begin

text \<open>
  \<^verbatim>\<open>backends/crates/sms-worker/src/routing.rs\<close>: reading the routes and providers a decision
  needs, converting them to the pure engine's types, drawing the random number and selecting; and the
  text of a decision without a winner. The \<^verbatim>\<open>Debug\<close> form of a string (its escapes) is the
  parameter \<open>dbg\<close>, the phone-number library is \<open>L\<close>.
\<close>

subsection \<open>Conversions\<close>

record candidate =
  cand_operator :: schema_operator
  cand_class :: schema_class
  cand_app_id :: ustring
  cand_msisdn :: ustring
  cand_message_id :: ustring

fun convert_operator :: "schema_operator \<Rightarrow> operator_code" where
  "convert_operator mtn = Mtn"
| "convert_operator orange = Orange"
| "convert_operator camtel = Camtel"
| "convert_operator nexttel = Nexttel"
| "convert_operator unknown_operator = UnknownOperator"

fun convert_class :: "schema_class \<Rightarrow> message_class" where
  "convert_class otp = Otp"
| "convert_class transactional = Transactional"
| "convert_class notification = Notification"
| "convert_class marketing = Marketing"

definition convert_route :: "route \<Rightarrow> route_row" where
  "convert_route row = \<lparr>rt_id = route_id row, rt_name = route_name row, rt_priority = route_priority row,
     rt_weight = route_weight row, rt_enabled = route_enabled row,
     match_operator = map_option convert_operator (route_matchOperator row),
     match_class = map_option convert_class (route_matchClass row),
     match_app_id = route_matchAppId row, match_prefix = route_matchPrefix row,
     rt_provider_id = route_providerId row, rt_failover_route_id = route_failoverRouteId row\<rparr>"

fun provider_state_debug :: "provider_state \<Rightarrow> ustring" where
  "provider_state_debug Active = lit ''active''"
| "provider_state_debug Degraded = lit ''degraded''"
| "provider_state_debug ProviderDisabled = lit ''disabled''"
| "provider_state_debug Draining = lit ''draining''"

definition convert_provider :: "provider \<Rightarrow> instant \<Rightarrow> provider_row" where
  "convert_provider row now =
     (let circuit_open = (case prov_circuitOpenUntil row of Some until \<Rightarrow> now < until | None \<Rightarrow> False);
          available = (prov_state row = Active \<and> \<not> circuit_open);
          reason = (if circuit_open then
                      Some (lit ''circuit breaker open after consecutive Unavailable failures'')
                    else if \<not> available then
                      Some (lit ''provider state is '' @ provider_state_debug (prov_state row) @ lit '', not active'')
                    else None)
      in \<lparr>pr_id = prov_id row, pr_available = available, pr_reason = reason\<rparr>)"

subsection \<open>The decision\<close>

text \<open>Collecting pairs into a hash map: a later pair replaces an earlier one with the same key. The sorted,
  deduplicated list of provider ids is only used as the operand of \<^verbatim>\<open>IN\<close>.\<close>

definition provider_map :: "instant \<Rightarrow> provider list \<Rightarrow> ustring \<rightharpoonup> provider_row" where
  "provider_map now rows = map_of (rev (map (\<lambda>row. (prov_id row, convert_provider row now)) rows))"

definition msisdn_national_of :: "phonelib \<Rightarrow> ustring \<Rightarrow> ustring" where
  "msisdn_national_of L msisdn = (case msisdn_parse L msisdn of Inr m \<Rightarrow> national m | Inl _ \<Rightarrow> [])"

definition route_order :: "route order list" where
  "route_order = [Desc (\<lambda>r. Some (KInt (route_priority r))), Asc (\<lambda>r. Some (KStr (route_id r)))]"

definition decide :: "phonelib \<Rightarrow> candidate \<Rightarrow> ustring set \<Rightarrow> (cratestack_error + decision) prog" where
  "decide L c exclude =
     try_prog (find_routes route_order) (\<lambda>routes.
       let provider_ids = remdups (map route_providerId routes)
       in bind_prog utc_now (\<lambda>now.
         try_prog
           (if provider_ids = [] then Ret (Inr [])
            else find_providers (\<lambda>p. prov_id p \<in> set provider_ids) [] None) (\<lambda>rows.
           bind_prog random_f64 (\<lambda>draw.
             case select_route (map convert_route routes) (provider_map now rows)
                    \<lparr>rc_operator = convert_operator (cand_operator c), rc_class = convert_class (cand_class c),
                     rc_app_id = cand_app_id c, rc_msisdn_national = msisdn_national_of L (cand_msisdn c)\<rparr>
                    exclude draw of
               None \<Rightarrow> Panic
             | Some d \<Rightarrow> Ret (Inr d)))))"

subsection \<open>Explaining a decision without a winner\<close>

fun operator_debug :: "operator_code \<Rightarrow> ustring" where
  "operator_debug Mtn = lit ''Mtn''"
| "operator_debug Orange = lit ''Orange''"
| "operator_debug Camtel = lit ''Camtel''"
| "operator_debug Nexttel = lit ''Nexttel''"
| "operator_debug UnknownOperator = lit ''Unknown''"

fun class_debug :: "message_class \<Rightarrow> ustring" where
  "class_debug Otp = lit ''Otp''"
| "class_debug Transactional = lit ''Transactional''"
| "class_debug Notification = lit ''Notification''"
| "class_debug Marketing = lit ''Marketing''"

fun failure_debug :: "(ustring \<Rightarrow> ustring) \<Rightarrow> predicate_failure \<Rightarrow> ustring" where
  "failure_debug dbg (OperatorFailure e a) =
     lit ''Operator { expected: '' @ operator_debug e @ lit '', actual: '' @ operator_debug a @ lit '' }''"
| "failure_debug dbg (ClassFailure e a) =
     lit ''Class { expected: '' @ class_debug e @ lit '', actual: '' @ class_debug a @ lit '' }''"
| "failure_debug dbg (AppIdFailure e a) =
     lit ''AppId { expected: '' @ dbg e @ lit '', actual: '' @ dbg a @ lit '' }''"
| "failure_debug dbg (PrefixFailure e n) =
     lit ''Prefix { expected: '' @ dbg e @ lit '', msisdn_national: '' @ dbg n @ lit '' }''"

fun outcome_debug :: "(ustring \<Rightarrow> ustring) \<Rightarrow> route_outcome \<Rightarrow> ustring" where
  "outcome_debug dbg Excluded = lit ''Excluded''"
| "outcome_debug dbg Disabled = lit ''Disabled''"
| "outcome_debug dbg (PredicateFailed f) = lit ''PredicateFailed('' @ failure_debug dbg f @ lit '')''"
| "outcome_debug dbg (ProviderUnavailable r) = lit ''ProviderUnavailable('' @ dbg r @ lit '')''"
| "outcome_debug dbg (Eligible b) =
     lit ''Eligible { winning_band: '' @ (if b then lit ''true'' else lit ''false'') @ lit '' }''"

definition explain_no_route :: "(ustring \<Rightarrow> ustring) \<Rightarrow> decision \<Rightarrow> ustring" where
  "explain_no_route dbg d =
     (if evaluations d = [] then lit ''no eligible route: no Route rows are configured''
      else
        (let reasons = map (\<lambda>e. ev_route_name e @ lit '' ('' @ outcome_debug dbg (ev_outcome e) @ lit '')'')
                         (evaluations d)
         in lit ''no eligible route: '' @ show_nat (length (evaluations d)) @
            lit '' route(s) evaluated, 0 eligible '' @ [0x2014] @ lit '' '' @ join (lit ''; '') reasons))"

subsection \<open>What a decision promises\<close>

text \<open>The row an available provider comes from: active, with no circuit open at the time of the
  decision.\<close>

definition usable :: "instant \<Rightarrow> provider \<Rightarrow> bool" where
  "usable now p \<longleftrightarrow> prov_state p = Active \<and> (\<forall>until. prov_circuitOpenUntil p = Some until \<longrightarrow> until \<le> now)"

lemma convert_provider_available: "pr_available (convert_provider p now) \<longleftrightarrow> usable now p"
  by (auto simp: convert_provider_def usable_def Let_def split: option.splits)

lemma provider_map_Some:
  "provider_map now rows i = Some pr \<Longrightarrow> \<exists>row \<in> set rows. prov_id row = i \<and> pr = convert_provider row now"
  by (auto simp: provider_map_def dest!: map_of_SomeD)

text \<open>A winner of \<open>decide\<close> is one of the rows read, outside the exclusions, on a usable provider.\<close>

definition good_winner :: "route list \<Rightarrow> ustring set \<Rightarrow> route_winner \<Rightarrow> bool" where
  "good_winner routes exclude w \<longleftrightarrow>
     (\<exists>r \<in> set routes. wn_route_id w = route_id r \<and> wn_provider_id w = route_providerId r
        \<and> route_enabled r \<and> route_id r \<notin> exclude)"

lemma select_winner:
  assumes "select_route (map convert_route routes) (provider_map now rows) rc exclude draw = Some d"
    and "winner d = Some w"
  shows "good_winner routes exclude w \<and> (\<exists>p \<in> set rows. prov_id p = wn_provider_id w \<and> usable now p)"
proof -
  let ?rs = "map convert_route routes" and ?ps = "provider_map now rows"
  from select_route_cases [of ?rs ?ps rc exclude draw] assms obtain prio r where
    r: "r \<in> set (band_of ?ps rc exclude prio ?rs)"
    and w: "w = \<lparr>wn_route_id = rt_id r, wn_provider_id = rt_provider_id r,
                  wn_failover_route_id = rt_failover_route_id r\<rparr>"
    by auto
  from r obtain q where q: "q \<in> set routes" "r = convert_route q" and el: "eligible ?ps rc exclude r"
    by (auto simp: band_of_def)
  from el obtain pr where pr: "?ps (rt_provider_id r) = Some pr" "pr_available pr"
    "rt_id r \<notin> exclude" "rt_enabled r" by (auto simp: eligible_def)
  from provider_map_Some [OF pr(1)] pr(2) have "\<exists>p \<in> set rows. prov_id p = rt_provider_id r \<and> usable now p"
    by (auto simp: convert_provider_available)
  with q pr(3,4) w show ?thesis
    by (auto simp: good_winner_def convert_route_def)
qed

lemma wp_decide:
  assumes "\<And>e. Q (Inl e) K"
    and "\<And>routes d. \<forall>y \<in> set routes. inv_route P y \<Longrightarrow>
      (\<And>w. winner d = Some w \<Longrightarrow> good_winner routes exclude w) \<Longrightarrow> Q (Inr d) K"
  shows "wp P (decide L c exclude) K Q"
proof -
  have "wp P (case select_route (map convert_route routes) (provider_map now rows) rc exclude draw of
        None \<Rightarrow> Panic | Some d \<Rightarrow> Ret (Inr d)) K Q"
    if "\<forall>y \<in> set routes. inv_route P y" for routes now rows rc draw
  proof -
    from select_route_cases [of "map convert_route routes" "provider_map now rows" rc exclude draw]
    obtain d where d: "select_route (map convert_route routes) (provider_map now rows) rc exclude draw = Some d"
      by blast
    then show ?thesis
      using assms(2) [OF that] select_winner [OF d] by simp
  qed
  note final = this
  show ?thesis
    using assms(1) final [of "[]"] by (simp add: decide_def Let_def final)
qed

end
