(* ===== verification/Claim.thy ===== *)
theory Claim
  imports Worker_Routing "HOL-Library.Option_ord" "HOL-Library.Product_Lexorder"
begin

text \<open>
  \<^verbatim>\<open>backends/crates/sms-worker/src/claim.rs\<close>: how a worker takes work. Every claiming role
  selects candidates and takes a lease on each by a compare-and-swap on the version column; a lost race
  and a denied write are skipped, any other failure ends the batch. The trait \<^verbatim>\<open>Claimable\<close>
  is the pair of functions a role passes to \<open>claim_batch\<close>; its three implementations (messages,
  jobs, webhook attempts) follow, with the selection of webhook attempts by endpoint and the bounded count
  of held attempts.

  \<open>env\<close> gathers the library code the worker calls: the phone-number parser, the
  \<^verbatim>\<open>Display\<close> of the framework's errors, and the \<^verbatim>\<open>Debug\<close> forms of strings and
  durations.
\<close>

record env =
  env_phone :: phonelib
  env_err :: "cratestack_error \<Rightarrow> ustring"
  env_dbg :: "ustring \<Rightarrow> ustring"
  env_dur :: "duration \<Rightarrow> ustring"

subsection \<open>The loop over candidates\<close>

fun lease_candidates ::
    "(cratestack_error \<Rightarrow> ustring) \<Rightarrow> ('c \<Rightarrow> (cratestack_error + 'c) prog) \<Rightarrow> 'c list \<Rightarrow> 'c list
      \<Rightarrow> (cratestack_error + 'c list) prog" where
  "lease_candidates ts take_lease claimed [] = Ret (Inr claimed)"
| "lease_candidates ts take_lease claimed (c # cs) =
     bind_prog (take_lease c) (\<lambda>r. case r of
       Inr row \<Rightarrow> lease_candidates ts take_lease (claimed @ [row]) cs
     | Inl e \<Rightarrow> (case map_database_error ts e of
         PreconditionFailed _ \<Rightarrow> lease_candidates ts take_lease claimed cs
       | Forbidden _ \<Rightarrow> lease_candidates ts take_lease claimed cs
       | e' \<Rightarrow> Ret (Inl e')))"

definition claim_batch ::
    "(cratestack_error \<Rightarrow> ustring) \<Rightarrow> (instant \<Rightarrow> int \<Rightarrow> (cratestack_error + 'c list) prog)
      \<Rightarrow> ('c \<Rightarrow> ustring \<Rightarrow> instant \<Rightarrow> (cratestack_error + 'c) prog) \<Rightarrow> ustring \<Rightarrow> int
      \<Rightarrow> (cratestack_error + 'c list) prog" where
  "claim_batch ts candidates take_lease worker budget =
     bind_prog utc_now (\<lambda>now. try_prog (candidates now budget) (\<lambda>cs.
       lease_candidates ts (\<lambda>c. take_lease c worker now) [] cs))"

subsection \<open>Messages\<close>

definition DISPATCH_LEASE :: duration where "DISPATCH_LEASE = minutes 2"

definition route_message :: "env \<Rightarrow> message \<Rightarrow> ustring set \<Rightarrow> (cratestack_error + decision) prog" where
  "route_message E m exclude = decide (env_phone E)
     \<lparr>cand_operator = msg_operator m, cand_class = msg_class m, cand_app_id = msg_appId m,
      cand_msisdn = msg_msisdn m, cand_message_id = msg_id m\<rparr> exclude"

definition apply_routing_decision ::
    "env \<Rightarrow> message \<Rightarrow> ustring \<Rightarrow> instant \<Rightarrow> (cratestack_error + message) prog" where
  "apply_routing_decision E m worker now =
     try_prog (route_message E m {}) (\<lambda>d. case winner d of
       Some w \<Rightarrow> update_message (msg_id m) (no_message_patch\<lparr>
           mp_state := Some Queued,
           mp_providerId := Some (Some (wn_provider_id w)),
           mp_routeId := Some (Some (wn_route_id w)),
           mp_leaseOwner := Some (Some worker),
           mp_leaseUntil := Some (Some now)\<rparr>) (msg_version m)
     | None \<Rightarrow> update_message (msg_id m) (no_message_patch\<lparr>
           mp_state := Some Rejected,
           mp_stateReason := Some (Some (explain_no_route (env_dbg E) d)),
           mp_leaseOwner := Some (Some worker),
           mp_leaseUntil := Some (Some now)\<rparr>) (msg_version m))"

definition fail_max_attempts ::
    "ustring \<Rightarrow> int \<Rightarrow> ustring \<Rightarrow> instant \<Rightarrow> ustring \<Rightarrow> (cratestack_error + message) prog" where
  "fail_max_attempts i version worker now reason = update_message i (no_message_patch\<lparr>
     mp_state := Some MsgFailed,
     mp_stateReason := Some (Some reason),
     mp_leaseOwner := Some (Some worker),
     mp_leaseUntil := Some (Some now)\<rparr>) version"

definition message_claimable :: "instant \<Rightarrow> message \<Rightarrow> bool" where
  "message_claimable now m \<longleftrightarrow> msg_state m \<in> {Accepted, Queued, Routed, Undelivered}
     \<and> now < msg_expiresAt m
     \<and> (case msg_scheduledAt m of None \<Rightarrow> True | Some t \<Rightarrow> t \<le> now)
     \<and> (case msg_leaseUntil m of None \<Rightarrow> True | Some t \<Rightarrow> t < now)"

definition message_candidates :: "instant \<Rightarrow> int \<Rightarrow> (cratestack_error + message list) prog" where
  "message_candidates now budget = find_messages (message_claimable now)
     [Desc (\<lambda>m. Some (KInt (msg_priority m))), Asc (\<lambda>m. Some (KInt (msg_createdAt m)))] (Some budget)"

definition message_take_lease ::
    "env \<Rightarrow> message \<Rightarrow> ustring \<Rightarrow> instant \<Rightarrow> (cratestack_error + message) prog" where
  "message_take_lease E m worker now =
     (case msg_state m of
        Accepted \<Rightarrow> apply_routing_decision E m worker now
      | Queued \<Rightarrow>
          if msg_maxAttempts m \<le> msg_attempts m then
            fail_max_attempts (msg_id m) (msg_version m) worker now
              (lit ''max attempts ('' @ show_int (msg_maxAttempts m) @ lit '') reached'')
          else update_message (msg_id m) (no_message_patch\<lparr>
            mp_state := Some Routed,
            mp_attempts := Some (wrap_i64 (msg_attempts m + 1)),
            mp_leaseOwner := Some (Some worker),
            mp_leaseUntil := Some (Some (now + DISPATCH_LEASE))\<rparr>) (msg_version m)
      | Routed \<Rightarrow> update_message (msg_id m) (no_message_patch\<lparr>
            mp_state := Some Routed,
            mp_attempts := Some (msg_attempts m),
            mp_leaseOwner := Some (Some worker),
            mp_leaseUntil := Some (Some (now + DISPATCH_LEASE))\<rparr>) (msg_version m)
      | Undelivered \<Rightarrow>
          if msg_maxAttempts m \<le> msg_attempts m then
            fail_max_attempts (msg_id m) (msg_version m) worker now
              (lit ''max attempts ('' @ show_int (msg_maxAttempts m) @
               lit '') reached after a retryable delivery failure'')
          else update_message (msg_id m) (no_message_patch\<lparr>
            mp_state := Some Queued,
            mp_leaseOwner := Some (Some worker),
            mp_leaseUntil := Some (Some now)\<rparr>) (msg_version m)
      | _ \<Rightarrow> Panic)"

subsection \<open>Jobs\<close>

definition JOB_LEASE :: duration where "JOB_LEASE = minutes 5"

definition job_order :: "job order list" where
  "job_order = [Desc (\<lambda>j. Some (KInt (job_priority j))), Asc (\<lambda>j. Some (KInt (job_runAt j)))]"

definition expired_lease :: "instant \<Rightarrow> instant option \<Rightarrow> bool" where
  "expired_lease now u \<longleftrightarrow> (case u of None \<Rightarrow> False | Some t \<Rightarrow> t < now)"

definition job_candidates :: "instant \<Rightarrow> int \<Rightarrow> (cratestack_error + job list) prog" where
  "job_candidates now budget =
     try_prog (find_jobs (\<lambda>j. job_st j = JobPending \<and> job_runAt j \<le> now) job_order (Some budget)) (\<lambda>pending.
       let remaining = budget - int (length pending)
       in if 0 < remaining then
            try_prog (find_jobs (\<lambda>j. job_st j = JobRunning \<and> expired_lease now (job_leaseUntil j))
                job_order (Some remaining)) (\<lambda>reclaimable. Ret (Inr (pending @ reclaimable)))
          else Ret (Inr pending))"

definition job_take_lease :: "job \<Rightarrow> ustring \<Rightarrow> instant \<Rightarrow> (cratestack_error + job) prog" where
  "job_take_lease j worker now =
     (case job_st j of
        JobPending \<Rightarrow> update_job (job_id j) (no_job_patch\<lparr>
            jp_state := Some JobRunning,
            jp_attempts := Some (wrap_i64 (job_attempts j + 1)),
            jp_leaseOwner := Some (Some worker),
            jp_leaseUntil := Some (Some (now + JOB_LEASE))\<rparr>) (job_version j)
      | JobRunning \<Rightarrow> update_job (job_id j) (no_job_patch\<lparr>
            jp_state := Some JobPending,
            jp_leaseOwner := Some None,
            jp_leaseUntil := Some None\<rparr>) (job_version j)
      | _ \<Rightarrow> Panic)"

subsection \<open>Webhook attempts: what a worker serves\<close>

definition HOOKS_LEASE :: duration where "HOOKS_LEASE = secs 30"

datatype hmac_webhooks = Permitted | HmacDisabled

fun is_permitted :: "hmac_webhooks \<Rightarrow> bool" where
  "is_permitted h \<longleftrightarrow> h = Permitted"

datatype served_modes = Both | HmacOnly | SealedOnly | Neither

definition served_of :: "bool \<Rightarrow> hmac_webhooks \<Rightarrow> served_modes" where
  "served_of holds_signing_key h =
     (if is_permitted h then (if holds_signing_key then Both else HmacOnly)
      else (if holds_signing_key then SealedOnly else Neither))"

fun serves :: "served_modes \<Rightarrow> webhook_delivery_mode \<Rightarrow> bool" where
  "serves Both _ = True"
| "serves HmacOnly m = (m = hmac)"
| "serves SealedOnly m = (m = sealed)"
| "serves Neither _ = False"

definition serves_nothing :: "served_modes \<Rightarrow> bool" where
  "serves_nothing s \<longleftrightarrow> s = Neither"

definition can_claim :: "served_modes \<Rightarrow> endpoint \<Rightarrow> instant \<Rightarrow> bool" where
  "can_claim s e now \<longleftrightarrow> serves s (ep_deliveryMode e) \<and> ep_active e
     \<and> (case ep_circuitOpenUntil e of None \<Rightarrow> True | Some open_until \<Rightarrow> open_until \<le> now)"

definition due_attempts :: "instant \<Rightarrow> attempt \<Rightarrow> bool" where
  "due_attempts now a \<longleftrightarrow> att_st a \<in> {AttPending, AttFailed}
     \<and> (case att_nextAttemptAt a of None \<Rightarrow> True | Some t \<Rightarrow> t \<le> now)"

definition expired_leases :: "instant \<Rightarrow> attempt \<Rightarrow> bool" where
  "expired_leases now a \<longleftrightarrow> att_st a = Delivering \<and> expired_lease now (att_leaseUntil a)"

definition by_next :: "attempt order list" where
  "by_next = [Asc (\<lambda>a. map_option KInt (att_nextAttemptAt a))]"

definition by_lease :: "attempt order list" where
  "by_lease = [Asc (\<lambda>a. map_option KInt (att_leaseUntil a))]"

subsection \<open>Webhook attempts: selection\<close>

definition time_ordered_candidates :: "instant \<Rightarrow> int \<Rightarrow> (cratestack_error + attempt list) prog" where
  "time_ordered_candidates now limit =
     try_prog (find_attempts (due_attempts now) by_next (Some limit)) (\<lambda>ready.
       let remaining = limit - int (length ready)
       in if 0 < remaining then
            try_prog (find_attempts (expired_leases now) by_lease (Some remaining)) (\<lambda>more.
              Ret (Inr (ready @ more)))
          else Ret (Inr ready))"

fun per_endpoint_loop ::
    "instant \<Rightarrow> int \<Rightarrow> attempt list \<Rightarrow> ustring list \<Rightarrow> (cratestack_error + attempt list) prog" where
  "per_endpoint_loop now limit ready [] = Ret (Inr ready)"
| "per_endpoint_loop now limit ready (e # es) =
     try_prog (find_attempts (\<lambda>a. due_attempts now a \<and> att_endpointId a = e) by_next (Some limit)) (\<lambda>more.
       per_endpoint_loop now limit (ready @ more) es)"

text \<open>\<^verbatim>\<open>Vec::truncate\<close> and \<^verbatim>\<open>take\<close> at a budget that \<^verbatim>\<open>usize::try_from\<close>
  converts, a negative one standing for no bound.\<close>

definition take_budget :: "int \<Rightarrow> 'a list \<Rightarrow> 'a list" where
  "take_budget n xs = (if n < 0 then xs else take (nat n) xs)"

definition per_endpoint_candidates ::
    "instant \<Rightarrow> int \<Rightarrow> ustring list \<Rightarrow> (cratestack_error + attempt list) prog" where
  "per_endpoint_candidates now limit endpoints =
     try_prog (per_endpoint_loop now limit [] endpoints) (\<lambda>found.
       let ready = take_budget limit
             (sort_key (\<lambda>a. (att_nextAttemptAt a = None, att_nextAttemptAt a)) found);
           remaining = limit - int (length ready)
       in if 0 < remaining then
            try_prog (find_attempts (\<lambda>a. expired_leases now a \<and> att_endpointId a \<in> set endpoints)
                by_lease (Some remaining)) (\<lambda>more. Ret (Inr (ready @ more)))
          else Ret (Inr ready))"

definition filter_by_endpoint_health ::
    "attempt list \<Rightarrow> instant \<Rightarrow> int \<Rightarrow> served_modes \<Rightarrow> (cratestack_error + attempt list) prog" where
  "filter_by_endpoint_health candidates now budget served =
     (if candidates = [] then Ret (Inr candidates)
      else
        (let endpoint_ids = remdups (map att_endpointId candidates)
         in try_prog (find_endpoints (\<lambda>e. ep_id e \<in> set endpoint_ids) None) (\<lambda>endpoints.
              let healthy = ep_id ` {e \<in> set endpoints. can_claim served e now}
              in Ret (Inr (take_budget budget (filter (\<lambda>a. att_endpointId a \<in> healthy) candidates))))))"

definition webhook_candidates ::
    "instant \<Rightarrow> int \<Rightarrow> served_modes \<Rightarrow> (cratestack_error + attempt list) prog" where
  "webhook_candidates now budget served =
     try_prog (find_endpoints (\<lambda>_. True) None) (\<lambda>endpoints.
       let claimable = map ep_id (filter (\<lambda>e. can_claim served e now) endpoints)
       in try_prog
            (if length claimable = length endpoints then time_ordered_candidates now budget
             else if claimable = [] then Ret (Inr [])
             else per_endpoint_candidates now budget claimable) (\<lambda>candidates.
            filter_by_endpoint_health candidates now budget served))"

definition attempt_take_lease :: "attempt \<Rightarrow> ustring \<Rightarrow> instant \<Rightarrow> (cratestack_error + attempt) prog" where
  "attempt_take_lease a worker now =
     (case att_st a of
        AttPending \<Rightarrow> update_attempt (att_id a) (no_attempt_patch\<lparr>
            ap_state := Some Delivering,
            ap_attempts := Some (wrap_i64 (att_attempts a + 1)),
            ap_leaseOwner := Some (Some worker),
            ap_leaseUntil := Some (Some (now + HOOKS_LEASE))\<rparr>) (att_version a)
      | AttFailed \<Rightarrow> update_attempt (att_id a) (no_attempt_patch\<lparr>
            ap_state := Some Delivering,
            ap_attempts := Some (wrap_i64 (att_attempts a + 1)),
            ap_leaseOwner := Some (Some worker),
            ap_leaseUntil := Some (Some (now + HOOKS_LEASE))\<rparr>) (att_version a)
      | Delivering \<Rightarrow> update_attempt (att_id a) (no_attempt_patch\<lparr>
            ap_state := Some Delivering,
            ap_leaseOwner := Some (Some worker),
            ap_leaseUntil := Some (Some (now + HOOKS_LEASE))\<rparr>) (att_version a)
      | _ \<Rightarrow> Panic)"

definition claim_webhook_attempts ::
    "env \<Rightarrow> ustring \<Rightarrow> int \<Rightarrow> served_modes \<Rightarrow> (cratestack_error + attempt list) prog" where
  "claim_webhook_attempts E worker budget served =
     bind_prog utc_now (\<lambda>now. try_prog (webhook_candidates now budget served) (\<lambda>cs.
       lease_candidates (env_err E) (\<lambda>a. attempt_take_lease a worker now) [] cs))"

subsection \<open>Counting held attempts\<close>

definition WAITING_COUNT_CAP :: nat where "WAITING_COUNT_CAP = 10000"

datatype waiting = Waiting (waiting_get: nat)

definition waiting_of :: "nat \<Rightarrow> waiting" where
  "waiting_of found = Waiting (if WAITING_COUNT_CAP < found then WAITING_COUNT_CAP + 1 else found)"

definition is_more_than_cap :: "waiting \<Rightarrow> bool" where
  "is_more_than_cap w \<longleftrightarrow> WAITING_COUNT_CAP < waiting_get w"

definition waiting_to_string :: "waiting \<Rightarrow> ustring" where
  "waiting_to_string w = (if is_more_than_cap w then lit ''more than '' @ show_nat WAITING_COUNT_CAP
     else show_nat (waiting_get w))"

definition read_waiting :: "(attempt \<Rightarrow> bool) \<Rightarrow> nat \<Rightarrow> (cratestack_error + nat) prog" where
  "read_waiting f found =
     (let room = WAITING_COUNT_CAP + 1 - min found (WAITING_COUNT_CAP + 1)
      in if room = 0 then Ret (Inr 0)
         else try_prog (find_attempts f [] (Some (int room))) (\<lambda>rows. Ret (Inr (length rows))))"

fun count_loop :: "instant \<Rightarrow> ustring list \<Rightarrow> nat \<Rightarrow> ustring list \<Rightarrow> (cratestack_error + waiting) prog" where
  "count_loop now endpoints found [] =
     try_prog (read_waiting (\<lambda>a. expired_leases now a \<and> att_endpointId a \<in> set endpoints) found) (\<lambda>n.
       Ret (Inr (Waiting (found + n))))"
| "count_loop now endpoints found (e # es) =
     try_prog (read_waiting (\<lambda>a. due_attempts now a \<and> att_endpointId a = e) found) (\<lambda>n.
       if WAITING_COUNT_CAP < found + n then Ret (Inr (Waiting (found + n)))
       else count_loop now endpoints (found + n) es)"

definition count_attempts_waiting ::
    "instant \<Rightarrow> webhook_delivery_mode \<Rightarrow> (cratestack_error + waiting) prog" where
  "count_attempts_waiting now mode =
     try_prog (find_endpoints (\<lambda>_. True) None) (\<lambda>rows.
       let endpoints = map ep_id (filter (\<lambda>e. ep_active e \<and> ep_deliveryMode e = mode) rows)
       in if endpoints = [] then Ret (Inr (waiting_of 0))
          else count_loop now endpoints 0 endpoints)"

subsection \<open>What the worker keeps of the rows\<close>

text \<open>The routes a message has been moved away from, as its column records them.\<close>

definition excluded_of :: "message \<Rightarrow> ustring list" where
  "excluded_of m = unpack (case msg_excludedRouteIds m of None \<Rightarrow> [] | Some s \<Rightarrow> s)"

definition MAX_FAILOVER_HOPS :: nat where "MAX_FAILOVER_HOPS = 2"

definition tried :: "message_state \<Rightarrow> bool" where
  "tried s \<longleftrightarrow> s \<in> {Routed, Submitted, Delivered, Uncertain, Undelivered}"

definition message_inv :: "message \<Rightarrow> bool" where
  "message_inv m \<longleftrightarrow>
     0 \<le> msg_attempts m \<and> msg_attempts m \<le> max 0 (msg_maxAttempts m) \<and> msg_maxAttempts m < 2 ^ 63
     \<and> (tried (msg_state m) \<longrightarrow> 1 \<le> msg_attempts m)
     \<and> (\<forall>i. msg_routeId m = Some i \<longrightarrow> wordlike i \<and> i \<notin> set (excluded_of m))
     \<and> distinct (excluded_of m) \<and> length (excluded_of m) \<le> MAX_FAILOVER_HOPS
     \<and> (msg_state m = Accepted \<longrightarrow> excluded_of m = [])"

text \<open>The writes the worker may make on a message: along the transition table; the attempt counter
  moves by one exactly when a queued message with attempts left becomes routed; a route is chosen for an
  accepted message, or for a routed one together with an exclusion list that has grown to hold the route
  it leaves, has at most two entries and does not hold the new route; and the number and the text change only on a
  finished message.\<close>

definition message_may :: "message \<Rightarrow> message_patch \<Rightarrow> bool" where
  "message_may m p \<longleftrightarrow>
     guard_allows message_state_transitions (msg_state m) (touch (msg_state m) (mp_state p))
     \<and> touch (msg_attempts m) (mp_attempts p) =
         (if msg_state m = Queued \<and> mp_state p = Some Routed then msg_attempts m + 1 else msg_attempts m)
     \<and> (msg_state m = Queued \<and> mp_state p = Some Routed \<longrightarrow> msg_attempts m < msg_maxAttempts m)
     \<and> (mp_msisdn p = None \<and> mp_body p = None \<or> message_terminal (msg_state m) \<and> mp_state p = None)
     \<and> (mp_routeId p = None \<and> mp_excludedRouteIds p = None
        \<or> msg_state m = Accepted \<and> mp_excludedRouteIds p = None
          \<and> (\<exists>i. mp_routeId p = Some (Some i) \<and> wordlike i)
        \<or> msg_state m = Routed \<and> mp_state p = Some Queued
          \<and> (\<exists>i xs. mp_routeId p = Some (Some i) \<and> wordlike i \<and> i \<notin> set xs
               \<and> mp_excludedRouteIds p = Some (Some (column xs))
               \<and> list_all wordlike xs \<and> distinct xs \<and> length xs \<le> MAX_FAILOVER_HOPS
               \<and> set (excluded_of m) \<subseteq> set xs \<and> (\<forall>r. msg_routeId m = Some r \<longrightarrow> r \<in> set xs)))"

definition message_submit :: "message \<Rightarrow> submit_request \<Rightarrow> bool" where
  "message_submit m req \<longleftrightarrow> msg_state m = Routed \<and> sub_reference req = msg_id m
     \<and> sub_to req = msg_msisdn m \<and> msg_body m = Some (sub_body req)"

definition job_may :: "job \<Rightarrow> job_patch \<Rightarrow> bool" where
  "job_may j p \<longleftrightarrow> guard_allows job_state_transitions (job_st j) (touch (job_st j) (jp_state p))
     \<and> touch (job_attempts j) (jp_attempts p) =
         (if job_st j = JobPending \<and> jp_state p = Some JobRunning then wrap_i64 (job_attempts j + 1)
          else if job_st j = JobDead \<and> jp_state p = Some JobPending then 0
          else job_attempts j)"

definition attempt_may :: "attempt \<Rightarrow> attempt_patch \<Rightarrow> bool" where
  "attempt_may a p \<longleftrightarrow> guard_allows attempt_state_transitions (att_st a) (touch (att_st a) (ap_state p))
     \<and> touch (att_attempts a) (ap_attempts p) =
         (if att_st a \<in> {AttPending, AttFailed} \<and> ap_state p = Some Delivering
          then wrap_i64 (att_attempts a + 1)
          else if att_st a \<in> {AttFailed, AttDead} \<and> ap_state p = Some AttPending then 0
          else att_attempts a)"

definition worker_rules :: rules where
  "worker_rules = \<lparr>inv_message = message_inv, may_message = message_may, may_submit = message_submit,
     inv_job = (\<lambda>_. True), may_job = job_may, inv_attempt = (\<lambda>_. True), may_attempt = attempt_may,
     inv_route = (\<lambda>r. wordlike (route_id r)), may_panic = False\<rparr>"

lemma worker_rules_simps [simp]:
  "inv_message worker_rules = message_inv" "may_message worker_rules = message_may"
  "may_submit worker_rules = message_submit"
  "inv_job worker_rules = (\<lambda>_. True)" "may_job worker_rules = job_may"
  "inv_attempt worker_rules = (\<lambda>_. True)" "may_attempt worker_rules = attempt_may"
  "inv_route worker_rules = (\<lambda>r. wordlike (route_id r))" "may_panic worker_rules = False"
  by (simp_all add: worker_rules_def)

lemma no_edge_to_accepted: "(s, Accepted) \<notin> set message_state_transitions"
  by (simp add: state_edges)

lemma edge_to_tried:
  "(s, t) \<in> set message_state_transitions \<Longrightarrow> tried t \<Longrightarrow> s \<noteq> Queued \<Longrightarrow> tried s"
  by (auto simp: state_edges tried_def)

lemma edge_queued_tried: "(Queued, t) \<in> set message_state_transitions \<Longrightarrow> tried t \<Longrightarrow> t = Routed"
  by (auto simp: state_edges tried_def)

lemma message_may_tried:
  assumes "message_inv m" "message_may m p" "write_message now p m = Some m'" "tried (msg_state m')"
  shows "1 \<le> msg_attempts m'"
proof -
  from write_message_Some [OF assms(3)] have
    guard: "guard_allows message_state_transitions (msg_state m) (msg_state m')"
    and st: "msg_state m' = touch (msg_state m) (mp_state p)"
    and att: "msg_attempts m' = touch (msg_attempts m) (mp_attempts p)" by blast+
  have count: "msg_attempts m' =
      (if msg_state m = Queued \<and> mp_state p = Some Routed then msg_attempts m + 1 else msg_attempts m)"
    using assms(2) att by (simp only: message_may_def)
  have inv: "0 \<le> msg_attempts m" "tried (msg_state m) \<longrightarrow> 1 \<le> msg_attempts m"
    using assms(1) by (simp_all add: message_inv_def)
  show ?thesis
  proof (cases "tried (msg_state m)")
    case True
    then show ?thesis using count inv by simp
  next
    case False
    with assms(4) guard have edge: "(msg_state m, msg_state m') \<in> set message_state_transitions"
      by (auto simp: guard_allows_def)
    with False edge_to_tried [OF edge assms(4)] have q: "msg_state m = Queued" by blast
    with edge_queued_tried [of "msg_state m'"] edge assms(4) have "msg_state m' = Routed" by simp
    with st q have "mp_state p = Some Routed" by (cases "mp_state p") simp_all
    with q show ?thesis using count inv by simp
  qed
qed

lemma message_may_attempts:
  assumes "message_inv m" "message_may m p" "write_message now p m = Some m'"
  shows "0 \<le> msg_attempts m' \<and> msg_attempts m' \<le> max 0 (msg_maxAttempts m')"
proof -
  note w = write_message_Some [OF assms(3)]
  show ?thesis
    using assms(1,2) w by (auto simp: message_may_def message_inv_def split: if_splits)
qed

lemma message_may_routes:
  assumes "message_inv m" "message_may m p" "write_message now p m = Some m'"
  shows "(\<forall>i. msg_routeId m' = Some i \<longrightarrow> wordlike i \<and> i \<notin> set (excluded_of m'))
    \<and> distinct (excluded_of m') \<and> length (excluded_of m') \<le> MAX_FAILOVER_HOPS
    \<and> (msg_state m' = Accepted \<longrightarrow> excluded_of m' = [])"
proof -
  note w = write_message_Some [OF assms(3)]
  have acc: "msg_state m = Accepted" if "msg_state m' = Accepted"
    using w that no_edge_to_accepted by (auto simp: guard_allows_def)
  from assms(2) consider
    "mp_routeId p = None" "mp_excludedRouteIds p = None"
    | i where "msg_state m = Accepted" "mp_excludedRouteIds p = None" "mp_routeId p = Some (Some i)" "wordlike i"
    | i xs where "msg_state m = Routed" "mp_routeId p = Some (Some i)" "wordlike i" "i \<notin> set xs"
        "mp_excludedRouteIds p = Some (Some (column xs))" "list_all wordlike xs" "distinct xs"
        "length xs \<le> MAX_FAILOVER_HOPS"
    unfolding message_may_def by (elim conjE disjE exE; blast)
  then show ?thesis
  proof cases
    case 1
    then show ?thesis using assms(1) w acc by (simp add: message_inv_def excluded_of_def)
  next
    case 2
    then show ?thesis using assms(1) w acc by (simp add: message_inv_def excluded_of_def)
  next
    case 3
    then have "excluded_of m' = xs" using w unpack_column by (simp add: excluded_of_def)
    with 3 show ?thesis using w acc by auto
  qed
qed

lemma message_may_keeps:
  assumes "message_inv m" "message_may m p" "write_message now p m = Some m'"
  shows "message_inv m'"
proof -
  have "msg_maxAttempts m' < 2 ^ 63"
    using write_message_Some [OF assms(3)] assms(1) by (simp add: message_inv_def)
  then show ?thesis
    unfolding message_inv_def
    using message_may_attempts [OF assms] message_may_tried [OF assms] message_may_routes [OF assms] by blast
qed

interpretation worker: row_rules worker_rules
proof
  show "inv_message worker_rules m'" if "inv_message worker_rules m" "may_message worker_rules m mp"
      "write_message now mp m = Some m'" for m mp now m'
    using that message_may_keeps by simp
qed (auto simp: message_may_def job_may_def attempt_may_def)

subsection \<open>The contract of a claiming role\<close>

text \<open>What the trait asks of an implementation: candidates are rows read from the table, no more than
  the budget, in a state the role can lease; leasing one writes over the row that was read and returns a
  row leased to the worker.\<close>

locale claimable =
  fixes P :: rules
    and candidates :: "instant \<Rightarrow> int \<Rightarrow> (cratestack_error + 'c list) prog"
    and take_lease :: "'c \<Rightarrow> ustring \<Rightarrow> instant \<Rightarrow> (cratestack_error + 'c) prog"
    and known :: "'c \<Rightarrow> snaps \<Rightarrow> bool"
    and ready :: "instant \<Rightarrow> 'c \<Rightarrow> bool"
    and leased :: "ustring \<Rightarrow> instant \<Rightarrow> 'c \<Rightarrow> bool"
  assumes known_extends: "known c K \<Longrightarrow> extends K K' \<Longrightarrow> known c K'"
    and candidates_ready: "wp P (candidates now budget) K (\<lambda>r K'. \<forall>cs. r = Inr cs \<longrightarrow>
      (0 \<le> budget \<longrightarrow> int (length cs) \<le> budget) \<and> (\<forall>c \<in> set cs. ready now c \<and> known c K'))"
    and lease_taken: "ready now c \<Longrightarrow> known c K \<Longrightarrow>
      wp P (take_lease c worker now) K (\<lambda>r K'. \<forall>row. r = Inr row \<longrightarrow> known row K' \<and> leased worker now row)"
begin

lemma leases_taken:
  assumes "\<forall>c \<in> set cs. ready now c \<and> known c K" "\<forall>c \<in> set claimed. known c K \<and> leased worker now c"
  shows "wp P (lease_candidates ts (\<lambda>c. take_lease c worker now) claimed cs) K
    (\<lambda>r K'. \<forall>rows. r = Inr rows \<longrightarrow> length rows \<le> length claimed + length cs
       \<and> (\<forall>row \<in> set rows. known row K' \<and> leased worker now row))"
  using assms
proof (induction cs arbitrary: claimed K)
  case (Cons c cs)
  let ?rest = "\<lambda>claimed'. lease_candidates ts (\<lambda>c. take_lease c worker now) claimed' cs"
  let ?post = "\<lambda>r K'. \<forall>rows. r = Inr rows \<longrightarrow> length rows \<le> length claimed + length (c # cs)
       \<and> (\<forall>row \<in> set rows. known row K' \<and> leased worker now row)"
  have go: "wp P (?rest claimed') K' ?post"
    if "extends K K'" "length claimed' \<le> Suc (length claimed)" "\<forall>c \<in> set claimed'. known c K' \<and> leased worker now c"
    for claimed' K'
  proof -
    have "\<forall>c \<in> set cs. ready now c \<and> known c K'"
      using Cons.prems(1) known_extends [OF _ that(1)] by simp
    from Cons.IH [OF this that(3)] show ?thesis
      by (rule wp_mono) (use that(2) in fastforce)
  qed
  have kept: "\<forall>c \<in> set claimed. known c K' \<and> leased worker now c" if "extends K K'" for K'
    using Cons.prems(2) known_extends [OF _ that] by blast
  show ?case
    unfolding lease_candidates.simps
  proof (rule wp_bindI [OF lease_taken])
    show "ready now c" "known c K" using Cons.prems(1) by simp_all
    fix r :: "cratestack_error + 'c" and K'
    assume r: "\<forall>row. r = Inr row \<longrightarrow> known row K' \<and> leased worker now row" and ext: "extends K K'"
    have "wp P (?rest claimed) K' ?post" by (rule go [OF ext _ kept [OF ext]]) simp
    moreover have "wp P (?rest (claimed @ [row])) K' ?post" if "r = Inr row" for row
      using r that kept [OF ext] by (intro go [OF ext]) auto
    ultimately show "wp P (case r of Inr row \<Rightarrow> ?rest (claimed @ [row])
        | Inl e \<Rightarrow> (case map_database_error ts e of
            PreconditionFailed _ \<Rightarrow> ?rest claimed | Forbidden _ \<Rightarrow> ?rest claimed | e' \<Rightarrow> Ret (Inl e'))) K' ?post"
      by (auto split: sum.split cratestack_error.split)
  qed
qed simp

lemma claim_batch_ok:
  "wp P (claim_batch ts candidates take_lease worker budget) K (\<lambda>r K'. \<forall>rows. r = Inr rows \<longrightarrow>
     (0 \<le> budget \<longrightarrow> int (length rows) \<le> budget)
     \<and> (\<exists>now. \<forall>row \<in> set rows. known row K' \<and> leased worker now row))"
  unfolding claim_batch_def
proof (rule wp_bindI [where R = "\<lambda>_ _. True"])
  fix now K'
  show "wp P (try_prog (candidates now budget) (\<lambda>cs. lease_candidates ts (\<lambda>c. take_lease c worker now) [] cs)) K'
      (\<lambda>r K'. \<forall>rows. r = Inr rows \<longrightarrow> (0 \<le> budget \<longrightarrow> int (length rows) \<le> budget)
         \<and> (\<exists>now. \<forall>row \<in> set rows. known row K' \<and> leased worker now row))"
  proof (rule wp_tryI [OF candidates_ready])
    fix cs K''
    assume "\<forall>cs'. (Inr cs :: cratestack_error + 'c list) = Inr cs' \<longrightarrow> (0 \<le> budget \<longrightarrow> int (length cs') \<le> budget)
      \<and> (\<forall>c \<in> set cs'. ready now c \<and> known c K'')"
    then have cs: "0 \<le> budget \<longrightarrow> int (length cs) \<le> budget" "\<forall>c \<in> set cs. ready now c \<and> known c K''"
      by auto
    show "wp P (lease_candidates ts (\<lambda>c. take_lease c worker now) [] cs) K'' (\<lambda>r K'. \<forall>rows. r = Inr rows \<longrightarrow>
         (0 \<le> budget \<longrightarrow> int (length rows) \<le> budget)
         \<and> (\<exists>now. \<forall>row \<in> set rows. known row K' \<and> leased worker now row))"
      by (rule wp_mono [OF leases_taken [OF cs(2)]]) (use cs(1) in fastforce)+
  qed simp
qed simp

end

subsection \<open>Messages keep the contract\<close>

definition message_known :: "message \<Rightarrow> snaps \<Rightarrow> bool" where
  "message_known m K \<longleftrightarrow> m \<in> sn_messages K \<and> message_inv m"

definition message_leased :: "ustring \<Rightarrow> instant \<Rightarrow> message \<Rightarrow> bool" where
  "message_leased worker now m \<longleftrightarrow> msg_leaseOwner m = Some worker
     \<and> (msg_state m = Routed \<and> msg_leaseUntil m = Some (now + DISPATCH_LEASE)
        \<or> msg_state m \<in> {Queued, Rejected, MsgFailed} \<and> msg_leaseUntil m = Some now)"

text \<open>One lease write: permitted over the row that was read, and the row that comes back carries the
  patch.\<close>

lemma wp_message_write:
  assumes "message_known m K" "message_may m p" "mp_state p = Some s" "mp_leaseOwner p = Some (Some worker)"
    and "mp_leaseUntil p = Some (Some t)"
    and "s = Routed \<and> t = now + DISPATCH_LEASE \<or> s \<in> {Queued, Rejected, MsgFailed} \<and> t = now"
  shows "wp worker_rules (update_message (msg_id m) p (msg_version m)) K
    (\<lambda>r K'. \<forall>row. r = Inr row \<longrightarrow> message_known row K' \<and> message_leased worker now row)"
proof -
  have "message_leased worker now row" if "write_message n p m' = Some row" for n m' row
    using write_message_Some [OF that] assms(3-6) by (auto simp: message_leased_def)
  then show ?thesis
    using assms(1,2) by (auto simp: message_known_def)
qed

lemmas may_simps = message_may_def no_message_patch_def guard_allows_def message_state_transitions_def

lemma wp_apply_routing_decision:
  assumes "message_known m K" "msg_state m = Accepted"
  shows "wp worker_rules (apply_routing_decision E m worker now) K
    (\<lambda>r K'. \<forall>row. r = Inr row \<longrightarrow> message_known row K' \<and> message_leased worker now row)"
  unfolding apply_routing_decision_def route_message_def
proof (rule wp_tryI [where R = "\<lambda>r K'. K' = K \<and> (\<forall>d w. r = Inr d \<longrightarrow> winner d = Some w \<longrightarrow> wordlike (wn_route_id w))"])
  show "wp worker_rules (decide (env_phone E)
      \<lparr>cand_operator = msg_operator m, cand_class = msg_class m, cand_app_id = msg_appId m,
       cand_msisdn = msg_msisdn m, cand_message_id = msg_id m\<rparr> {}) K
      (\<lambda>r K'. K' = K \<and> (\<forall>d w. r = Inr d \<longrightarrow> winner d = Some w \<longrightarrow> wordlike (wn_route_id w)))"
    by (rule wp_decide) (auto simp: good_winner_def)
next
  fix d K'
  assume "K' = K \<and> (\<forall>d' w. (Inr d :: cratestack_error + decision) = Inr d' \<longrightarrow> winner d' = Some w
    \<longrightarrow> wordlike (wn_route_id w))"
  then have K': "K' = K" and word: "winner d = Some w \<Longrightarrow> wordlike (wn_route_id w)" for w by auto
  show "wp worker_rules (case winner d of
       Some w \<Rightarrow> update_message (msg_id m) (no_message_patch\<lparr>
           mp_state := Some Queued, mp_providerId := Some (Some (wn_provider_id w)),
           mp_routeId := Some (Some (wn_route_id w)), mp_leaseOwner := Some (Some worker),
           mp_leaseUntil := Some (Some now)\<rparr>) (msg_version m)
     | None \<Rightarrow> update_message (msg_id m) (no_message_patch\<lparr>
           mp_state := Some Rejected, mp_stateReason := Some (Some (explain_no_route (env_dbg E) d)),
           mp_leaseOwner := Some (Some worker), mp_leaseUntil := Some (Some now)\<rparr>) (msg_version m)) K'
     (\<lambda>r K'. \<forall>row. r = Inr row \<longrightarrow> message_known row K' \<and> message_leased worker now row)"
  proof (cases "winner d")
    case None
    show ?thesis
      unfolding None option.case K'
      by (rule wp_message_write [OF assms(1), where s = Rejected and t = now])
        (simp_all add: may_simps assms(2))
  next
    case (Some w)
    show ?thesis
      unfolding Some option.case K'
      by (rule wp_message_write [OF assms(1), where s = Queued and t = now])
        (simp_all add: may_simps assms(2) word [OF Some])
  qed
qed simp

lemma wp_fail_max_attempts:
  assumes "message_known m K" "msg_state m \<in> {Queued, Undelivered}"
  shows "wp worker_rules (fail_max_attempts (msg_id m) (msg_version m) worker now reason) K
    (\<lambda>r K'. \<forall>row. r = Inr row \<longrightarrow> message_known row K' \<and> message_leased worker now row)"
  unfolding fail_max_attempts_def
  by (rule wp_message_write [OF assms(1), where s = MsgFailed and t = now])
    (use assms(2) in \<open>auto simp: may_simps\<close>)

lemma wrap_attempts:
  assumes "message_inv m" "msg_attempts m < msg_maxAttempts m"
  shows "wrap_i64 (msg_attempts m + 1) = msg_attempts m + 1"
  using assms by (intro wrap_i64_id) (auto simp: message_inv_def)

lemma wp_message_take_lease:
  assumes "message_known m K" "message_claimable now m"
  shows "wp worker_rules (message_take_lease E m worker now) K
    (\<lambda>r K'. \<forall>row. r = Inr row \<longrightarrow> message_known row K' \<and> message_leased worker now row)"
proof -
  consider "msg_state m = Accepted" | "msg_state m = Queued" "msg_maxAttempts m \<le> msg_attempts m"
    | "msg_state m = Queued" "msg_attempts m < msg_maxAttempts m" | "msg_state m = Routed"
    | "msg_state m = Undelivered" "msg_maxAttempts m \<le> msg_attempts m"
    | "msg_state m = Undelivered" "msg_attempts m < msg_maxAttempts m"
    using assms(2) linorder_le_less_linear [of "msg_maxAttempts m" "msg_attempts m"]
    by (auto simp: message_claimable_def)
  then show ?thesis
  proof cases
    case 1
    then show ?thesis using wp_apply_routing_decision [OF assms(1)] by (simp only: message_take_lease_def message_state.case)
  next
    case 2
    then show ?thesis
      using wp_fail_max_attempts [OF assms(1)] by (simp only: message_take_lease_def message_state.case if_True simp_thms insert_iff)
  next
    case 3
    have take_eq: "message_take_lease E m worker now = update_message (msg_id m) (no_message_patch\<lparr>
            mp_state := Some Routed, mp_attempts := Some (wrap_i64 (msg_attempts m + 1)),
            mp_leaseOwner := Some (Some worker),
            mp_leaseUntil := Some (Some (now + DISPATCH_LEASE))\<rparr>) (msg_version m)"
      using 3 by (simp add: message_take_lease_def)
    have "message_inv m" using assms(1) by (simp add: message_known_def)
    note w = wrap_attempts [OF this 3(2)]
    show ?thesis
      unfolding take_eq w
      by (rule wp_message_write [OF assms(1), where s = Routed and t = "now + DISPATCH_LEASE"])
        (use 3 in \<open>simp_all add: may_simps\<close>)
  next
    case 4
    have take_eq: "message_take_lease E m worker now = update_message (msg_id m) (no_message_patch\<lparr>
            mp_state := Some Routed, mp_attempts := Some (msg_attempts m),
            mp_leaseOwner := Some (Some worker),
            mp_leaseUntil := Some (Some (now + DISPATCH_LEASE))\<rparr>) (msg_version m)"
      using 4 by (simp add: message_take_lease_def)
    show ?thesis
      unfolding take_eq
      by (rule wp_message_write [OF assms(1), where s = Routed and t = "now + DISPATCH_LEASE"])
        (use 4 in \<open>simp_all add: may_simps\<close>)
  next
    case 5
    then show ?thesis
      using wp_fail_max_attempts [OF assms(1)] by (simp only: message_take_lease_def message_state.case if_True simp_thms insert_iff)
  next
    case 6
    have take_eq: "message_take_lease E m worker now = update_message (msg_id m) (no_message_patch\<lparr>
            mp_state := Some Queued, mp_leaseOwner := Some (Some worker),
            mp_leaseUntil := Some (Some now)\<rparr>) (msg_version m)"
      using 6 by (simp add: message_take_lease_def)
    show ?thesis
      unfolding take_eq
      by (rule wp_message_write [OF assms(1), where s = Queued and t = now])
        (use 6 in \<open>simp_all add: may_simps\<close>)
  qed
qed

interpretation message_claim: claimable worker_rules message_candidates "message_take_lease E"
  message_known message_claimable message_leased
proof
  show "message_known m K'" if "message_known m K" "extends K K'" for m K K'
    using that by (auto simp: message_known_def extends_def)
  show "wp worker_rules (message_candidates now budget) K (\<lambda>r K'. \<forall>cs. r = Inr cs \<longrightarrow>
      (0 \<le> budget \<longrightarrow> int (length cs) \<le> budget) \<and> (\<forall>c \<in> set cs. message_claimable now c \<and> message_known c K'))"
    for now budget K
    by (auto simp: message_candidates_def in_limit_def message_known_def)
qed (rule wp_message_take_lease)

subsection \<open>Jobs and webhook attempts keep the contract\<close>

definition job_known :: "job \<Rightarrow> snaps \<Rightarrow> bool" where
  "job_known j K \<longleftrightarrow> j \<in> sn_jobs K"

definition job_ready :: "instant \<Rightarrow> job \<Rightarrow> bool" where
  "job_ready now j \<longleftrightarrow> job_st j = JobPending \<and> job_runAt j \<le> now
     \<or> job_st j = JobRunning \<and> expired_lease now (job_leaseUntil j)"

text \<open>A reclaimed job comes back pending, with its lease cleared; only a running one is to be executed.\<close>

definition job_leased :: "ustring \<Rightarrow> instant \<Rightarrow> job \<Rightarrow> bool" where
  "job_leased worker now j \<longleftrightarrow>
     job_st j = JobRunning \<and> job_leaseOwner j = Some worker \<and> job_leaseUntil j = Some (now + JOB_LEASE)
     \<or> job_st j = JobPending \<and> job_leaseOwner j = None \<and> job_leaseUntil j = None"

lemma write_job_lease:
  assumes "write_job now p j = Some j'"
  shows "job_leaseOwner j' = touch (job_leaseOwner j) (jp_leaseOwner p)
    \<and> job_leaseUntil j' = touch (job_leaseUntil j) (jp_leaseUntil p)
    \<and> job_st j' = touch (job_st j) (jp_state p)"
  using assms
  by (auto simp: write_job_def jobs_guard_transition_def patch_job_def Let_def split: if_splits)

lemma wp_job_write:
  assumes "job_known j K" "job_may j p"
    and "\<And>n j' row. write_job n p j' = Some row \<Longrightarrow> job_leased worker now row"
  shows "wp worker_rules (update_job (job_id j) p (job_version j)) K
    (\<lambda>r K'. \<forall>row. r = Inr row \<longrightarrow> job_known row K' \<and> job_leased worker now row)"
  using assms by (auto simp: job_known_def)

lemmas job_may_simps = job_may_def no_job_patch_def guard_allows_def job_state_transitions_def

lemma wp_job_take_lease:
  assumes "job_ready now j" "job_known j K"
  shows "wp worker_rules (job_take_lease j worker now) K
    (\<lambda>r K'. \<forall>row. r = Inr row \<longrightarrow> job_known row K' \<and> job_leased worker now row)"
proof -
  from assms(1) consider "job_st j = JobPending" | "job_st j = JobRunning" by (auto simp: job_ready_def)
  then show ?thesis
  proof cases
    case 1
    show ?thesis
      unfolding job_take_lease_def 1 job_state.case
      by (rule wp_job_write [OF assms(2)])
        (simp add: job_may_simps 1, drule write_job_lease, simp add: job_leased_def no_job_patch_def)
  next
    case 2
    show ?thesis
      unfolding job_take_lease_def 2 job_state.case
      by (rule wp_job_write [OF assms(2)])
        (simp add: job_may_simps 2, drule write_job_lease, simp add: job_leased_def no_job_patch_def)
  qed
qed

interpretation job_claim: claimable worker_rules job_candidates job_take_lease job_known job_ready job_leased
proof
  show "job_known j K'" if "job_known j K" "extends K K'" for j K K'
    using that by (auto simp: job_known_def extends_def)
  show "wp worker_rules (job_candidates now budget) K (\<lambda>r K'. \<forall>cs. r = Inr cs \<longrightarrow>
      (0 \<le> budget \<longrightarrow> int (length cs) \<le> budget) \<and> (\<forall>c \<in> set cs. job_ready now c \<and> job_known c K'))"
    for now budget K
    by (auto simp: job_candidates_def in_limit_def job_ready_def job_known_def Let_def)
qed (rule wp_job_take_lease)

definition attempt_known :: "attempt \<Rightarrow> snaps \<Rightarrow> bool" where
  "attempt_known a K \<longleftrightarrow> a \<in> sn_attempts K"

definition attempt_ready :: "instant \<Rightarrow> attempt \<Rightarrow> bool" where
  "attempt_ready now a \<longleftrightarrow> due_attempts now a \<or> expired_leases now a"

definition attempt_leased :: "ustring \<Rightarrow> instant \<Rightarrow> attempt \<Rightarrow> bool" where
  "attempt_leased worker now a \<longleftrightarrow> att_st a = Delivering \<and> att_leaseOwner a = Some worker
     \<and> att_leaseUntil a = Some (now + HOOKS_LEASE)"

lemma write_attempt_lease:
  assumes "write_attempt now p a = Some a'"
  shows "att_leaseOwner a' = touch (att_leaseOwner a) (ap_leaseOwner p)
    \<and> att_leaseUntil a' = touch (att_leaseUntil a) (ap_leaseUntil p)
    \<and> att_st a' = touch (att_st a) (ap_state p)"
  using assms
  by (auto simp: write_attempt_def attempts_guard_transition_def patch_attempt_def split: if_splits)

lemma wp_attempt_write:
  assumes "attempt_known a K" "attempt_may a p"
    and "\<And>n a' row. write_attempt n p a' = Some row \<Longrightarrow> attempt_leased worker now row"
  shows "wp worker_rules (update_attempt (att_id a) p (att_version a)) K
    (\<lambda>r K'. \<forall>row. r = Inr row \<longrightarrow> attempt_known row K' \<and> attempt_leased worker now row)"
  using assms by (auto simp: attempt_known_def)

lemmas attempt_may_simps = attempt_may_def no_attempt_patch_def guard_allows_def attempt_state_transitions_def

lemma wp_attempt_take_lease:
  assumes "attempt_ready now a" "attempt_known a K"
  shows "wp worker_rules (attempt_take_lease a worker now) K
    (\<lambda>r K'. \<forall>row. r = Inr row \<longrightarrow> attempt_known row K' \<and> attempt_leased worker now row)"
proof -
  from assms(1) consider "att_st a = AttPending" | "att_st a = AttFailed" | "att_st a = Delivering"
    by (auto simp: attempt_ready_def due_attempts_def expired_leases_def)
  then show ?thesis
  proof cases
    case 1
    show ?thesis
      unfolding attempt_take_lease_def 1 attempt_state.case
      by (rule wp_attempt_write [OF assms(2)])
        (simp add: attempt_may_simps 1, drule write_attempt_lease, simp add: attempt_leased_def no_attempt_patch_def)
  next
    case 2
    show ?thesis
      unfolding attempt_take_lease_def 2 attempt_state.case
      by (rule wp_attempt_write [OF assms(2)])
        (simp add: attempt_may_simps 2, drule write_attempt_lease, simp add: attempt_leased_def no_attempt_patch_def)
  next
    case 3
    show ?thesis
      unfolding attempt_take_lease_def 3 attempt_state.case
      by (rule wp_attempt_write [OF assms(2)])
        (simp add: attempt_may_simps 3, drule write_attempt_lease, simp add: attempt_leased_def no_attempt_patch_def)
  qed
qed

text \<open>The selection: rows read from the table that are due or abandoned.\<close>

definition attempts_found :: "instant \<Rightarrow> (cratestack_error + attempt list) \<Rightarrow> snaps \<Rightarrow> bool" where
  "attempts_found now r K \<longleftrightarrow> (\<forall>cs. r = Inr cs \<longrightarrow> (\<forall>a \<in> set cs. attempt_ready now a \<and> attempt_known a K))"

lemma attempts_found_Inl [simp]: "attempts_found now (Inl e) K"
  by (simp add: attempts_found_def)

lemma wp_time_ordered: "wp worker_rules (time_ordered_candidates now limit) K (attempts_found now)"
  by (auto simp: time_ordered_candidates_def attempts_found_def attempt_ready_def attempt_known_def Let_def)

lemma wp_per_endpoint_loop:
  "\<forall>a \<in> set ready. attempt_ready now a \<and> attempt_known a K \<Longrightarrow>
   wp worker_rules (per_endpoint_loop now limit ready es) K (attempts_found now)"
proof (induction es arbitrary: ready K)
  case (Cons e es)
  show ?case
    unfolding per_endpoint_loop.simps
  proof (rule wp_tryI [where R = "attempts_found now"])
    show "wp worker_rules (find_attempts (\<lambda>a. due_attempts now a \<and> att_endpointId a = e) by_next (Some limit)) K
        (attempts_found now)"
      by (auto simp: attempts_found_def attempt_ready_def attempt_known_def)
    fix more K'
    assume "attempts_found now (Inr more) K'" "extends K K'"
    then show "wp worker_rules (per_endpoint_loop now limit (ready @ more) es) K' (attempts_found now)"
      using Cons.prems
      by (intro Cons.IH) (auto simp: attempts_found_def attempt_known_def extends_def)
  qed simp
qed (simp add: attempts_found_def)

lemma set_take_budget: "set (take_budget n xs) \<subseteq> set xs"
  by (auto simp: take_budget_def dest: in_set_takeD)

lemma wp_per_endpoint: "wp worker_rules (per_endpoint_candidates now limit es) K (attempts_found now)"
  unfolding per_endpoint_candidates_def Let_def
proof (rule wp_tryI [OF wp_per_endpoint_loop])
  let ?ready = "\<lambda>found. take_budget limit (sort_key (\<lambda>a. (att_nextAttemptAt a = None, att_nextAttemptAt a)) found)"
  fix found K'
  assume found: "attempts_found now (Inr found) K'"
  have ready: "\<forall>a \<in> set (?ready found). attempt_ready now a \<and> attempt_known a K'"
    using found set_take_budget [of limit "sort_key (\<lambda>a. (att_nextAttemptAt a = None, att_nextAttemptAt a)) found"]
    by (auto simp: attempts_found_def)
  then show "wp worker_rules
      (if 0 < limit - int (length (?ready found)) then
         try_prog (find_attempts (\<lambda>a. expired_leases now a \<and> att_endpointId a \<in> set es)
            by_lease (Some (limit - int (length (?ready found))))) (\<lambda>more. Ret (Inr (?ready found @ more)))
       else Ret (Inr (?ready found))) K' (attempts_found now)"
    by (auto simp: attempts_found_def attempt_ready_def attempt_known_def)
qed simp_all

lemma length_take_budget: "0 \<le> n \<Longrightarrow> int (length (take_budget n xs)) \<le> n"
  by (simp add: take_budget_def)

lemma wp_webhook_candidates:
  "wp worker_rules (webhook_candidates now budget served) K (\<lambda>r K'. \<forall>cs. r = Inr cs \<longrightarrow>
     (0 \<le> budget \<longrightarrow> int (length cs) \<le> budget) \<and> (\<forall>a \<in> set cs. attempt_ready now a \<and> attempt_known a K'))"
  unfolding webhook_candidates_def Let_def
proof (rule wp_tryI [where R = "\<lambda>_ _. True"])
  fix endpoints K'
  let ?claimable = "map ep_id (filter (\<lambda>e. can_claim served e now) endpoints)"
  show "wp worker_rules
     (try_prog (if length ?claimable = length endpoints then time_ordered_candidates now budget
        else if ?claimable = [] then Ret (Inr []) else per_endpoint_candidates now budget ?claimable)
        (\<lambda>candidates. filter_by_endpoint_health candidates now budget served)) K'
     (\<lambda>r K'. \<forall>cs. r = Inr cs \<longrightarrow>
       (0 \<le> budget \<longrightarrow> int (length cs) \<le> budget) \<and> (\<forall>a \<in> set cs. attempt_ready now a \<and> attempt_known a K'))"
  proof (rule wp_tryI [where R = "attempts_found now"])
    show "wp worker_rules (if length ?claimable = length endpoints then time_ordered_candidates now budget
        else if ?claimable = [] then Ret (Inr []) else per_endpoint_candidates now budget ?claimable) K'
        (attempts_found now)"
      using wp_time_ordered wp_per_endpoint by (simp add: attempts_found_def)
    fix candidates K''
    assume found: "attempts_found now (Inr candidates) K''"
    have "\<forall>a \<in> set (take_budget budget (filter P candidates)). attempt_ready now a \<and> attempt_known a K''" for P
      using found set_take_budget [of budget "filter P candidates"] by (auto simp: attempts_found_def)
    then show "wp worker_rules (filter_by_endpoint_health candidates now budget served) K''
      (\<lambda>r K'. \<forall>cs. r = Inr cs \<longrightarrow>
       (0 \<le> budget \<longrightarrow> int (length cs) \<le> budget) \<and> (\<forall>a \<in> set cs. attempt_ready now a \<and> attempt_known a K'))"
      by (simp add: filter_by_endpoint_health_def Let_def length_take_budget)
  qed simp
qed simp_all

interpretation attempt_claim: claimable worker_rules "\<lambda>now budget. webhook_candidates now budget served"
  attempt_take_lease attempt_known attempt_ready attempt_leased
proof
  show "attempt_known a K'" if "attempt_known a K" "extends K K'" for a K K'
    using that by (auto simp: attempt_known_def extends_def)
  show "wp worker_rules (webhook_candidates now budget served) K (\<lambda>r K'. \<forall>cs. r = Inr cs \<longrightarrow>
     (0 \<le> budget \<longrightarrow> int (length cs) \<le> budget) \<and> (\<forall>a \<in> set cs. attempt_ready now a \<and> attempt_known a K'))"
    for now budget K
    by (rule wp_webhook_candidates)
qed (rule wp_attempt_take_lease)

lemma claim_webhook_attempts_batch:
  "claim_webhook_attempts E worker budget served =
     claim_batch (env_err E) (\<lambda>now budget. webhook_candidates now budget served) attempt_take_lease worker budget"
  by (simp add: claim_webhook_attempts_def claim_batch_def)

subsection \<open>The bounded count\<close>

definition count_ok :: "(cratestack_error + waiting) \<Rightarrow> snaps \<Rightarrow> bool" where
  "count_ok r K \<longleftrightarrow> (\<forall>w. r = Inr w \<longrightarrow> waiting_get w \<le> WAITING_COUNT_CAP + 1)"

lemma count_ok_Inl [simp]: "count_ok (Inl e) K"
  by (simp add: count_ok_def)

lemma wp_read_waiting:
  "found \<le> WAITING_COUNT_CAP + 1 \<Longrightarrow> wp P (read_waiting f found) K
     (\<lambda>r K'. \<forall>n. r = Inr n \<longrightarrow> found + n \<le> WAITING_COUNT_CAP + 1)"
  by (auto simp: read_waiting_def in_limit_def Let_def)

lemma wp_count_loop:
  "found \<le> WAITING_COUNT_CAP + 1 \<Longrightarrow> wp P (count_loop now endpoints found es) K count_ok"
proof (induction es arbitrary: found K)
  case Nil
  show ?case
    unfolding count_loop.simps
    by (rule wp_tryI [OF wp_read_waiting [OF Nil]]) (simp_all add: count_ok_def)
next
  case (Cons e es)
  show ?case
    unfolding count_loop.simps
    by (rule wp_tryI [OF wp_read_waiting [OF Cons.prems]]) (simp_all add: Cons.IH, simp add: count_ok_def)
qed

lemma wp_count_attempts_waiting: "wp P (count_attempts_waiting now mode) K count_ok"
  by (auto simp: count_attempts_waiting_def waiting_of_def wp_count_loop Let_def)
    (simp add: count_ok_def)

subsection \<open>Properties\<close>

text \<open>A row that is the stored one, or was before it was superseded by a higher version.\<close>

definition stored :: "('r \<Rightarrow> ustring) \<Rightarrow> ('r \<Rightarrow> int) \<Rightarrow> (ustring \<rightharpoonup> 'r) \<Rightarrow> 'r \<Rightarrow> bool" where
  "stored key ver tbl r \<longleftrightarrow> (\<exists>cur. tbl (key r) = Some cur \<and> (cur = r \<or> ver r < ver cur))"

lemma historic_stored: "historic key ver tbl r \<Longrightarrow> stored key ver tbl r"
  by (auto simp: historic_def stored_def order_le_less)

text \<open>What a worker gets from claiming messages, whatever else runs meanwhile: no more rows than its
  budget, each one stored under the worker's own lease, either routed with the two-minute lease (ready to
  submit) or already decided (queued again, rejected, failed), with the attempt counter within
  \<^verbatim>\<open>maxAttempts\<close> and at least one on every routed message.\<close>

theorem claimed_messages:
  assumes "lawful answers" "inv_tables worker_rules T" "0 \<le> budget"
    and "yields worker_rules answers T
      (claim_batch (env_err E) message_candidates (message_take_lease E) worker budget) U (Inr rows)"
  shows "int (length rows) \<le> budget \<and> (\<exists>now. \<forall>m \<in> set rows.
      stored msg_id msg_version (t_messages U) m \<and> msg_leaseOwner m = Some worker
      \<and> (msg_state m = Routed \<and> msg_leaseUntil m = Some (now + DISPATCH_LEASE)
           \<and> 1 \<le> msg_attempts m \<and> msg_attempts m \<le> msg_maxAttempts m
         \<or> msg_state m \<in> {Queued, Rejected, MsgFailed} \<and> msg_leaseUntil m = Some now))"
proof -
  from worker.yields_post [OF assms(4,1,2) valid_no_snaps message_claim.claim_batch_ok] assms(3)
  obtain K now where len: "int (length rows) \<le> budget" and valid: "valid_snaps U K"
    and rows: "\<forall>m \<in> set rows. message_known m K \<and> message_leased worker now m"
    by blast
  have "stored msg_id msg_version (t_messages U) m \<and> msg_leaseOwner m = Some worker
      \<and> (msg_state m = Routed \<and> msg_leaseUntil m = Some (now + DISPATCH_LEASE)
           \<and> 1 \<le> msg_attempts m \<and> msg_attempts m \<le> msg_maxAttempts m
         \<or> msg_state m \<in> {Queued, Rejected, MsgFailed} \<and> msg_leaseUntil m = Some now)"
    if "m \<in> set rows" for m
    using rows valid that historic_stored [of msg_id msg_version "t_messages U" m]
    by (auto simp: message_known_def valid_snaps_def message_leased_def message_inv_def tried_def)
  with len show ?thesis by blast
qed

text \<open>The same for jobs and for webhook attempts: within the budget, stored, and under the worker's
  lease; a job abandoned by a crashed worker comes back pending with its lease cleared, never as running,
  and an attempt only ever comes back as delivering.\<close>

theorem claimed_jobs_and_attempts:
  assumes "lawful answers" "inv_tables worker_rules T" "0 \<le> budget"
  shows "(\<forall>U js. yields worker_rules answers T
        (claim_batch ts job_candidates job_take_lease worker budget) U (Inr js) \<longrightarrow>
      int (length js) \<le> budget \<and> (\<exists>now. \<forall>j \<in> set js. stored job_id job_version (t_jobs U) j
        \<and> (job_st j = JobRunning \<and> job_leaseOwner j = Some worker \<and> job_leaseUntil j = Some (now + JOB_LEASE)
           \<or> job_st j = JobPending \<and> job_leaseOwner j = None \<and> job_leaseUntil j = None)))
    \<and> (\<forall>U as. yields worker_rules answers T (claim_webhook_attempts E worker budget served) U (Inr as) \<longrightarrow>
      int (length as) \<le> budget \<and> (\<exists>now. \<forall>a \<in> set as. stored att_id att_version (t_attempts U) a
        \<and> att_st a = Delivering \<and> att_leaseOwner a = Some worker \<and> att_leaseUntil a = Some (now + HOOKS_LEASE)))"
proof (intro conjI allI impI)
  fix U js
  assume y: "yields worker_rules answers T (claim_batch ts job_candidates job_take_lease worker budget) U (Inr js)"
  from worker.yields_post [OF y assms(1,2) valid_no_snaps job_claim.claim_batch_ok] assms(3)
  obtain K now where "int (length js) \<le> budget" "valid_snaps U K"
    "\<forall>j \<in> set js. job_known j K \<and> job_leased worker now j"
    by blast
  then show "int (length js) \<le> budget" and "\<exists>now. \<forall>j \<in> set js. stored job_id job_version (t_jobs U) j
        \<and> (job_st j = JobRunning \<and> job_leaseOwner j = Some worker \<and> job_leaseUntil j = Some (now + JOB_LEASE)
           \<or> job_st j = JobPending \<and> job_leaseOwner j = None \<and> job_leaseUntil j = None)"
    using historic_stored [of job_id job_version "t_jobs U"]
    by (auto simp: job_known_def valid_snaps_def job_leased_def intro!: exI [of _ now])
next
  fix U as
  assume y: "yields worker_rules answers T (claim_webhook_attempts E worker budget served) U (Inr as)"
  from worker.yields_post [OF y [unfolded claim_webhook_attempts_batch] assms(1,2) valid_no_snaps attempt_claim.claim_batch_ok]
    assms(3)
  obtain K now where "int (length as) \<le> budget" "valid_snaps U K"
    "\<forall>a \<in> set as. attempt_known a K \<and> attempt_leased worker now a"
    by blast
  then show "int (length as) \<le> budget" and "\<exists>now. \<forall>a \<in> set as. stored att_id att_version (t_attempts U) a
        \<and> att_st a = Delivering \<and> att_leaseOwner a = Some worker \<and> att_leaseUntil a = Some (now + HOOKS_LEASE)"
    using historic_stored [of att_id att_version "t_attempts U"]
    by (auto simp: attempt_known_def valid_snaps_def attempt_leased_def intro!: exI [of _ now])
qed

text \<open>The count of held attempts costs no more than it says: however deep the backlog and however
  many endpoints, the figure is at most one past the cap.\<close>

theorem waiting_count_bounded:
  assumes "lawful answers" "inv_tables worker_rules T"
    and "yields worker_rules answers T (count_attempts_waiting now mode) U (Inr w)"
  shows "waiting_get w \<le> WAITING_COUNT_CAP + 1 \<and> w = waiting_of (waiting_get w)
    \<and> (is_more_than_cap w \<longleftrightarrow> waiting_get w = WAITING_COUNT_CAP + 1)"
proof -
  from worker.yields_post [OF assms(3,1,2) valid_no_snaps wp_count_attempts_waiting]
  have "waiting_get w \<le> WAITING_COUNT_CAP + 1" by (auto simp: count_ok_def)
  then show ?thesis by (cases w) (auto simp: waiting_of_def is_more_than_cap_def)
qed

text \<open>The last look at the endpoints before the leases: given what it read, the filter keeps exactly
  the candidates whose endpoint the worker may claim from (a mode it serves, active, circuit closed or
  reopened), in their order, cut at the budget.\<close>

theorem endpoint_filter_exact:
  assumes "candidates \<noteq> []" "0 \<le> budget"
  shows "\<exists>f k. filter_by_endpoint_health candidates now budget served = Call (FindEndpoints f None) k
    \<and> (\<forall>e. f e \<longleftrightarrow> ep_id e \<in> att_endpointId ` set candidates)
    \<and> (\<forall>rows. k (Endpoints (Inr rows)) = Ret (Inr (take (nat budget)
         (filter (\<lambda>a. \<exists>e \<in> set rows. ep_id e = att_endpointId a \<and> serves served (ep_deliveryMode e)
            \<and> ep_active e \<and> (\<forall>t. ep_circuitOpenUntil e = Some t \<longrightarrow> t \<le> now)) candidates))))"
proof -
  have eq: "(att_endpointId a \<in> ep_id ` {e \<in> set rows. can_claim served e now}) \<longleftrightarrow>
      (\<exists>e \<in> set rows. ep_id e = att_endpointId a \<and> serves served (ep_deliveryMode e)
            \<and> ep_active e \<and> (\<forall>t. ep_circuitOpenUntil e = Some t \<longrightarrow> t \<le> now))" for a rows
    by (auto simp: can_claim_def image_iff split: option.splits)
  show ?thesis
    using assms by (simp add: filter_by_endpoint_health_def try_prog_def find_endpoints_def take_budget_def Let_def eq)
qed

subsection \<open>Witnesses\<close>

text \<open>The most permissive lawful database, and a table with one queued message, one abandoned job and one
  due webhook attempt.\<close>

lemma lawful_permissive: "lawful lawful_answer"
  by (simp add: lawful_def)

definition demo_message :: message where
  "demo_message = \<lparr>msg_id = lit ''m1'', msg_appId = lit ''a1'', msg_msisdn = lit ''+237690000000'', msg_msisdnHash = lit ''h'',
     msg_operator = orange, msg_class = otp, msg_senderIdValue = lit ''VAAM'', msg_priority = 1,
     msg_body = Some (lit ''hi''), msg_bodyHash = lit ''b'', msg_bodyLength = 2, msg_encoding = gsm7, msg_segments = 1, msg_state = Queued, msg_stateReason = None,
     msg_routeId = Some (lit ''r1''), msg_providerId = Some (lit ''p1''), msg_providerMessageRef = None,
     msg_providerMessageRefAlt = None, msg_excludedRouteIds = None, msg_attempts = 0, msg_maxAttempts = 3,
     msg_leaseOwner = None, msg_leaseUntil = None, msg_scheduledAt = None, msg_expiresAt = 100,
     msg_submittedAt = None, msg_finalizedAt = None, msg_createdAt = 0, msg_updatedAt = 0, msg_clientRef = None,
     msg_idempotencyKey = None, msg_purgedAt = None, msg_version = 7\<rparr>"

definition demo_job :: job where
  "demo_job = \<lparr>job_id = lit ''j1'', job_kind = lit ''expire_stale'', job_payload = [], job_st = JobRunning,
     job_priority = 1, job_runAt = 0, job_leaseOwner = Some (lit ''dead''), job_leaseUntil = Some 0,
     job_attempts = 1, job_maxAttempts = 3, job_lastError = None, job_startedAt = Some 0,
     job_finishedAt = None, job_dedupeKey = Some (lit ''expire_stale''), job_createdAt = 0, job_version = 2\<rparr>"

definition demo_tables :: tables where
  "demo_tables = \<lparr>t_messages = [lit ''m1'' \<mapsto> demo_message], t_jobs = [lit ''j1'' \<mapsto> demo_job],
     t_attempts = (\<lambda>_. None), t_endpoints = (\<lambda>_. None), t_providers = (\<lambda>_. None), t_routes = (\<lambda>_. None),
     t_receipts = (\<lambda>_. None), t_nonces = (\<lambda>_. None), t_api = no_api_rows\<rparr>"

lemma unpack_Nil [simp]: "unpack [] = []"
  by (simp add: unpack_def split_whitespace_def)

lemma demo_message_inv: "message_inv demo_message"
  by (simp add: message_inv_def demo_message_def excluded_of_def tried_def wordlike_def is_whitespace_def)

lemma demo_tables_inv: "inv_tables worker_rules demo_tables"
  using demo_message_inv by (simp add: inv_tables_def demo_tables_def) (simp add: demo_message_def demo_job_def)

definition demo_routed :: message where
  "demo_routed = demo_message\<lparr>msg_state := Routed, msg_attempts := 1, msg_leaseOwner := Some (lit ''w''),
     msg_leaseUntil := Some (5 + DISPATCH_LEASE), msg_updatedAt := 5, msg_version := 8\<rparr>"

lemma demo_lease:
  "message_take_lease E demo_message (lit ''w'') 5 = update_message (lit ''m1'') (no_message_patch\<lparr>
     mp_state := Some Routed, mp_attempts := Some 1, mp_leaseOwner := Some (Some (lit ''w'')),
     mp_leaseUntil := Some (Some (5 + DISPATCH_LEASE))\<rparr>) 7"
  by (simp add: message_take_lease_def demo_message_def wrap_i64_def)

lemma demo_write:
  "write_message 5 (no_message_patch\<lparr>mp_state := Some Routed, mp_attempts := Some 1,
     mp_leaseOwner := Some (Some (lit ''w'')), mp_leaseUntil := Some (Some (5 + DISPATCH_LEASE))\<rparr>) demo_message
   = Some demo_routed"
  by (simp add: write_message_def messages_guard_transition_def patch_message_def no_message_patch_def
      demo_routed_def demo_message_def message_state_transitions_def touch_updated_at_def)

lemma demo_routed_inv: "message_inv demo_routed"
  by (simp add: message_inv_def demo_routed_def demo_message_def excluded_of_def tried_def wordlike_def
      is_whitespace_def)

definition demo_after :: tables where
  "demo_after = demo_tables\<lparr>t_messages := (t_messages demo_tables)(lit ''m1'' \<mapsto> demo_routed)\<rparr>"

lemma demo_after_inv: "inv_tables worker_rules demo_after"
  using demo_routed_inv demo_tables_inv
  by (simp add: inv_tables_def demo_after_def demo_tables_def) (simp add: demo_routed_def demo_message_def)

lemma yields_alone:
  "lawful_answer T req r T' \<Longrightarrow> inv_tables P T' \<Longrightarrow> yields P lawful_answer T' (k r) U x
    \<Longrightarrow> yields P lawful_answer T (Call req k) U x"
  by (rule yields_call [where T' = T' and T'' = T']) (simp_all add: interferes_refl)

lemma lawful_now: "lawful_answer T ReqNow (Time 5) T"
  by (simp add: lawful_answer_def)

lemma demo_claim_yields:
  "yields worker_rules lawful_answer demo_tables
     (claim_batch ts message_candidates (message_take_lease E) (lit ''w'') 10) demo_after (Inr [demo_routed])"
proof -
  have "message_claimable 5 demo_message" by (simp add: message_claimable_def demo_message_def)
  then have find: "lawful_answer demo_tables (FindMessages (message_claimable 5)
      [Desc (\<lambda>m. Some (KInt (msg_priority m))), Asc (\<lambda>m. Some (KInt (msg_createdAt m)))] (Some 10))
      (Messages (Inr [demo_message])) demo_tables"
    by (simp add: lawful_answer_def in_limit_def demo_tables_def) (simp add: demo_message_def)
  have upd: "lawful_answer demo_tables (UpdateMessage (lit ''m1'') (no_message_patch\<lparr>
      mp_state := Some Routed, mp_attempts := Some 1, mp_leaseOwner := Some (Some (lit ''w'')),
      mp_leaseUntil := Some (Some (5 + DISPATCH_LEASE))\<rparr>) 7) (MessageRow (Inr demo_routed)) demo_after"
    unfolding lawful_answer_def request.case demo_after_def
    by (intro disjI2 exI [of _ demo_routed] exI [of _ 5] exI [of _ demo_message] conjI refl demo_write)
      (simp_all add: demo_tables_def, simp add: demo_message_def)
  have "yields worker_rules lawful_answer demo_tables
      (lease_candidates ts (\<lambda>c. message_take_lease E c (lit ''w'') 5) [] [demo_message]) demo_after (Inr [demo_routed])"
    unfolding lease_candidates.simps demo_lease update_message_def bind_prog.simps
    by (rule yields_alone [OF upd demo_after_inv]) (simp add: yields_ret)
  then have "yields worker_rules lawful_answer demo_tables (try_prog (message_candidates 5 10)
      (lease_candidates ts (\<lambda>c. message_take_lease E c (lit ''w'') 5) [])) demo_after (Inr [demo_routed])"
    unfolding try_prog_def message_candidates_def find_messages_def bind_prog.simps
    by (intro yields_alone [OF find demo_tables_inv]) (simp only: response.case bind_prog.simps sum.case)
  then show ?thesis
    unfolding claim_batch_def utc_now_def bind_prog.simps
    by (intro yields_alone [OF lawful_now demo_tables_inv]) (simp only: response.case bind_prog.simps)
qed

definition demo_env :: env where
  "demo_env = \<lparr>env_phone = cm_lib, env_err = (\<lambda>_. []), env_dbg = id, env_dur = (\<lambda>_. [])\<rparr>"

theorem claimed_messages_witness:
  "\<exists>U m. yields worker_rules lawful_answer demo_tables
      (claim_batch (env_err demo_env) message_candidates (message_take_lease demo_env) (lit ''w'') 10) U (Inr [m])
    \<and> msg_state m = Routed \<and> 1 \<le> msg_attempts m \<and> msg_attempts m \<le> msg_maxAttempts m"
proof (intro exI conjI)
  show "yields worker_rules lawful_answer demo_tables
      (claim_batch (env_err demo_env) message_candidates (message_take_lease demo_env) (lit ''w'') 10)
      demo_after (Inr [demo_routed])"
    by (rule demo_claim_yields)
  note * = claimed_messages [OF lawful_permissive demo_tables_inv _ demo_claim_yields [of "env_err demo_env" demo_env]]
  show st: "msg_state demo_routed = Routed" by (simp add: demo_routed_def)
  from * st show "1 \<le> msg_attempts demo_routed" "msg_attempts demo_routed \<le> msg_maxAttempts demo_routed" by auto
qed

definition demo_requeued :: job where
  "demo_requeued = demo_job\<lparr>job_st := JobPending, job_leaseOwner := None, job_leaseUntil := None, job_version := 3\<rparr>"

definition demo_jobs_after :: tables where
  "demo_jobs_after = demo_tables\<lparr>t_jobs := (t_jobs demo_tables)(lit ''j1'' \<mapsto> demo_requeued)\<rparr>"

lemma demo_jobs_after_inv: "inv_tables worker_rules demo_jobs_after"
  using demo_tables_inv
  by (simp add: inv_tables_def demo_jobs_after_def demo_tables_def) (simp add: demo_requeued_def demo_job_def)

lemma demo_job_yields:
  "yields worker_rules lawful_answer demo_tables (claim_batch ts job_candidates job_take_lease (lit ''w'') 10)
     demo_jobs_after (Inr [demo_requeued])"
proof -
  have none: "lawful_answer demo_tables (FindJobs f o_by (Some 10)) (Jobs (Inr [])) demo_tables" for f o_by
    by (simp add: lawful_answer_def in_limit_def)
  have "job_st demo_job = JobRunning \<and> expired_lease 5 (job_leaseUntil demo_job)"
    by (simp add: demo_job_def expired_lease_def)
  then have one: "lawful_answer demo_tables (FindJobs (\<lambda>j. job_st j = JobRunning \<and> expired_lease 5 (job_leaseUntil j))
      job_order (Some 10)) (Jobs (Inr [demo_job])) demo_tables"
    by (simp add: lawful_answer_def in_limit_def demo_tables_def) (simp add: demo_job_def)
  have w: "write_job 5 (no_job_patch\<lparr>jp_state := Some JobPending, jp_leaseOwner := Some None,
      jp_leaseUntil := Some None\<rparr>) demo_job = Some demo_requeued"
    by (simp add: write_job_def jobs_guard_transition_def patch_job_def no_job_patch_def demo_job_def
        demo_requeued_def job_state_transitions_def)
  have upd: "lawful_answer demo_tables (UpdateJob (lit ''j1'') (no_job_patch\<lparr>jp_state := Some JobPending,
      jp_leaseOwner := Some None, jp_leaseUntil := Some None\<rparr>) 2) (JobRow (Inr demo_requeued)) demo_jobs_after"
    unfolding lawful_answer_def request.case demo_jobs_after_def
    by (intro disjI2 exI [of _ demo_requeued] exI [of _ 5] exI [of _ demo_job] conjI refl w)
      (simp_all add: demo_tables_def, simp add: demo_job_def)
  have lease: "job_take_lease demo_job (lit ''w'') 5 = update_job (lit ''j1'') (no_job_patch\<lparr>jp_state := Some JobPending,
      jp_leaseOwner := Some None, jp_leaseUntil := Some None\<rparr>) 2"
    by (simp add: job_take_lease_def demo_job_def)
  have "yields worker_rules lawful_answer demo_tables
      (lease_candidates ts (\<lambda>c. job_take_lease c (lit ''w'') 5) [] [demo_job]) demo_jobs_after (Inr [demo_requeued])"
    unfolding lease_candidates.simps lease update_job_def bind_prog.simps
    by (rule yields_alone [OF upd demo_jobs_after_inv]) (simp add: yields_ret)
  then have "yields worker_rules lawful_answer demo_tables (bind_prog (find_jobs
        (\<lambda>j. job_st j = JobRunning \<and> expired_lease 5 (job_leaseUntil j)) job_order (Some 10))
      (\<lambda>x. bind_prog (case x of Inl e \<Rightarrow> Ret (Inl e) | Inr reclaimable \<Rightarrow> Ret (Inr reclaimable))
        (\<lambda>y. case y of Inl e \<Rightarrow> Ret (Inl e)
           | Inr cs \<Rightarrow> lease_candidates ts (\<lambda>c. job_take_lease c (lit ''w'') 5) [] cs)))
      demo_jobs_after (Inr [demo_requeued])"
    unfolding find_jobs_def bind_prog.simps
    by (intro yields_alone [OF one demo_tables_inv]) (simp only: response.case bind_prog.simps sum.case)
  then have "yields worker_rules lawful_answer demo_tables (try_prog (job_candidates 5 10)
      (lease_candidates ts (\<lambda>c. job_take_lease c (lit ''w'') 5) [])) demo_jobs_after (Inr [demo_requeued])"
    unfolding try_prog_def job_candidates_def find_jobs_def [of "\<lambda>j. job_st j = JobPending \<and> job_runAt j \<le> 5"]
      bind_prog.simps bind_prog_assoc
    by (intro yields_alone [OF none demo_tables_inv]) (simp add: Let_def bind_prog_assoc del: lit_Cons)
  then show ?thesis
    unfolding claim_batch_def utc_now_def bind_prog.simps
    by (intro yields_alone [OF lawful_now demo_tables_inv]) (simp only: response.case bind_prog.simps)
qed

theorem claimed_jobs_and_attempts_witness:
  "\<exists>U j. yields worker_rules lawful_answer demo_tables
      (claim_batch (env_err demo_env) job_candidates job_take_lease (lit ''w'') 10) U (Inr [j])
    \<and> job_st j = JobPending \<and> job_leaseOwner j = None"
proof (intro exI conjI)
  show "yields worker_rules lawful_answer demo_tables
      (claim_batch (env_err demo_env) job_candidates job_take_lease (lit ''w'') 10) demo_jobs_after (Inr [demo_requeued])"
    by (rule demo_job_yields)
  show st: "job_st demo_requeued = JobPending" by (simp add: demo_requeued_def)
  show "job_leaseOwner demo_requeued = None"
    using claimed_jobs_and_attempts [OF lawful_permissive demo_tables_inv, of 10 "env_err demo_env" "lit ''w''" demo_env Both]
      demo_job_yields [of "env_err demo_env"] st by fastforce
qed

theorem waiting_count_bounded_witness:
  "\<exists>U w. yields worker_rules lawful_answer demo_tables (count_attempts_waiting 5 sealed) U (Inr w)
    \<and> waiting_get w \<le> WAITING_COUNT_CAP + 1"
proof -
  have "yields worker_rules lawful_answer demo_tables (count_attempts_waiting 5 sealed) demo_tables (Inr (waiting_of 0))"
    unfolding count_attempts_waiting_def try_prog_def find_endpoints_def bind_prog.simps
    by (rule yields_alone [where r = "Endpoints (Inr [])"], simp add: lawful_answer_def in_limit_def, rule demo_tables_inv)
      (simp add: Let_def yields_ret)
  from waiting_count_bounded [OF lawful_permissive demo_tables_inv this] this show ?thesis by blast
qed

definition demo_attempt :: attempt where
  "demo_attempt = \<lparr>att_id = lit ''w1'', att_endpointId = lit ''e1'', att_st = AttPending, att_attempts = 0,
     att_leaseOwner = None, att_leaseUntil = None, att_nextAttemptAt = None, att_lastStatusCode = None,
     att_lastError = None, att_deliveredAt = None, att_lastAttemptAt = None,
     att_sourceEventId = lit ''ev1'', att_eventType = lit ''message.delivered'', att_payload = lit ''{}'', att_version = 0\<rparr>"

definition demo_endpoint :: endpoint where
  "demo_endpoint = \<lparr>ep_id = lit ''e1'', ep_deliveryMode = hmac, ep_active = True, ep_circuitOpenUntil = Some 3,
     ep_consecutiveFailures = 0, ep_maxAttempts = 5, ep_appId = lit ''a1'', ep_url = lit ''https://x.cm/h'',
     ep_audience = None, ep_secret = Some (lit ''k''), ep_prevSecret = None, ep_secretRotatedAt = None, ep_version = 0\<rparr>"

theorem endpoint_filter_exact_witness:
  "\<exists>f k. filter_by_endpoint_health [demo_attempt] 5 10 HmacOnly = Call (FindEndpoints f None) k
    \<and> k (Endpoints (Inr [demo_endpoint])) = Ret (Inr [demo_attempt]) \<and> k (Endpoints (Inr [])) = Ret (Inr [])"
proof -
  obtain f k where "filter_by_endpoint_health [demo_attempt] 5 10 HmacOnly = Call (FindEndpoints f None) k"
    "\<forall>rows. k (Endpoints (Inr rows)) = Ret (Inr (take (nat 10)
         (filter (\<lambda>a. \<exists>e \<in> set rows. ep_id e = att_endpointId a \<and> serves HmacOnly (ep_deliveryMode e)
            \<and> ep_active e \<and> (\<forall>t. ep_circuitOpenUntil e = Some t \<longrightarrow> t \<le> 5)) [demo_attempt])))"
    using endpoint_filter_exact [of "[demo_attempt]" 10 5 HmacOnly] by auto
  then show ?thesis
    by (intro exI [of _ f] exI [of _ k]) (simp add: demo_endpoint_def demo_attempt_def)
qed

end
