(* ===== verification/Breaker.thy ===== *)
theory Breaker
  imports Prelude
begin

text \<open>
  The circuit breaker both outbound roles share (\<^verbatim>\<open>sms-worker/src/breaker.rs\<close>) with the
  numbers of each role (\<^verbatim>\<open>dispatch.rs\<close>, \<^verbatim>\<open>hooks.rs\<close>), and the log throttle
  (\<^verbatim>\<open>throttle.rs\<close>). The columns the breaker writes are the counter of consecutive failures and
  the instant the circuit is open until.
\<close>

subsection \<open>breaker.rs\<close>

record breaker_policy =
  failure_threshold :: int
  open_duration :: duration

record failure_decision =
  consecutive_failures :: int
  circuit_open_until :: "instant option"

definition opened_circuit :: "failure_decision \<Rightarrow> bool" where
  "opened_circuit d \<longleftrightarrow> circuit_open_until d \<noteq> None"

definition on_failure :: "breaker_policy \<Rightarrow> int \<Rightarrow> instant \<Rightarrow> failure_decision" where
  "on_failure policy consecutive_before now =
     (let consecutive = wrap_i64 (consecutive_before + 1);
          opening_circuit = failure_threshold policy \<le> consecutive
      in \<lparr>consecutive_failures = (if opening_circuit then 0 else consecutive),
          circuit_open_until = (if opening_circuit then Some (now + open_duration policy) else None)\<rparr>)"

definition needs_reset :: "int \<Rightarrow> instant option \<Rightarrow> bool" where
  "needs_reset consecutive open_until \<longleftrightarrow> consecutive \<noteq> 0 \<or> open_until \<noteq> None"

text \<open>The two policies: \<^verbatim>\<open>dispatch::PROVIDER_BREAKER\<close> and \<^verbatim>\<open>hooks::ENDPOINT_BREAKER\<close>.\<close>

definition PROVIDER_BREAKER :: breaker_policy where
  "PROVIDER_BREAKER = \<lparr>failure_threshold = 5, open_duration = secs 60\<rparr>"

definition ENDPOINT_BREAKER :: breaker_policy where
  "ENDPOINT_BREAKER = \<lparr>failure_threshold = 20, open_duration = minutes 15\<rparr>"

subsection \<open>throttle.rs\<close>

record throttle =
  every :: duration
  last_admitted :: "ustring \<rightharpoonup> instant"

definition throttle_new :: "duration \<Rightarrow> throttle" where
  "throttle_new e = \<lparr>every = e, last_admitted = (\<lambda>_. None)\<rparr>"

text \<open>\<^verbatim>\<open>saturating_duration_since\<close>: an instant in the future is zero time ago.\<close>

definition admit :: "throttle \<Rightarrow> ustring \<Rightarrow> instant \<Rightarrow> bool \<times> throttle" where
  "admit t key now =
     (case last_admitted t key of
        Some admitted \<Rightarrow>
          if max 0 (now - admitted) < every t then (False, t)
          else (True, t\<lparr>last_admitted := (last_admitted t)(key \<mapsto> now)\<rparr>)
      | None \<Rightarrow> (True, t\<lparr>last_admitted := (last_admitted t)(key \<mapsto> now)\<rparr>))"

subsection \<open>A streak of failures\<close>

text \<open>The columns after a sequence of failures at the given times, none of them followed by a
  success: what the row's writer stores each time is the decision, the open instant being written
  only when the circuit opens.\<close>

fun after_failures :: "breaker_policy \<Rightarrow> int \<Rightarrow> instant option \<Rightarrow> instant list \<Rightarrow> int \<times> instant option" where
  "after_failures p n o_until [] = (n, o_until)"
| "after_failures p n o_until (t # ts) =
     (let d = on_failure p n t
      in after_failures p (consecutive_failures d)
           (if opened_circuit d then circuit_open_until d else o_until) ts)"

locale breaker =
  fixes policy :: breaker_policy
  assumes threshold: "0 < failure_threshold policy" "failure_threshold policy < 2 ^ 63"
    and opens_for: "0 < open_duration policy"
begin

lemma below_threshold:
  "0 \<le> n \<Longrightarrow> n + 1 < failure_threshold policy \<Longrightarrow>
    on_failure policy n t = \<lparr>consecutive_failures = n + 1, circuit_open_until = None\<rparr>"
  using threshold by (simp add: on_failure_def Let_def wrap_i64_id)

lemma at_threshold:
  "0 \<le> n \<Longrightarrow> n + 1 = failure_threshold policy \<Longrightarrow>
    on_failure policy n t = \<lparr>consecutive_failures = 0, circuit_open_until = Some (t + open_duration policy)\<rparr>"
  using threshold by (simp add: on_failure_def Let_def wrap_i64_id)

text \<open>The counter the writer stores is always below the threshold.\<close>

lemma counter_range:
  "0 \<le> n \<Longrightarrow> n < failure_threshold policy \<Longrightarrow>
    0 \<le> consecutive_failures (on_failure policy n t)
    \<and> consecutive_failures (on_failure policy n t) < failure_threshold policy"
  using threshold by (cases "n + 1 < failure_threshold policy")
    (auto simp: below_threshold at_threshold not_less order_antisym)

lemma streak_counts:
  assumes "0 \<le> n" "n + int (length ts) < failure_threshold policy"
  shows "after_failures policy n u ts = (n + int (length ts), u)"
  using assms
proof (induction ts arbitrary: n)
  case (Cons t ts)
  then show ?case by (simp add: below_threshold Let_def opened_circuit_def)
qed simp

lemma streak_opens:
  assumes "0 \<le> n" "n + int (length ts) + 1 = failure_threshold policy"
  shows "after_failures policy n u (ts @ [t]) = (0, Some (t + open_duration policy))"
  using assms
proof (induction ts arbitrary: n)
  case Nil
  then show ?case by (simp add: at_threshold Let_def opened_circuit_def)
next
  case (Cons s ts)
  then show ?case by (simp add: below_threshold Let_def opened_circuit_def)
qed

end

interpretation provider: breaker PROVIDER_BREAKER
  by unfold_locales (simp_all add: PROVIDER_BREAKER_def)

interpretation endpoint: breaker ENDPOINT_BREAKER
  by unfold_locales (simp_all add: ENDPOINT_BREAKER_def)

subsection \<open>Properties\<close>

text \<open>Five provider failures in a row, counted from a reset, open the circuit for sixty seconds
  from the fifth, and twenty endpoint failures open it for fifteen minutes from the twentieth; fewer
  failures leave the circuit as it was and the counter at their number.\<close>

theorem breaker_opens_at_threshold:
  "(length ts = 4 \<longrightarrow> after_failures PROVIDER_BREAKER 0 u (ts @ [t]) = (0, Some (t + secs 60)))
   \<and> (length ts < 5 \<longrightarrow> after_failures PROVIDER_BREAKER 0 u ts = (int (length ts), u))
   \<and> (length ts = 19 \<longrightarrow> after_failures ENDPOINT_BREAKER 0 u (ts @ [t]) = (0, Some (t + minutes 15)))
   \<and> (length ts < 20 \<longrightarrow> after_failures ENDPOINT_BREAKER 0 u ts = (int (length ts), u))"
  using provider.streak_opens [of 0 ts u t] provider.streak_counts [of 0 ts u]
    endpoint.streak_opens [of 0 ts u t] endpoint.streak_counts [of 0 ts u]
  by (simp add: PROVIDER_BREAKER_def ENDPOINT_BREAKER_def)

theorem breaker_opens_at_threshold_witness:
  "after_failures PROVIDER_BREAKER 0 None [1, 2, 3, 4, 5] = (0, Some (5 + secs 60))
   \<and> after_failures PROVIDER_BREAKER 0 None [1, 2, 3, 4] = (4, None)"
  using breaker_opens_at_threshold [of "[1, 2, 3, 4]" None 5] by simp

text \<open>A throttled key: the admissions of one key are at least the interval apart.\<close>

fun admissions :: "throttle \<Rightarrow> ustring \<Rightarrow> instant list \<Rightarrow> instant list" where
  "admissions t key [] = []"
| "admissions t key (n # ns) =
     (case admit t key n of (ok, t') \<Rightarrow> (if ok then n # admissions t' key ns else admissions t' key ns))"

lemma admissions_spaced:
  assumes "sorted (prev # ns)" "0 < every t" "last_admitted t key = Some prev"
  shows "sorted_wrt (\<lambda>a b. a + every t \<le> b) (prev # admissions t key ns)"
  using assms
proof (induction ns arbitrary: t prev)
  case (Cons n ns)
  show ?case
  proof (cases "max 0 (n - prev) < every t")
    case True
    have "sorted_wrt (\<lambda>a b. a + every t \<le> b) (prev # admissions t key ns)"
      using Cons.prems by (intro Cons.IH) simp_all
    then show ?thesis using True Cons.prems(3) by (simp add: admit_def)
  next
    case False
    let ?t = "t\<lparr>last_admitted := (last_admitted t)(key \<mapsto> n)\<rparr>"
    have "sorted_wrt (\<lambda>a b. a + every ?t \<le> b) (n # admissions ?t key ns)"
      using Cons.prems by (intro Cons.IH) simp_all
    moreover have "prev + every t \<le> n" using False Cons.prems(2) by (simp add: max_def split: if_splits)
    ultimately show ?thesis
      using False Cons.prems by (fastforce simp: admit_def)
  qed
qed simp

text \<open>A log throttle lets a key through at once the first time, and the times it admits a key at
  are at least its interval apart, when time does not run backwards.\<close>

theorem throttle_spaces_admissions:
  assumes "sorted ns" "0 < e"
  shows "sorted_wrt (\<lambda>a b. a + e \<le> b) (admissions (throttle_new e) key ns)
    \<and> (ns \<noteq> [] \<longrightarrow> hd (admissions (throttle_new e) key ns) = hd ns)"
proof (cases ns)
  case (Cons n ms)
  let ?t = "(throttle_new e)\<lparr>last_admitted := (last_admitted (throttle_new e))(key \<mapsto> n)\<rparr>"
  have "sorted_wrt (\<lambda>a b. a + every ?t \<le> b) (n # admissions ?t key ms)"
    using assms Cons by (intro admissions_spaced) (simp_all add: throttle_new_def)
  then show ?thesis using Cons by (simp add: admit_def throttle_new_def)
qed simp

theorem throttle_spaces_admissions_witness:
  "sorted_wrt (\<lambda>a b. a + 10 \<le> b) (admissions (throttle_new 10) (lit ''k'') [0, 5, 10, 30])
   \<and> admissions (throttle_new 10) (lit ''k'') [0, 5, 10, 30] = [0, 10, 30]"
  using throttle_spaces_admissions [of "[0, 5, 10, 30]" 10 "lit ''k''"]
  by (simp add: admit_def throttle_new_def)

end
