(* ===== verification/Dispatch.thy ===== *)
theory Dispatch
  imports Claim Breaker
begin

text \<open>
  \<^verbatim>\<open>backends/crates/sms-worker/src/dispatch.rs\<close>: the sending role. A tick claims messages
  within the throughput budget and submits each routed one; the outcome of a submission is written back as
  a transition, a reroute to another provider (at most two hops), or a backoff, and the provider's circuit
  breaker is kept. A failed write is logged by the code and dropped here. \<open>ctx\<close> lists the provider
  adapters of the process by key, in the iteration order of the registry; the adapters' network calls are
  the \<^verbatim>\<open>Submit\<close> requests.
\<close>

record adapter =
  ad_key :: ustring
  ad_tps_ceiling :: f64

type_synonym provider_registry = "(ustring \<times> adapter) list"

definition POLL_INTERVAL_secs :: f64 where "POLL_INTERVAL_secs = Fin 1"

definition UNAVAILABLE_BACKOFF :: duration where "UNAVAILABLE_BACKOFF = secs 30"

definition budget_for :: "f64 \<Rightarrow> int" where
  "budget_for tps_ceiling = max (f_to_i64 (f_ceil (f_mul tps_ceiling POLL_INTERVAL_secs))) 1"

definition total_tps_ceiling :: "provider_registry \<Rightarrow> f64" where
  "total_tps_ceiling providers = fold (\<lambda>(_, a) acc. f_add acc (ad_tps_ceiling a)) providers (Fin 0)"

fun decode_encoding :: "schema_encoding \<Rightarrow> sms_encoding" where
  "decode_encoding gsm7 = Gsm7"
| "decode_encoding ucs2 = Ucs2"

definition resolve_provider ::
    "env \<Rightarrow> provider_registry \<Rightarrow> message \<Rightarrow> (ustring + provider \<times> adapter) prog" where
  "resolve_provider E ctx m =
     (case msg_providerId m of
        None \<Rightarrow> Ret (Inl (lit ''message reached routed with no providerId stamped''))
      | Some provider_id \<Rightarrow>
          bind_prog (find_providers (\<lambda>p. prov_id p = provider_id) [] (Some 1)) (\<lambda>r. case r of
            Inl error \<Rightarrow> Ret (Inl (lit ''looking up provider '' @ provider_id @ lit '': '' @ env_err E error))
          | Inr [] \<Rightarrow> Ret (Inl (lit ''provider '' @ provider_id @ lit '' no longer exists''))
          | Inr (row # _) \<Rightarrow>
              (case map_of ctx (prov_key row) of
                 None \<Rightarrow> Ret (Inl (lit ''no adapter configured in this process for provider key '' @
                   env_dbg E (prov_key row) @ lit '' (provider '' @ provider_id @ lit '')''))
               | Some adapter \<Rightarrow> Ret (Inr (row, adapter)))))"

subsection \<open>Writing outcomes\<close>

definition write_failover :: "message \<Rightarrow> route_winner \<Rightarrow> ustring \<Rightarrow> ustring \<Rightarrow> unit prog" where
  "write_failover m w excluded_route_ids reason =
     bind_prog utc_now (\<lambda>now.
       bind_prog (update_message (msg_id m) (no_message_patch\<lparr>
         mp_state := Some Queued,
         mp_providerId := Some (Some (wn_provider_id w)),
         mp_routeId := Some (Some (wn_route_id w)),
         mp_excludedRouteIds := Some (Some excluded_route_ids),
         mp_stateReason := Some (Some reason),
         mp_leaseUntil := Some (Some now)\<rparr>) (msg_version m)) (\<lambda>_. Ret ()))"

definition write_submitted :: "message \<Rightarrow> ustring \<Rightarrow> ustring option \<Rightarrow> unit prog" where
  "write_submitted m ref ref_alt =
     bind_prog (update_message (msg_id m) (no_message_patch\<lparr>
       mp_state := Some Submitted,
       mp_providerMessageRef := Some (Some ref),
       mp_providerMessageRefAlt := Some ref_alt\<rparr>) (msg_version m)) (\<lambda>_. Ret ())"

definition write_transition ::
    "message \<Rightarrow> message_state \<Rightarrow> ustring option \<Rightarrow> duration option \<Rightarrow> ustring option \<Rightarrow> unit prog" where
  "write_transition m next_state reason backoff ref_alt =
     bind_prog (case backoff of
         None \<Rightarrow> Ret None
       | Some delay \<Rightarrow> bind_prog utc_now (\<lambda>now.
           Ret (Some (now + (case from_std delay of Some d \<Rightarrow> d | None \<Rightarrow> secs 30))))) (\<lambda>lease_until.
       bind_prog (update_message (msg_id m) (no_message_patch\<lparr>
         mp_state := Some next_state,
         mp_stateReason := Some reason,
         mp_leaseUntil := Some lease_until,
         mp_providerMessageRefAlt := map_option Some ref_alt\<rparr>) (msg_version m)) (\<lambda>_. Ret ()))"

definition record_provider_failure :: "provider \<Rightarrow> unit prog" where
  "record_provider_failure p =
     bind_prog utc_now (\<lambda>now.
       let d = on_failure PROVIDER_BREAKER (prov_consecutiveFailures p) now;
           patch = no_provider_patch\<lparr>pp_consecutiveFailures := Some (consecutive_failures d)\<rparr>;
           patch' = (if opened_circuit d then patch\<lparr>pp_circuitOpenUntil := Some (circuit_open_until d)\<rparr> else patch)
       in bind_prog (update_provider (prov_id p) patch' (prov_version p)) (\<lambda>_. Ret ()))"

definition reset_provider_failures :: "provider \<Rightarrow> unit prog" where
  "reset_provider_failures p =
     (if \<not> needs_reset (prov_consecutiveFailures p) (prov_circuitOpenUntil p) then Ret ()
      else bind_prog (update_provider (prov_id p) (no_provider_patch\<lparr>
        pp_consecutiveFailures := Some 0, pp_circuitOpenUntil := Some None\<rparr>) (prov_version p)) (\<lambda>_. Ret ()))"

subsection \<open>Failover\<close>

datatype failover_outcome = Rerouted | Exhausted

fun terminal_outcome :: "provider_error \<Rightarrow> message_state \<times> ustring \<times> duration option" where
  "terminal_outcome (Transient retry_after msg) = (Queued, lit ''transient: '' @ msg, Some retry_after)"
| "terminal_outcome (Unavailable msg _) =
     (Queued, lit ''provider unavailable: '' @ msg, Some UNAVAILABLE_BACKOFF)"
| "terminal_outcome (Permanent code msg) =
     (MsgFailed, code @ lit '': '' @ msg @ lit '' (no alternate route available)'', None)"
| "terminal_outcome (ErrRejected code msg) = (MsgFailed, code @ lit '': '' @ msg, None)"
| "terminal_outcome Unsupported = (MsgFailed, lit ''operation not supported by this provider'', None)"
| "terminal_outcome (Indeterminate msg _) =
     (Uncertain, lit ''submission outcome unknown, possibly already sent; not retrying: '' @ msg, None)"

text \<open>The exclusion list with the current route added.\<close>

definition grown_exclusions :: "message \<Rightarrow> ustring list" where
  "grown_exclusions m =
     (let excluded = unpack (case msg_excludedRouteIds m of None \<Rightarrow> [] | Some s \<Rightarrow> s)
      in case msg_routeId m of
           Some current \<Rightarrow> if current \<in> set excluded then excluded else excluded @ [current]
         | None \<Rightarrow> excluded)"

definition attempt_failover ::
    "env \<Rightarrow> message \<Rightarrow> ustring \<Rightarrow> (cratestack_error + failover_outcome) prog" where
  "attempt_failover E m reason =
     (let excluded = grown_exclusions m
      in if MAX_FAILOVER_HOPS < length excluded then Ret (Inr Exhausted)
         else try_prog (route_message E m (set excluded)) (\<lambda>d. case winner d of
           None \<Rightarrow> Ret (Inr Exhausted)
         | Some w \<Rightarrow>
             (case pack excluded of
                Inl _ \<Rightarrow> Panic
              | Inr packed \<Rightarrow>
                  bind_prog (write_failover m w packed
                    (lit ''failover (hop '' @ show_nat (length excluded) @ lit '' of '' @
                     show_nat MAX_FAILOVER_HOPS @ lit ''): '' @ reason @ lit ''; rerouted to route '' @
                     wn_route_id w)) (\<lambda>_. Ret (Inr Rerouted)))))"

definition handle_submit_error ::
    "env \<Rightarrow> message \<Rightarrow> provider option \<Rightarrow> provider_error \<Rightarrow> unit prog" where
  "handle_submit_error E m provider_row err =
     (let consequence = error_routing err;
          finish = (case terminal_outcome err of (next_state, reason, backoff) \<Rightarrow>
                      write_transition m next_state (Some reason) backoff None)
      in bind_prog
           (case (consequence, provider_row) of
              (OpenCircuitAndTryNextRoute, Some row) \<Rightarrow> record_provider_failure row
            | _ \<Rightarrow> Ret ()) (\<lambda>_.
           if consequence \<in> {TryNextRoute, OpenCircuitAndTryNextRoute} then
             bind_prog (attempt_failover E m (provider_error_to_string (env_dur E) err)) (\<lambda>r. case r of
               Inr Rerouted \<Rightarrow> Ret ()
             | Inr Exhausted \<Rightarrow> finish
             | Inl _ \<Rightarrow> Ret ())
           else finish))"

subsection \<open>Submitting\<close>

definition submit_one :: "env \<Rightarrow> provider_registry \<Rightarrow> message \<Rightarrow> unit prog" where
  "submit_one E ctx m =
     (case msg_body m of
        None \<Rightarrow> write_transition m MsgFailed (Some (lit ''message body missing at submit time'')) None None
      | Some body \<Rightarrow>
          bind_prog (resolve_provider E ctx m) (\<lambda>r. case r of
            Inl reason \<Rightarrow> handle_submit_error E m None (Unavailable reason None)
          | Inr (provider_row, adapter) \<Rightarrow>
              bind_prog (submit (ad_key adapter)
                \<lparr>sub_to = msg_msisdn m, sub_sender_id = msg_senderIdValue m, sub_body = body,
                 sub_encoding = decode_encoding (msg_encoding m), sub_reference = msg_id m\<rparr>) (\<lambda>result.
                case result of
                  Inr ack \<Rightarrow> bind_prog (write_submitted m (provider_ref ack) (provider_ref_alt ack)) (\<lambda>_.
                    reset_provider_failures provider_row)
                | Inl err \<Rightarrow> handle_submit_error E m (Some provider_row) err)))"

fun submit_claimed :: "env \<Rightarrow> provider_registry \<Rightarrow> message list \<Rightarrow> (cratestack_error + unit) prog" where
  "submit_claimed E ctx [] = Ret (Inr ())"
| "submit_claimed E ctx (m # ms) =
     bind_prog (if msg_state m = Routed then submit_one E ctx m else Ret ()) (\<lambda>_. submit_claimed E ctx ms)"

definition dispatch_tick :: "env \<Rightarrow> provider_registry \<Rightarrow> ustring \<Rightarrow> (cratestack_error + unit) prog" where
  "dispatch_tick E ctx worker =
     try_prog (claim_batch (env_err E) message_candidates (message_take_lease E) worker
         (budget_for (total_tps_ceiling ctx))) (\<lambda>claimed. submit_claimed E ctx claimed)"

subsection \<open>Every write is legal\<close>

lemma wp_write:
  assumes "message_known m K" "message_may m p"
  shows "wp worker_rules (update_message (msg_id m) p (msg_version m)) K (\<lambda>_ _. True)"
  using assms by (auto simp: message_known_def)

lemma wp_write_submitted:
  "message_known m K \<Longrightarrow> msg_state m = Routed \<Longrightarrow>
    wp worker_rules (write_submitted m ref alt) K (\<lambda>_ _. True)"
  unfolding write_submitted_def
  by (rule wp_bindI [OF wp_write]) (simp_all add: may_simps)

lemma wp_write_transition:
  assumes "message_known m K" "msg_state m = Routed" "s \<in> {Queued, MsgFailed, Uncertain}"
  shows "wp worker_rules (write_transition m s reason backoff alt) K (\<lambda>_ _. True)"
  unfolding write_transition_def
proof (rule wp_bindI [where R = "\<lambda>_ K'. K' = K"])
  show "wp worker_rules (case backoff of None \<Rightarrow> Ret None
      | Some delay \<Rightarrow> bind_prog utc_now (\<lambda>now.
          Ret (Some (now + (case from_std delay of Some d \<Rightarrow> d | None \<Rightarrow> secs 30))))) K (\<lambda>_ K'. K' = K)"
    by (simp split: option.split)
  fix lease and K' :: snaps
  assume "K' = K"
  then show "wp worker_rules (bind_prog (update_message (msg_id m) (no_message_patch\<lparr>
         mp_state := Some s, mp_stateReason := Some reason, mp_leaseUntil := Some lease,
         mp_providerMessageRefAlt := map_option Some alt\<rparr>) (msg_version m)) (\<lambda>_. Ret ())) K' (\<lambda>_ _. True)"
    using assms by (intro wp_bindI [OF wp_write]) (auto simp: may_simps)
qed

lemma wp_record_failure [simp]: "wp P (record_provider_failure p) K (\<lambda>_ K'. K' = K)"
  by (simp add: record_provider_failure_def Let_def)

lemma wp_reset_failures [simp]: "wp P (reset_provider_failures p) K (\<lambda>_ _. True)"
  by (simp add: reset_provider_failures_def)

lemma grown_exclusions:
  assumes "message_inv m"
  shows "list_all wordlike (grown_exclusions m) \<and> distinct (grown_exclusions m)
    \<and> set (excluded_of m) \<subseteq> set (grown_exclusions m)
    \<and> (\<forall>r. msg_routeId m = Some r \<longrightarrow> r \<in> set (grown_exclusions m))"
proof -
  have w: "list_all wordlike (excluded_of m)" by (simp add: excluded_of_def unpack_wordlike)
  have "grown_exclusions m = (case msg_routeId m of
      Some current \<Rightarrow> if current \<in> set (excluded_of m) then excluded_of m else excluded_of m @ [current]
    | None \<Rightarrow> excluded_of m)"
    unfolding grown_exclusions_def excluded_of_def Let_def by (rule refl)
  then show ?thesis
    using assms w by (auto simp: message_inv_def split: option.split)
qed

lemma wp_write_failover:
  assumes "message_known m K" "msg_state m = Routed" "length (grown_exclusions m) \<le> MAX_FAILOVER_HOPS"
    and "wordlike (wn_route_id w)" "wn_route_id w \<notin> set (grown_exclusions m)"
  shows "wp worker_rules (write_failover m w (column (grown_exclusions m)) reason) K (\<lambda>_ _. True)"
proof -
  have "message_inv m" using assms(1) by (simp add: message_known_def)
  note grown = grown_exclusions [OF this]
  have "wp worker_rules (bind_prog (update_message (msg_id m) (no_message_patch\<lparr>
         mp_state := Some Queued, mp_providerId := Some (Some (wn_provider_id w)),
         mp_routeId := Some (Some (wn_route_id w)),
         mp_excludedRouteIds := Some (Some (column (grown_exclusions m))),
         mp_stateReason := Some (Some reason), mp_leaseUntil := Some (Some now)\<rparr>) (msg_version m)) (\<lambda>_. Ret ())) K
      (\<lambda>_ _. True)" for now
    using grown assms by (intro wp_bindI [OF wp_write]) (auto simp: may_simps)
  then show ?thesis by (simp add: write_failover_def)
qed

lemma wp_attempt_failover:
  assumes "message_known m K" "msg_state m = Routed"
  shows "wp worker_rules (attempt_failover E m reason) K (\<lambda>r K'. r = Inr Exhausted \<longrightarrow> K' = K)"
proof (cases "MAX_FAILOVER_HOPS < length (grown_exclusions m)")
  case True
  then show ?thesis by (simp add: attempt_failover_def Let_def)
next
  case False
  have inv: "message_inv m" using assms(1) by (simp add: message_known_def)
  have packed: "pack (grown_exclusions m) = Inr (column (grown_exclusions m))"
    using grown_exclusions [OF inv] by (auto simp: pack_Inr_iff list_all_iff intro: wordlike_packable)
  show ?thesis
    unfolding attempt_failover_def Let_def if_not_P [OF False] route_message_def
  proof (rule wp_tryI [where R = "\<lambda>r K'. K' = K \<and> (\<forall>d w. r = Inr d \<longrightarrow> winner d = Some w \<longrightarrow>
      wordlike (wn_route_id w) \<and> wn_route_id w \<notin> set (grown_exclusions m))"])
    show "wp worker_rules (decide (env_phone E)
        \<lparr>cand_operator = msg_operator m, cand_class = msg_class m, cand_app_id = msg_appId m,
         cand_msisdn = msg_msisdn m, cand_message_id = msg_id m\<rparr> (set (grown_exclusions m))) K
        (\<lambda>r K'. K' = K \<and> (\<forall>d w. r = Inr d \<longrightarrow> winner d = Some w \<longrightarrow>
          wordlike (wn_route_id w) \<and> wn_route_id w \<notin> set (grown_exclusions m)))"
      by (rule wp_decide) (auto simp: good_winner_def)
    fix d K'
    assume "K' = K \<and> (\<forall>d' w. (Inr d :: cratestack_error + decision) = Inr d' \<longrightarrow> winner d' = Some w \<longrightarrow>
      wordlike (wn_route_id w) \<and> wn_route_id w \<notin> set (grown_exclusions m))"
    then have K': "K' = K" and win: "winner d = Some w \<Longrightarrow>
      wordlike (wn_route_id w) \<and> wn_route_id w \<notin> set (grown_exclusions m)" for w by auto
    show "wp worker_rules (case winner d of None \<Rightarrow> Ret (Inr Exhausted)
         | Some w \<Rightarrow> (case pack (grown_exclusions m) of Inl _ \<Rightarrow> Panic
              | Inr packed \<Rightarrow> bind_prog (write_failover m w packed
                    (lit ''failover (hop '' @ show_nat (length (grown_exclusions m)) @ lit '' of '' @
                     show_nat MAX_FAILOVER_HOPS @ lit ''): '' @ reason @ lit ''; rerouted to route '' @
                     wn_route_id w)) (\<lambda>_. Ret (Inr Rerouted)))) K' (\<lambda>r K'. r = Inr Exhausted \<longrightarrow> K' = K)"
    proof (cases "winner d")
      case (Some w)
      show ?thesis
        unfolding Some option.case packed sum.case K'
        by (rule wp_bindI [OF wp_write_failover [OF assms]]) (use False win [OF Some] in simp_all)
    qed (simp add: K')
  qed simp
qed

lemma terminal_outcome_state:
  "terminal_outcome err = (s, reason, backoff) \<Longrightarrow> s \<in> {Queued, MsgFailed, Uncertain}"
  by (cases err) auto

lemma wp_handle_submit_error:
  assumes "message_known m K" "msg_state m = Routed"
  shows "wp worker_rules (handle_submit_error E m row err) K (\<lambda>_ _. True)"
proof -
  obtain s reason backoff where out: "terminal_outcome err = (s, reason, backoff)" by (cases "terminal_outcome err")
  note finish = wp_write_transition [OF assms terminal_outcome_state [OF out], of "Some reason" backoff None]
  have "wp worker_rules (bind_prog (attempt_failover E m why) (\<lambda>r. case r of
      Inr Rerouted \<Rightarrow> Ret () | Inr Exhausted \<Rightarrow> write_transition m s (Some reason) backoff None | Inl _ \<Rightarrow> Ret ())) K
      (\<lambda>_ _. True)" for why
    by (rule wp_bindI [OF wp_attempt_failover [OF assms]])
      (auto simp: finish split: sum.split failover_outcome.split)
  note failover = this
  show ?thesis
    unfolding handle_submit_error_def Let_def out prod.case
    by (rule wp_bindI [where R = "\<lambda>_ K'. K' = K"])
      (auto simp: failover [unfolded wp_bind] finish split: routing_consequence.split option.split)
qed

lemma wp_submit_one:
  assumes "message_known m K" "msg_state m = Routed"
  shows "wp worker_rules (submit_one E ctx m) K (\<lambda>_ _. True)"
proof (cases "msg_body m")
  case None
  then show ?thesis using wp_write_transition [OF assms] by (simp add: submit_one_def)
next
  case (Some body)
  have may: "\<exists>x \<in> sn_messages K. message_inv x \<and> message_submit x
      \<lparr>sub_to = msg_msisdn m, sub_sender_id = msg_senderIdValue m, sub_body = body,
       sub_encoding = decode_encoding (msg_encoding m), sub_reference = msg_id m\<rparr>"
    using assms Some by (auto simp: message_known_def message_submit_def)
  show ?thesis
    unfolding submit_one_def Some option.case
  proof (rule wp_bindI [where R = "\<lambda>_ K'. K' = K"])
    show "wp worker_rules (resolve_provider E ctx m) K (\<lambda>_ K'. K' = K)"
      by (auto simp: resolve_provider_def split: option.split sum.split list.split)
    fix r :: "ustring + provider \<times> adapter" and K'
    assume K': "K' = K"
    have ok: "wp worker_rules (bind_prog (write_submitted m ref alt) (\<lambda>_. reset_provider_failures row)) K (\<lambda>_ _. True)"
      for ref alt row
      by (rule wp_bindI [OF wp_write_submitted [OF assms]]) simp
    show "wp worker_rules (case r of
            Inl reason \<Rightarrow> handle_submit_error E m None (Unavailable reason None)
          | Inr (provider_row, adapter) \<Rightarrow>
              bind_prog (submit (ad_key adapter)
                \<lparr>sub_to = msg_msisdn m, sub_sender_id = msg_senderIdValue m, sub_body = body,
                 sub_encoding = decode_encoding (msg_encoding m), sub_reference = msg_id m\<rparr>) (\<lambda>result.
                case result of
                  Inr ack \<Rightarrow> bind_prog (write_submitted m (provider_ref ack) (provider_ref_alt ack)) (\<lambda>_.
                    reset_provider_failures provider_row)
                | Inl err \<Rightarrow> handle_submit_error E m (Some provider_row) err)) K' (\<lambda>_ _. True)"
      unfolding K' using may ok wp_handle_submit_error [OF assms]
      by (auto split: sum.split prod.split)
  qed
qed

lemma wp_submit_claimed:
  "\<forall>m \<in> set ms. message_known m K \<Longrightarrow> wp worker_rules (submit_claimed E ctx ms) K (\<lambda>_ _. True)"
proof (induction ms arbitrary: K)
  case (Cons m ms)
  show ?case
    unfolding submit_claimed.simps
  proof (rule wp_bindI [where R = "\<lambda>_ _. True"])
    show "wp worker_rules (if msg_state m = Routed then submit_one E ctx m else Ret ()) K (\<lambda>_ _. True)"
      using Cons.prems wp_submit_one [of m K] by simp
    fix x K'
    assume "extends K K'"
    then show "wp worker_rules (submit_claimed E ctx ms) K' (\<lambda>_ _. True)"
      using Cons.prems message_claim.known_extends by (intro Cons.IH) auto
  qed
qed simp

lemma wp_dispatch_tick: "wp worker_rules (dispatch_tick E ctx worker) K (\<lambda>_ _. True)"
  unfolding dispatch_tick_def
  by (rule wp_tryI [OF message_claim.claim_batch_ok]) (auto intro!: wp_submit_claimed)

subsection \<open>Submissions on a path\<close>

text \<open>At most \<open>n\<close> provider calls, whatever the answers.\<close>

abbreviation submits_at_most :: "'a prog \<Rightarrow> nat \<Rightarrow> bool" where
  "submits_at_most \<equiv> makes_at_most is_submission"

text \<open>No call of the database helpers is a submission.\<close>

lemma submits_calls [simp]:
  "submits_at_most utc_now n" "submits_at_most random_f64 n" "submits_at_most (find_messages fm om lm) n"
  "submits_at_most (update_message i mp v) n" "submits_at_most (find_providers fp op lp) n"
  "submits_at_most (update_provider i pp v) n" "submits_at_most (find_routes ord) n"
  by (simp_all add: call_defs split: response.split)

lemma submits_decide: "submits_at_most (decide L c exclude) 0"
  unfolding decide_def Let_def
  by (intro makes_try0 makes_bind0) (auto split: option.split)

lemma submits_transition: "submits_at_most (write_transition m s reason backoff alt) 0"
  unfolding write_transition_def by (intro makes_bind0) (auto intro!: makes_bind0 split: option.split)

lemma submits_handle_error: "submits_at_most (handle_submit_error E m row err) 0"
proof -
  have "submits_at_most (attempt_failover E m why) 0" for why
    unfolding attempt_failover_def write_failover_def route_message_def Let_def
    by (auto intro!: makes_try0 makes_bind0 submits_decide split: option.split sum.split)
  then show ?thesis
    unfolding handle_submit_error_def record_provider_failure_def Let_def
    by (auto intro!: makes_bind0 submits_transition
        split: option.split routing_consequence.split prod.split sum.split failover_outcome.split)
qed

lemma submits_resolve: "submits_at_most (resolve_provider E ctx m) 0"
  unfolding resolve_provider_def
  by (auto intro!: makes_bind0 split: option.split sum.split list.split)

lemma submits_submit_one: "submits_at_most (submit_one E ctx m) 1"
proof (cases "msg_body m")
  case None
  then show ?thesis
    unfolding submit_one_def using makes_mono [OF submits_transition, of 1] by simp
next
  case (Some body)
  let ?rest = "\<lambda>row r. case r of
      Inr ack \<Rightarrow> bind_prog (write_submitted m (provider_ref ack) (provider_ref_alt ack)) (\<lambda>_. reset_provider_failures row)
    | Inl err \<Rightarrow> handle_submit_error E m (Some row) err"
  have rest: "submits_at_most (?rest row r) 0" for row r
    unfolding write_submitted_def reset_provider_failures_def
    by (auto intro!: makes_bind0 submits_handle_error split: sum.split)
  have one: "submits_at_most (bind_prog (submit key req) (?rest row)) 1" for key req row
    unfolding submit_def by (simp split: response.split) (use rest in blast)
  have "submits_at_most (bind_prog (resolve_provider E ctx m) g) (0 + 1)"
    if "\<And>r. submits_at_most (g r) 1" for g :: "ustring + provider \<times> adapter \<Rightarrow> unit prog"
    by (rule makes_bind [OF submits_resolve that])
  then show ?thesis
    unfolding submit_one_def Some option.case
    using one makes_mono [OF submits_handle_error, of 1 E m None]
    by (auto split: sum.split prod.split)
qed

subsection \<open>Properties\<close>

text \<open>C6: A claimed message is handed to a provider at most once: on every path of
  \<^verbatim>\<open>submit_one\<close>, whatever the database, the clock and the provider answer, there is at most one
  provider call; and nothing the error handling does (failover included) submits again.\<close>

theorem one_submission_per_claim:
  "submits_at_most (submit_one E ctx m) 1 \<and> submits_at_most (handle_submit_error E m row err) 0"
  using submits_submit_one submits_handle_error by blast


definition demo_exhausted :: message where
  "demo_exhausted = demo_routed\<lparr>msg_routeId := Some (lit ''r3''), msg_excludedRouteIds := Some (lit '' r1 r2 '')\<rparr>"


text \<open>The claim budget of a tick: never below one, and the number of messages the ceiling allows in
  the one-second poll, rounded up, for every ceiling up to $2^{53}$ that is a binary64 number.\<close>

theorem budget_matches_ceiling:
  "1 \<le> budget_for tps \<and> budget_for tps < 2 ^ 63
   \<and> (\<forall>q. tps = Fin q \<and> 0 \<le> q \<and> q \<le> 2 ^ 53 \<and> rnd q = q \<longrightarrow> budget_for tps = max \<lceil>q\<rceil> 1)"
proof -
  have "f_to_i64 x < 2 ^ 63" for x by (cases x) auto
  then have range: "1 \<le> budget_for tps" "budget_for tps < 2 ^ 63" by (simp_all add: budget_for_def)
  have "budget_for (Fin q) = max \<lceil>q\<rceil> 1" if q: "0 \<le> q" "q \<le> 2 ^ 53" "rnd q = q" for q
  proof -
    have "f_mul (Fin q) POLL_INTERVAL_secs = Fin q"
      using to_f64_small [OF q(1,2)] q(3) by (simp add: POLL_INTERVAL_secs_def)
    moreover have "0 \<le> \<lceil>q\<rceil>" "\<lceil>q\<rceil> \<le> 2 ^ 53"
      using q(1,2) by (simp, simp add: ceiling_le_iff)
    ultimately show ?thesis by (simp add: budget_for_def)
  qed
  with range show ?thesis by auto
qed

theorem budget_matches_ceiling_witness: "budget_for (Fin 5) = 5"
  using budget_matches_ceiling [of "Fin 5"] rnd_of_int [of 5] by simp

end
