(* ===== verification/Dlr.thy ===== *)
theory Dlr
  imports Claim
begin

text \<open>
  \<^verbatim>\<open>backends/crates/sms-api/src/dlr.rs\<close>: a provider's callback is parsed by its adapter, and
  every update in it is matched to a message, recorded as a receipt and, where the message's state allows,
  applied as a transition. The adapter's \<^verbatim>\<open>parse_dlr\<close> is the parameter \<open>parse\<close>
  (instances in \<^verbatim>\<open>Provider\<close>). \<^verbatim>\<open>String::from_utf8_lossy\<close> is written out.
\<close>

subsection \<open>Lossy UTF-8\<close>

definition continuation :: "nat \<Rightarrow> bool" where
  "continuation b \<longleftrightarrow> 0x80 \<le> b \<and> b < 0xC0"

definition second_byte_ok :: "nat \<Rightarrow> nat \<Rightarrow> bool" where
  "second_byte_ok b c \<longleftrightarrow> continuation c
     \<and> (b = 0xE0 \<longrightarrow> 0xA0 \<le> c) \<and> (b = 0xED \<longrightarrow> c < 0xA0) \<and> (b = 0xF0 \<longrightarrow> 0x90 \<le> c) \<and> (b = 0xF4 \<longrightarrow> c < 0x90)"

definition REPLACEMENT :: uchar where "REPLACEMENT = 0xFFFD"

text \<open>Every maximal prefix of an encoding that breaks off is one replacement character.\<close>

fun decode_lossy :: "nat list \<Rightarrow> ustring" where
  "decode_lossy [] = []"
| "decode_lossy (b # bs) =
     (if b < 0x80 then b # decode_lossy bs
      else if 0xC2 \<le> b \<and> b \<le> 0xDF then
        (case bs of
           c # cs \<Rightarrow> if continuation c then ((b mod 32) * 64 + c mod 64) # decode_lossy cs
                     else REPLACEMENT # decode_lossy (c # cs)
         | [] \<Rightarrow> [REPLACEMENT])
      else if 0xE0 \<le> b \<and> b \<le> 0xEF then
        (case bs of
           c # cs \<Rightarrow>
             if second_byte_ok b c then
               (case cs of
                  d # ds \<Rightarrow> if continuation d
                             then ((b mod 16) * 4096 + (c mod 64) * 64 + d mod 64) # decode_lossy ds
                             else REPLACEMENT # decode_lossy (d # ds)
                | [] \<Rightarrow> [REPLACEMENT])
             else REPLACEMENT # decode_lossy (c # cs)
         | [] \<Rightarrow> [REPLACEMENT])
      else if 0xF0 \<le> b \<and> b \<le> 0xF4 then
        (case bs of
           c # cs \<Rightarrow>
             if second_byte_ok b c then
               (case cs of
                  d # ds \<Rightarrow>
                    if continuation d then
                      (case ds of
                         e # es \<Rightarrow> if continuation e
                           then ((b mod 8) * 262144 + (c mod 64) * 4096 + (d mod 64) * 64 + e mod 64) # decode_lossy es
                           else REPLACEMENT # decode_lossy (e # es)
                       | [] \<Rightarrow> [REPLACEMENT])
                    else REPLACEMENT # decode_lossy (d # ds)
                | [] \<Rightarrow> [REPLACEMENT])
             else REPLACEMENT # decode_lossy (c # cs)
         | [] \<Rightarrow> [REPLACEMENT])
      else REPLACEMENT # decode_lossy bs)"

definition from_utf8_lossy :: "u8 list \<Rightarrow> ustring" where
  "from_utf8_lossy bs = decode_lossy (map unat bs)"

subsection \<open>Retry backoff\<close>

definition UNDELIVERED_BACKOFF_SCHEDULE :: "duration list" where
  "UNDELIVERED_BACKOFF_SCHEDULE = [secs 5, secs 30, minutes 2, minutes 10, minutes 30]"

definition undelivered_retry_backoff :: "int \<Rightarrow> duration" where
  "undelivered_retry_backoff attempts =
     (let index = nat (max (wrap_i64 (attempts - 1)) 0)
      in UNDELIVERED_BACKOFF_SCHEDULE ! min index (length UNDELIVERED_BACKOFF_SCHEDULE - 1))"

subsection \<open>From an outcome to a state\<close>

fun next_state :: "message_state \<Rightarrow> delivery_outcome \<Rightarrow> message_state option" where
  "next_state Submitted outcome = (case outcome of
     OutDelivered \<Rightarrow> Some Delivered
   | OutUncertain \<Rightarrow> Some Uncertain
   | OutExpired \<Rightarrow> Some Expired
   | OutRejected \<Rightarrow> Some MsgFailed
   | OutFailed \<Rightarrow> Some Undelivered
   | OutInFlight \<Rightarrow> None
   | OutUnknown \<Rightarrow> None)"
| "next_state Uncertain outcome = (case outcome of
     OutDelivered \<Rightarrow> Some Delivered
   | OutExpired \<Rightarrow> Some Expired
   | OutRejected \<Rightarrow> Some MsgFailed
   | OutFailed \<Rightarrow> Some MsgFailed
   | OutUncertain \<Rightarrow> None
   | OutInFlight \<Rightarrow> None
   | OutUnknown \<Rightarrow> None)"
| "next_state Undelivered outcome = (case outcome of
     OutExpired \<Rightarrow> Some Expired
   | OutRejected \<Rightarrow> Some MsgFailed
   | _ \<Rightarrow> None)"
| "next_state _ outcome = None"

fun to_schema_outcome :: "delivery_outcome \<Rightarrow> schema_outcome" where
  "to_schema_outcome OutDelivered = delivered"
| "to_schema_outcome OutUncertain = uncertain"
| "to_schema_outcome OutFailed = failed"
| "to_schema_outcome OutExpired = expired"
| "to_schema_outcome OutRejected = rejected"
| "to_schema_outcome OutInFlight = in_flight"
| "to_schema_outcome OutUnknown = unknown_outcome"

definition parse_operator_code :: "ustring \<Rightarrow> schema_operator option" where
  "parse_operator_code s =
     (if s = lit ''mtn'' then Some mtn
      else if s = lit ''orange'' then Some orange
      else if s = lit ''camtel'' then Some camtel
      else if s = lit ''nexttel'' then Some nexttel
      else if s = lit ''unknown'' then Some unknown_operator
      else None)"

subsection \<open>Ingestion\<close>

definition ingest_one ::
    "env \<Rightarrow> ustring \<Rightarrow> ustring \<Rightarrow> delivery_update \<Rightarrow> (cratestack_error + unit) prog" where
  "ingest_one E provider_row_id raw_payload u =
     try_prog (find_messages (\<lambda>m. msg_providerId m = Some provider_row_id
         \<and> (msg_providerMessageRef m = Some (du_provider_ref u)
            \<or> msg_providerMessageRefAlt m = Some (du_provider_ref u))) [] (Some 1)) (\<lambda>candidates.
       case candidates of
         [] \<Rightarrow> Ret (Inr ())
       | found # _ \<Rightarrow>
           (let network = (case Option.bind (du_delivering_network u) parse_operator_code of
                             Some n \<Rightarrow> n | None \<Rightarrow> msg_operator found)
            in try_prog (create_receipt
                 \<lparr>rec_messageId = msg_id found, rec_providerId = provider_row_id,
                  rec_providerMessageRef = du_provider_ref u,
                  rec_outcome = to_schema_outcome (du_outcome u), rec_rawStatus = du_raw_status u,
                  rec_errorCode = du_error_code u, rec_networkCode = network,
                  rec_occurredAt = du_occurred_at u, rec_rawPayload = raw_payload\<rparr>) (\<lambda>_.
                 case next_state (msg_state found) (du_outcome u) of
                   None \<Rightarrow> Ret (Inr ())
                 | Some target \<Rightarrow>
                     if target = msg_state found then Ret (Inr ())
                     else bind_prog
                       (if target = Undelivered then bind_prog utc_now (\<lambda>now.
                          Ret (Some (Some (now + undelivered_retry_backoff (msg_attempts found)))))
                        else Ret None) (\<lambda>lease_until.
                       bind_prog (update_message (msg_id found) (no_message_patch\<lparr>
                         mp_state := Some target, mp_leaseUntil := lease_until\<rparr>) (msg_version found)) (\<lambda>result.
                         case result of
                           Inr _ \<Rightarrow> Ret (Inr ())
                         | Inl error \<Rightarrow>
                             if is_illegal_transition error then Ret (Inl (map_database_error (env_err E) error))
                             else (case error of
                                     PreconditionFailed _ \<Rightarrow> Ret (Inr ())
                                   | _ \<Rightarrow> Ret (Inl error)))))))"

fun ingest_updates :: "env \<Rightarrow> ustring \<Rightarrow> ustring \<Rightarrow> delivery_update list \<Rightarrow> (provider_error + unit) prog" where
  "ingest_updates E provider_row_id raw_payload [] = Ret (Inr ())"
| "ingest_updates E provider_row_id raw_payload (u # us) =
     bind_prog (ingest_one E provider_row_id raw_payload u) (\<lambda>_.
       ingest_updates E provider_row_id raw_payload us)"

definition ingest ::
    "env \<Rightarrow> (raw_callback \<Rightarrow> provider_error + delivery_update list) \<Rightarrow> ustring \<Rightarrow> raw_callback
      \<Rightarrow> (provider_error + unit) prog" where
  "ingest E parse provider_row_id raw =
     (case parse raw of
        Inl e \<Rightarrow> Ret (Inl e)
      | Inr updates \<Rightarrow> ingest_updates E provider_row_id (from_utf8_lossy (cb_body raw)) updates)"

subsection \<open>Every write is legal\<close>

lemma next_state_edge:
  "next_state s o' = Some t \<Longrightarrow> (s, t) \<in> set message_state_transitions \<and> t \<noteq> s \<and> s \<noteq> Queued \<and> s \<noteq> Routed"
  by (cases s) (auto simp: message_state_transitions_def split: delivery_outcome.splits)

lemma wp_ingest_one: "wp worker_rules (ingest_one E pid payload u) K (\<lambda>_ _. True)"
proof -
  have upd: "wp worker_rules (bind_prog (update_message (msg_id m) (no_message_patch\<lparr>
         mp_state := Some t, mp_leaseUntil := l\<rparr>) (msg_version m)) f) K' (\<lambda>_ _. True)"
    if "m \<in> sn_messages K'" "message_inv m" "next_state (msg_state m) o' = Some t"
      "\<And>x K''. wp worker_rules (f x) K'' (\<lambda>_ _. True)"
    for m o' t l K' and f :: "cratestack_error + message \<Rightarrow> (cratestack_error + unit) prog"
  proof (rule wp_bindI [where R = "\<lambda>_ _. True"])
    have "message_may m (no_message_patch\<lparr>mp_state := Some t, mp_leaseUntil := l\<rparr>)"
      using next_state_edge [OF that(3)] by (simp add: message_may_def no_message_patch_def guard_allows_def)
    with that(1,2) show "wp worker_rules (update_message (msg_id m) (no_message_patch\<lparr>
         mp_state := Some t, mp_leaseUntil := l\<rparr>) (msg_version m)) K' (\<lambda>_ _. True)"
      by auto
  qed (use that(4) in simp)
  have finished: "wp worker_rules (case result of Inr _ \<Rightarrow> Ret (Inr ()) | Inl error \<Rightarrow>
      if is_illegal_transition error then Ret (Inl (map_database_error ts error))
      else (case error of PreconditionFailed _ \<Rightarrow> Ret (Inr ()) | _ \<Rightarrow> Ret (Inl error))) K' (\<lambda>_ _. True)"
    for result :: "cratestack_error + message" and ts K'
    by (simp split: sum.split cratestack_error.split)
  show ?thesis
    unfolding ingest_one_def
  proof (rule wp_tryI [where R = "\<lambda>r K'. \<forall>ms. r = Inr ms \<longrightarrow> (\<forall>m \<in> set ms. m \<in> sn_messages K' \<and> message_inv m)"])
    fix ms :: "message list" and K' :: snaps
    assume "\<forall>ms'. (Inr ms :: cratestack_error + message list) = Inr ms' \<longrightarrow>
      (\<forall>m \<in> set ms'. m \<in> sn_messages K' \<and> message_inv m)"
    then have known: "\<forall>m \<in> set ms. m \<in> sn_messages K' \<and> message_inv m" by blast
    then show "wp worker_rules (case ms of [] \<Rightarrow> Ret (Inr ()) | found # _ \<Rightarrow>
           (let network = (case Option.bind (du_delivering_network u) parse_operator_code of
                             Some n \<Rightarrow> n | None \<Rightarrow> msg_operator found)
            in try_prog (create_receipt
                 \<lparr>rec_messageId = msg_id found, rec_providerId = pid, rec_providerMessageRef = du_provider_ref u,
                  rec_outcome = to_schema_outcome (du_outcome u), rec_rawStatus = du_raw_status u,
                  rec_errorCode = du_error_code u, rec_networkCode = network,
                  rec_occurredAt = du_occurred_at u, rec_rawPayload = payload\<rparr>) (\<lambda>_.
                 case next_state (msg_state found) (du_outcome u) of None \<Rightarrow> Ret (Inr ())
                 | Some target \<Rightarrow>
                     if target = msg_state found then Ret (Inr ())
                     else bind_prog
                       (if target = Undelivered then bind_prog utc_now (\<lambda>now.
                          Ret (Some (Some (now + undelivered_retry_backoff (msg_attempts found)))))
                        else Ret None) (\<lambda>lease_until.
                       bind_prog (update_message (msg_id found) (no_message_patch\<lparr>
                         mp_state := Some target, mp_leaseUntil := lease_until\<rparr>) (msg_version found)) (\<lambda>result.
                         case result of Inr _ \<Rightarrow> Ret (Inr ())
                         | Inl error \<Rightarrow>
                             if is_illegal_transition error then Ret (Inl (map_database_error (env_err E) error))
                             else (case error of PreconditionFailed _ \<Rightarrow> Ret (Inr ())
                                   | _ \<Rightarrow> Ret (Inl error))))))) K' (\<lambda>_ _. True)"
      using upd [OF _ _ _ finished, unfolded wp_bind]
      by (auto simp: Let_def split: list.split option.split sum.split cratestack_error.split)
  qed auto
qed

lemma wp_ingest: "wp worker_rules (ingest E parse pid raw) K (\<lambda>_ _. True)"
proof -
  have "wp worker_rules (ingest_updates E pid payload us) K (\<lambda>_ _. True)" for payload us K
  proof (induction us arbitrary: K)
    case (Cons u us)
    show ?case unfolding ingest_updates.simps by (rule wp_bindI [OF wp_ingest_one Cons.IH])
  qed simp
  then show ?thesis by (simp add: ingest_def split: sum.split)
qed

subsection \<open>Properties\<close>

text \<open>C24: A delivery receipt only proposes transitions the database allows, never a no-op, and never out of
  a terminal state; a progress report or an unrecognised status proposes none; only an outcome that says
  delivered makes a message delivered; and a retryable failure keeps the retry path of a submitted
  message while it ends an uncertain one.\<close>

theorem dlr_transitions:
  "(\<forall>t. next_state s outcome = Some t \<longrightarrow> (s, t) \<in> set message_state_transitions \<and> t \<noteq> s
      \<and> \<not> message_terminal s \<and> (t = Delivered \<longleftrightarrow> outcome = OutDelivered))
   \<and> (outcome = OutInFlight \<or> outcome = OutUnknown \<longrightarrow> next_state s outcome = None)
   \<and> next_state Submitted OutFailed = Some Undelivered \<and> next_state Uncertain OutFailed = Some MsgFailed"
  by (cases s; cases outcome) (simp_all add: message_state_transitions_def)

theorem dlr_transitions_witness:
  "next_state Submitted OutDelivered = Some Delivered
   \<and> (Submitted, Delivered) \<in> set message_state_transitions \<and> next_state Submitted OutInFlight = None"
  using dlr_transitions [of Submitted OutDelivered] dlr_transitions [of Submitted OutInFlight] by simp

text \<open>The retry backoff follows the five-step schedule: it never shrinks as attempts are used, starts at
  five seconds and stays at thirty minutes from the fifth attempt on.\<close>

theorem backoff_schedule:
  assumes "1 \<le> a" "a \<le> b" "b < 2 ^ 63"
  shows "undelivered_retry_backoff a \<le> undelivered_retry_backoff b
    \<and> secs 5 \<le> undelivered_retry_backoff a \<and> undelivered_retry_backoff b \<le> minutes 30
    \<and> undelivered_retry_backoff 1 = secs 5 \<and> (5 \<le> b \<longrightarrow> undelivered_retry_backoff b = minutes 30)"
proof -
  let ?S = UNDELIVERED_BACKOFF_SCHEDULE
  have S: "sorted ?S" "?S \<noteq> []" "hd ?S = secs 5" "last ?S = minutes 30"
    by (simp_all add: UNDELIVERED_BACKOFF_SCHEDULE_def secs_def minutes_def)
  have at: "undelivered_retry_backoff x = ?S ! min (nat (x - 1)) (length ?S - 1)" if "1 \<le> x" "x < 2 ^ 63" for x
    using wrap_i64_id [of "x - 1"] that by (simp add: undelivered_retry_backoff_def Let_def)
  have ab: "undelivered_retry_backoff a = ?S ! min (nat (a - 1)) (length ?S - 1)"
    "undelivered_retry_backoff b = ?S ! min (nat (b - 1)) (length ?S - 1)"
    using at [of a] at [of b] assms by simp_all
  have "undelivered_retry_backoff b = minutes 30" if "5 \<le> b"
    unfolding ab using that S(2,4) by (subst clamped_nth_last) (simp_all add: UNDELIVERED_BACKOFF_SCHEDULE_def)
  moreover have "undelivered_retry_backoff 1 = secs 5"
    using at [of 1] S(2,3) by (simp add: hd_conv_nth)
  ultimately show ?thesis
    using clamped_nth_mono [OF S(1,2), of "nat (a - 1)" "nat (b - 1)"] clamped_nth_bounds [OF S(1,2)] assms(2)
    by (simp add: ab S(3,4))
qed

theorem backoff_schedule_witness: "undelivered_retry_backoff 2 \<le> undelivered_retry_backoff 7
    \<and> undelivered_retry_backoff 7 = minutes 30"
  using backoff_schedule [of 2 7] by simp

end
