(* ===== verification/Webhook.thy ===== *)
theory Webhook
  imports Prelude
begin

text \<open>
  \<^verbatim>\<open>backends/crates/sms-webhook\<close>: how a webhook delivery is authenticated. In
  \<^verbatim>\<open>hmac_v1.rs\<close> the canonical string, the signature header (one value per secret during a
  rotation), its verification by a receiver and the freshness check; in \<^verbatim>\<open>lib.rs\<close> the route a
  sealed delivery binds and what it takes to seal one. SHA-256, HMAC-SHA-256 and the hex codec are the
  \<^verbatim>\<open>sha2\<close>, \<^verbatim>\<open>hmac\<close> and \<^verbatim>\<open>hex\<close> crates and are gathered in \<open>crypto\<close>;
  the URL parser and the COSE envelope are parameters too. The random secret of
  \<^verbatim>\<open>generate_secret\<close> is its argument.
\<close>

record crypto =
  cr_sha256 :: "u8 list \<Rightarrow> u8 list"
  cr_hmac :: "u8 list \<Rightarrow> u8 list \<Rightarrow> u8 list"
  cr_hex_encode :: "u8 list \<Rightarrow> ustring"
  cr_hex_decode :: "ustring \<Rightarrow> u8 list option"

text \<open>What the code relies on of the hex codec: it decodes what it encodes, and encodes to hex digits.\<close>

definition is_hex_digit :: "uchar \<Rightarrow> bool" where
  "is_hex_digit c \<longleftrightarrow> is_ascii_digit c \<or> 97 \<le> c \<and> c \<le> 102"

definition hex_lawful :: "crypto \<Rightarrow> bool" where
  "hex_lawful C \<longleftrightarrow> (\<forall>bs. cr_hex_decode C (cr_hex_encode C bs) = Some bs \<and> list_all is_hex_digit (cr_hex_encode C bs))"

subsection \<open>Strings of the standard library\<close>

text \<open>\<^verbatim>\<open>str::as_bytes\<close>.\<close>

definition utf8_char :: "uchar \<Rightarrow> nat list" where
  "utf8_char c =
     (if c < 0x80 then [c]
      else if c < 0x800 then [0xC0 + c div 64, 0x80 + c mod 64]
      else if c < 0x10000 then [0xE0 + c div 4096, 0x80 + c div 64 mod 64, 0x80 + c mod 64]
      else [0xF0 + c div 262144, 0x80 + c div 4096 mod 64, 0x80 + c div 64 mod 64, 0x80 + c mod 64])"

definition as_bytes :: "ustring \<Rightarrow> u8 list" where
  "as_bytes s = map of_nat (concat (map utf8_char s))"

text \<open>\<^verbatim>\<open>str::split\<close> at a character: always at least one piece.\<close>

fun split_acc :: "uchar \<Rightarrow> ustring \<Rightarrow> ustring \<Rightarrow> ustring list" where
  "split_acc sep run [] = [run]"
| "split_acc sep run (c # cs) =
     (if c = sep then run # split_acc sep [] cs else split_acc sep (run @ [c]) cs)"

definition split_on :: "uchar \<Rightarrow> ustring \<Rightarrow> ustring list" where
  "split_on sep s = split_acc sep [] s"

definition strip_prefix :: "ustring \<Rightarrow> ustring \<Rightarrow> ustring option" where
  "strip_prefix p s = (if prefix p s then Some (drop (length p) s) else None)"

lemma split_acc_run: "sep \<notin> set w \<Longrightarrow> split_acc sep run (w @ s) = split_acc sep (run @ w) s"
  by (induction w arbitrary: run) auto

lemma split_join:
  "ws \<noteq> [] \<Longrightarrow> \<forall>w \<in> set ws. sep \<notin> set w \<Longrightarrow> split_on sep (join [sep] ws) = ws"
proof (induction ws)
  case (Cons x ws)
  have "split_on sep (x @ [sep] @ s) = x # split_on sep s" for s
    using Cons.prems(2) split_acc_run [of sep x "[]"] by (simp add: split_on_def)
  moreover have "split_on sep x = [x]"
    using Cons.prems(2) split_acc_run [of sep x "[]" "[]"] by (simp add: split_on_def)
  ultimately show ?case using Cons by (cases ws) simp_all
qed simp

lemma trim_id: "list_all (\<lambda>c. \<not> is_whitespace c) s \<Longrightarrow> trim s = s"
proof -
  assume no: "list_all (\<lambda>c. \<not> is_whitespace c) s"
  then have "dropWhile is_whitespace s = s" "dropWhile is_whitespace (rev s) = rev s"
    by (simp_all add: list_all_iff dropWhile_eq_self_iff) (metis hd_in_set last_in_set hd_rev)+
  then show ?thesis by (simp add: trim_def)
qed

subsection \<open>Signing\<close>

definition HEADER_EVENT :: ustring where "HEADER_EVENT = lit ''X-Sms-Event''"
definition HEADER_EVENT_ID :: ustring where "HEADER_EVENT_ID = lit ''X-Sms-Event-Id''"
definition HEADER_TIMESTAMP :: ustring where "HEADER_TIMESTAMP = lit ''X-Sms-Timestamp''"
definition HEADER_SIGNATURE :: ustring where "HEADER_SIGNATURE = lit ''X-Sms-Signature''"
definition SIGNATURE_VERSION :: ustring where "SIGNATURE_VERSION = lit ''v1''"
definition SECRET_PREFIX :: ustring where "SECRET_PREFIX = lit ''whsec_''"

definition NEWLINE :: uchar where "NEWLINE = 10"

definition canonical_string :: "crypto \<Rightarrow> int \<Rightarrow> ustring \<Rightarrow> u8 list \<Rightarrow> ustring" where
  "canonical_string C timestamp event_id body =
     (let body_hash = cr_hex_encode C (cr_sha256 C body)
      in SIGNATURE_VERSION @ [NEWLINE] @ show_int timestamp @ [NEWLINE] @ event_id @ [NEWLINE] @ body_hash)"

definition sign_canonical :: "crypto \<Rightarrow> ustring \<Rightarrow> ustring \<Rightarrow> ustring" where
  "sign_canonical C secret canonical = cr_hex_encode C (cr_hmac C (as_bytes secret) (as_bytes canonical))"

definition sign_v1 :: "crypto \<Rightarrow> ustring \<Rightarrow> int \<Rightarrow> ustring \<Rightarrow> u8 list \<Rightarrow> ustring" where
  "sign_v1 C secret timestamp event_id body = sign_canonical C secret (canonical_string C timestamp event_id body)"

definition sign_header :: "crypto \<Rightarrow> ustring list \<Rightarrow> int \<Rightarrow> ustring \<Rightarrow> u8 list \<Rightarrow> ustring" where
  "sign_header C secrets timestamp event_id body =
     (let canonical = canonical_string C timestamp event_id body
      in join (lit '','') (map (\<lambda>secret. SIGNATURE_VERSION @ lit ''='' @ sign_canonical C secret canonical) secrets))"

definition verify :: "crypto \<Rightarrow> ustring list \<Rightarrow> int \<Rightarrow> ustring \<Rightarrow> u8 list \<Rightarrow> ustring \<Rightarrow> bool" where
  "verify C candidate_secrets timestamp event_id body signature_header =
     (let canonical = canonical_string C timestamp event_id body;
          v1_prefix = SIGNATURE_VERSION @ lit ''='';
          presented_tags = List.map_filter (cr_hex_decode C)
            (List.map_filter (strip_prefix v1_prefix) (map trim (split_on 44 signature_header)))
      in if presented_tags = [] then False
         else list_ex (\<lambda>secret. list_ex (\<lambda>tag. cr_hmac C (as_bytes secret) (as_bytes canonical) = tag) presented_tags)
                (filter (\<lambda>secret. secret \<noteq> []) candidate_secrets))"

definition saturating_sub :: "int \<Rightarrow> int \<Rightarrow> int" where
  "saturating_sub a b = max (- (2 ^ 63)) (min (2 ^ 63 - 1) (a - b))"

definition is_timestamp_fresh :: "int \<Rightarrow> int \<Rightarrow> int \<Rightarrow> bool" where
  "is_timestamp_fresh timestamp now tolerance_secs \<longleftrightarrow> \<bar>saturating_sub now timestamp\<bar> \<le> \<bar>tolerance_secs\<bar>"

text \<open>The random bytes drawn are the argument.\<close>

definition generate_secret :: "crypto \<Rightarrow> u8 list \<Rightarrow> ustring" where
  "generate_secret C bytes = SECRET_PREFIX @ cr_hex_encode C bytes"

subsection \<open>Sealing\<close>

record parsed_url =
  url_scheme :: ustring
  url_username :: ustring
  url_password :: "ustring option"
  url_query :: "ustring option"
  url_fragment :: "ustring option"
  url_path :: ustring

datatype seal_error = SealUrl ustring | NoAudience | SealFailed ustring

definition delivery_route :: "(ustring \<Rightarrow> parsed_url option) \<Rightarrow> ustring \<Rightarrow> seal_error + ustring" where
  "delivery_route url_parse url = (case url_parse url of
     None \<Rightarrow> Inl (SealUrl (lit ''not a URL''))
   | Some parsed \<Rightarrow>
       if url_scheme parsed \<notin> {lit ''http'', lit ''https''} then Inl (SealUrl (lit ''the scheme is not http or https''))
       else if url_username parsed \<noteq> [] \<or> url_password parsed \<noteq> None then Inl (SealUrl (lit ''it carries credentials''))
       else if url_query parsed \<noteq> None then Inl (SealUrl (lit ''it carries a query''))
       else if url_fragment parsed \<noteq> None then Inl (SealUrl (lit ''it carries a fragment''))
       else if list_ex (\<lambda>c. c \<in> set (lit ''{}%'')) (url_path parsed)
         then Inl (SealUrl (lit ''the path is not one literal route''))
       else Inr (url_path parsed))"

record sealed_delivery =
  sd_body :: "u8 list"
  sd_headers :: "(ustring \<times> ustring) list"

text \<open>The envelope of the framework: for an audience it is built or refused, and then seals a body for a
  route (method, contract and payload type are fixed), each with the text of its error.\<close>

record sealer =
  sl_url_parse :: "ustring \<Rightarrow> parsed_url option"
  sl_client :: "ustring \<Rightarrow> ustring option"
  sl_seal_call :: "ustring \<Rightarrow> ustring \<Rightarrow> u8 list \<Rightarrow> ustring + sealed_delivery"

definition seal :: "sealer \<Rightarrow> ustring \<Rightarrow> ustring \<Rightarrow> u8 list \<Rightarrow> seal_error + sealed_delivery" where
  "seal S audience url body =
     (if audience = [] then Inl NoAudience
      else case delivery_route (sl_url_parse S) url of
        Inl e \<Rightarrow> Inl e
      | Inr route \<Rightarrow>
          (case sl_client S audience of
             Some e \<Rightarrow> Inl (SealFailed e)
           | None \<Rightarrow> (case sl_seal_call S audience route body of
               Inl e \<Rightarrow> Inl (SealFailed e)
             | Inr d \<Rightarrow> Inr d)))"

fun seal_error_to_string :: "seal_error \<Rightarrow> ustring" where
  "seal_error_to_string (SealUrl why) = lit ''the endpoint URL cannot carry a sealed delivery: '' @ why"
| "seal_error_to_string NoAudience = lit ''the endpoint has no audience, so a delivery would bind no recipient''"
| "seal_error_to_string (SealFailed e) = lit ''sealing the delivery failed: '' @ e"

subsection \<open>What signing and verifying agree on\<close>

lemma hex_digit_plain: "is_hex_digit c \<Longrightarrow> \<not> is_whitespace c \<and> c \<noteq> 44 \<and> c \<noteq> NEWLINE"
  by (auto simp: is_hex_digit_def is_ascii_digit_def is_whitespace_def NEWLINE_def)

lemma presented_tags_of_header:
  assumes "hex_lawful C"
  shows "List.map_filter (cr_hex_decode C) (List.map_filter (strip_prefix (SIGNATURE_VERSION @ lit ''=''))
      (map trim (split_on 44 (sign_header C secrets ts eid body)))) =
    map (\<lambda>s. cr_hmac C (as_bytes s) (as_bytes (canonical_string C ts eid body))) secrets"
proof (cases "secrets = []")
  case True
  then show ?thesis
    by (simp add: sign_header_def split_on_def List.map_filter_def strip_prefix_def trim_def SIGNATURE_VERSION_def)
next
  case False
  let ?c = "canonical_string C ts eid body"
  let ?entry = "\<lambda>s. SIGNATURE_VERSION @ lit ''='' @ sign_canonical C s ?c"
  have digits: "list_all is_hex_digit (sign_canonical C s ?c)" for s
    using assms by (simp add: hex_lawful_def sign_canonical_def)
  then have plain: "list_all (\<lambda>c. \<not> is_whitespace c \<and> c \<noteq> 44) (?entry s)" for s
    using hex_digit_plain by (auto simp: list_all_iff SIGNATURE_VERSION_def is_whitespace_def)
  have "split_on 44 (join [44] (map ?entry secrets)) = map ?entry secrets"
    using False plain by (intro split_join) (auto simp: list_all_iff)
  then have "split_on 44 (sign_header C secrets ts eid body) = map ?entry secrets"
    by (simp add: sign_header_def Let_def)
  moreover have "trim (?entry s) = ?entry s" for s
    using plain [of s] by (intro trim_id) (auto simp: list_all_iff)
  moreover have "strip_prefix (SIGNATURE_VERSION @ lit ''='') (?entry s) = Some (sign_canonical C s ?c)" for s
    by (simp add: strip_prefix_def SIGNATURE_VERSION_def)
  moreover have "cr_hex_decode C (sign_canonical C s ?c) = Some (cr_hmac C (as_bytes s) (as_bytes ?c))" for s
    using assms by (simp add: hex_lawful_def sign_canonical_def)
  ultimately show ?thesis
    by (simp add: List.map_filter_def comp_def del: lit_Cons)
qed

lemma show_nat_inj: "show_nat m = show_nat n \<Longrightarrow> m = n"
proof (induction m arbitrary: n rule: show_nat.induct)
  case (1 m)
  have unfold: "show_nat k = (if k < 10 then [48 + k] else show_nat (k div 10) @ [48 + k mod 10])" for k
    by (rule show_nat.simps)
  show ?case
  proof (cases "m < 10 \<or> n < 10")
    case True
    then show ?thesis
      using 1(2) unfold [of m] unfold [of n] show_nat_nonempty [of "m div 10"] show_nat_nonempty [of "n div 10"]
      by (cases "m < 10"; cases "n < 10") simp_all
  next
    case False
    then have "show_nat (m div 10) = show_nat (n div 10)" "m mod 10 = n mod 10"
      using 1(2) unfold [of m] unfold [of n] by simp_all
    with 1(1) False have "m div 10 = n div 10" by simp
    with \<open>m mod 10 = n mod 10\<close> show ?thesis by (metis div_mult_mod_eq)
  qed
qed

lemma show_int_chars: "c \<in> set (show_int i) \<Longrightarrow> is_ascii_digit c \<or> c = 45"
  using show_nat_digits by (auto simp: show_int_def list_all_iff split: if_splits)

lemma show_int_inj: "show_int i = show_int j \<Longrightarrow> i = j"
proof -
  assume eq: "show_int i = show_int j"
  have "hd (show_nat n) \<noteq> 45" for n
    using show_nat_digits [of n] hd_in_set [of "show_nat n"] by (fastforce simp: list_all_iff is_ascii_digit_def)
  then have "(i < 0) = (j < 0)"
    using arg_cong [OF eq, of hd] by (auto simp: show_int_def split: if_splits)
  with eq show ?thesis
    by (auto simp: show_int_def split: if_splits dest!: show_nat_inj)
qed

lemma split_at_newline:
  "x \<notin> set a \<Longrightarrow> x \<notin> set b \<Longrightarrow> a @ x # s = b @ x # t \<longleftrightarrow> a = b \<and> s = t"
proof (induction a arbitrary: b)
  case Nil
  then show ?case by (cases b) auto
next
  case (Cons y a)
  then show ?case by (cases b) auto
qed

subsection \<open>Properties\<close>

text \<open>A receiver accepts what the sender signed exactly when they share a key: a header made with a list of
  secrets verifies against a list of candidates if and only if some candidate that is not empty produces the same
  HMAC as one of the secrets. So during a rotation either of the two secrets suffices, the order does not matter,
  and a signature under the empty key is never accepted because of that key.\<close>

theorem signature_verifies:
  assumes "hex_lawful C"
  shows "verify C candidates ts eid body (sign_header C secrets ts eid body) \<longleftrightarrow>
    (\<exists>c \<in> set candidates. c \<noteq> [] \<and> (\<exists>s \<in> set secrets.
       cr_hmac C (as_bytes c) (as_bytes (canonical_string C ts eid body)) =
       cr_hmac C (as_bytes s) (as_bytes (canonical_string C ts eid body))))"
  unfolding verify_def Let_def presented_tags_of_header [OF assms]
  by (auto simp: list_ex_iff)

text \<open>The canonical string is unambiguous: for event ids without a newline, two canonical strings are equal only
  if the timestamps, the event ids and the digests of the bodies are equal. A signature therefore binds each of the
  three on its own.\<close>

theorem canonical_string_unambiguous:
  assumes "NEWLINE \<notin> set e" "NEWLINE \<notin> set e'"
  shows "canonical_string C t e b = canonical_string C t' e' b' \<longleftrightarrow>
    t = t' \<and> e = e' \<and> cr_hex_encode C (cr_sha256 C b) = cr_hex_encode C (cr_sha256 C b')"
proof -
  have "NEWLINE \<notin> set (show_int i)" for i
    using show_int_chars [of NEWLINE i] by (auto simp: NEWLINE_def is_ascii_digit_def)
  then show ?thesis
    using assms show_int_inj by (auto simp: canonical_string_def Let_def split_at_newline)
qed

text \<open>A delivery is sealed only for one literal route of a plain URL: sealing succeeds or reaches the signer only
  if there is an audience and the URL parses as http or https with no credentials, query or fragment and a path
  without braces or percent signs, and then the route it binds is that path.\<close>

theorem seal_binds_plain_route:
  assumes "seal S audience url body = Inr d \<or> seal S audience url body = Inl (SealFailed e)"
  shows "audience \<noteq> [] \<and> (\<exists>u. sl_url_parse S url = Some u \<and> url_scheme u \<in> {lit ''http'', lit ''https''}
    \<and> url_username u = [] \<and> url_password u = None \<and> url_query u = None \<and> url_fragment u = None
    \<and> (\<forall>c \<in> set (url_path u). c \<notin> set (lit ''{}%''))
    \<and> delivery_route (sl_url_parse S) url = Inr (url_path u))"
proof -
  from assms have aud: "audience \<noteq> []" by (auto simp: seal_def split: if_splits)
  with assms obtain route where route: "delivery_route (sl_url_parse S) url = Inr route"
    by (cases "delivery_route (sl_url_parse S) url")
      (auto simp: seal_def delivery_route_def simp del: lit_Cons split: option.splits if_splits)
  then obtain u where u: "sl_url_parse S url = Some u"
    by (cases "sl_url_parse S url") (auto simp: delivery_route_def)
  with route have "url_scheme u \<in> {lit ''http'', lit ''https''} \<and> url_username u = [] \<and> url_password u = None
      \<and> url_query u = None \<and> url_fragment u = None \<and> \<not> list_ex (\<lambda>c. c \<in> set (lit ''{}%'')) (url_path u)
      \<and> route = url_path u"
    by (simp add: delivery_route_def del: lit_Cons split: if_splits)
  with aud route u show ?thesis by (auto simp: list_ex_iff simp del: lit_Cons)
qed

subsection \<open>Witnesses\<close>

text \<open>A hex codec, with placeholder digests, on which the hypotheses hold.\<close>

definition hex_digit :: "nat \<Rightarrow> uchar" where
  "hex_digit n = (if n < 10 then 48 + n else 87 + n)"

definition unhex_digit :: "uchar \<Rightarrow> nat" where
  "unhex_digit c = (if c < 58 then c - 48 else c - 87)"

fun demo_decode :: "ustring \<Rightarrow> u8 list option" where
  "demo_decode [] = Some []"
| "demo_decode [c] = None"
| "demo_decode (a # b # cs) = map_option (\<lambda>bs. of_nat (16 * unhex_digit a + unhex_digit b) # bs) (demo_decode cs)"

definition demo_encode :: "u8 list \<Rightarrow> ustring" where
  "demo_encode bs = concat (map (\<lambda>b. [hex_digit (unat b div 16), hex_digit (unat b mod 16)]) bs)"

definition demo_crypto :: crypto where
  "demo_crypto = \<lparr>cr_sha256 = (\<lambda>bs. [of_nat (length bs)]), cr_hmac = (\<lambda>k m. k @ [of_nat (length m)]),
     cr_hex_encode = demo_encode, cr_hex_decode = demo_decode\<rparr>"

lemma unhex_hex: "n < 16 \<Longrightarrow> unhex_digit (hex_digit n) = n"
  by (simp add: unhex_digit_def hex_digit_def)

lemma demo_hex_lawful: "hex_lawful demo_crypto"
proof -
  have byte: "unat b div 16 < 16" "unat b mod 16 < 16" for b :: u8
    using unsigned_less [where 'a = nat and w = b] by (simp_all add: less_mult_imp_div_less)
  have "demo_decode (demo_encode bs) = Some bs" for bs
    by (induction bs) (use byte in \<open>simp_all add: demo_encode_def unhex_hex\<close>)
  moreover have "is_hex_digit (hex_digit n)" if "n < 16" for n
    using that by (auto simp: is_hex_digit_def hex_digit_def is_ascii_digit_def)
  then have "list_all is_hex_digit (demo_encode bs)" for bs
    by (induction bs) (use byte in \<open>simp_all add: demo_encode_def\<close>)
  ultimately show ?thesis by (simp add: hex_lawful_def demo_crypto_def)
qed

theorem signature_verifies_witness:
  "verify demo_crypto [lit ''old'', lit ''new''] 5 (lit ''e'') [1] (sign_header demo_crypto [lit ''new''] 5 (lit ''e'') [1])
   \<and> \<not> verify demo_crypto [[]] 5 (lit ''e'') [1] (sign_header demo_crypto [[]] 5 (lit ''e'') [1])"
  unfolding signature_verifies [OF demo_hex_lawful] by simp

theorem canonical_string_unambiguous_witness:
  "canonical_string demo_crypto 5 (lit ''e'') [1] \<noteq> canonical_string demo_crypto 51 (lit ''e'') [1]"
  using canonical_string_unambiguous [of "lit ''e''" "lit ''e''" demo_crypto 5 "[1]" 51 "[1]"]
  by (simp add: NEWLINE_def)

definition demo_sealer :: sealer where
  "demo_sealer = \<lparr>sl_url_parse = (\<lambda>_. Some \<lparr>url_scheme = lit ''https'', url_username = [], url_password = None,
     url_query = None, url_fragment = None, url_path = lit ''/h''\<rparr>), sl_client = (\<lambda>_. None),
     sl_seal_call = (\<lambda>_ _ body. Inr \<lparr>sd_body = body, sd_headers = []\<rparr>)\<rparr>"

theorem seal_binds_plain_route_witness:
  "seal demo_sealer (lit ''vaam'') (lit ''https://x/h'') [1] = Inr \<lparr>sd_body = [1], sd_headers = []\<rparr>
   \<and> delivery_route (sl_url_parse demo_sealer) (lit ''https://x/h'') = Inr (lit ''/h'')"
proof -
  have s: "seal demo_sealer (lit ''vaam'') (lit ''https://x/h'') [1] = Inr \<lparr>sd_body = [1], sd_headers = []\<rparr>"
    by (simp add: seal_def demo_sealer_def delivery_route_def)
  with seal_binds_plain_route [of demo_sealer "lit ''vaam''" "lit ''https://x/h''" "[1]"] have
    "\<exists>u. sl_url_parse demo_sealer (lit ''https://x/h'') = Some u
      \<and> delivery_route (sl_url_parse demo_sealer) (lit ''https://x/h'') = Inr (url_path u)" by blast
  with s show ?thesis by (auto simp: demo_sealer_def)
qed

end
