(* ===== verification/Hooks.thy ===== *)
theory Hooks
  imports Claim Breaker Webhook
begin

text \<open>
  \<^verbatim>\<open>backends/crates/sms-worker/src/hooks.rs\<close>: delivering webhooks. One poll claims up to twenty
  attempts in the modes the worker serves; each is posted once, in its endpoint's mode, and its outcome is written
  back: succeeded, failed with a backoff, or dead, with the endpoint's circuit breaker kept on the side.
  \<open>hooks_env\<close> gathers what the code takes from libraries: the cryptography of \<^verbatim>\<open>sms-webhook\<close>, the JSON object
  around the stored payload (\<^verbatim>\<open>serde_json\<close>, or the text of its parse error), the RFC 3339 form of an instant
  and the \<^verbatim>\<open>Display\<close> and \<^verbatim>\<open>is_success\<close> of an HTTP status. Log output, and the throttled warning about empty keys, are not
  part of the model.
\<close>

record hooks_env =
  hk_env :: env
  hk_crypto :: crypto
  hk_json :: "(ustring \<times> ustring) list \<Rightarrow> ustring \<Rightarrow> ustring + ustring"
  hk_rfc3339 :: "instant \<Rightarrow> ustring"
  hk_status :: "int \<Rightarrow> ustring"
  hk_success :: "int \<Rightarrow> bool"

record hooks_ctx =
  hc_sealer :: "sealer option"
  hc_hmac :: hmac_webhooks

definition HOOKS_BUDGET :: int where "HOOKS_BUDGET = 20"

definition HOOKS_BACKOFF_SCHEDULE :: "duration list" where
  "HOOKS_BACKOFF_SCHEDULE = [secs 1, secs 5, secs 25, minutes 2, minutes 10, minutes 60, minutes 360, minutes 1440]"

definition hooks_backoff_for :: "int \<Rightarrow> duration" where
  "hooks_backoff_for attempts =
     (let index = nat (max (wrap_i64 (attempts - 1)) 0)
      in HOOKS_BACKOFF_SCHEDULE ! min index (length HOOKS_BACKOFF_SCHEDULE - 1))"

text \<open>The client of a mode: sealed deliveries follow no redirect, hmac ones the library's default.\<close>

fun follows_redirects :: "webhook_delivery_mode \<Rightarrow> bool" where
  "follows_redirects sealed = False"
| "follows_redirects hmac = True"

definition hooks_served_modes :: "hooks_ctx \<Rightarrow> served_modes" where
  "hooks_served_modes ctx = served_of (hc_sealer ctx \<noteq> None) (hc_hmac ctx)"

subsection \<open>Watching what is held back\<close>

definition SEALED_BACKLOG_WARNING_EVERY :: duration where "SEALED_BACKLOG_WARNING_EVERY = minutes 5"

definition HMAC_BACKLOG_WARNING_EVERY :: duration where "HMAC_BACKLOG_WARNING_EVERY = minutes 5"

text \<open>The two watches: a fresh throttle, then the count they report, and the throttle they leave.\<close>

definition sealed_backlog_new :: throttle where "sealed_backlog_new = throttle_new SEALED_BACKLOG_WARNING_EVERY"

definition hmac_backlog_new :: throttle where "hmac_backlog_new = throttle_new HMAC_BACKLOG_WARNING_EVERY"

definition sealed_backlog_report ::
    "hooks_ctx \<Rightarrow> throttle \<Rightarrow> instant \<Rightarrow> (cratestack_error + nat option) prog \<times> throttle" where
  "sealed_backlog_report ctx thr now =
     (if hc_sealer ctx \<noteq> None then (Ret (Inr None), thr)
      else case admit thr (lit ''sealed-backlog'') now of
        (False, thr') \<Rightarrow> (Ret (Inr None), thr')
      | (True, thr') \<Rightarrow>
          (bind_prog utc_now (\<lambda>t. try_prog (count_attempts_waiting t sealed) (\<lambda>waiting.
             Ret (Inr (Some (waiting_get waiting))))), thr'))"

definition hmac_backlog_report ::
    "hooks_ctx \<Rightarrow> throttle \<Rightarrow> instant \<Rightarrow> (cratestack_error + nat option) prog \<times> throttle" where
  "hmac_backlog_report ctx thr now =
     (if is_permitted (hc_hmac ctx) then (Ret (Inr None), thr)
      else case admit thr (lit ''hmac-backlog'') now of
        (False, thr') \<Rightarrow> (Ret (Inr None), thr')
      | (True, thr') \<Rightarrow>
          (bind_prog utc_now (\<lambda>t. try_prog (count_attempts_waiting t hmac) (\<lambda>held.
             Ret (Inr (Some (waiting_get held))))), thr'))"

subsection \<open>Requests\<close>

datatype delivery_result =
  DeliverySuccess int
| Gone
| Retryable "int option" ustring
| MalformedPayload ustring

definition build_envelope :: "hooks_env \<Rightarrow> attempt \<Rightarrow> endpoint \<Rightarrow> instant \<Rightarrow> ustring + ustring" where
  "build_envelope H a e now =
     (let occurred_at = hk_rfc3339 H now
      in case ep_deliveryMode e of
           sealed \<Rightarrow> hk_json H
             [(lit ''id'', att_id a), (lit ''eventId'', att_sourceEventId a), (lit ''type'', att_eventType a),
              (lit ''occurredAt'', occurred_at), (lit ''appId'', ep_appId e), (lit ''endpointId'', ep_id e)] (att_payload a)
         | hmac \<Rightarrow> hk_json H
             [(lit ''id'', att_id a), (lit ''type'', att_eventType a), (lit ''occurredAt'', occurred_at)] (att_payload a))"

definition sealed_request ::
    "sealer option \<Rightarrow> endpoint \<Rightarrow> ustring \<Rightarrow> delivery_result + http_request" where
  "sealed_request sealer e body = (case sealer of
     None \<Rightarrow> Inl (Retryable None (lit ''delivery not sealed: this worker holds no envelope signing key. Start it with '' @
       lit ''--envelope-signing-key-file (the gateway's key), or switch the endpoint to hmac''))
   | Some S \<Rightarrow>
       (let audience = (case ep_audience e of None \<Rightarrow> [] | Some x \<Rightarrow> x)
        in case seal S audience (ep_url e) (as_bytes body) of
             Inl err \<Rightarrow> Inl (Retryable None (lit ''delivery not sealed: '' @ seal_error_to_string err))
           | Inr d \<Rightarrow> Inr \<lparr>http_url = ep_url e, http_headers = sd_headers d, http_body = sd_body d,
               http_redirects = follows_redirects sealed\<rparr>))"

definition hmac_request ::
    "hooks_env \<Rightarrow> endpoint \<Rightarrow> attempt \<Rightarrow> ustring \<Rightarrow> instant \<Rightarrow> delivery_result + http_request" where
  "hmac_request H e a body now = (case ep_secret e of
     None \<Rightarrow> Inl (Retryable None (lit ''delivery not signed: this hmac endpoint has no secret. Rotate it '' @
       lit ''(rotateWebhookSecret) to mint one''))
   | Some secret \<Rightarrow>
       (let timestamp = now div secs 1;
            event_id = att_sourceEventId a;
            secrets = secret # (case ep_prevSecret e of None \<Rightarrow> [] | Some prev \<Rightarrow> [prev]);
            signature = sign_header (hk_crypto H) secrets timestamp event_id (as_bytes body)
        in Inr \<lparr>http_url = ep_url e,
             http_headers = [(HEADER_EVENT, att_eventType a), (HEADER_EVENT_ID, event_id),
               (HEADER_TIMESTAMP, show_int timestamp), (HEADER_SIGNATURE, signature),
               (lit ''content-type'', lit ''application/json'')],
             http_body = as_bytes body, http_redirects = follows_redirects hmac\<rparr>))"

definition send ::
    "hooks_env \<Rightarrow> sealer option \<Rightarrow> endpoint \<Rightarrow> attempt \<Rightarrow> ustring \<Rightarrow> instant \<Rightarrow> delivery_result prog" where
  "send H sealer e a body now =
     (let request = (case ep_deliveryMode e of
                       sealed \<Rightarrow> sealed_request sealer e body
                     | hmac \<Rightarrow> hmac_request H e a body now)
      in case request of
           Inl outcome \<Rightarrow> Ret outcome
         | Inr req \<Rightarrow> bind_prog (post req) (\<lambda>answer. case answer of
             Inr status \<Rightarrow>
               if hk_success H status then Ret (DeliverySuccess status)
               else if status = 410 then Ret Gone
               else Ret (Retryable (Some status) (lit ''endpoint responded '' @ hk_status H status))
           | Inl error \<Rightarrow> Ret (Retryable None error)))"

subsection \<open>Writing outcomes\<close>

definition fetch_endpoint :: "ustring \<Rightarrow> (cratestack_error + endpoint option) prog" where
  "fetch_endpoint i = try_prog (find_endpoints (\<lambda>e. ep_id e = i) (Some 1)) (\<lambda>rows.
     Ret (Inr (case rows of [] \<Rightarrow> None | e # _ \<Rightarrow> Some e)))"

definition write_succeeded :: "attempt \<Rightarrow> int \<Rightarrow> instant \<Rightarrow> unit prog" where
  "write_succeeded a status now =
     bind_prog (update_attempt (att_id a) (no_attempt_patch\<lparr>
       ap_state := Some AttSucceeded,
       ap_lastStatusCode := Some (Some status),
       ap_lastError := Some None,
       ap_lastAttemptAt := Some (Some now),
       ap_leaseOwner := Some None,
       ap_leaseUntil := Some None\<rparr>) (att_version a)) (\<lambda>_. Ret ())"

definition write_failed_retry :: "attempt \<Rightarrow> int option \<Rightarrow> ustring \<Rightarrow> instant \<Rightarrow> unit prog" where
  "write_failed_retry a status msg now =
     bind_prog (update_attempt (att_id a) (no_attempt_patch\<lparr>
       ap_state := Some AttFailed,
       ap_lastStatusCode := Some status,
       ap_lastError := Some (Some msg),
       ap_lastAttemptAt := Some (Some now),
       ap_nextAttemptAt := Some (Some (now + hooks_backoff_for (att_attempts a))),
       ap_leaseOwner := Some None,
       ap_leaseUntil := Some None\<rparr>) (att_version a)) (\<lambda>_. Ret ())"

definition write_dead :: "attempt \<Rightarrow> int option \<Rightarrow> ustring \<Rightarrow> instant \<Rightarrow> unit prog" where
  "write_dead a status msg now =
     bind_prog (update_attempt (att_id a) (no_attempt_patch\<lparr>
       ap_state := Some AttDead,
       ap_lastStatusCode := Some status,
       ap_lastError := Some (Some msg),
       ap_lastAttemptAt := Some (Some now),
       ap_leaseOwner := Some None,
       ap_leaseUntil := Some None\<rparr>) (att_version a)) (\<lambda>_. Ret ())"

definition record_endpoint_failure :: "endpoint \<Rightarrow> instant \<Rightarrow> unit prog" where
  "record_endpoint_failure e now =
     (let d = on_failure ENDPOINT_BREAKER (ep_consecutiveFailures e) now;
          patch = no_endpoint_patch\<lparr>epp_consecutiveFailures := Some (consecutive_failures d)\<rparr>;
          patch' = (if opened_circuit d then patch\<lparr>epp_circuitOpenUntil := Some (circuit_open_until d)\<rparr> else patch)
      in bind_prog (update_endpoint (ep_id e) patch' (ep_version e)) (\<lambda>_. Ret ()))"

definition reset_endpoint_failures :: "endpoint \<Rightarrow> unit prog" where
  "reset_endpoint_failures e =
     (if \<not> needs_reset (ep_consecutiveFailures e) (ep_circuitOpenUntil e) then Ret ()
      else bind_prog (update_endpoint (ep_id e) (no_endpoint_patch\<lparr>
        epp_consecutiveFailures := Some 0, epp_circuitOpenUntil := Some None\<rparr>) (ep_version e)) (\<lambda>_. Ret ()))"

definition deactivate_endpoint :: "endpoint \<Rightarrow> unit prog" where
  "deactivate_endpoint e =
     bind_prog (update_endpoint (ep_id e) (no_endpoint_patch\<lparr>epp_active := Some False\<rparr>) (ep_version e)) (\<lambda>_. Ret ())"

definition write_outcome :: "attempt \<Rightarrow> endpoint \<Rightarrow> delivery_result \<Rightarrow> instant \<Rightarrow> unit prog" where
  "write_outcome a e outcome now = (case outcome of
     DeliverySuccess status \<Rightarrow> bind_prog (write_succeeded a status now) (\<lambda>_. reset_endpoint_failures e)
   | Gone \<Rightarrow> bind_prog (write_dead a (Some 410) (lit ''endpoint returned 410 Gone; deactivating'') now) (\<lambda>_.
       deactivate_endpoint e)
   | Retryable status msg \<Rightarrow>
       bind_prog
         (if ep_maxAttempts e \<le> att_attempts a then
            write_dead a status (lit ''max attempts ('' @ show_int (ep_maxAttempts e) @ lit '') reached: '' @ msg) now
          else write_failed_retry a status msg now) (\<lambda>_.
       record_endpoint_failure e now)
   | MalformedPayload msg \<Rightarrow> write_dead a None (lit ''malformed payload, not retried: '' @ msg) now)"

subsection \<open>One poll\<close>

definition deliver_one :: "hooks_env \<Rightarrow> hooks_ctx \<Rightarrow> attempt \<Rightarrow> unit prog" where
  "deliver_one H ctx a =
     bind_prog (fetch_endpoint (att_endpointId a)) (\<lambda>r. case r of
       Inl _ \<Rightarrow> Ret ()
     | Inr None \<Rightarrow> Ret ()
     | Inr (Some e) \<Rightarrow>
         if \<not> serves (hooks_served_modes ctx) (ep_deliveryMode e) then Ret ()
         else bind_prog utc_now (\<lambda>now.
           case build_envelope H a e now of
             Inl error \<Rightarrow> write_outcome a e (MalformedPayload (lit ''payload did not parse as JSON: '' @ error)) now
           | Inr body \<Rightarrow> bind_prog (send H (hc_sealer ctx) e a body now) (\<lambda>outcome. write_outcome a e outcome now)))"

fun deliver_claimed :: "hooks_env \<Rightarrow> hooks_ctx \<Rightarrow> attempt list \<Rightarrow> unit prog" where
  "deliver_claimed H ctx [] = Ret ()"
| "deliver_claimed H ctx (a # as) = bind_prog (deliver_one H ctx a) (\<lambda>_. deliver_claimed H ctx as)"

definition hooks_tick :: "hooks_env \<Rightarrow> hooks_ctx \<Rightarrow> ustring \<Rightarrow> (cratestack_error + unit) prog" where
  "hooks_tick H ctx worker =
     try_prog (claim_webhook_attempts (hk_env H) worker HOOKS_BUDGET (hooks_served_modes ctx)) (\<lambda>claimed.
       bind_prog (deliver_claimed H ctx claimed) (\<lambda>_. Ret (Inr ())))"

subsection \<open>Every write is legal\<close>

lemma wp_finish_attempt:
  assumes "a \<in> sn_attempts K" "att_st a = Delivering" "ap_attempts p = None"
    "ap_state p \<in> {Some AttSucceeded, Some AttFailed, Some AttDead}"
  shows "wp worker_rules (bind_prog (update_attempt (att_id a) p (att_version a)) (\<lambda>_. Ret ())) K (\<lambda>_ _. True)"
proof -
  have "attempt_may a p" using assms(2-4) by (auto simp: attempt_may_def guard_allows_def state_edges)
  with assms(1) show ?thesis by auto
qed

lemma wp_write_outcome:
  assumes "a \<in> sn_attempts K" "att_st a = Delivering"
  shows "wp worker_rules (write_outcome a e outcome now) K (\<lambda>_ _. True)"
proof -
  have dead: "wp worker_rules (write_dead a s m now) K (\<lambda>_ _. True)" for s m
    unfolding write_dead_def by (rule wp_finish_attempt [OF assms]) (simp_all add: no_attempt_patch_def)
  have failed: "wp worker_rules (write_failed_retry a s m now) K (\<lambda>_ _. True)" for s m
    unfolding write_failed_retry_def by (rule wp_finish_attempt [OF assms]) (simp_all add: no_attempt_patch_def)
  have succeeded: "wp worker_rules (write_succeeded a s now) K (\<lambda>_ _. True)" for s
    unfolding write_succeeded_def by (rule wp_finish_attempt [OF assms]) (simp_all add: no_attempt_patch_def)
  have side: "wp worker_rules (record_endpoint_failure e now) K' (\<lambda>_ _. True)"
    "wp worker_rules (reset_endpoint_failures e) K' (\<lambda>_ _. True)"
    "wp worker_rules (deactivate_endpoint e) K' (\<lambda>_ _. True)" for K'
    by (simp_all add: record_endpoint_failure_def reset_endpoint_failures_def deactivate_endpoint_def Let_def)
  show ?thesis
    using dead failed succeeded side
    by (cases outcome) (simp_all add: write_outcome_def)
qed

lemma wp_send: "(\<And>x. Q x K) \<Longrightarrow> wp P (send H S e a body now) K Q"
  by (auto simp: send_def Let_def split: sum.split webhook_delivery_mode.split)

lemma wp_deliver_one:
  assumes "a \<in> sn_attempts K" "att_st a = Delivering"
  shows "wp worker_rules (deliver_one H ctx a) K (\<lambda>_ _. True)"
proof -
  have out: "wp worker_rules (write_outcome a e r now) K (\<lambda>_ _. True)" for e r now
    by (rule wp_write_outcome [OF assms])
  have "wp worker_rules (if \<not> serves (hooks_served_modes ctx) (ep_deliveryMode e) then Ret ()
      else bind_prog utc_now (\<lambda>now. case build_envelope H a e now of
        Inl error \<Rightarrow> write_outcome a e (MalformedPayload (lit ''payload did not parse as JSON: '' @ error)) now
      | Inr body \<Rightarrow> bind_prog (send H (hc_sealer ctx) e a body now) (\<lambda>outcome. write_outcome a e outcome now)))
      K (\<lambda>_ _. True)" for e
    using out by (auto intro!: wp_send split: sum.split)
  then show ?thesis
    by (auto simp: deliver_one_def fetch_endpoint_def split: list.split option.split sum.split)
qed

lemma wp_deliver_claimed:
  "\<forall>a \<in> set ws. attempt_known a K \<and> att_st a = Delivering \<Longrightarrow>
   wp worker_rules (deliver_claimed H ctx ws) K (\<lambda>_ _. True)"
proof (induction ws arbitrary: K)
  case (Cons a ws)
  show ?case
    unfolding deliver_claimed.simps
  proof (rule wp_bindI [where R = "\<lambda>_ _. True"])
    show "wp worker_rules (deliver_one H ctx a) K (\<lambda>_ _. True)"
      using Cons.prems by (intro wp_deliver_one) (auto simp: attempt_known_def)
    show "wp worker_rules (deliver_claimed H ctx ws) K' (\<lambda>_ _. True)" if "extends K K'" for K'
      using Cons.prems that by (intro Cons.IH) (auto simp: attempt_known_def extends_def)
  qed
qed simp

lemma wp_hooks_tick: "wp worker_rules (hooks_tick H ctx worker) K (\<lambda>_ _. True)"
  unfolding hooks_tick_def claim_webhook_attempts_batch
  by (rule wp_tryI [OF attempt_claim.claim_batch_ok]) (auto intro!: wp_deliver_claimed simp: attempt_leased_def)

lemma wp_backlog_reports:
  "wp worker_rules (fst (sealed_backlog_report ctx thr now)) K (\<lambda>_ _. True)"
  "wp worker_rules (fst (hmac_backlog_report ctx thr now)) K (\<lambda>_ _. True)"
  by (auto simp: sealed_backlog_report_def hmac_backlog_report_def split: prod.split bool.split
      intro!: wp_mono [OF wp_count_attempts_waiting] split: sum.split)

subsection \<open>What a delivery can send\<close>

lemma no_post_calls [simp]:
  "makes_at_most is_post utc_now n" "makes_at_most is_post (find_endpoints ef el) n"
  "makes_at_most is_post (update_attempt i ap v) n" "makes_at_most is_post (update_endpoint i ep v) n"
  by (simp_all add: call_defs split: response.split)

lemma no_post_write_outcome: "makes_at_most is_post (write_outcome a e r now) 0"
proof -
  have "makes_at_most is_post (write_dead a s m now) 0" "makes_at_most is_post (write_failed_retry a s m now) 0"
    "makes_at_most is_post (write_succeeded a n now) 0" "makes_at_most is_post (record_endpoint_failure e now) 0"
    "makes_at_most is_post (reset_endpoint_failures e) 0" "makes_at_most is_post (deactivate_endpoint e) 0" for s m n
    unfolding write_dead_def write_failed_retry_def write_succeeded_def record_endpoint_failure_def
      reset_endpoint_failures_def deactivate_endpoint_def Let_def
    by (auto intro!: makes_bind0)
  then show ?thesis
    unfolding write_outcome_def by (auto intro!: makes_bind0 split: delivery_result.split)
qed

lemma one_post_send: "makes_at_most is_post (send H S e a body now) 1"
  unfolding send_def Let_def post_def by (auto split: sum.split response.split)

lemma one_post_deliver_one: "makes_at_most is_post (deliver_one H ctx a) 1"
proof -
  have fetch: "makes_at_most is_post (fetch_endpoint i) 0" for i
    unfolding fetch_endpoint_def by (intro makes_try0) (simp_all split: list.split)
  have body: "makes_at_most is_post (bind_prog (send H S e a b now) (\<lambda>r. write_outcome a e r now)) (1 + 0)" for S e b now
    by (rule makes_bind [OF one_post_send no_post_write_outcome])
  have rest: "makes_at_most is_post (bind_prog utc_now (\<lambda>now. case build_envelope H a e now of
        Inl error \<Rightarrow> write_outcome a e (MalformedPayload (lit ''payload did not parse as JSON: '' @ error)) now
      | Inr b \<Rightarrow> bind_prog (send H (hc_sealer ctx) e a b now) (\<lambda>r. write_outcome a e r now))) (0 + 1)" for e
    by (rule makes_bind) (use body makes_mono [OF no_post_write_outcome, of 1] in \<open>auto split: sum.split\<close>)
  have "makes_at_most is_post (deliver_one H ctx a) (0 + 1)"
    unfolding deliver_one_def by (rule makes_bind [OF fetch]) (use rest in \<open>auto split: sum.split option.split\<close>)
  then show ?thesis by simp
qed

subsection \<open>Properties\<close>


text \<open>A receiver that holds the endpoint's secret, current or previous, accepts the delivery: the timestamp and
  event id headers, the body and the signature header of the request verify together, for every list of candidate
  secrets that contains that secret.\<close>

theorem hmac_delivery_authenticates:
  assumes "hex_lawful (hk_crypto H)" "hmac_request H e a body now = Inr r"
    and "c \<in> set candidates" "c \<noteq> []" "ep_secret e = Some c \<or> ep_prevSecret e = Some c"
  shows "\<exists>t eid sig. map_of (http_headers r) HEADER_TIMESTAMP = Some (show_int t)
    \<and> map_of (http_headers r) HEADER_EVENT_ID = Some eid \<and> map_of (http_headers r) HEADER_SIGNATURE = Some sig
    \<and> verify (hk_crypto H) candidates t eid (http_body r) sig"
proof -
  obtain secret where secret: "ep_secret e = Some secret"
    using assms(2) by (cases "ep_secret e") (auto simp: hmac_request_def)
  let ?secrets = "secret # (case ep_prevSecret e of None \<Rightarrow> [] | Some prev \<Rightarrow> [prev])"
  have "c \<in> set ?secrets" using assms(5) secret by auto
  then have "verify (hk_crypto H) candidates (now div secs 1) (att_sourceEventId a) (as_bytes body)
      (sign_header (hk_crypto H) ?secrets (now div secs 1) (att_sourceEventId a) (as_bytes body))"
    unfolding verify_def Let_def presented_tags_of_header [OF assms(1)]
    using assms(3,4) by (auto simp: list_ex_iff)
  moreover have "r = \<lparr>http_url = ep_url e,
      http_headers = [(HEADER_EVENT, att_eventType a), (HEADER_EVENT_ID, att_sourceEventId a),
        (HEADER_TIMESTAMP, show_int (now div secs 1)),
        (HEADER_SIGNATURE, sign_header (hk_crypto H) ?secrets (now div secs 1) (att_sourceEventId a) (as_bytes body)),
        (lit ''content-type'', lit ''application/json'')],
      http_body = as_bytes body, http_redirects = True\<rparr>"
    using assms(2) secret by (simp add: hmac_request_def Let_def)
  ultimately show ?thesis
    by (auto simp: HEADER_EVENT_def HEADER_EVENT_ID_def HEADER_TIMESTAMP_def HEADER_SIGNATURE_def)
qed

text \<open>What is stored of a delivery that came to \<open>r\<close>: the attempt's row, and its endpoint's row.\<close>

definition attempt_settled :: "attempt \<Rightarrow> endpoint \<Rightarrow> delivery_result \<Rightarrow> instant \<Rightarrow> attempt \<Rightarrow> bool" where
  "attempt_settled a e r now row \<longleftrightarrow>
     att_attempts row = att_attempts a \<and> att_leaseOwner row = None \<and> att_leaseUntil row = None
     \<and> att_lastAttemptAt row = Some now
     \<and> (case r of
          DeliverySuccess status \<Rightarrow> att_st row = AttSucceeded \<and> att_lastStatusCode row = Some status
            \<and> att_lastError row = None \<and> att_deliveredAt row \<noteq> None
        | Gone \<Rightarrow> att_st row = AttDead \<and> att_lastStatusCode row = Some 410
        | Retryable status _ \<Rightarrow> att_lastStatusCode row = status \<and> att_lastError row \<noteq> None
            \<and> (if ep_maxAttempts e \<le> att_attempts a then att_st row = AttDead
               else att_st row = AttFailed \<and> att_nextAttemptAt row = Some (now + hooks_backoff_for (att_attempts a)))
        | MalformedPayload _ \<Rightarrow> att_st row = AttDead \<and> att_lastStatusCode row = None \<and> att_lastError row \<noteq> None)"

fun endpoint_settled :: "endpoint \<Rightarrow> delivery_result \<Rightarrow> instant \<Rightarrow> endpoint \<Rightarrow> endpoint \<Rightarrow> bool" where
  "endpoint_settled e (DeliverySuccess _) now old new \<longleftrightarrow>
     new = old\<lparr>ep_consecutiveFailures := 0, ep_circuitOpenUntil := None, ep_version := ep_version old + 1\<rparr>"
| "endpoint_settled e Gone now old new \<longleftrightarrow> new = old\<lparr>ep_active := False, ep_version := ep_version old + 1\<rparr>"
| "endpoint_settled e (Retryable _ _) now old new \<longleftrightarrow>
     (let d = on_failure ENDPOINT_BREAKER (ep_consecutiveFailures e) now
      in new = old\<lparr>ep_consecutiveFailures := consecutive_failures d,
           ep_circuitOpenUntil := (if opened_circuit d then circuit_open_until d else ep_circuitOpenUntil old),
           ep_version := ep_version old + 1\<rparr>)"
| "endpoint_settled e (MalformedPayload _) now old new \<longleftrightarrow> False"

lemma alone_attempt_write:
  assumes "lawful answers" "t_attempts T (att_id a) = Some a"
    and "alone answers T (bind_prog (update_attempt (att_id a) p (att_version a)) (\<lambda>_. Ret ())) U x"
  shows "U = T \<or> (\<exists>n row. write_attempt n p a = Some row \<and> U = T\<lparr>t_attempts := (t_attempts T)(att_id a \<mapsto> row)\<rparr>)"
proof -
  from assms(3) obtain r where "alone answers T (update_attempt (att_id a) p (att_version a)) U r"
    by auto
  with assms(1) show ?thesis by (cases rule: alone_update_attempt) (use assms(2) in auto)
qed

lemma alone_endpoint_write:
  assumes "lawful answers"
    and "alone answers T (bind_prog (update_endpoint i p v) (\<lambda>_. Ret ())) U x"
  shows "U = T \<or> (\<exists>old. t_endpoints T i = Some old \<and> ep_version old = v
    \<and> U = T\<lparr>t_endpoints := (t_endpoints T)(i \<mapsto> (patch_endpoint p old)\<lparr>ep_version := ep_version old + 1\<rparr>)\<rparr>)"
proof -
  from assms(2) obtain r where "alone answers T (update_endpoint i p v) U r" by auto
  with assms(1) show ?thesis by (cases rule: alone_update_endpoint) auto
qed

text \<open>The attempt's half of the outcome and the endpoint's half, as the code runs them one after the other.\<close>

definition attempt_part :: "attempt \<Rightarrow> endpoint \<Rightarrow> delivery_result \<Rightarrow> instant \<Rightarrow> unit prog" where
  "attempt_part a e r now = (case r of
     DeliverySuccess status \<Rightarrow> write_succeeded a status now
   | Gone \<Rightarrow> write_dead a (Some 410) (lit ''endpoint returned 410 Gone; deactivating'') now
   | Retryable status msg \<Rightarrow>
       if ep_maxAttempts e \<le> att_attempts a then
         write_dead a status (lit ''max attempts ('' @ show_int (ep_maxAttempts e) @ lit '') reached: '' @ msg) now
       else write_failed_retry a status msg now
   | MalformedPayload msg \<Rightarrow> write_dead a None (lit ''malformed payload, not retried: '' @ msg) now)"

definition endpoint_part :: "endpoint \<Rightarrow> delivery_result \<Rightarrow> instant \<Rightarrow> unit prog" where
  "endpoint_part e r now = (case r of
     DeliverySuccess _ \<Rightarrow> reset_endpoint_failures e
   | Gone \<Rightarrow> deactivate_endpoint e
   | Retryable _ _ \<Rightarrow> record_endpoint_failure e now
   | MalformedPayload _ \<Rightarrow> Ret ())"

lemma write_outcome_parts:
  "write_outcome a e r now = bind_prog (attempt_part a e r now) (\<lambda>_. endpoint_part e r now)"
  by (cases r) (simp_all add: write_outcome_def attempt_part_def endpoint_part_def bind_Ret)

lemma attempt_part_settles:
  assumes "lawful answers" "t_attempts T (att_id a) = Some a" "att_st a = Delivering"
    and "alone answers T (attempt_part a e r now) U x"
  shows "U = T \<or> (\<exists>row. attempt_settled a e r now row \<and> U = T\<lparr>t_attempts := (t_attempts T)(att_id a \<mapsto> row)\<rparr>)"
proof -
  note settled_defs = attempt_settled_def write_attempt_def attempts_guard_transition_def patch_attempt_def no_attempt_patch_def assms(3)
  have *: ?thesis if "alone answers T (bind_prog (update_attempt (att_id a) p (att_version a)) (\<lambda>_. Ret ())) U x"
    and "\<And>n row. write_attempt n p a = Some row \<Longrightarrow> attempt_settled a e r now row" for p
    using alone_attempt_write [OF assms(1,2) that(1)] that(2) by blast
  show ?thesis
  proof (cases r)
    case (DeliverySuccess status)
    from assms(4) show ?thesis
      unfolding DeliverySuccess attempt_part_def delivery_result.case write_succeeded_def
      by (rule * [unfolded DeliverySuccess]) (auto simp: settled_defs split: if_splits)
  next
    case Gone
    from assms(4) show ?thesis
      unfolding Gone attempt_part_def delivery_result.case write_dead_def
      by (rule * [unfolded Gone]) (auto simp: settled_defs split: if_splits)
  next
    case (Retryable status msg)
    note part = assms(4) [unfolded Retryable attempt_part_def delivery_result.case write_dead_def write_failed_retry_def]
    show ?thesis
    proof (cases "ep_maxAttempts e \<le> att_attempts a")
      case True
      from part [unfolded if_P [OF True]] show ?thesis
        by (rule *) (use True in \<open>auto simp: settled_defs Retryable split: if_splits\<close>)
    next
      case False
      from part [unfolded if_not_P [OF False]] show ?thesis
        by (rule *) (use False in \<open>auto simp: settled_defs Retryable split: if_splits\<close>)
    qed
  next
    case (MalformedPayload msg)
    from assms(4) show ?thesis
      unfolding MalformedPayload attempt_part_def delivery_result.case write_dead_def
      by (rule * [unfolded MalformedPayload]) (auto simp: settled_defs split: if_splits)
  qed
qed

lemma endpoint_part_settles:
  assumes "lawful answers" "alone answers T (endpoint_part e r now) U x"
  shows "U = T \<or> (\<exists>old new. t_endpoints T (ep_id e) = Some old \<and> ep_version old = ep_version e
    \<and> endpoint_settled e r now old new \<and> U = T\<lparr>t_endpoints := (t_endpoints T)(ep_id e \<mapsto> new)\<rparr>)"
proof -
  have *: ?thesis if "alone answers T (bind_prog (update_endpoint (ep_id e) p (ep_version e)) (\<lambda>_. Ret ())) U x"
    and "\<And>old. endpoint_settled e r now old ((patch_endpoint p old)\<lparr>ep_version := ep_version old + 1\<rparr>)" for p
    using alone_endpoint_write [OF assms(1) that(1)] that(2) by blast
  note part = assms(2) [unfolded endpoint_part_def] and new = patch_endpoint_def no_endpoint_patch_def Let_def
  show ?thesis
  proof (cases r)
    case (DeliverySuccess status)
    show ?thesis
    proof (cases "needs_reset (ep_consecutiveFailures e) (ep_circuitOpenUntil e)")
      case True
      from part [unfolded DeliverySuccess delivery_result.case reset_endpoint_failures_def] True show ?thesis
        by (simp only: not_True_eq_False if_False) (erule *, simp add: DeliverySuccess new)
    next
      case False
      with part DeliverySuccess show ?thesis by (simp add: reset_endpoint_failures_def)
    qed
  next
    case Gone
    from part [unfolded Gone delivery_result.case deactivate_endpoint_def] show ?thesis
      by (rule *) (simp add: Gone new)
  next
    case (Retryable status msg)
    from part [unfolded Retryable delivery_result.case record_endpoint_failure_def Let_def] show ?thesis
      by (rule *) (simp add: Retryable new)
  next
    case (MalformedPayload msg)
    with part show ?thesis by simp
  qed
qed


definition demo_delivering :: attempt where
  "demo_delivering = demo_attempt\<lparr>att_st := Delivering, att_attempts := 1, att_leaseOwner := Some (lit ''w''),
     att_leaseUntil := Some 60, att_version := 1\<rparr>"

definition demo_delivered :: attempt where
  "demo_delivered = demo_delivering\<lparr>att_st := AttSucceeded, att_lastStatusCode := Some 204, att_lastAttemptAt := Some 5,
     att_leaseOwner := None, att_leaseUntil := None, att_deliveredAt := Some 5, att_version := 2\<rparr>"

definition demo_hooks_env :: hooks_env where
  "demo_hooks_env = \<lparr>hk_env = demo_env, hk_crypto = demo_crypto, hk_json = (\<lambda>_ p. Inr p), hk_rfc3339 = (\<lambda>_. []), hk_status = show_int,
     hk_success = (\<lambda>s. 200 \<le> s \<and> s < 300)\<rparr>"

theorem hmac_delivery_authenticates_witness:
  "\<exists>r t eid sig. hmac_request demo_hooks_env demo_endpoint demo_delivering (lit ''{}'') 5000000 = Inr r
    \<and> map_of (http_headers r) HEADER_TIMESTAMP = Some (show_int t) \<and> map_of (http_headers r) HEADER_EVENT_ID = Some eid
    \<and> map_of (http_headers r) HEADER_SIGNATURE = Some sig \<and> verify demo_crypto [lit ''k''] t eid (http_body r) sig"
proof -
  have "\<exists>r. hmac_request demo_hooks_env demo_endpoint demo_delivering (lit ''{}'') 5000000 = Inr r"
    by (simp add: hmac_request_def demo_endpoint_def Let_def)
  then obtain r where r: "hmac_request demo_hooks_env demo_endpoint demo_delivering (lit ''{}'') 5000000 = Inr r" ..
  have "hex_lawful (hk_crypto demo_hooks_env)" "hk_crypto demo_hooks_env = demo_crypto"
    by (simp_all add: demo_hooks_env_def demo_hex_lawful)
  with hmac_delivery_authenticates [OF _ r, of "lit ''k''" "[lit ''k'']"] r show ?thesis
    by (fastforce simp: demo_endpoint_def)
qed


end
