(* ===== verification/Jobs.thy ===== *)
theory Jobs
  imports Claim
begin

text \<open>
  \<^verbatim>\<open>backends/crates/sms-worker/src/jobs.rs\<close>, \<^verbatim>\<open>jobs/error.rs\<close> and
  \<^verbatim>\<open>jobs/expire_stale.rs\<close>: the background jobs. A registry maps a kind to its handler; one
  poll claims at most ten jobs, runs each running one and writes the transition its outcome implies:
  succeeded, or failed and then at once pending again (with a backoff) or dead. The handler
  \<^verbatim>\<open>expire_stale\<close> is modelled; the other handlers of the default registry are its parameters.
  The source of a raw SQL failure is represented by its \<^verbatim>\<open>Display\<close>.
\<close>

subsection \<open>Errors\<close>

datatype job_error =
  Database ustring cratestack_error
| Sql ustring ustring
| NoHandler ustring
| Injected ustring

fun job_error_to_string :: "env \<Rightarrow> job_error \<Rightarrow> ustring" where
  "job_error_to_string E (Database ctx src) = ctx @ lit '': '' @ env_err E src"
| "job_error_to_string E (Sql ctx src) = ctx @ lit '': '' @ src"
| "job_error_to_string E (NoHandler kind) = lit ''no handler registered for kind '' @ env_dbg E kind"
| "job_error_to_string E (Injected s) = s"

subsection \<open>The registry and the outcome of a run\<close>

definition BUDGET :: int where "BUDGET = 10"

definition BACKOFF_SCHEDULE :: "duration list" where
  "BACKOFF_SCHEDULE = [secs 5, secs 30, minutes 2, minutes 10, minutes 30]"

definition backoff_for :: "int \<Rightarrow> duration" where
  "backoff_for attempts =
     (let index = nat (max (wrap_i64 (attempts - 1)) 0)
      in BACKOFF_SCHEDULE ! min index (length BACKOFF_SCHEDULE - 1))"

type_synonym job_handler = "job \<Rightarrow> (job_error + unit) prog"
type_synonym registry = "ustring \<rightharpoonup> job_handler"

definition registry_new :: registry where "registry_new = (\<lambda>_. None)"

definition register :: "ustring \<times> job_handler \<Rightarrow> registry \<Rightarrow> registry" where
  "register h R = R(fst h \<mapsto> snd h)"

definition swallow_stale_write :: "env \<Rightarrow> cratestack_error \<Rightarrow> cratestack_error + unit" where
  "swallow_stale_write E e =
     (if is_illegal_transition e then Inl (map_database_error (env_err E) e)
      else (case e of PreconditionFailed _ \<Rightarrow> Inr () | other \<Rightarrow> Inl other))"

definition apply_failure :: "env \<Rightarrow> job \<Rightarrow> ustring \<Rightarrow> (cratestack_error + unit) prog" where
  "apply_failure E j reason =
     bind_prog (update_job (job_id j) (no_job_patch\<lparr>jp_state := Some JobFailed, jp_lastError := Some (Some reason)\<rparr>)
         (job_version j)) (\<lambda>r. case r of
       Inl error \<Rightarrow> Ret (swallow_stale_write E error)
     | Inr failed_row \<Rightarrow>
         bind_prog
           (if job_maxAttempts failed_row \<le> job_attempts failed_row then Ret (no_job_patch\<lparr>jp_state := Some JobDead\<rparr>)
            else bind_prog utc_now (\<lambda>now. Ret (no_job_patch\<lparr>
              jp_state := Some JobPending,
              jp_runAt := Some (now + backoff_for (job_attempts failed_row)),
              jp_leaseOwner := Some None,
              jp_leaseUntil := Some None\<rparr>))) (\<lambda>next.
           bind_prog (update_job (job_id failed_row) next (job_version failed_row)) (\<lambda>r. case r of
             Inr _ \<Rightarrow> Ret (Inr ())
           | Inl error \<Rightarrow> Ret (swallow_stale_write E error))))"

definition apply_outcome :: "env \<Rightarrow> job \<Rightarrow> job_error + unit \<Rightarrow> (cratestack_error + unit) prog" where
  "apply_outcome E j outcome = (case outcome of
     Inr _ \<Rightarrow> bind_prog (update_job (job_id j) (no_job_patch\<lparr>jp_state := Some JobSucceeded\<rparr>) (job_version j))
       (\<lambda>r. case r of Inr _ \<Rightarrow> Ret (Inr ()) | Inl error \<Rightarrow> Ret (swallow_stale_write E error))
   | Inl error \<Rightarrow> apply_failure E j (job_error_to_string E error))"

definition run_one :: "env \<Rightarrow> registry \<Rightarrow> job \<Rightarrow> unit prog" where
  "run_one E R j =
     bind_prog (case R (job_kind j) of Some h \<Rightarrow> h j | None \<Rightarrow> Ret (Inl (NoHandler (job_kind j)))) (\<lambda>outcome.
       bind_prog (apply_outcome E j outcome) (\<lambda>_. Ret ()))"

fun run_claimed :: "env \<Rightarrow> registry \<Rightarrow> job list \<Rightarrow> unit prog" where
  "run_claimed E R [] = Ret ()"
| "run_claimed E R (j # js) =
     (if job_st j = JobRunning then bind_prog (run_one E R j) (\<lambda>_. run_claimed E R js)
      else run_claimed E R js)"

definition jobs_tick :: "env \<Rightarrow> registry \<Rightarrow> ustring \<Rightarrow> (cratestack_error + unit) prog" where
  "jobs_tick E R worker =
     try_prog (claim_batch (env_err E) job_candidates job_take_lease worker BUDGET) (\<lambda>claimed.
       bind_prog (run_claimed E R claimed) (\<lambda>_. Ret (Inr ())))"

subsection \<open>Expiring stale messages\<close>

definition UNCERTAIN_GRACE :: duration where "UNCERTAIN_GRACE = minutes 360"

definition BATCH :: int where "BATCH = 500"

fun expire_loop :: "env \<Rightarrow> message list \<Rightarrow> (cratestack_error + unit) prog" where
  "expire_loop E [] = Ret (Inr ())"
| "expire_loop E (m # ms) =
     bind_prog (update_message (msg_id m) (no_message_patch\<lparr>mp_state := Some Expired\<rparr>) (msg_version m)) (\<lambda>r.
       case r of
         Inr _ \<Rightarrow> expire_loop E ms
       | Inl error \<Rightarrow>
           if is_illegal_transition error then Ret (Inl (map_database_error (env_err E) error))
           else (case error of
                   Conflict _ \<Rightarrow> expire_loop E ms
                 | PreconditionFailed _ \<Rightarrow> expire_loop E ms
                 | other \<Rightarrow> Ret (Inl other)))"

definition expire_matching :: "env \<Rightarrow> (message \<Rightarrow> bool) \<Rightarrow> (cratestack_error + unit) prog" where
  "expire_matching E f = try_prog (find_messages f [] (Some BATCH)) (expire_loop E)"

definition stale_submitted :: "instant \<Rightarrow> message \<Rightarrow> bool" where
  "stale_submitted now m \<longleftrightarrow> msg_state m = Submitted \<and> msg_expiresAt m \<le> now"

definition stale_uncertain :: "instant \<Rightarrow> message \<Rightarrow> bool" where
  "stale_uncertain now m \<longleftrightarrow> msg_state m = Uncertain \<and> msg_updatedAt m \<le> now - UNCERTAIN_GRACE"

definition stale_undelivered :: "instant \<Rightarrow> message \<Rightarrow> bool" where
  "stale_undelivered now m \<longleftrightarrow> msg_state m = Undelivered \<and> msg_expiresAt m \<le> now"

text \<open>\<^verbatim>\<open>map_err\<close> to the handler's error type.\<close>

definition in_step :: "ustring \<Rightarrow> (cratestack_error + 'a) prog \<Rightarrow> (job_error + 'a) prog" where
  "in_step ctx p = bind_prog p (\<lambda>r. Ret (case r of Inl e \<Rightarrow> Inl (Database ctx e) | Inr u \<Rightarrow> Inr u))"

definition expire_run_at :: "env \<Rightarrow> instant \<Rightarrow> (job_error + unit) prog" where
  "expire_run_at E now =
     try_prog (in_step (lit ''expiring stale submitted messages'') (expire_matching E (stale_submitted now))) (\<lambda>_.
     try_prog (in_step (lit ''expiring stale uncertain messages'') (expire_matching E (stale_uncertain now))) (\<lambda>_.
     try_prog (in_step (lit ''expiring stale undelivered messages'') (expire_matching E (stale_undelivered now))) (\<lambda>_.
     Ret (Inr ()))))"

definition ExpireStale :: "env \<Rightarrow> ustring \<times> job_handler" where
  "ExpireStale E = (lit ''expire_stale'', \<lambda>_. bind_prog utc_now (expire_run_at E))"

subsection \<open>Every write is legal\<close>

lemma wp_expire_loop:
  assumes "\<forall>m \<in> set ms. m \<in> sn_messages K \<and> msg_state m \<in> {Submitted, Uncertain, Undelivered}"
  shows "wp worker_rules (expire_loop E ms) K (\<lambda>_ _. True)"
  using assms
proof (induction ms arbitrary: K)
  case (Cons m ms)
  show ?case
    unfolding expire_loop.simps
  proof (rule wp_bindI [where R = "\<lambda>_ _. True"])
    have "message_may m (no_message_patch\<lparr>mp_state := Some Expired\<rparr>)"
      using Cons.prems by (auto simp: message_may_def no_message_patch_def guard_allows_def state_edges)
    with Cons.prems show "wp worker_rules (update_message (msg_id m)
        (no_message_patch\<lparr>mp_state := Some Expired\<rparr>) (msg_version m)) K (\<lambda>_ _. True)"
      by auto
    fix r :: "cratestack_error + message" and K' :: snaps
    assume "extends K K'"
    then have "wp worker_rules (expire_loop E ms) K' (\<lambda>_ _. True)"
      using Cons.prems by (intro Cons.IH) (auto simp: extends_def)
    then show "wp worker_rules (case r of Inr _ \<Rightarrow> expire_loop E ms | Inl error \<Rightarrow>
        if is_illegal_transition error then Ret (Inl (map_database_error (env_err E) error))
        else (case error of Conflict _ \<Rightarrow> expire_loop E ms | PreconditionFailed _ \<Rightarrow> expire_loop E ms
              | other \<Rightarrow> Ret (Inl other))) K' (\<lambda>_ _. True)"
      by (simp split: sum.split cratestack_error.split)
  qed
qed simp

lemma wp_expire_matching:
  assumes "\<And>m. f m \<Longrightarrow> msg_state m \<in> {Submitted, Uncertain, Undelivered}"
  shows "wp worker_rules (expire_matching E f) K (\<lambda>_ _. True)"
  using assms unfolding expire_matching_def by (auto intro!: wp_expire_loop)

lemma wp_in_step: "wp P p K (\<lambda>_ _. True) \<Longrightarrow> wp P (in_step ctx p) K (\<lambda>_ _. True)"
  by (simp add: in_step_def)

lemma wp_expire_run_at: "wp worker_rules (expire_run_at E now) K (\<lambda>_ _. True)"
  unfolding expire_run_at_def
  by (intro wp_tryI [where R = "\<lambda>_ _. True"] wp_in_step wp_expire_matching)
    (auto simp: stale_submitted_def stale_uncertain_def stale_undelivered_def)

definition safe_registry :: "registry \<Rightarrow> bool" where
  "safe_registry R \<longleftrightarrow> (\<forall>kind h j K. R kind = Some h \<longrightarrow> wp worker_rules (h j) K (\<lambda>_ _. True))"

lemma safe_registry_new: "safe_registry registry_new"
  by (simp add: safe_registry_def registry_new_def)

lemma safe_register:
  "safe_registry R \<Longrightarrow> (\<And>j K. wp worker_rules (snd h j) K (\<lambda>_ _. True)) \<Longrightarrow> safe_registry (register h R)"
  by (simp add: safe_registry_def register_def)

lemma safe_ExpireStale: "wp worker_rules (snd (ExpireStale E) j) K (\<lambda>_ _. True)"
  by (simp add: ExpireStale_def wp_expire_run_at)

text \<open>The two writes of a failure: the second is made over the row the first returned.\<close>

lemma wp_second_write:
  assumes "failed_row \<in> sn_jobs K" "job_st failed_row = JobFailed" "jp_state p \<in> {Some JobDead, Some JobPending}"
    "jp_attempts p = None"
  shows "wp worker_rules (bind_prog (update_job (job_id failed_row) p (job_version failed_row)) (\<lambda>r. case r of
      Inr _ \<Rightarrow> Ret (Inr ()) | Inl error \<Rightarrow> Ret (swallow_stale_write E error))) K (\<lambda>_ _. True)"
proof (rule wp_bindI [where R = "\<lambda>_ _. True"])
  have "job_may failed_row p" using assms(2-4) by (auto simp: job_may_def guard_allows_def state_edges)
  with assms(1) show "wp worker_rules (update_job (job_id failed_row) p (job_version failed_row)) K (\<lambda>_ _. True)"
    by auto
qed (simp split: sum.split)

lemma wp_apply_failure:
  assumes "j \<in> sn_jobs K" "job_st j = JobRunning"
  shows "wp worker_rules (apply_failure E j reason) K (\<lambda>_ _. True)"
  unfolding apply_failure_def
proof (rule wp_bindI [where R = "\<lambda>r K'. \<forall>row. r = Inr row \<longrightarrow> row \<in> sn_jobs K' \<and> job_st row = JobFailed"])
  let ?p = "no_job_patch\<lparr>jp_state := Some JobFailed, jp_lastError := Some (Some reason)\<rparr>"
  have "job_may j ?p"
    using assms(2) by (simp add: job_may_simps)
  moreover have "job_st row = JobFailed" if "write_job n ?p j' = Some row" for n j' row
    using write_job_Some [OF that] by simp
  ultimately show "wp worker_rules (update_job (job_id j) ?p (job_version j)) K
      (\<lambda>r K'. \<forall>row. r = Inr row \<longrightarrow> row \<in> sn_jobs K' \<and> job_st row = JobFailed)"
    using assms(1) by auto
  fix r :: "cratestack_error + job" and K' :: snaps
  assume r: "\<forall>row. r = Inr row \<longrightarrow> row \<in> sn_jobs K' \<and> job_st row = JobFailed"
  show "wp worker_rules (case r of Inl error \<Rightarrow> Ret (swallow_stale_write E error)
     | Inr failed_row \<Rightarrow>
         bind_prog
           (if job_maxAttempts failed_row \<le> job_attempts failed_row then Ret (no_job_patch\<lparr>jp_state := Some JobDead\<rparr>)
            else bind_prog utc_now (\<lambda>now. Ret (no_job_patch\<lparr>
              jp_state := Some JobPending,
              jp_runAt := Some (now + backoff_for (job_attempts failed_row)),
              jp_leaseOwner := Some None,
              jp_leaseUntil := Some None\<rparr>))) (\<lambda>next.
           bind_prog (update_job (job_id failed_row) next (job_version failed_row)) (\<lambda>r. case r of
             Inr _ \<Rightarrow> Ret (Inr ())
           | Inl error \<Rightarrow> Ret (swallow_stale_write E error)))) K' (\<lambda>_ _. True)"
  proof (cases r)
    case (Inr failed_row)
    have "wp worker_rules (bind_prog (update_job (job_id failed_row) p (job_version failed_row)) (\<lambda>r. case r of
      Inr _ \<Rightarrow> Ret (Inr ()) | Inl error \<Rightarrow> Ret (swallow_stale_write E error))) K' (\<lambda>_ _. True)"
      if "jp_state p \<in> {Some JobDead, Some JobPending}" "jp_attempts p = None" for p
      using r Inr that by (intro wp_second_write) auto
    then show ?thesis
      unfolding Inr sum.case
      by (intro wp_bindI [where R = "\<lambda>p K''. K'' = K' \<and> jp_state p \<in> {Some JobDead, Some JobPending} \<and> jp_attempts p = None"])
        (simp add: no_job_patch_def, blast)
  qed simp
qed

lemma wp_apply_outcome:
  assumes "j \<in> sn_jobs K" "job_st j = JobRunning"
  shows "wp worker_rules (apply_outcome E j outcome) K (\<lambda>_ _. True)"
proof (cases outcome)
  case (Inl e)
  then show ?thesis using wp_apply_failure [OF assms] by (simp add: apply_outcome_def)
next
  case (Inr u)
  have "job_may j (no_job_patch\<lparr>jp_state := Some JobSucceeded\<rparr>)" using assms(2) by (simp add: job_may_simps)
  then have "wp worker_rules (update_job (job_id j) (no_job_patch\<lparr>jp_state := Some JobSucceeded\<rparr>) (job_version j)) K (\<lambda>_ _. True)"
    using assms(1) by auto
  then show ?thesis
    unfolding apply_outcome_def Inr sum.case
    by (rule wp_bindI) (simp split: sum.split)
qed

lemma wp_run_one:
  assumes "safe_registry R" "j \<in> sn_jobs K" "job_st j = JobRunning"
  shows "wp worker_rules (run_one E R j) K (\<lambda>_ _. True)"
  unfolding run_one_def
proof (rule wp_bindI [where R = "\<lambda>_ _. True"])
  show "wp worker_rules (case R (job_kind j) of Some h \<Rightarrow> h j | None \<Rightarrow> Ret (Inl (NoHandler (job_kind j)))) K (\<lambda>_ _. True)"
    using assms(1) by (auto simp: safe_registry_def split: option.split)
  show "wp worker_rules (bind_prog (apply_outcome E j outcome) (\<lambda>_. Ret ())) K' (\<lambda>_ _. True)" if "extends K K'" for outcome K'
    using that assms(2,3) by (intro wp_bindI [OF wp_apply_outcome]) (auto simp: extends_def)
qed

lemma wp_run_claimed:
  "safe_registry R \<Longrightarrow> \<forall>j \<in> set js. job_known j K \<Longrightarrow> wp worker_rules (run_claimed E R js) K (\<lambda>_ _. True)"
proof (induction js arbitrary: K)
  case (Cons j js)
  have "wp worker_rules (bind_prog (run_one E R j) (\<lambda>_. run_claimed E R js)) K (\<lambda>_ _. True)" if "job_st j = JobRunning"
    using Cons that by (intro wp_bindI [OF wp_run_one]) (auto simp: job_known_def extends_def)
  with Cons show ?case by (simp del: wp_bind)
qed simp

lemma wp_jobs_tick:
  assumes "safe_registry R"
  shows "wp worker_rules (jobs_tick E R worker) K (\<lambda>_ _. True)"
  unfolding jobs_tick_def
  by (rule wp_tryI [OF job_claim.claim_batch_ok]) (auto intro!: wp_run_claimed [OF assms])

subsection \<open>Properties\<close>

lemma write_job_rest:
  assumes "write_job now p j = Some j'"
  shows "job_lastError j' = touch (job_lastError j) (jp_lastError p) \<and> job_runAt j' = touch (job_runAt j) (jp_runAt p)
    \<and> job_leaseOwner j' = touch (job_leaseOwner j) (jp_leaseOwner p)
    \<and> job_leaseUntil j' = touch (job_leaseUntil j) (jp_leaseUntil p) \<and> job_maxAttempts j' = job_maxAttempts j
    \<and> (job_st j = JobFailed \<and> job_st j' = JobDead \<longrightarrow> job_finishedAt j' \<noteq> None)"
  using assms
  by (auto simp: write_job_def jobs_guard_transition_def patch_job_def Let_def split: if_splits)

lemma settled_job:
  assumes w: "write_job n p mid = Some row" and f: "job_st mid = JobFailed"
    and p: "job_maxAttempts mid \<le> job_attempts mid \<and> p = no_job_patch\<lparr>jp_state := Some JobDead\<rparr>
      \<or> job_attempts mid < job_maxAttempts mid \<and> (\<exists>now. p = no_job_patch\<lparr>jp_state := Some JobPending,
          jp_runAt := Some (now + backoff_for (job_attempts mid)), jp_leaseOwner := Some None, jp_leaseUntil := Some None\<rparr>)"
  shows "job_attempts row = job_attempts mid \<and> job_lastError row = job_lastError mid \<and>
    (job_maxAttempts mid \<le> job_attempts mid \<and> job_st row = JobDead \<and> job_finishedAt row \<noteq> None
     \<or> job_attempts mid < job_maxAttempts mid \<and> job_st row = JobPending \<and> job_leaseOwner row = None
        \<and> job_leaseUntil row = None \<and> (\<exists>now. job_runAt row = now + backoff_for (job_attempts mid)))"
  using p
proof (elim disjE conjE exE)
  assume p: "job_maxAttempts mid \<le> job_attempts mid" "p = no_job_patch\<lparr>jp_state := Some JobDead\<rparr>"
  have "job_st row = JobDead" "job_attempts row = job_attempts mid" "job_lastError row = job_lastError mid"
    "job_finishedAt row \<noteq> None"
    using write_job_Some [OF w] write_job_rest [OF w] f p(2) by (simp_all add: no_job_patch_def)
  with p(1) show ?thesis by blast
next
  fix now
  assume p: "job_attempts mid < job_maxAttempts mid" "p = no_job_patch\<lparr>jp_state := Some JobPending,
    jp_runAt := Some (now + backoff_for (job_attempts mid)), jp_leaseOwner := Some None, jp_leaseUntil := Some None\<rparr>"
  have "job_st row = JobPending" "job_attempts row = job_attempts mid" "job_lastError row = job_lastError mid"
    "job_leaseOwner row = None" "job_leaseUntil row = None" "job_runAt row = now + backoff_for (job_attempts mid)"
    using write_job_Some [OF w] write_job_rest [OF w] p(2) by (simp_all add: no_job_patch_def)
  with p(1) show ?thesis by blast
qed


definition demo_failed :: job where
  "demo_failed = demo_job\<lparr>job_st := JobFailed, job_lastError := Some [], job_version := 3\<rparr>"

definition demo_retried :: job where
  "demo_retried = demo_failed\<lparr>job_st := JobPending, job_runAt := 5 + backoff_for 1, job_leaseOwner := None,
     job_leaseUntil := None, job_version := 4\<rparr>"


text \<open>The job retry backoff never shrinks as attempts are used, starts at five seconds and stays at thirty
  minutes from the fifth attempt on.\<close>

theorem job_backoff:
  assumes "1 \<le> a" "a \<le> b" "b < 2 ^ 63"
  shows "backoff_for a \<le> backoff_for b \<and> secs 5 \<le> backoff_for a \<and> backoff_for b \<le> minutes 30
    \<and> backoff_for 1 = secs 5 \<and> (5 \<le> b \<longrightarrow> backoff_for b = minutes 30)"
proof -
  let ?S = BACKOFF_SCHEDULE
  have S: "sorted ?S" "?S \<noteq> []" "hd ?S = secs 5" "last ?S = minutes 30"
    by (simp_all add: BACKOFF_SCHEDULE_def secs_def minutes_def)
  have at: "backoff_for x = ?S ! min (nat (x - 1)) (length ?S - 1)" if "1 \<le> x" "x < 2 ^ 63" for x
    using wrap_i64_id [of "x - 1"] that by (simp add: backoff_for_def Let_def)
  have ab: "backoff_for a = ?S ! min (nat (a - 1)) (length ?S - 1)"
    "backoff_for b = ?S ! min (nat (b - 1)) (length ?S - 1)"
    using at [of a] at [of b] assms by simp_all
  have "backoff_for b = minutes 30" if "5 \<le> b"
    unfolding ab using that S(2,4) by (subst clamped_nth_last) (simp_all add: BACKOFF_SCHEDULE_def)
  moreover have "backoff_for 1 = secs 5"
    using at [of 1] S(2,3) by (simp add: hd_conv_nth)
  ultimately show ?thesis
    using clamped_nth_mono [OF S(1,2), of "nat (a - 1)" "nat (b - 1)"] clamped_nth_bounds [OF S(1,2)] assms(2)
    by (simp add: ab S(3,4))
qed

theorem job_backoff_witness: "backoff_for 2 \<le> backoff_for 7 \<and> backoff_for 7 = minutes 30"
  using job_backoff [of 2 7] by simp

text \<open>A job left in the state failed is never taken up again: no poll selects it, whatever the time, so a
  worker that stops between the two writes of a failure strands the job until an operator moves it.\<close>

theorem failed_job_never_selected:
  assumes "lawful answers" "inv_tables worker_rules T"
    and "yields worker_rules answers T (job_candidates now budget) U (Inr js)"
  shows "\<forall>j \<in> set js. job_st j \<noteq> JobFailed"
proof -
  from worker.yields_post [OF assms(3,1,2) valid_no_snaps job_claim.candidates_ready]
  show ?thesis by (auto simp: job_ready_def)
qed

theorem failed_job_never_selected_witness:
  "yields worker_rules lawful_answer demo_tables (job_candidates 5 10) demo_tables (Inr [demo_job])
    \<and> job_st demo_job \<noteq> JobFailed"
proof -
  have none: "lawful_answer demo_tables (FindJobs f o_by (Some 10)) (Jobs (Inr [])) demo_tables" for f o_by
    by (simp add: lawful_answer_def in_limit_def)
  have "job_st demo_job = JobRunning \<and> expired_lease 5 (job_leaseUntil demo_job)"
    by (simp add: demo_job_def expired_lease_def)
  then have one: "lawful_answer demo_tables (FindJobs (\<lambda>j. job_st j = JobRunning \<and> expired_lease 5 (job_leaseUntil j))
      job_order (Some 10)) (Jobs (Inr [demo_job])) demo_tables"
    by (simp add: lawful_answer_def in_limit_def demo_tables_def) (simp add: demo_job_def)
  have "yields worker_rules lawful_answer demo_tables (try_prog (find_jobs
        (\<lambda>j. job_st j = JobRunning \<and> expired_lease 5 (job_leaseUntil j)) job_order (Some 10))
      (\<lambda>reclaimable. Ret (Inr ([] @ reclaimable)))) demo_tables (Inr [demo_job])"
    unfolding try_prog_def find_jobs_def bind_prog.simps
    by (rule yields_alone [OF one demo_tables_inv]) (simp add: yields_ret)
  then have "yields worker_rules lawful_answer demo_tables (job_candidates 5 10) demo_tables (Inr [demo_job])"
    unfolding job_candidates_def find_jobs_def [of "\<lambda>j. job_st j = JobPending \<and> job_runAt j \<le> 5"]
      try_prog_def [of "Call _ _"] bind_prog.simps
    by (intro yields_alone [OF none demo_tables_inv]) (simp add: Let_def)
  then show ?thesis
    using failed_job_never_selected [OF lawful_permissive demo_tables_inv] by fastforce
qed

subsection \<open>What expiring changes\<close>

definition expired_only :: "(message \<Rightarrow> bool) \<Rightarrow> tables \<Rightarrow> tables \<Rightarrow> bool" where
  "expired_only f T U \<longleftrightarrow> U\<lparr>t_messages := Map.empty\<rparr> = T\<lparr>t_messages := Map.empty\<rparr> \<and> (\<forall>i. t_messages U i = t_messages T i \<or>
     (\<exists>m m'. t_messages T i = Some m \<and> f m \<and> t_messages U i = Some m' \<and> msg_state m' = Expired
        \<and> msg_attempts m' = msg_attempts m \<and> msg_finalizedAt m' \<noteq> None))"

lemma expired_only_refl: "expired_only f T T"
  by (simp add: expired_only_def)

lemma write_expired:
  assumes "write_message now (no_message_patch\<lparr>mp_state := Some Expired\<rparr>) m = Some m'"
    and "msg_state m = Expired \<Longrightarrow> msg_finalizedAt m \<noteq> None"
  shows "msg_state m' = Expired \<and> msg_attempts m' = msg_attempts m \<and> msg_finalizedAt m' \<noteq> None"
  using assms
  by (auto simp: write_message_def messages_guard_transition_def patch_message_def no_message_patch_def
      touch_updated_at_def Let_def split: if_splits)

lemma expired_only_write:
  assumes "expired_only f T0 T" "t_messages T0 i = Some m" "f m" "msg_state m \<noteq> Expired" "t_messages T i = Some cur"
    and "write_message now (no_message_patch\<lparr>mp_state := Some Expired\<rparr>) cur = Some row"
  shows "expired_only f T0 (T\<lparr>t_messages := (t_messages T)(i \<mapsto> row)\<rparr>)"
proof -
  from assms(1) have T: "T\<lparr>t_messages := Map.empty\<rparr> = T0\<lparr>t_messages := Map.empty\<rparr>"
    and rows: "\<And>i. t_messages T i = t_messages T0 i \<or> (\<exists>m m'. t_messages T0 i = Some m \<and> f m \<and> t_messages T i = Some m'
        \<and> msg_state m' = Expired \<and> msg_attempts m' = msg_attempts m \<and> msg_finalizedAt m' \<noteq> None)"
    by (auto simp: expired_only_def)
  have "cur = m \<or> msg_attempts cur = msg_attempts m \<and> msg_finalizedAt cur \<noteq> None"
    using rows [of i] assms(2,5) by auto
  then have "msg_attempts cur = msg_attempts m" "msg_state cur = Expired \<Longrightarrow> msg_finalizedAt cur \<noteq> None"
    using assms(4) by auto
  then have "msg_state row = Expired \<and> msg_attempts row = msg_attempts m \<and> msg_finalizedAt row \<noteq> None"
    using write_expired [OF assms(6)] by simp
  then show ?thesis
    using T rows assms(2,3) by (auto simp: expired_only_def)
qed

lemma expired_only_back:
  "expired_only f T0 T \<Longrightarrow> t_messages T i = Some m \<Longrightarrow> msg_state m \<noteq> Expired \<Longrightarrow> t_messages T0 i = Some m"
  unfolding expired_only_def by (metis option.inject)

lemma alone_expire_loop:
  assumes "lawful answers" "\<And>m. f m \<Longrightarrow> msg_state m \<noteq> Expired"
    and "\<forall>m \<in> set ms. t_messages T0 (msg_id m) = Some m \<and> f m"
    and "expired_only f T0 T" "alone answers T (expire_loop E ms) U x"
  shows "expired_only f T0 U"
  using assms(3-5)
proof (induction ms arbitrary: T)
  case (Cons m ms)
  from Cons.prems(3) obtain V r where
    upd: "alone answers T (update_message (msg_id m) (no_message_patch\<lparr>mp_state := Some Expired\<rparr>) (msg_version m)) V r"
    and go: "alone answers V (case r of Inr _ \<Rightarrow> expire_loop E ms | Inl error \<Rightarrow>
        if is_illegal_transition error then Ret (Inl (map_database_error (env_err E) error))
        else (case error of Conflict _ \<Rightarrow> expire_loop E ms | PreconditionFailed _ \<Rightarrow> expire_loop E ms
              | other \<Rightarrow> Ret (Inl other))) U x"
    unfolding expire_loop.simps alone_bind by blast
  have "expired_only f T0 V"
    using assms(1) upd
  proof (cases rule: alone_update_message)
    case (2 row now cur)
    then show ?thesis
      using expired_only_write [OF Cons.prems(2) _ _ _ 2(2,4)] Cons.prems(1) assms(2) by auto
  qed (use Cons.prems(2) in simp)
  moreover have "alone answers V (expire_loop E ms) U x \<or> U = V"
    using go by (cases r) (simp_all split: if_splits cratestack_error.splits)
  ultimately show ?case using Cons.IH Cons.prems(1) by auto
qed simp

definition stale :: "instant \<Rightarrow> message \<Rightarrow> bool" where
  "stale now m \<longleftrightarrow> stale_submitted now m \<or> stale_uncertain now m \<or> stale_undelivered now m"

lemma stale_not_expired: "stale now m \<Longrightarrow> msg_state m \<noteq> Expired"
  by (auto simp: stale_def stale_submitted_def stale_uncertain_def stale_undelivered_def)

lemma alone_expire_matching:
  assumes "lawful answers" "\<And>m. g m \<Longrightarrow> stale now m" "expired_only (stale now) T0 T"
    and "alone answers T (in_step ctx (expire_matching E g)) U x"
  shows "expired_only (stale now) T0 U"
proof -
  from assms(4) obtain y where "alone answers T (try_prog (find_messages g [] (Some BATCH)) (expire_loop E)) U y"
    unfolding in_step_def expire_matching_def alone_bind by auto
  then show ?thesis
  proof (cases rule: alone_tryE)
    case (1 e)
    then show ?thesis using alone_find_messages [OF assms(1)] assms(3) by blast
  next
    case (2 V ms)
    from alone_find_messages [OF assms(1) 2(1)] have V: "V = T"
      and rows: "\<forall>m \<in> set ms. g m \<and> t_messages T (msg_id m) = Some m" by auto
    have "\<forall>m \<in> set ms. t_messages T0 (msg_id m) = Some m \<and> stale now m"
      using rows assms(2) expired_only_back [OF assms(3)] stale_not_expired by blast
    then show ?thesis
      using 2(2) V alone_expire_loop [OF assms(1) stale_not_expired [of now] _ assms(3)] by blast
  qed
qed

text \<open>C29: Expiring touches nothing but stale messages: whatever the database refuses on the way, after a run every
  message is as it was, or it was submitted or undelivered past its validity or uncertain for six hours and is now
  expired, with its finish time set and its attempts kept.\<close>

theorem expire_only_stale:
  assumes "lawful answers" "alone answers T (expire_run_at E now) U x"
  shows "expired_only (\<lambda>m. msg_state m \<in> {Submitted, Undelivered} \<and> msg_expiresAt m \<le> now
      \<or> msg_state m = Uncertain \<and> msg_updatedAt m + UNCERTAIN_GRACE \<le> now) T U"
proof -
  have step: "expired_only (stale now) T W" if "expired_only (stale now) T V" "alone answers V (in_step ctx (expire_matching E g)) W y"
    "g \<in> {stale_submitted now, stale_uncertain now, stale_undelivered now}" for V W g y ctx
    using that by (intro alone_expire_matching [OF assms(1) _ that(1,2)]) (auto simp: stale_def)
  from assms(2) have "expired_only (stale now) T U"
    unfolding expire_run_at_def
    by (elim alone_tryE; simp only: alone_Ret; metis step insertCI expired_only_refl)
  moreover have "stale now = (\<lambda>m. msg_state m \<in> {Submitted, Undelivered} \<and> msg_expiresAt m \<le> now
      \<or> msg_state m = Uncertain \<and> msg_updatedAt m + UNCERTAIN_GRACE \<le> now)"
    by (auto simp: stale_def stale_submitted_def stale_uncertain_def stale_undelivered_def)
  ultimately show ?thesis by simp
qed

definition demo_stale :: message where
  "demo_stale = demo_message\<lparr>msg_state := Submitted, msg_expiresAt := 3\<rparr>"

definition demo_expired :: message where
  "demo_expired = demo_stale\<lparr>msg_state := Expired, msg_finalizedAt := Some 5, msg_updatedAt := 5, msg_version := 8\<rparr>"

theorem expire_only_stale_witness:
  "\<exists>T U. alone lawful_answer T (expire_run_at demo_env 5) U (Inr ()) \<and> t_messages T (lit ''m1'') = Some demo_stale
    \<and> t_messages U (lit ''m1'') = Some demo_expired
    \<and> expired_only (\<lambda>m. msg_state m \<in> {Submitted, Undelivered} \<and> msg_expiresAt m \<le> 5
      \<or> msg_state m = Uncertain \<and> msg_updatedAt m + UNCERTAIN_GRACE \<le> 5) T U"
proof -
  let ?T = "demo_tables\<lparr>t_messages := [lit ''m1'' \<mapsto> demo_stale]\<rparr>"
  let ?U = "demo_tables\<lparr>t_messages := [lit ''m1'' \<mapsto> demo_expired]\<rparr>"
  let ?find = "\<lambda>f. find_messages f [] (Some BATCH)"
  have "lawful_answer ?T (FindMessages (stale_submitted 5) [] (Some BATCH)) (Messages (Inr [demo_stale])) ?T"
    by (simp add: lawful_answer_def in_limit_def BATCH_def stale_submitted_def demo_stale_def demo_message_def)
  then have one: "alone lawful_answer ?T (?find (stale_submitted 5)) ?T (Inr [demo_stale])"
    unfolding find_messages_def by (rule alone_call) simp
  have "lawful_answer ?U (FindMessages f [] (Some BATCH)) (Messages (Inr [])) ?U" for f
    by (simp add: lawful_answer_def in_limit_def BATCH_def)
  then have none: "alone lawful_answer ?U (?find f) ?U (Inr [])" for f
    unfolding find_messages_def by (rule alone_call) simp
  have "write_message 5 (no_message_patch\<lparr>mp_state := Some Expired\<rparr>) demo_stale = Some demo_expired"
    by (simp add: write_message_def messages_guard_transition_def patch_message_def no_message_patch_def
        touch_updated_at_def demo_stale_def demo_expired_def demo_message_def state_edges)
  then have "lawful_answer ?T (UpdateMessage (lit ''m1'') (no_message_patch\<lparr>mp_state := Some Expired\<rparr>) 7)
      (MessageRow (Inr demo_expired)) ?U"
    unfolding lawful_answer_def request.case
    by (intro disjI2 exI [of _ demo_expired] exI [of _ 5] exI [of _ demo_stale])
      (simp add: demo_stale_def demo_message_def)
  then have upd: "alone lawful_answer ?T (update_message (lit ''m1'') (no_message_patch\<lparr>mp_state := Some Expired\<rparr>) 7)
      ?U (Inr demo_expired)"
    unfolding update_message_def by (rule alone_call) simp
  have key: "msg_id demo_stale = lit ''m1''" "msg_version demo_stale = 7"
    by (simp_all add: demo_stale_def demo_message_def)
  have loop: "alone lawful_answer ?T (expire_loop demo_env [demo_stale]) ?U (Inr ())"
    unfolding expire_loop.simps alone_bind key by (intro exI conjI, rule upd) simp
  have run: "alone lawful_answer ?T (expire_run_at demo_env 5) ?U (Inr ())"
    unfolding expire_run_at_def expire_matching_def in_step_def try_prog_def alone_bind
    using one none loop by (fastforce simp del: lit_Cons)
  then show ?thesis
    using expire_only_stale [OF lawful_permissive run] by (intro exI [of _ ?T] exI [of _ ?U]) simp
qed

end
