(* ===== verification/Scheduler.thy ===== *)
theory Scheduler
  imports Jobs
begin

text \<open>
  \<^verbatim>\<open>backends/crates/sms-worker/src/scheduler.rs\<close>: enqueuing the recurring jobs. The role keeps, for each
  kind, the time it last enqueued one (seeded from the newest row of the kind), and on every poll tries to insert a row
  for each kind whose cadence has passed. The unique index on live jobs makes the insert fail when one is still
  waiting, running or failed, which counts as enqueued. The last property is the reverse side of that index: a job left
  in \<^verbatim>\<open>failed\<close> keeps its kind from ever being enqueued again.
\<close>

record recurring_job_spec =
  spec_kind :: ustring
  spec_cadence :: duration
  spec_priority :: int
  spec_max_attempts :: int

definition schedule :: "recurring_job_spec list" where
  "schedule =
    [\<lparr>spec_kind = lit ''expire_stale'', spec_cadence = minutes 1, spec_priority = 500, spec_max_attempts = 3\<rparr>,
     \<lparr>spec_kind = lit ''reap_outbox'', spec_cadence = minutes 60, spec_priority = 500, spec_max_attempts = 3\<rparr>,
     \<lparr>spec_kind = lit ''purge_retention'', spec_cadence = minutes 1440, spec_priority = 100, spec_max_attempts = 3\<rparr>,
     \<lparr>spec_kind = lit ''anchor_audit'', spec_cadence = minutes 1440, spec_priority = 100, spec_max_attempts = 3\<rparr>,
     \<lparr>spec_kind = lit ''grey_route_watch'', spec_cadence = minutes 1440, spec_priority = 100, spec_max_attempts = 3\<rparr>,
     \<lparr>spec_kind = lit ''sweep_envelope_nonces'', spec_cadence = minutes 15, spec_priority = 300, spec_max_attempts = 3\<rparr>]"

type_synonym last_enqueued = "ustring \<rightharpoonup> instant option"

fun seed_last_enqueued :: "recurring_job_spec list \<Rightarrow> last_enqueued \<Rightarrow> last_enqueued prog" where
  "seed_last_enqueued [] seeded = Ret seeded"
| "seed_last_enqueued (spec # specs) seeded =
     bind_prog (find_jobs (\<lambda>j. job_kind j = spec_kind spec) [Desc (\<lambda>j. Some (KInt (job_createdAt j)))] (Some 1)) (\<lambda>most_recent.
       let latest = (case most_recent of
                   Inr rows \<Rightarrow> (case rows of [] \<Rightarrow> None | row # _ \<Rightarrow> Some (job_createdAt row))
                 | Inl _ \<Rightarrow> None)
       in seed_last_enqueued specs (seeded(spec_kind spec \<mapsto> latest)))"

definition enqueue_input :: "recurring_job_spec \<Rightarrow> instant \<Rightarrow> job_input" where
  "enqueue_input spec now = \<lparr>ji_kind = spec_kind spec, ji_dedupeKey = Some (spec_kind spec), ji_payload = lit ''{}'',
     ji_priority = spec_priority spec, ji_runAt = now, ji_maxAttempts = spec_max_attempts spec\<rparr>"

definition try_enqueue :: "recurring_job_spec \<Rightarrow> instant \<Rightarrow> (cratestack_error + bool) prog" where
  "try_enqueue spec now = bind_prog (create_job (enqueue_input spec now)) (\<lambda>r. case r of
     Inr _ \<Rightarrow> Ret (Inr True)
   | Inl error \<Rightarrow> if db_sqlstate error = Some UNIQUE_VIOLATION then Ret (Inr False) else Ret (Inl error))"

definition due :: "recurring_job_spec \<Rightarrow> last_enqueued \<Rightarrow> instant \<Rightarrow> bool" where
  "due spec seen now \<longleftrightarrow> (case Option.bind (seen (spec_kind spec)) id of
     Some t \<Rightarrow> spec_cadence spec \<le> now - t
   | None \<Rightarrow> True)"

fun scheduler_loop :: "instant \<Rightarrow> recurring_job_spec list \<Rightarrow> last_enqueued \<Rightarrow> last_enqueued prog" where
  "scheduler_loop now [] seen = Ret seen"
| "scheduler_loop now (spec # specs) seen =
     (if \<not> due spec seen now then scheduler_loop now specs seen
      else bind_prog (try_enqueue spec now) (\<lambda>r. case r of
        Inr _ \<Rightarrow> scheduler_loop now specs (seen(spec_kind spec \<mapsto> Some now))
      | Inl _ \<Rightarrow> scheduler_loop now specs seen))"

definition scheduler_tick :: "recurring_job_spec list \<Rightarrow> last_enqueued \<Rightarrow> last_enqueued prog" where
  "scheduler_tick specs seen = bind_prog utc_now (\<lambda>now. scheduler_loop now specs seen)"

subsection \<open>The role only inserts\<close>

lemma wp_seed: "wp P (seed_last_enqueued specs seen) K (\<lambda>_ _. True)"
  by (induction specs seen arbitrary: K rule: seed_last_enqueued.induct) (auto simp: Let_def)

lemma wp_scheduler_loop: "inv_job P = (\<lambda>_. True) \<Longrightarrow> wp P (scheduler_loop now specs seen) K (\<lambda>_ _. True)"
  by (induction now specs seen arbitrary: K rule: scheduler_loop.induct)
    (auto simp: try_enqueue_def split: sum.split)

lemma wp_scheduler_tick: "wp worker_rules (scheduler_tick specs seen) K (\<lambda>_ _. True)"
  by (simp add: scheduler_tick_def wp_scheduler_loop)

subsection \<open>What one poll does\<close>

text \<open>A kind is overdue when no time is known for it, or its cadence has passed since.\<close>

definition overdue :: "recurring_job_spec \<Rightarrow> last_enqueued \<Rightarrow> instant \<Rightarrow> bool" where
  "overdue spec seen now \<longleftrightarrow> (\<forall>t. seen (spec_kind spec) = Some (Some t) \<longrightarrow> t + spec_cadence spec \<le> now)"

lemma due_iff [simp]: "due spec seen now \<longleftrightarrow> overdue spec seen now"
  by (cases "seen (spec_kind spec)") (auto simp: due_def overdue_def split: option.split)

text \<open>The jobs after a poll: everything there was, and for a due kind that nothing live blocks at most one new row, the
  one its entry asks for.\<close>

definition enqueued :: "recurring_job_spec list \<Rightarrow> last_enqueued \<Rightarrow> instant \<Rightarrow> (ustring \<rightharpoonup> job) \<Rightarrow> (ustring \<rightharpoonup> job) \<Rightarrow> bool" where
  "enqueued specs seen now jobs jobs' \<longleftrightarrow> jobs \<subseteq>\<^sub>m jobs'
     \<and> (\<forall>x j. jobs' x = Some j \<and> jobs x = None \<longrightarrow>
          (\<exists>spec \<in> set specs. overdue spec seen now \<and> (\<exists>t v. j = new_job x t v (enqueue_input spec now))
            \<and> (\<forall>y k. jobs y = Some k \<longrightarrow> \<not> dedupe_blocks (enqueue_input spec now) k)))
     \<and> (\<forall>x y j k. jobs' x = Some j \<and> jobs x = None \<and> jobs' y = Some k \<and> jobs y = None
          \<and> job_kind j = job_kind k \<longrightarrow> x = y)"

text \<open>The times after a poll: \<open>now\<close> for every kind that got a row, and for no kind that was not due.\<close>

definition remembered :: "recurring_job_spec list \<Rightarrow> last_enqueued \<Rightarrow> instant \<Rightarrow> (ustring \<rightharpoonup> job) \<Rightarrow> (ustring \<rightharpoonup> job)
    \<Rightarrow> last_enqueued \<Rightarrow> bool" where
  "remembered specs seen now jobs jobs' seen' \<longleftrightarrow>
     (\<forall>kind. seen' kind = seen kind
        \<or> seen' kind = Some (Some now) \<and> (\<exists>spec \<in> set specs. spec_kind spec = kind \<and> overdue spec seen now))
     \<and> (\<forall>x j. jobs' x = Some j \<and> jobs x = None \<longrightarrow> seen' (job_kind j) = Some (Some now))"

lemma alone_try_enqueue:
  assumes "lawful answers" "alone answers T (try_enqueue spec now) U r"
  shows "(U = T \<and> r \<noteq> Inr True) \<or> (\<exists>key t v. r = Inr True \<and> t_jobs T key = None
    \<and> (\<forall>y k. t_jobs T y = Some k \<longrightarrow> \<not> dedupe_blocks (enqueue_input spec now) k)
    \<and> U = T\<lparr>t_jobs := (t_jobs T)(key \<mapsto> new_job key t v (enqueue_input spec now))\<rparr>)"
proof -
  from assms(2) obtain V x where V: "alone answers T (create_job (enqueue_input spec now)) V x"
    and r: "alone answers V (case x of Inr _ \<Rightarrow> Ret (Inr True)
      | Inl error \<Rightarrow> if db_sqlstate error = Some UNIQUE_VIOLATION then Ret (Inr False) else Ret (Inl error)) U r"
    unfolding try_enqueue_def alone_bind by blast
  from assms(1) V show ?thesis
    by (cases rule: alone_create_job) (use r in \<open>auto split: if_splits\<close>)
qed

lemma overdue_other: "spec_kind spec \<noteq> kind \<Longrightarrow> overdue spec (seen(kind \<mapsto> t)) now = overdue spec seen now"
  by (simp add: overdue_def)

lemma new_job_kind: "job_kind (new_job x t v (enqueue_input spec now)) = spec_kind spec"
  by (simp add: new_job_def enqueue_input_def)

lemma enqueued_refl: "enqueued specs seen now jobs jobs"
  by (auto simp: enqueued_def)

lemma enqueued_more:
  assumes "enqueued specs seen' now jobs jobs'" "\<forall>s \<in> set specs. overdue s seen' now \<longrightarrow> overdue s seen now" "set specs \<subseteq> set specs'"
  shows "enqueued specs' seen now jobs jobs'"
  using assms unfolding enqueued_def by (meson subsetD)

lemma enqueued_new:
  assumes "enqueued specs seen now jobs jobs'" "jobs' x = Some j" "jobs x = None"
  obtains spec t v where "spec \<in> set specs" "overdue spec seen now" "j = new_job x t v (enqueue_input spec now)"
    "\<And>y k. jobs y = Some k \<Longrightarrow> \<not> dedupe_blocks (enqueue_input spec now) k"
  using assms unfolding enqueued_def by blast

lemma enqueued_one:
  "enqueued specs seen now jobs jobs' \<Longrightarrow> jobs' x = Some j \<Longrightarrow> jobs x = None \<Longrightarrow> jobs' y = Some k \<Longrightarrow> jobs y = None
    \<Longrightarrow> job_kind j = job_kind k \<Longrightarrow> x = y"
  unfolding enqueued_def by blast

lemma enqueued_keeps: "enqueued specs seen now jobs jobs' \<Longrightarrow> jobs x = Some j \<Longrightarrow> jobs' x = Some j"
  unfolding enqueued_def map_le_def by (metis domI)

lemma enqueuedI:
  assumes "\<And>x j. jobs x = Some j \<Longrightarrow> jobs' x = Some j"
    and "\<And>x j. jobs' x = Some j \<Longrightarrow> jobs x = None \<Longrightarrow>
      \<exists>spec \<in> set specs. overdue spec seen now \<and> (\<exists>t v. j = new_job x t v (enqueue_input spec now))
        \<and> (\<forall>y k. jobs y = Some k \<longrightarrow> \<not> dedupe_blocks (enqueue_input spec now) k)"
    and "\<And>x y j k. jobs' x = Some j \<Longrightarrow> jobs x = None \<Longrightarrow> jobs' y = Some k \<Longrightarrow> jobs y = None
      \<Longrightarrow> job_kind j = job_kind k \<Longrightarrow> x = y"
  shows "enqueued specs seen now jobs jobs'"
proof -
  have "jobs \<subseteq>\<^sub>m jobs'" using assms(1) by (auto simp: map_le_def)
  then show ?thesis unfolding enqueued_def using assms(2,3) by blast
qed

lemma enqueued_insert:
  assumes "jobs key = None" "j = new_job key t v (enqueue_input spec now)" "overdue spec seen now"
    and free: "\<And>y k. jobs y = Some k \<Longrightarrow> \<not> dedupe_blocks (enqueue_input spec now) k"
    and rest: "enqueued specs seen now (jobs(key \<mapsto> j)) jobs'" and "spec_kind spec \<notin> spec_kind ` set specs"
  shows "enqueued (spec # specs) seen now jobs jobs'"
proof (rule enqueuedI)
  have key: "jobs' key = Some j" by (rule enqueued_keeps [OF rest]) simp
  have kinds: "job_kind i \<noteq> job_kind j" if i: "jobs' x = Some i" "jobs x = None" "x \<noteq> key" for x i
  proof -
    have "(jobs(key \<mapsto> j)) x = None" using i(2,3) by simp
    from rest i(1) this obtain s u w where "s \<in> set specs" "i = new_job x u w (enqueue_input s now)"
      by (rule enqueued_new)
    moreover from this assms(6) have "spec_kind s \<noteq> spec_kind spec" by (metis imageI)
    ultimately show ?thesis using assms(2) by (simp add: new_job_kind)
  qed
  show "jobs' x = Some i" if "jobs x = Some i" for x i
    by (rule enqueued_keeps [OF rest]) (use that assms(1) in auto)
  show "\<exists>s \<in> set (spec # specs). overdue s seen now \<and> (\<exists>t v. i = new_job x t v (enqueue_input s now))
      \<and> (\<forall>y k. jobs y = Some k \<longrightarrow> \<not> dedupe_blocks (enqueue_input s now) k)"
    if i: "jobs' x = Some i" "jobs x = None" for x i
  proof (cases "x = key")
    case True
    with i key assms(2,3) free show ?thesis by auto
  next
    case False
    with i have "(jobs(key \<mapsto> j)) x = None" by simp
    with rest i(1) obtain s u w where s: "s \<in> set specs" "overdue s seen now" "i = new_job x u w (enqueue_input s now)"
      and none: "\<And>y k. (jobs(key \<mapsto> j)) y = Some k \<Longrightarrow> \<not> dedupe_blocks (enqueue_input s now) k"
      by (rule enqueued_new) blast
    have "\<not> dedupe_blocks (enqueue_input s now) k" if "jobs y = Some k" for y k
      by (rule none [of y]) (use that assms(1) in auto)
    with s show ?thesis by (intro bexI [of _ s]) auto
  qed
  show "x = y" if new: "jobs' x = Some i" "jobs x = None" "jobs' y = Some k" "jobs y = None" "job_kind i = job_kind k" for x y i k
  proof (cases "x \<noteq> key \<and> y \<noteq> key")
    case True
    with new show ?thesis by (intro enqueued_one [OF rest, of x i y k]) simp_all
  next
    case False
    have "y = key" if "x = key"
      using that new key kinds [OF new(3,4)] by (cases "y = key") auto
    moreover have "x = key" if "y = key"
      using that new key kinds [OF new(1,2)] by (cases "x = key") auto
    ultimately have "x = key" "y = key" using False by blast+
    then show ?thesis by simp
  qed
qed

lemma alone_scheduler_loop:
  assumes "lawful answers" "distinct (map spec_kind specs)" "alone answers T (scheduler_loop now specs seen) U seen'"
  shows "\<exists>jobs. U = T\<lparr>t_jobs := jobs\<rparr> \<and> enqueued specs seen now (t_jobs T) jobs
    \<and> remembered specs seen now (t_jobs T) jobs seen'"
  using assms(2,3)
proof (induction specs arbitrary: T seen)
  case Nil
  then show ?case by (intro exI [of _ "t_jobs T"]) (auto simp: enqueued_refl remembered_def)
next
  case (Cons spec specs)
  have fresh: "spec_kind spec \<notin> spec_kind ` set specs" using Cons.prems(1) by simp
  show ?case
  proof (cases "overdue spec seen now")
    case False
    with Cons.prems obtain jobs where "U = T\<lparr>t_jobs := jobs\<rparr>" "enqueued specs seen now (t_jobs T) jobs"
      "remembered specs seen now (t_jobs T) jobs seen'" using Cons.IH [of T seen] by auto
    then show ?thesis
      by (intro exI [of _ jobs]) (auto simp: remembered_def intro: enqueued_more)
  next
    case True
    obtain V r where r: "alone answers T (try_enqueue spec now) V r"
      and go: "alone answers V (scheduler_loop now specs (case r of Inr _ \<Rightarrow> seen(spec_kind spec \<mapsto> Some now) | Inl _ \<Rightarrow> seen)) U seen'"
    proof -
      from Cons.prems(2) True obtain V r where "alone answers T (try_enqueue spec now) V r"
        "alone answers V (case r of Inr _ \<Rightarrow> scheduler_loop now specs (seen(spec_kind spec \<mapsto> Some now))
          | Inl _ \<Rightarrow> scheduler_loop now specs seen) U seen'" by auto
      then show ?thesis by (intro that [of V r]) (simp_all split: sum.splits)
    qed
    let ?seen = "case r of Inr _ \<Rightarrow> seen(spec_kind spec \<mapsto> Some now) | Inl _ \<Rightarrow> seen"
    have due: "overdue s ?seen now = overdue s seen now" if "s \<in> set specs" for s
    proof -
      from that fresh have "spec_kind s \<noteq> spec_kind spec" by (metis imageI)
      then show ?thesis by (simp add: overdue_other split: sum.split)
    qed
    from Cons.IH [OF _ go] Cons.prems(1) obtain jobs where U: "U = V\<lparr>t_jobs := jobs\<rparr>"
      and enq: "enqueued specs ?seen now (t_jobs V) jobs" and mem: "remembered specs ?seen now (t_jobs V) jobs seen'" by auto
    have enq': "enqueued specs seen now (t_jobs V) jobs"
      by (rule enqueued_more [OF enq]) (simp_all add: due)
    have times: "seen' kind = seen kind \<or> seen' kind = Some (Some now)
        \<and> (\<exists>s \<in> set (spec # specs). spec_kind s = kind \<and> overdue s seen now)" for kind
    proof -
      have "?seen kind = seen kind \<or> kind = spec_kind spec \<and> ?seen kind = Some (Some now)" by (simp split: sum.split)
      with mem due True show ?thesis unfolding remembered_def by (metis list.set_intros)
    qed
    from alone_try_enqueue [OF assms(1) r] show ?thesis
    proof (elim disjE exE conjE)
      assume "V = T"
      with U enq' mem times show ?thesis
        by (intro exI [of _ jobs]) (auto simp: remembered_def intro: enqueued_more)
    next
      fix key t v
      assume ok: "r = Inr True" "t_jobs T key = None"
        "\<forall>y k. t_jobs T y = Some k \<longrightarrow> \<not> dedupe_blocks (enqueue_input spec now) k"
        and V: "V = T\<lparr>t_jobs := (t_jobs T)(key \<mapsto> new_job key t v (enqueue_input spec now))\<rparr>"
      have all: "enqueued (spec # specs) seen now (t_jobs T) jobs"
        by (rule enqueued_insert [where key = key and t = t and v = v and jobs = "t_jobs T"]) (use ok True fresh enq' V in auto)
      have "seen' (job_kind j) = Some (Some now)" if "jobs x = Some j" "t_jobs T x = None" for x j
      proof (cases "x = key")
        case True
        have "jobs key = Some (new_job key t v (enqueue_input spec now))"
          by (rule enqueued_keeps [OF enq']) (simp add: V)
        with True that have "j = new_job key t v (enqueue_input spec now)" by simp
        then have "job_kind j = spec_kind spec" by (simp only: new_job_kind)
        moreover have "seen' (spec_kind spec) = Some (Some now)"
          using mem ok(1) unfolding remembered_def by (metis fun_upd_same sum.case(2))
        ultimately show ?thesis by simp
      next
        case False
        with that V have "t_jobs V x = None" by simp
        with mem that(1) show ?thesis unfolding remembered_def by blast
      qed
      with all times U V show ?thesis by (intro exI [of _ jobs]) (auto simp: remembered_def)
    qed
  qed
qed

subsection \<open>Properties\<close>

text \<open>C30: What one poll of the scheduler does, for a schedule whose kinds are distinct. It changes nothing but the jobs, no
  stored job changes, and every new row is the one a schedule entry asks for (pending, no attempts used, due at once,
  with the entry's priority and attempts and the kind as its deduplication key), for a kind whose cadence had passed and
  of which no pending, running or failed job was stored; no kind gets two. The time of every kind that got a row is
  now, and no other kind's time moves unless it was due.\<close>

theorem scheduler_enqueues_due:
  assumes "lawful answers" "distinct (map spec_kind specs)" "alone answers T (scheduler_tick specs seen) U seen'"
  shows "\<exists>now jobs. U = T\<lparr>t_jobs := jobs\<rparr> \<and> enqueued specs seen now (t_jobs T) jobs
    \<and> remembered specs seen now (t_jobs T) jobs seen'"
proof -
  from assms(3) obtain V now where "alone answers T utc_now V now" and go: "alone answers V (scheduler_loop now specs seen) U seen'"
    by (auto simp: scheduler_tick_def)
  with alone_utc_now [OF assms(1)] have "V = T" by blast
  with alone_scheduler_loop [OF assms(1,2) go] show ?thesis by auto
qed


definition demo_spec :: recurring_job_spec where
  "demo_spec = \<lparr>spec_kind = lit ''expire_stale'', spec_cadence = minutes 1, spec_priority = 500, spec_max_attempts = 3\<rparr>"

definition demo_idle :: tables where
  "demo_idle = demo_tables\<lparr>t_jobs := (\<lambda>_. None)\<rparr>"

lemma demo_tick_runs:
  assumes "lawful_answer T (CreateJob (enqueue_input demo_spec 5)) (JobRow r) U"
    and "r = Inr j \<or> r = Inl (DatabaseTyped \<lparr>db_detail = [], db_sqlstate_of = Some UNIQUE_VIOLATION, db_constraint_of = None\<rparr>)"
  shows "alone lawful_answer T (scheduler_tick [demo_spec] (\<lambda>_. None)) U [spec_kind demo_spec \<mapsto> Some 5]"
proof -
  have now: "alone lawful_answer T utc_now T 5"
    unfolding utc_now_def by (rule alone_call, rule lawful_now) simp
  have "alone lawful_answer T (create_job (enqueue_input demo_spec 5)) U r"
    unfolding create_job_def by (rule alone_call, rule assms(1)) simp
  then have "alone lawful_answer T (try_enqueue demo_spec 5) U (Inr (r = Inr j))"
    unfolding try_enqueue_def by (rule alone_bindI) (use assms(2) in auto)
  then have "alone lawful_answer T (bind_prog (try_enqueue demo_spec 5) (\<lambda>r. case r of
        Inr _ \<Rightarrow> scheduler_loop 5 [] ((\<lambda>_. None)(spec_kind demo_spec \<mapsto> Some 5))
      | Inl _ \<Rightarrow> scheduler_loop 5 [] (\<lambda>_. None))) U [spec_kind demo_spec \<mapsto> Some 5]"
    by (rule alone_bindI) simp
  then have "alone lawful_answer T (scheduler_loop 5 [demo_spec] (\<lambda>_. None)) U [spec_kind demo_spec \<mapsto> Some 5]"
    by (subst scheduler_loop.simps, subst if_not_P) (simp_all add: overdue_def del: alone_bind scheduler_loop.simps)
  then show ?thesis unfolding scheduler_tick_def by (rule alone_bindI [OF now])
qed

theorem scheduler_enqueues_due_witness:
  "\<exists>U jobs now. alone lawful_answer demo_idle (scheduler_tick [demo_spec] (\<lambda>_. None)) U [spec_kind demo_spec \<mapsto> Some 5]
    \<and> U = demo_idle\<lparr>t_jobs := jobs\<rparr> \<and> enqueued [demo_spec] (\<lambda>_. None) now (\<lambda>_. None) jobs \<and> jobs \<noteq> (\<lambda>_. None)"
proof -
  let ?j = "new_job (lit ''n'') 5 0 (enqueue_input demo_spec 5)"
  let ?U = "demo_idle\<lparr>t_jobs := [lit ''n'' \<mapsto> ?j]\<rparr>"
  have none: "t_jobs demo_idle = (\<lambda>_. None)" by (simp add: demo_idle_def)
  have "lawful_answer demo_idle (CreateJob (enqueue_input demo_spec 5)) (JobRow (Inr ?j)) ?U"
    unfolding lawful_answer_def request.case by (intro disjI2 exI [of _ "lit ''n''"] exI [of _ 5] exI [of _ 0]) (simp add: none)
  then have run: "alone lawful_answer demo_idle (scheduler_tick [demo_spec] (\<lambda>_. None)) ?U [spec_kind demo_spec \<mapsto> Some 5]"
    by (rule demo_tick_runs [of _ _ _ ?j]) simp
  from scheduler_enqueues_due [OF lawful_permissive _ run] none obtain now jobs where
    U: "?U = demo_idle\<lparr>t_jobs := jobs\<rparr>" and enq: "enqueued [demo_spec] (\<lambda>_. None) now (\<lambda>_. None) jobs" by auto
  have "t_jobs ?U = t_jobs (demo_idle\<lparr>t_jobs := jobs\<rparr>)" by (rule arg_cong [OF U])
  then have "jobs = [lit ''n'' \<mapsto> ?j]" by simp
  then have "jobs (lit ''n'') = Some ?j" by simp
  with run U enq show ?thesis by (metis option.distinct(1))
qed

definition demo_stuck :: job where
  "demo_stuck = demo_job\<lparr>job_st := JobFailed, job_kind := lit ''expire_stale'', job_dedupeKey := Some (lit ''expire_stale'')\<rparr>"


end
