(* ===== verification/Retention.thy ===== *)
theory Retention
  imports Jobs Msisdn
begin

text \<open>
  The job handlers that remove data: \<^verbatim>\<open>backends/crates/sms-worker/src/jobs/purge_retention.rs\<close> redacts
  finished messages and deletes delivery receipts after ninety days, and
  \<^verbatim>\<open>jobs/sweep_envelope_nonces.rs\<close> deletes expired replay-cache entries in bounded batches. The
  properties say what they may touch.
\<close>

subsection \<open>purge\_retention.rs\<close>

definition RETENTION :: duration where "RETENTION = minutes (90 * 1440)"

definition PURGED_MSISDN_PLACEHOLDER :: ustring where "PURGED_MSISDN_PLACEHOLDER = lit ''purged-msisdn''"

definition MESSAGE_BATCH :: int where "MESSAGE_BATCH = 500"

definition RECEIPT_BATCH :: int where "RECEIPT_BATCH = 500"

definition TERMINAL_STATES :: "message_state list" where
  "TERMINAL_STATES = [Delivered, MsgFailed, Expired, Rejected, Cancelled]"

definition purge_patch :: "instant \<Rightarrow> message_patch" where
  "purge_patch now = no_message_patch\<lparr>
     mp_msisdn := Some PURGED_MSISDN_PLACEHOLDER,
     mp_body := Some None,
     mp_clientRef := Some None,
     mp_idempotencyKey := Some None,
     mp_stateReason := Some None,
     mp_purgedAt := Some (Some now)\<rparr>"

fun purge_loop :: "instant \<Rightarrow> message list \<Rightarrow> nat \<Rightarrow> (cratestack_error + nat) prog" where
  "purge_loop now [] purged = Ret (Inr purged)"
| "purge_loop now (candidate # cs) purged =
     bind_prog (update_message (msg_id candidate) (purge_patch now) (msg_version candidate)) (\<lambda>r. case r of
       Inr _ \<Rightarrow> purge_loop now cs (purged + 1)
     | Inl error \<Rightarrow> (case error of
           Conflict _ \<Rightarrow> purge_loop now cs purged
         | PreconditionFailed _ \<Rightarrow> purge_loop now cs purged
         | other \<Rightarrow> Ret (Inl other)))"

definition purgeable :: "instant \<Rightarrow> message \<Rightarrow> bool" where
  "purgeable cutoff m \<longleftrightarrow> msg_state m \<in> set TERMINAL_STATES \<and> msg_createdAt m \<le> cutoff \<and> msg_purgedAt m = None"

definition purge_messages :: "instant \<Rightarrow> instant \<Rightarrow> (cratestack_error + nat) prog" where
  "purge_messages cutoff now =
     try_prog (find_messages (purgeable cutoff) [] (Some MESSAGE_BATCH)) (\<lambda>candidates. purge_loop now candidates 0)"

fun delete_loop :: "stored_receipt list \<Rightarrow> nat \<Rightarrow> (cratestack_error + nat) prog" where
  "delete_loop [] deleted = Ret (Inr deleted)"
| "delete_loop (candidate # cs) deleted =
     try_prog (delete_receipt (sr_id candidate)) (\<lambda>_. delete_loop cs (deleted + 1))"

definition purge_delivery_receipts :: "instant \<Rightarrow> (cratestack_error + nat) prog" where
  "purge_delivery_receipts cutoff =
     try_prog (find_receipts (\<lambda>r. sr_receivedAt r \<le> cutoff) [] (Some RECEIPT_BATCH)) (\<lambda>candidates. delete_loop candidates 0)"

definition purge_run_at :: "instant \<Rightarrow> (job_error + unit) prog" where
  "purge_run_at now =
     (let cutoff = now - RETENTION
      in try_prog (in_step (lit ''purging retained messages'') (purge_messages cutoff now)) (\<lambda>_.
         try_prog (in_step (lit ''purging retained delivery receipts'') (purge_delivery_receipts cutoff)) (\<lambda>_.
         Ret (Inr ()))))"

definition PurgeRetention :: "ustring \<times> job_handler" where
  "PurgeRetention = (lit ''purge_retention'', \<lambda>_. bind_prog utc_now purge_run_at)"

subsection \<open>sweep\_envelope\_nonces.rs\<close>

definition SWEEP_BATCH :: int where "SWEEP_BATCH = 500"

definition MAX_BATCHES :: nat where "MAX_BATCHES = 40"

definition CTX_SWEEP :: ustring where "CTX_SWEEP = lit ''sweeping expired envelope nonces''"

fun sweep_rows :: "nonce list \<Rightarrow> nat \<Rightarrow> (job_error + nat) prog" where
  "sweep_rows [] deleted = Ret (Inr deleted)"
| "sweep_rows (row # rows) deleted =
     bind_prog (delete_nonce (nonce_id row)) (\<lambda>r. case r of
       Inr _ \<Rightarrow> sweep_rows rows (deleted + 1)
     | Inl (NotFound _) \<Rightarrow> sweep_rows rows deleted
     | Inl source \<Rightarrow> Ret (Inl (Database CTX_SWEEP source)))"

fun sweep_batches :: "nat \<Rightarrow> instant \<Rightarrow> nat \<Rightarrow> (job_error + nat) prog" where
  "sweep_batches 0 now deleted = Ret (Inr deleted)"
| "sweep_batches (Suc n) now deleted =
     try_prog (in_step CTX_SWEEP (find_nonces (\<lambda>x. nonce_expiresAt x < now)
         [Asc (\<lambda>x. Some (KInt (nonce_expiresAt x)))] (Some SWEEP_BATCH))) (\<lambda>batch.
       let full = (int (length batch) = SWEEP_BATCH)
       in try_prog (sweep_rows batch deleted) (\<lambda>deleted'.
            if \<not> full then Ret (Inr deleted') else sweep_batches n now deleted'))"

definition sweep_run_at :: "instant \<Rightarrow> (job_error + nat) prog" where
  "sweep_run_at now = sweep_batches MAX_BATCHES now 0"

definition SweepEnvelopeNonces :: "ustring \<times> job_handler" where
  "SweepEnvelopeNonces = (lit ''sweep_envelope_nonces'', \<lambda>_. bind_prog utc_now (\<lambda>now.
     bind_prog (sweep_run_at now) (\<lambda>r. Ret (map_sum id (\<lambda>_. ()) r))))"

subsection \<open>Every write is legal\<close>

lemma purgeable_terminal: "purgeable cutoff m \<Longrightarrow> message_terminal (msg_state m)"
  by (auto simp: purgeable_def TERMINAL_STATES_def)

lemma wp_purge_loop:
  "\<forall>m \<in> set ms. m \<in> sn_messages K \<and> purgeable cutoff m \<Longrightarrow> wp worker_rules (purge_loop now ms n) K (\<lambda>_ _. True)"
proof (induction ms arbitrary: K n)
  case (Cons m ms)
  have may: "message_may m (purge_patch now)"
    using Cons.prems purgeable_terminal [of cutoff m]
    by (auto simp: message_may_def purge_patch_def no_message_patch_def guard_allows_def)
  show ?case
    unfolding purge_loop.simps
  proof (rule wp_bindI [where R = "\<lambda>_ _. True"])
    show "wp worker_rules (update_message (msg_id m) (purge_patch now) (msg_version m)) K (\<lambda>_ _. True)"
      using may Cons.prems by auto
    fix r K'
    assume "extends K K'"
    then have "wp worker_rules (purge_loop now ms n') K' (\<lambda>_ _. True)" for n'
      using Cons.prems by (intro Cons.IH) (auto simp: extends_def)
    then show "wp worker_rules (case r of Inr _ \<Rightarrow> purge_loop now ms (n + 1)
        | Inl error \<Rightarrow> (case error of Conflict _ \<Rightarrow> purge_loop now ms n | PreconditionFailed _ \<Rightarrow> purge_loop now ms n
           | other \<Rightarrow> Ret (Inl other))) K' (\<lambda>_ _. True)"
      by (auto split: sum.split cratestack_error.split)
  qed
qed simp

lemma wp_delete_loop: "wp P (delete_loop rs n) K (\<lambda>_ _. True)"
  by (induction rs n arbitrary: K rule: delete_loop.induct) (auto split: sum.split)

lemma wp_purge_run_at: "wp worker_rules (purge_run_at now) K (\<lambda>_ _. True)"
proof -
  have "wp worker_rules (purge_messages cutoff now) K (\<lambda>_ _. True)" for cutoff K
    unfolding purge_messages_def by (auto intro!: wp_purge_loop)
  moreover have "wp worker_rules (purge_delivery_receipts cutoff) K (\<lambda>_ _. True)" for cutoff K
    unfolding purge_delivery_receipts_def by (auto intro!: wp_delete_loop)
  ultimately show ?thesis
    unfolding purge_run_at_def Let_def
    by (intro wp_tryI [OF wp_in_step]) auto
qed

lemma wp_sweep_rows: "wp P (sweep_rows rs n) K (\<lambda>_ _. True)"
  by (induction rs n arbitrary: K rule: sweep_rows.induct) (auto split: sum.split cratestack_error.split)

lemma wp_sweep_batches: "wp P (sweep_batches n now d) K (\<lambda>_ _. True)"
  by (induction n now d arbitrary: K rule: sweep_batches.induct)
    (auto simp: in_step_def Let_def wp_sweep_rows intro!: wp_tryI [OF wp_sweep_rows] split: sum.split)

lemma safe_PurgeRetention: "wp worker_rules (snd PurgeRetention j) K (\<lambda>_ _. True)"
  by (simp add: PurgeRetention_def wp_purge_run_at)

lemma safe_SweepEnvelopeNonces: "wp worker_rules (snd SweepEnvelopeNonces j) K (\<lambda>_ _. True)"
  by (auto simp: SweepEnvelopeNonces_def sweep_run_at_def intro!: wp_mono [OF wp_sweep_batches])

subsection \<open>What purging changes\<close>

definition redacted :: "instant \<Rightarrow> instant \<Rightarrow> message \<Rightarrow> message" where
  "redacted now t m = m\<lparr>msg_msisdn := PURGED_MSISDN_PLACEHOLDER, msg_body := None, msg_clientRef := None,
     msg_idempotencyKey := None, msg_stateReason := None, msg_purgedAt := Some now, msg_updatedAt := t,
     msg_version := msg_version m + 1\<rparr>"

definition purged_only :: "instant \<Rightarrow> instant \<Rightarrow> tables \<Rightarrow> tables \<Rightarrow> bool" where
  "purged_only cutoff now T U \<longleftrightarrow>
     U\<lparr>t_messages := Map.empty, t_receipts := Map.empty\<rparr> = T\<lparr>t_messages := Map.empty, t_receipts := Map.empty\<rparr>
     \<and> (\<forall>i. t_messages U i = t_messages T i \<or>
          (\<exists>m t. t_messages T i = Some m \<and> purgeable cutoff m \<and> t_messages U i = Some (redacted now t m)))
     \<and> (\<forall>i. t_receipts U i = t_receipts T i \<or>
          (\<exists>r. t_receipts T i = Some r \<and> sr_receivedAt r \<le> cutoff \<and> t_receipts U i = None))"

lemma purged_only_refl: "purged_only cutoff now T T"
  by (simp add: purged_only_def)

lemma write_redacted: "write_message t (purge_patch now) m = Some row \<Longrightarrow> row = redacted now t m"
  by (auto simp: write_message_def messages_guard_transition_def patch_message_def purge_patch_def no_message_patch_def
      touch_updated_at_def redacted_def)

lemma purged_only_message:
  assumes "purged_only cutoff now T0 T" "t_messages T0 i = Some m" "purgeable cutoff m"
    and "t_messages T i = Some cur" "msg_version cur = msg_version m"
  shows "purged_only cutoff now T0 (T\<lparr>t_messages := (t_messages T)(i \<mapsto> redacted now t cur)\<rparr>)"
proof -
  from assms(1,2) have "t_messages T i = Some m \<or> (\<exists>t. t_messages T i = Some (redacted now t m))"
    unfolding purged_only_def by (metis option.inject)
  with assms(4,5) have "cur = m" by (auto simp: redacted_def)
  with assms(1-3) show ?thesis by (auto simp: purged_only_def)
qed

lemma alone_purge_loop:
  assumes "lawful answers" "\<forall>m \<in> set ms. t_messages T0 (msg_id m) = Some m \<and> purgeable cutoff m"
    and "purged_only cutoff now T0 T" "alone answers T (purge_loop now ms n) U x"
  shows "purged_only cutoff now T0 U"
  using assms(2-4)
proof (induction ms arbitrary: T n)
  case (Cons m ms)
  from Cons.prems(3) obtain V r where
    upd: "alone answers T (update_message (msg_id m) (purge_patch now) (msg_version m)) V r"
    and go: "alone answers V (case r of Inr _ \<Rightarrow> purge_loop now ms (n + 1)
      | Inl error \<Rightarrow> (case error of Conflict _ \<Rightarrow> purge_loop now ms n | PreconditionFailed _ \<Rightarrow> purge_loop now ms n
           | other \<Rightarrow> Ret (Inl other))) U x"
    unfolding purge_loop.simps alone_bind by blast
  have V: "purged_only cutoff now T0 V"
    using assms(1) upd
  proof (cases rule: alone_update_message)
    case (2 row t cur)
    then show ?thesis
      using purged_only_message [OF Cons.prems(2) _ _ 2(2,3)] write_redacted [OF 2(4)] Cons.prems(1) by auto
  qed (use Cons.prems(2) in simp)
  have "(\<exists>n'. alone answers V (purge_loop now ms n') U x) \<or> U = V"
    using go by (cases r) (auto split: cratestack_error.splits)
  with V show ?case using Cons.IH Cons.prems(1) by auto
qed simp

lemma alone_delete_receipt:
  assumes "lawful answers" "alone answers T (delete_receipt i) U x"
  shows "U = T \<or> U = T\<lparr>t_receipts := (t_receipts T)(i := None)\<rparr>"
proof -
  from assms obtain r T' where law: "lawful_answer T (DeleteReceipt i) r T'"
    and r: "alone answers T' (case r of Deleted x \<Rightarrow> Ret x | _ \<Rightarrow> Panic) U x"
    unfolding delete_receipt_def by (rule alone_lawful)
  from r have "T' = U" by (simp split: response.splits)
  with law show ?thesis by (auto simp: lawful_answer_def)
qed

lemma purged_only_receipt:
  assumes "purged_only cutoff now T0 T" "t_receipts T0 i = Some r" "sr_receivedAt r \<le> cutoff"
  shows "purged_only cutoff now T0 (T\<lparr>t_receipts := (t_receipts T)(i := None)\<rparr>)"
proof -
  note p = assms(1) [unfolded purged_only_def]
  have "t_receipts (T\<lparr>t_receipts := (t_receipts T)(i := None)\<rparr>) x = t_receipts T0 x \<or> (\<exists>r. t_receipts T0 x = Some r
      \<and> sr_receivedAt r \<le> cutoff \<and> t_receipts (T\<lparr>t_receipts := (t_receipts T)(i := None)\<rparr>) x = None)" for x
    using p assms(2,3) by (cases "x = i") auto
  with p show ?thesis unfolding purged_only_def by (intro conjI) simp_all
qed

lemma alone_delete_loop:
  assumes "lawful answers" "\<forall>r \<in> set rs. t_receipts T0 (sr_id r) = Some r \<and> sr_receivedAt r \<le> cutoff"
    and "purged_only cutoff now T0 T" "alone answers T (delete_loop rs n) U x"
  shows "purged_only cutoff now T0 U"
  using assms(2-4)
proof (induction rs arbitrary: T n)
  case (Cons r rs)
  have step: "purged_only cutoff now T0 V" if "alone answers T (delete_receipt (sr_id r)) V y" for V y
    using alone_delete_receipt [OF assms(1) that] Cons.prems(1,2) purged_only_receipt [OF Cons.prems(2)] by auto
  from Cons.prems(3) show ?case
    unfolding delete_loop.simps by (elim alone_tryE) (use step Cons.IH Cons.prems(1) in auto)
qed simp

lemma alone_find_receipts:
  assumes "lawful answers" "alone answers T (find_receipts f o_by l) U x"
  shows "U = T \<and> (\<forall>rows. x = Inr rows \<longrightarrow> (\<forall>r \<in> set rows. f r \<and> t_receipts T (sr_id r) = Some r))"
proof -
  from assms obtain r T' where law: "lawful_answer T (FindReceipts f o_by l) r T'"
    and r: "alone answers T' (case r of Receipts x \<Rightarrow> Ret x | _ \<Rightarrow> Panic) U x"
    unfolding find_receipts_def by (rule alone_lawful)
  from r have "r = Receipts x" "T' = U" by (simp_all split: response.splits)
  with law show ?thesis by (auto simp: lawful_answer_def)
qed

lemma alone_in_stepE:
  assumes "alone answers T (in_step ctx p) U x"
  obtains e where "alone answers T p U (Inl e)" "x = Inl (Database ctx e)"
  | v where "alone answers T p U (Inr v)" "x = Inr v"
proof -
  from assms obtain y where "alone answers T p U y" "x = (case y of Inl e \<Rightarrow> Inl (Database ctx e) | Inr u \<Rightarrow> Inr u)"
    by (auto simp: in_step_def)
  then show ?thesis using that by (cases y) auto
qed

lemma alone_purge_messages:
  assumes "lawful answers" "alone answers T (purge_messages cutoff now) U x"
  shows "purged_only cutoff now T U"
  using assms(2) unfolding purge_messages_def
proof (cases rule: alone_tryE)
  case (2 V ms)
  with alone_find_messages [OF assms(1) 2(1)] show ?thesis
    by (intro alone_purge_loop [OF assms(1) _ purged_only_refl]) auto
qed (use alone_find_messages [OF assms(1)] purged_only_refl in blast)

lemma alone_purge_receipts:
  assumes "lawful answers" "purged_only cutoff now T0 T" "alone answers T (purge_delivery_receipts cutoff) U x"
  shows "purged_only cutoff now T0 U"
  using assms(3) unfolding purge_delivery_receipts_def
proof (cases rule: alone_tryE)
  case (2 V rs)
  from alone_find_receipts [OF assms(1) 2(1)] have V: "V = T"
    and rs: "\<forall>r \<in> set rs. sr_receivedAt r \<le> cutoff \<and> t_receipts T (sr_id r) = Some r" by auto
  have "\<forall>r \<in> set rs. t_receipts T0 (sr_id r) = Some r \<and> sr_receivedAt r \<le> cutoff"
    using rs assms(2) unfolding purged_only_def by (metis option.distinct(1))
  then show ?thesis using 2(2) V by (intro alone_delete_loop [OF assms(1) _ assms(2)]) auto
qed (use alone_find_receipts [OF assms(1)] assms(2) in blast)

subsection \<open>Properties\<close>

text \<open>C31: Purging touches nothing but what it may: after a run, whatever the database refused on the way, every message
  is as it was, or it was finished, at least ninety days old and not yet purged, and its number, text, client reference,
  idempotency key and state reason are gone while its state, its routing and its history are kept; every delivery
  receipt is as it was, or it was received at least ninety days ago and is deleted; and nothing else has changed.\<close>

theorem purge_only_retained:
  assumes "lawful answers" "alone answers T (purge_run_at now) U x"
  shows "purged_only (now - RETENTION) now T U"
proof -
  have one: "purged_only (now - RETENTION) now T V"
    if "alone answers T (in_step ctx (purge_messages (now - RETENTION) now)) V y" for V y ctx
    using that alone_purge_messages [OF assms(1)] by (auto elim!: alone_in_stepE)
  have two: "purged_only (now - RETENTION) now T W" if "purged_only (now - RETENTION) now T V"
    "alone answers V (in_step ctx (purge_delivery_receipts (now - RETENTION))) W y" for V W y ctx
    using that alone_purge_receipts [OF assms(1)] by (auto elim!: alone_in_stepE)
  from assms(2) show ?thesis
    unfolding purge_run_at_def Let_def by (elim alone_tryE; simp only: alone_Ret; metis one two)
qed

text \<open>What is written over a purged number can never be taken for one: no numbering plan parses it, in any region, and
  it fits the column.\<close>

theorem placeholder_is_no_msisdn:
  "parse_in L PURGED_MSISDN_PLACEHOLDER R = Inl (InvalidCharacter 112) \<and> length PURGED_MSISDN_PLACEHOLDER = 13"
proof -
  obtain cs where cs: "PURGED_MSISDN_PLACEHOLDER = 112 # cs" by (simp add: PURGED_MSISDN_PLACEHOLDER_def)
  have "sanitise PURGED_MSISDN_PLACEHOLDER = Inl (InvalidCharacter 112)"
    unfolding cs sanitise_def by (simp add: SEPARATORS_def is_ascii_digit_def)
  then show ?thesis by (simp add: parse_in_def) (simp add: PURGED_MSISDN_PLACEHOLDER_def)
qed

lemma alone_find_nonces:
  assumes "lawful answers" "alone answers T (find_nonces f o_by l) U x"
  shows "U = T \<and> (\<forall>rows. x = Inr rows \<longrightarrow> in_limit l rows \<and> (\<forall>r \<in> set rows. f r \<and> t_nonces T (nonce_id r) = Some r))"
proof -
  from assms obtain r T' where law: "lawful_answer T (FindNonces f o_by l) r T'"
    and r: "alone answers T' (case r of Nonces x \<Rightarrow> Ret x | _ \<Rightarrow> Panic) U x"
    unfolding find_nonces_def by (rule alone_lawful)
  from r have "r = Nonces x" "T' = U" by (simp_all split: response.splits)
  with law show ?thesis by (auto simp: lawful_answer_def)
qed

lemma alone_delete_nonce:
  assumes "lawful answers" "alone answers T (delete_nonce i) U x"
  shows "U = T \<or> U = T\<lparr>t_nonces := (t_nonces T)(i := None)\<rparr>"
proof -
  from assms obtain r T' where law: "lawful_answer T (DeleteNonce i) r T'"
    and r: "alone answers T' (case r of Deleted x \<Rightarrow> Ret x | _ \<Rightarrow> Panic) U x"
    unfolding delete_nonce_def by (rule alone_lawful)
  from r have "T' = U" by (simp split: response.splits)
  with law show ?thesis by (auto simp: lawful_answer_def)
qed

text \<open>Only nonces that had expired are gone.\<close>

definition swept_only :: "instant \<Rightarrow> tables \<Rightarrow> tables \<Rightarrow> bool" where
  "swept_only now T U \<longleftrightarrow> (\<exists>N. U = T\<lparr>t_nonces := N\<rparr> \<and>
     (\<forall>i. N i = t_nonces T i \<or> N i = None \<and> (\<exists>x. t_nonces T i = Some x \<and> nonce_expiresAt x < now)))"

lemma swept_only_refl: "swept_only now T T"
  unfolding swept_only_def by (intro exI [of _ "t_nonces T"]) simp

lemma swept_only_trans:
  assumes "swept_only now T U" "swept_only now U V"
  shows "swept_only now T V"
proof -
  from assms obtain M N where U: "U = T\<lparr>t_nonces := M\<rparr>" and V: "V = U\<lparr>t_nonces := N\<rparr>"
    and M: "\<And>i. M i = t_nonces T i \<or> M i = None \<and> (\<exists>x. t_nonces T i = Some x \<and> nonce_expiresAt x < now)"
    and N: "\<And>i. N i = t_nonces U i \<or> N i = None \<and> (\<exists>x. t_nonces U i = Some x \<and> nonce_expiresAt x < now)"
    unfolding swept_only_def by blast
  have "N i = t_nonces T i \<or> N i = None \<and> (\<exists>x. t_nonces T i = Some x \<and> nonce_expiresAt x < now)" for i
    using M [of i] N [of i] U by fastforce
  then show ?thesis unfolding swept_only_def using U V by (intro exI [of _ N]) simp
qed

lemma alone_sweep_rows:
  assumes "lawful answers" "\<forall>x \<in> set rows. nonce_expiresAt x < now \<and> t_nonces T0 (nonce_id x) = Some x"
    and "swept_only now T0 T" "alone answers T (sweep_rows rows d) U r"
  shows "swept_only now T0 U \<and> (\<forall>n. r = Inr n \<longrightarrow> n \<le> d + length rows)"
  using assms(2-4)
proof (induction rows arbitrary: T d)
  case (Cons row rows)
  from Cons.prems(3) obtain V y where del: "alone answers T (delete_nonce (nonce_id row)) V y"
    and go: "alone answers V (case y of Inr _ \<Rightarrow> sweep_rows rows (d + 1) | Inl (NotFound _) \<Rightarrow> sweep_rows rows d
      | Inl source \<Rightarrow> Ret (Inl (Database CTX_SWEEP source))) U r"
    unfolding sweep_rows.simps alone_bind by blast
  have V: "swept_only now T0 V"
    using alone_delete_nonce [OF assms(1) del]
  proof
    assume "V = T\<lparr>t_nonces := (t_nonces T)(nonce_id row := None)\<rparr>"
    moreover from Cons.prems(2) obtain N where "T = T0\<lparr>t_nonces := N\<rparr>"
      "\<forall>i. N i = t_nonces T0 i \<or> N i = None \<and> (\<exists>x. t_nonces T0 i = Some x \<and> nonce_expiresAt x < now)"
      unfolding swept_only_def by blast
    ultimately show ?thesis
      using Cons.prems(1) unfolding swept_only_def by (intro exI [of _ "N(nonce_id row := None)"]) auto
  qed (use Cons.prems(2) in simp)
  have "(\<exists>d' \<le> d + 1. alone answers V (sweep_rows rows d') U r) \<or> U = V \<and> (\<exists>e. r = Inl e)"
    using go by (cases y) (auto split: cratestack_error.splits)
  then show ?case
  proof
    assume "\<exists>d' \<le> d + 1. alone answers V (sweep_rows rows d') U r"
    then obtain d' where "d' \<le> d + 1" "alone answers V (sweep_rows rows d') U r" by blast
    with Cons.IH [OF _ V] Cons.prems(1) show ?thesis by fastforce
  qed (use V in auto)
qed simp

lemma alone_sweep_batches:
  assumes "lawful answers" "alone answers T (sweep_batches k now d) U r"
  shows "swept_only now T U \<and> (\<forall>n. r = Inr n \<longrightarrow> n \<le> d + k * 500)"
  using assms(2)
proof (induction k arbitrary: T d)
  case (Suc k)
  from Suc.prems show ?case
    unfolding sweep_batches.simps
  proof (cases rule: alone_tryE)
    case (1 e)
    then show ?thesis
      by (elim alone_in_stepE) (use alone_find_nonces [OF assms(1)] swept_only_refl in blast)+
  next
    case (2 V batch)
    from 2(1) have "alone answers T (find_nonces (\<lambda>x. nonce_expiresAt x < now)
        [Asc (\<lambda>x. Some (KInt (nonce_expiresAt x)))] (Some SWEEP_BATCH)) V (Inr batch)"
      by (elim alone_in_stepE) simp_all
    from alone_find_nonces [OF assms(1) this] have V: "V = T" and lim: "length batch \<le> 500"
      and rows: "\<forall>x \<in> set batch. nonce_expiresAt x < now \<and> t_nonces T (nonce_id x) = Some x"
      by (simp_all add: in_limit_def SWEEP_BATCH_def)
    from 2(2) show ?thesis
      unfolding Let_def V
    proof (cases rule: alone_tryE)
      case (1 e)
      then show ?thesis using alone_sweep_rows [OF assms(1) rows swept_only_refl] by auto
    next
      case (2 W d')
      from alone_sweep_rows [OF assms(1) rows swept_only_refl 2(1)] have W: "swept_only now T W" "d' \<le> d + length batch" by auto
      show ?thesis
      proof (cases "int (length batch) = SWEEP_BATCH")
        case True
        with 2(2) have "alone answers W (sweep_batches k now d') U r" by simp
        from Suc.IH [OF this] W lim show ?thesis using swept_only_trans by fastforce
      next
        case False
        with 2(2) W lim show ?thesis by auto
      qed
    qed
  qed
qed (simp add: swept_only_refl)

text \<open>A sweep deletes only replay-cache entries that had expired, changes nothing else, and reports at most twenty
  thousand deletions (forty batches of five hundred).\<close>

theorem sweep_only_expired:
  assumes "lawful answers" "alone answers T (sweep_run_at now) U r"
  shows "swept_only now T U \<and> (\<forall>n. r = Inr n \<longrightarrow> n \<le> 20000)"
  using alone_sweep_batches [OF assms(1) assms(2) [unfolded sweep_run_at_def]] by (simp add: MAX_BATCHES_def)

definition demo_old :: message where
  "demo_old = demo_message\<lparr>msg_state := Delivered, msg_createdAt := 0, msg_purgedAt := None\<rparr>"

lemma lawful_find_none:
  "0 \<le> n \<Longrightarrow> lawful_answer T (FindReceipts f o_by (Some n)) (Receipts (Inr [])) T"
  by (simp add: lawful_answer_def in_limit_def)

theorem purge_only_retained_witness:
  "\<exists>U. alone lawful_answer (demo_tables\<lparr>t_messages := [lit ''m1'' \<mapsto> demo_old]\<rparr>) (purge_run_at RETENTION) U (Inr ())
    \<and> t_messages U (lit ''m1'') = Some (redacted RETENTION 5 demo_old)
    \<and> purged_only 0 RETENTION (demo_tables\<lparr>t_messages := [lit ''m1'' \<mapsto> demo_old]\<rparr>) U"
proof -
  let ?T = "demo_tables\<lparr>t_messages := [lit ''m1'' \<mapsto> demo_old]\<rparr>"
  let ?U = "demo_tables\<lparr>t_messages := [lit ''m1'' \<mapsto> redacted RETENTION 5 demo_old]\<rparr>"
  have key: "msg_id demo_old = lit ''m1''" "purgeable 0 demo_old"
    by (simp_all add: demo_old_def demo_message_def purgeable_def TERMINAL_STATES_def)
  have "lawful_answer ?T (FindMessages (purgeable 0) [] (Some MESSAGE_BATCH)) (Messages (Inr [demo_old])) ?T"
    using key by (simp add: lawful_answer_def in_limit_def MESSAGE_BATCH_def)
  then have find: "alone lawful_answer ?T (find_messages (purgeable 0) [] (Some MESSAGE_BATCH)) ?T (Inr [demo_old])"
    unfolding find_messages_def by (rule alone_call) simp
  have "write_message 5 (purge_patch RETENTION) demo_old = Some (redacted RETENTION 5 demo_old)"
    by (simp add: write_message_def messages_guard_transition_def patch_message_def purge_patch_def no_message_patch_def
        touch_updated_at_def redacted_def)
  then have "lawful_answer ?T (UpdateMessage (lit ''m1'') (purge_patch RETENTION) (msg_version demo_old))
      (MessageRow (Inr (redacted RETENTION 5 demo_old))) ?U"
    by (auto simp: lawful_answer_def)
  then have "alone lawful_answer ?T (update_message (lit ''m1'') (purge_patch RETENTION) (msg_version demo_old)) ?U
      (Inr (redacted RETENTION 5 demo_old))"
    unfolding update_message_def by (rule alone_call) simp
  then have "alone lawful_answer ?T (purge_loop RETENTION [demo_old] 0) ?U (Inr 1)"
    unfolding purge_loop.simps key by (rule alone_bindI) simp
  then have one: "alone lawful_answer ?T (purge_messages 0 RETENTION) ?U (Inr 1)"
    unfolding purge_messages_def try_prog_def by (intro alone_bindI [OF find]) simp
  have "alone lawful_answer ?U (find_receipts (\<lambda>r. sr_receivedAt r \<le> 0) [] (Some RECEIPT_BATCH)) ?U (Inr [])"
    unfolding find_receipts_def by (rule alone_call, rule lawful_find_none) (simp_all add: RECEIPT_BATCH_def)
  then have two: "alone lawful_answer ?U (purge_delivery_receipts 0) ?U (Inr 0)"
    unfolding purge_delivery_receipts_def try_prog_def by (rule alone_bindI) simp
  have run: "alone lawful_answer ?T (purge_run_at RETENTION) ?U (Inr ())"
    unfolding purge_run_at_def Let_def in_step_def try_prog_def alone_bind using one two by fastforce
  from purge_only_retained [OF lawful_permissive run] run show ?thesis by (intro exI [of _ ?U]) simp
qed

definition demo_nonce :: nonce where
  "demo_nonce = \<lparr>nonce_id = lit ''n1'', nonce_expiresAt = 3\<rparr>"

theorem sweep_only_expired_witness:
  "\<exists>T U. t_nonces T (lit ''n1'') = Some demo_nonce \<and> alone lawful_answer T (sweep_run_at 5) U (Inr 1)
    \<and> t_nonces U (lit ''n1'') = None \<and> swept_only 5 T U"
proof -
  let ?T = "demo_tables\<lparr>t_nonces := [lit ''n1'' \<mapsto> demo_nonce]\<rparr>"
  let ?U = "demo_tables\<lparr>t_nonces := (t_nonces ?T)(lit ''n1'' := None)\<rparr>"
  let ?find = "find_nonces (\<lambda>x. nonce_expiresAt x < 5) [Asc (\<lambda>x. Some (KInt (nonce_expiresAt x)))] (Some SWEEP_BATCH)"
  have "lawful_answer ?T (FindNonces (\<lambda>x. nonce_expiresAt x < 5) [Asc (\<lambda>x. Some (KInt (nonce_expiresAt x)))]
      (Some SWEEP_BATCH)) (Nonces (Inr [demo_nonce])) ?T"
    by (simp add: lawful_answer_def in_limit_def SWEEP_BATCH_def demo_nonce_def)
  then have find: "alone lawful_answer ?T ?find ?T (Inr [demo_nonce])"
    unfolding find_nonces_def by (rule alone_call) simp
  have "lawful_answer ?T (DeleteNonce (lit ''n1'')) (Deleted (Inr ())) ?U"
    by (simp add: lawful_answer_def)
  then have "alone lawful_answer ?T (delete_nonce (lit ''n1'')) ?U (Inr ())"
    unfolding delete_nonce_def by (rule alone_call) simp
  then have rows: "alone lawful_answer ?T (sweep_rows [demo_nonce] 0) ?U (Inr 1)"
    unfolding sweep_rows.simps demo_nonce_def nonce.simps by (rule alone_bindI) simp
  have "alone lawful_answer ?T (sweep_batches (Suc 39) 5 0) ?U (Inr 1)"
    unfolding sweep_batches.simps in_step_def try_prog_def alone_bind Let_def
    using find rows by (fastforce simp: SWEEP_BATCH_def)
  then have run: "alone lawful_answer ?T (sweep_run_at 5) ?U (Inr 1)"
    by (simp add: sweep_run_at_def MAX_BATCHES_def numeral_eq_Suc del: alone_bind)
  have "swept_only 5 ?T ?U" using sweep_only_expired [OF lawful_permissive run] by blast
  with run show ?thesis by (intro exI [of _ ?T] exI [of _ ?U]) simp
qed

end
