(* ===== verification/Transactions.thy ===== *)
theory Transactions
  imports Program
begin

text \<open>
  One program run alone with its transactions: \<open>solo\<close> keeps the tables as they were at the begin and restores
  them when the body fails, when the commit fails, or when the program rolls back. A program without transactions runs
  as \<open>alone\<close> says. The rules at the end read a transaction as what it means: it commits with all the writes of
  its body, or it leaves nothing. Then what the calls on the tables of the API do, run alone.
\<close>

subsection \<open>Rollback\<close>

fun is_tx :: "request \<Rightarrow> bool" where
  "is_tx TxBegin = True"
| "is_tx TxCommit = True"
| "is_tx TxAbort = True"
| "is_tx _ = False"

definition tx_free :: "'a prog \<Rightarrow> bool" where
  "tx_free p \<longleftrightarrow> makes_at_most is_tx p 0"

inductive solo :: "world \<Rightarrow> tables option \<Rightarrow> tables \<Rightarrow> 'a prog \<Rightarrow> tables \<Rightarrow> 'a \<Rightarrow> bool" for answers where
  solo_ret: "solo answers None T (Ret x) T x"
| solo_call: "\<not> is_tx req \<Longrightarrow> answers T req r T' \<Longrightarrow> solo answers S T' (k r) U x \<Longrightarrow> solo answers S T (Call req k) U x"
| solo_begin: "solo answers (Some T) T (k (TxDone (Inr ()))) U x \<Longrightarrow> solo answers None T (Call TxBegin k) U x"
| solo_begin_fails: "solo answers None T (k (TxDone (Inl e))) U x \<Longrightarrow> solo answers None T (Call TxBegin k) U x"
| solo_commit: "solo answers None T (k (TxDone (Inr ()))) U x \<Longrightarrow> solo answers (Some S) T (Call TxCommit k) U x"
| solo_commit_fails: "solo answers None S (k (TxDone (Inl e))) U x \<Longrightarrow> solo answers (Some S) T (Call TxCommit k) U x"
| solo_abort: "solo answers None S (k (TxDone y)) U x \<Longrightarrow> solo answers (Some S) T (Call TxAbort k) U x"

inductive_simps solo_Ret [simp]: "solo answers S T (Ret x) U y"
inductive_simps solo_Panic [simp]: "solo answers S T Panic U y"
inductive_simps solo_Begin: "solo answers S T (Call TxBegin k) U y"
inductive_simps solo_Commit: "solo answers S T (Call TxCommit k) U y"
inductive_simps solo_Abort: "solo answers S T (Call TxAbort k) U y"

lemma solo_Call: "\<not> is_tx req \<Longrightarrow>
    solo answers S T (Call req k) U y \<longleftrightarrow> (\<exists>r T'. answers T req r T' \<and> solo answers S T' (k r) U y)"
  by (rule iffI, erule solo.cases) (auto intro: solo_call)

lemma tx_free_simps [simp]: "tx_free (Ret x)" "tx_free Panic"
  "tx_free (Call req k) \<longleftrightarrow> \<not> is_tx req \<and> (\<forall>r. tx_free (k r))"
  by (simp_all add: tx_free_def)

lemma tx_free_bind: "tx_free p \<Longrightarrow> (\<And>x. tx_free (f x)) \<Longrightarrow> tx_free (bind_prog p f)"
  unfolding tx_free_def by (rule makes_bind0)

lemma tx_free_try: "tx_free p \<Longrightarrow> (\<And>x. tx_free (f x)) \<Longrightarrow> tx_free (try_prog p f)"
  unfolding tx_free_def by (rule makes_try0)

lemma tx_free_calls [simp]:
  "tx_free utc_now" "tx_free random_f64" "tx_free (find_messages fm om lm)" "tx_free (find_jobs fj oj lj)"
  "tx_free (update_job ij pj vj)" "tx_free (find_attempts fa oa la)" "tx_free (update_attempt ia pa va)"
  "tx_free (find_endpoints fe le)" "tx_free (update_endpoint ie pe ve)" "tx_free (find_providers fp op lp)"
  "tx_free (find_routes ro)" "tx_free (find_receipts fr orr lr)" "tx_free (create_message im)"
  "tx_free (count_messages cm)" "tx_free (count_jobs cj)" "tx_free (count_attempts ca)"
  unfolding call_defs by (simp_all split: response.splits)

lemma solo_bind_free:
  "tx_free p \<Longrightarrow> solo answers S T (bind_prog p f) U y \<longleftrightarrow> (\<exists>V x. alone answers T p V x \<and> solo answers S V (f x) U y)"
proof (induction p arbitrary: T)
  case (Call req k)
  then have "solo answers S V (bind_prog (k r) f) U y \<longleftrightarrow> (\<exists>W x. alone answers V (k r) W x \<and> solo answers S W (f x) U y)"
    for V r by simp
  with Call.prems show ?case by (auto simp: solo_Call alone_Call)
qed simp_all

lemma solo_tryE:
  assumes "solo answers S T (try_prog p f) U y" "tx_free p"
  obtains V e where "alone answers T p V (Inl e)" "solo answers S V (Ret (Inl e)) U y"
  | V x where "alone answers T p V (Inr x)" "solo answers S V (f x) U y"
proof -
  from assms obtain V r where r: "alone answers T p V r"
    and go: "solo answers S V (case r of Inl e \<Rightarrow> Ret (Inl e) | Inr x \<Rightarrow> f x) U y"
    unfolding try_prog_def by (auto simp: solo_bind_free)
  show ?thesis
  proof (cases r)
    case (Inl e)
    then show ?thesis using that(1) [of V e] r go by simp
  next
    case (Inr x)
    then show ?thesis using that(2) [of V x] r go by simp
  qed
qed

text \<open>A transaction commits all its writes or leaves nothing.\<close>

definition tx_end :: "cratestack_error + 'a \<Rightarrow> (cratestack_error + 'a) prog" where
  "tx_end r = (case r of
     Inl e \<Rightarrow> bind_prog (tx_call TxAbort) (\<lambda>_. Ret (Inl e))
   | Inr x \<Rightarrow> try_prog (tx_call TxCommit) (\<lambda>_. Ret (Inr x)))"

lemma transaction_end: "transaction p = try_prog (tx_call TxBegin) (\<lambda>_. bind_prog p tx_end)"
  by (simp add: transaction_def tx_end_def [abs_def])

lemma solo_tx_end:
  assumes "solo answers (Some T) V (bind_prog (tx_end r) f) U y"
  shows "(\<exists>e. solo answers None T (f (Inl e)) U y) \<or> (\<exists>x. r = Inr x \<and> solo answers None V (f (Inr x)) U y)"
  using assms by (cases r) (auto simp: tx_end_def tx_call_def try_prog_def solo_Commit solo_Abort)

lemma solo_tx_begin:
  assumes "solo answers None T (bind_prog (transaction p) f) U y" "tx_free p"
  shows "(\<exists>e. solo answers None T (f (Inl e)) U y) \<or>
    (\<exists>V r. alone answers T p V r \<and> solo answers (Some T) V (bind_prog (tx_end r) f) U y)"
  using assms(1)
  by (auto simp: transaction_end tx_call_def try_prog_def solo_Begin bind_prog_assoc solo_bind_free assms(2))

lemma solo_transactionE:
  assumes "solo answers None T (bind_prog (transaction p) f) U y" "tx_free p"
  obtains V x where "alone answers T p V (Inr x)" "solo answers None V (f (Inr x)) U y"
  | e where "solo answers None T (f (Inl e)) U y"
proof -
  have "(\<exists>e. solo answers None T (f (Inl e)) U y)
      \<or> (\<exists>V x. alone answers T p V (Inr x) \<and> solo answers None V (f (Inr x)) U y)"
    using solo_tx_begin [OF assms] by (auto dest!: solo_tx_end)
  then show ?thesis using that by (elim disjE exE conjE)
qed

lemma solo_transactionI:
  assumes "alone answers T p V (Inr x)" "solo answers None V (f (Inr x)) U y" "tx_free p"
  shows "solo answers None T (bind_prog (transaction p) f) U y"
proof -
  have "solo answers (Some T) V (bind_prog (tx_end (Inr x)) f) U y"
    unfolding tx_end_def tx_call_def try_prog_def sum.case bind_prog.simps
    by (rule solo_commit) (simp only: response.case bind_prog.simps sum.case assms(2))
  then have "solo answers (Some T) T (bind_prog (bind_prog p tx_end) f) U y"
    unfolding bind_prog_assoc solo_bind_free [OF assms(3)]
    by (intro exI [of _ V] exI [of _ "Inr x"] conjI assms(1))
  then show ?thesis
    unfolding transaction_end tx_call_def try_prog_def bind_prog.simps
    by (intro solo_begin) (simp only: response.case bind_prog.simps sum.case)
qed

lemma wp_tx_end:
  "wp P (tx_end r) K Q \<longleftrightarrow> (case r of Inl e \<Rightarrow> Q (Inl e) K | Inr x \<Rightarrow> (\<forall>e. Q (Inl e) K) \<and> Q (Inr x) K)"
  by (auto simp: tx_end_def split_sum_all split: sum.splits)

lemma wp_transaction [simp]:
  "wp P (transaction p) K Q \<longleftrightarrow> (\<forall>e. Q (Inl e) K) \<and>
     wp P p K (\<lambda>r K'. case r of Inl e \<Rightarrow> Q (Inl e) K' | Inr x \<Rightarrow> (\<forall>e. Q (Inl e) K') \<and> Q (Inr x) K')"
  unfolding transaction_end by (auto simp: wp_tx_end split_sum_all cong: sum.case_cong)

subsection \<open>Confined panics\<close>

text \<open>A panic in a request handler ends the task of that request and nothing else.\<close>

primrec contain :: "'a prog \<Rightarrow> unit prog" where
  "contain (Ret x) = Ret ()"
| "contain Panic = Ret ()"
| "contain (Call req k) = Call req (\<lambda>r. contain (k r))"

lemma wp_contain:
  "wp (P\<lparr>may_panic := b\<rparr>) p K Q \<Longrightarrow> wp P (contain p) K (\<lambda>_ _. True)"
proof (induction p arbitrary: K)
  case (Call req k)
  have "permitted (P\<lparr>may_panic := b\<rparr>) K req = permitted P K req"
    "expected (P\<lparr>may_panic := b\<rparr>) K req = expected P K req"
    by (auto simp: permitted_def expected_def fun_eq_iff split: request.split)
  with Call show ?case by auto
qed auto

subsection \<open>The tables of the API, alone\<close>

lemma same_api [simp]: "T\<lparr>t_api := t_api T\<rparr> = (T :: tables)"
  by simp

lemma alone_api:
  assumes "lawful answers" "alone answers T (Call (Api q) k) U y"
  obtains a A where "lawful_api (t_api T) q a A" "alone answers (T\<lparr>t_api := A\<rparr>) (k (ApiAnswer a)) U y"
proof -
  from assms obtain r T' where "lawful_answer T (Api q) r T'" "alone answers T' (k r) U y" by (rule alone_lawful)
  then show ?thesis using that by (auto simp: lawful_answer_def)
qed

text \<open>A read of one of these tables.\<close>

lemma alone_reads:
  "lawful answers \<Longrightarrow> alone answers T (find_apps f_a_apps l) U x_a_apps \<Longrightarrow>
     U = T \<and> (\<forall>rows. x_a_apps = Inr rows \<longrightarrow> selects (a_apps (t_api T)) app_id f_a_apps l rows)"
  "lawful answers \<Longrightarrow> alone answers T (find_app_clients f_a_clients l) U x_a_clients \<Longrightarrow>
     U = T \<and> (\<forall>rows. x_a_clients = Inr rows \<longrightarrow> selects (a_clients (t_api T)) ac_id f_a_clients l rows)"
  "lawful answers \<Longrightarrow> alone answers T (find_client_keys f_a_client_keys l) U x_a_client_keys \<Longrightarrow>
     U = T \<and> (\<forall>rows. x_a_client_keys = Inr rows \<longrightarrow> selects (a_client_keys (t_api T)) ck_id f_a_client_keys l rows)"
  "lawful answers \<Longrightarrow> alone answers T (find_console_keys f_a_console_keys l) U x_a_console_keys \<Longrightarrow>
     U = T \<and> (\<forall>rows. x_a_console_keys = Inr rows \<longrightarrow> selects (a_console_keys (t_api T)) cok_id f_a_console_keys l rows)"
  "lawful answers \<Longrightarrow> alone answers T (find_users f_a_users l) U x_a_users \<Longrightarrow>
     U = T \<and> (\<forall>rows. x_a_users = Inr rows \<longrightarrow> selects (a_users (t_api T)) usr_id f_a_users l rows)"
  "lawful answers \<Longrightarrow> alone answers T (find_links f_a_links l) U x_a_links \<Longrightarrow>
     U = T \<and> (\<forall>rows. x_a_links = Inr rows \<longrightarrow> selects (a_links (t_api T)) fl_id f_a_links l rows)"
  "lawful answers \<Longrightarrow> alone answers T (find_opt_outs f_a_opt_outs l) U x_a_opt_outs \<Longrightarrow>
     U = T \<and> (\<forall>rows. x_a_opt_outs = Inr rows \<longrightarrow> selects (a_opt_outs (t_api T)) oo_id f_a_opt_outs l rows)"
  "lawful answers \<Longrightarrow> alone answers T (find_consents f_a_consents l) U x_a_consents \<Longrightarrow>
     U = T \<and> (\<forall>rows. x_a_consents = Inr rows \<longrightarrow> selects (a_consents (t_api T)) cr_id f_a_consents l rows)"
  "lawful answers \<Longrightarrow> alone answers T (find_senders f_a_senders l) U x_a_senders \<Longrightarrow>
     U = T \<and> (\<forall>rows. x_a_senders = Inr rows \<longrightarrow> selects (a_senders (t_api T)) sid_id f_a_senders l rows)"
  "lawful answers \<Longrightarrow> alone answers T (find_registrations f_a_registrations l) U x_a_registrations \<Longrightarrow>
     U = T \<and> (\<forall>rows. x_a_registrations = Inr rows \<longrightarrow> selects (a_registrations (t_api T)) sir_id f_a_registrations l rows)"
  unfolding api_call_defs by (erule alone_api, assumption, (auto simp: lawful_api_def) [1])+

lemmas alone_find_apps = alone_reads(1) and alone_find_app_clients = alone_reads(2)
  and alone_find_client_keys = alone_reads(3) and alone_find_console_keys = alone_reads(4)
  and alone_find_users = alone_reads(5) and alone_find_links = alone_reads(6)
  and alone_find_opt_outs = alone_reads(7) and alone_find_consents = alone_reads(8)
  and alone_find_senders = alone_reads(9) and alone_find_registrations = alone_reads(10)

lemma alone_find_prefix_rules:
  "lawful answers \<Longrightarrow> alone answers T (find_prefix_rules f) U x \<Longrightarrow>
     U = T \<and> (\<forall>rows. x = Inr rows \<longrightarrow> selects (a_prefix_rules (t_api T)) opr_id f None rows)"
  unfolding api_call_defs by (erule alone_api, assumption) (auto simp: lawful_api_def)

lemma alone_find_roles:
  "lawful answers \<Longrightarrow> alone answers T (find_roles f l) U x \<Longrightarrow>
     U = T \<and> (\<forall>rows. x = Inr rows \<longrightarrow> selects (a_roles (t_api T)) role_id f l rows)"
  unfolding api_call_defs by (erule alone_api, assumption) (auto simp: lawful_api_def)

lemma alone_find_oauth_clients:
  "lawful answers \<Longrightarrow> alone answers T (find_oauth_clients f l) U x \<Longrightarrow>
     U = T \<and> (\<forall>rows. x = Inr rows \<longrightarrow> selects (a_oauth_clients (t_api T)) oc_id f l rows)"
  unfolding api_call_defs by (erule alone_api, assumption) (auto simp: lawful_api_def)

lemma alone_count_lookups:
  "lawful answers \<Longrightarrow> alone answers T (count_lookups f) U x \<Longrightarrow>
     U = T \<and> (\<forall>n. x = Inr n \<longrightarrow> counts (a_lookups (t_api T)) f n)"
  unfolding api_call_defs by (erule alone_api, assumption) (auto simp: lawful_api_def)

text \<open>Runs of the calls on the most permissive lawful database.\<close>

lemma alone_nowI: "alone lawful_answer T utc_now T t"
  unfolding utc_now_def by (rule alone_call [where r = "Time t" and T' = T]) (simp_all add: lawful_answer_def)

lemma alone_apiI:
  assumes "lawful_api (t_api T) q a A" "alone lawful_answer (T\<lparr>t_api := A\<rparr>) (k (ApiAnswer a)) U x"
  shows "alone lawful_answer T (Call (Api q) k) U x"
  by (rule alone_call [where r = "ApiAnswer a" and T' = "T\<lparr>t_api := A\<rparr>"]) (use assms in \<open>auto simp: lawful_answer_def\<close>)

lemma alone_find_appsI:
  "selects (a_apps (t_api T)) app_id f l rows \<Longrightarrow> alone lawful_answer T (find_apps f l) T (Inr rows)"
  unfolding find_apps_def by (rule alone_apiI [where a = "Apps (Inr rows)" and A = "t_api T"]) (simp_all add: lawful_api_def)

lemma alone_find_app_clientsI:
  "selects (a_clients (t_api T)) ac_id f l rows \<Longrightarrow> alone lawful_answer T (find_app_clients f l) T (Inr rows)"
  unfolding find_app_clients_def by (rule alone_apiI [where a = "AppClients (Inr rows)" and A = "t_api T"]) (simp_all add: lawful_api_def)

lemma alone_find_client_keysI:
  "selects (a_client_keys (t_api T)) ck_id f l rows \<Longrightarrow> alone lawful_answer T (find_client_keys f l) T (Inr rows)"
  unfolding find_client_keys_def by (rule alone_apiI [where a = "ClientKeys (Inr rows)" and A = "t_api T"]) (simp_all add: lawful_api_def)

lemma alone_find_console_keysI:
  "selects (a_console_keys (t_api T)) cok_id f l rows \<Longrightarrow> alone lawful_answer T (find_console_keys f l) T (Inr rows)"
  unfolding find_console_keys_def by (rule alone_apiI [where a = "ConsoleKeys (Inr rows)" and A = "t_api T"]) (simp_all add: lawful_api_def)

lemma alone_find_usersI:
  "selects (a_users (t_api T)) usr_id f l rows \<Longrightarrow> alone lawful_answer T (find_users f l) T (Inr rows)"
  unfolding find_users_def by (rule alone_apiI [where a = "Users (Inr rows)" and A = "t_api T"]) (simp_all add: lawful_api_def)

lemma alone_find_linksI:
  "selects (a_links (t_api T)) fl_id f l rows \<Longrightarrow> alone lawful_answer T (find_links f l) T (Inr rows)"
  unfolding find_links_def by (rule alone_apiI [where a = "Links (Inr rows)" and A = "t_api T"]) (simp_all add: lawful_api_def)

lemma alone_find_opt_outsI:
  "selects (a_opt_outs (t_api T)) oo_id f l rows \<Longrightarrow> alone lawful_answer T (find_opt_outs f l) T (Inr rows)"
  unfolding find_opt_outs_def by (rule alone_apiI [where a = "OptOuts (Inr rows)" and A = "t_api T"]) (simp_all add: lawful_api_def)

lemma alone_find_consentsI:
  "selects (a_consents (t_api T)) cr_id f l rows \<Longrightarrow> alone lawful_answer T (find_consents f l) T (Inr rows)"
  unfolding find_consents_def by (rule alone_apiI [where a = "Consents (Inr rows)" and A = "t_api T"]) (simp_all add: lawful_api_def)

lemma alone_find_sendersI:
  "selects (a_senders (t_api T)) sid_id f l rows \<Longrightarrow> alone lawful_answer T (find_senders f l) T (Inr rows)"
  unfolding find_senders_def by (rule alone_apiI [where a = "Senders (Inr rows)" and A = "t_api T"]) (simp_all add: lawful_api_def)

lemma alone_find_registrationsI:
  "selects (a_registrations (t_api T)) sir_id f l rows \<Longrightarrow> alone lawful_answer T (find_registrations f l) T (Inr rows)"
  unfolding find_registrations_def by (rule alone_apiI [where a = "Registrations (Inr rows)" and A = "t_api T"]) (simp_all add: lawful_api_def)

lemma alone_find_rolesI:
  "selects (a_roles (t_api T)) role_id f l rows \<Longrightarrow> alone lawful_answer T (find_roles f l) T (Inr rows)"
  unfolding find_roles_def by (rule alone_apiI [where a = "Roles (Inr rows)" and A = "t_api T"]) (simp_all add: lawful_api_def)

lemma alone_find_oauth_clientsI:
  "selects (a_oauth_clients (t_api T)) oc_id f l rows \<Longrightarrow> alone lawful_answer T (find_oauth_clients f l) T (Inr rows)"
  unfolding find_oauth_clients_def by (rule alone_apiI [where a = "OauthClients (Inr rows)" and A = "t_api T"]) (simp_all add: lawful_api_def)

lemma alone_find_prefix_rulesI:
  "selects (a_prefix_rules (t_api T)) opr_id f None rows \<Longrightarrow> alone lawful_answer T (find_prefix_rules f) T (Inr rows)"
  unfolding find_prefix_rules_def
  by (rule alone_apiI [where a = "PrefixRules (Inr rows)" and A = "t_api T"]) (simp_all add: lawful_api_def)

lemma alone_tryI:
  "alone answers T p V (Inr x) \<Longrightarrow> alone answers V (f x) U y \<Longrightarrow> alone answers T (try_prog p f) U y"
  unfolding try_prog_def by (rule alone_bindI, assumption) simp

lemma tx_free_api_calls [simp]:
  "tx_free (find_roles fr lr)" "tx_free (find_oauth_clients fo lo)"
  "tx_free (find_apps f1 l1)"
  "tx_free (find_app_clients f2 l2)"
  "tx_free (create_app_client i3)"
  "tx_free (find_client_keys f4 l4)"
  "tx_free (create_client_key i5)"
  "tx_free (revoke_client_key i6 n6)"
  "tx_free (find_console_keys f7 l7)"
  "tx_free (create_console_key i8)"
  "tx_free (revoke_console_key i9 n9)"
  "tx_free (find_users f10 l10)"
  "tx_free (create_user i11)"
  "tx_free (update_user_subject i12 s12 v12)"
  "tx_free (find_links f13 l13)"
  "tx_free (create_link a14 b14 c14)"
  "tx_free (find_prefix_rules f15)"
  "tx_free (find_opt_outs f16 l16)"
  "tx_free (create_opt_out i17)"
  "tx_free (find_consents f18 l18)"
  "tx_free (find_senders f19 l19)"
  "tx_free (find_registrations f20 l20)"
  "tx_free (create_lookup i21)"
  "tx_free (count_lookups f22)"
  "tx_free (settle_lookup i23 o23 n23)"
  unfolding api_call_defs by (simp_all split: response.split api_answer.split)

end
