(* ===== verification/Access.thy ===== *)
theory Access
  imports Transactions Claim Webhook
begin

text \<open>
  Who may do what, in \<^verbatim>\<open>backends/crates/sms-api/src\<close>: the caller's context and the permissions it
  carries (\<^verbatim>\<open>rbac.rs\<close>, \<^verbatim>\<open>auth.rs\<close>), the guards the router puts before the generated routes
  (\<^verbatim>\<open>rbac.rs\<close>, \<^verbatim>\<open>pair_scope.rs\<close>, \<^verbatim>\<open>owner_grant.rs\<close>,
  \<^verbatim>\<open>hmac_gate.rs\<close>, \<^verbatim>\<open>keypair_gate.rs\<close>, in the order of \<^verbatim>\<open>router.rs\<close>), the recipient's
  consent (\<^verbatim>\<open>consent.rs\<close>) and the authorisation of a composition (\<^verbatim>\<open>composition.rs\<close>).

  A guard answers \<open>Inr ()\<close> when it hands the request on and \<open>Inl\<close> with the error of its response when
  it does not. Decoding a body is the framework's; \<open>decoder\<close> has the columns the guards read of it. Whether a
  method and path are a generated route is its field \<open>dc_route\<close>.
\<close>

subsection \<open>The caller's context\<close>

text \<open>The values of a context: strings and lists are the ones the code reads; \<open>NullV\<close> is an absent scope.\<close>

datatype cs_value = StringV ustring | ListV "cs_value list" | NullV

record cs_context =
  ctx_auth :: "ustring \<rightharpoonup> cs_value"
  ctx_extensions :: "ustring \<rightharpoonup> cs_value"

definition text_field :: "cs_context \<Rightarrow> ustring \<Rightarrow> ustring option" where
  "text_field ctx name = (case ctx_auth ctx name of Some (StringV s) \<Rightarrow> Some s | _ \<Rightarrow> None)"

subsection \<open>rbac.rs\<close>

definition holds :: "ustring list \<Rightarrow> ustring option \<Rightarrow> ustring \<Rightarrow> bool" where
  "holds perms scope permission \<longleftrightarrow> list_ex (\<lambda>perm. perm = permission) perms
     \<or> (case scope of Some s \<Rightarrow> contains s permission | None \<Rightarrow> False)"

definition string_items :: "cs_value list \<Rightarrow> ustring list" where
  "string_items items = List.map_filter (\<lambda>item. case item of StringV p \<Rightarrow> Some p | _ \<Rightarrow> None) items"

definition context_perms :: "cs_context \<Rightarrow> ustring list" where
  "context_perms ctx = (case ctx_extensions ctx (lit ''perms'') of Some (ListV items) \<Rightarrow> string_items items | _ \<Rightarrow> [])"

definition context_scope :: "cs_context \<Rightarrow> ustring option" where
  "context_scope ctx = (case ctx_extensions ctx (lit ''scope'') of Some (StringV s) \<Rightarrow> Some s | _ \<Rightarrow> None)"

definition require_permission :: "(ustring \<Rightarrow> ustring) \<Rightarrow> cs_context \<Rightarrow> ustring \<Rightarrow> cratestack_error + unit" where
  "require_permission debug ctx required =
     (if holds (context_perms ctx) (context_scope ctx) required then Inr ()
      else Inl (Forbidden (lit ''missing required permission '' @ debug required)))"

datatype http_method = GET | HEAD | POST | PATCH | DELETE | OtherMethod ustring

fun method_str :: "http_method \<Rightarrow> ustring" where
  "method_str GET = lit ''GET''"
| "method_str HEAD = lit ''HEAD''"
| "method_str POST = lit ''POST''"
| "method_str PATCH = lit ''PATCH''"
| "method_str DELETE = lit ''DELETE''"
| "method_str (OtherMethod s) = s"

record route_permission =
  rp_method :: http_method
  rp_path :: ustring
  rp_permission :: ustring

text \<open>Segment by segment; a segment of the template in braces matches any.\<close>

definition is_wildcard :: "ustring \<Rightarrow> bool" where
  "is_wildcard t \<longleftrightarrow> prefix (lit ''{'') t \<and> suffix (lit ''}'') t"

fun segments_match :: "ustring list \<Rightarrow> ustring list \<Rightarrow> bool" where
  "segments_match [] [] = True"
| "segments_match (t # ts) (a # actual) = (if \<not> is_wildcard t \<and> t \<noteq> a then False else segments_match ts actual)"
| "segments_match _ _ = False"

definition SLASH :: uchar where "SLASH = 47"

definition path_matches :: "ustring \<Rightarrow> ustring \<Rightarrow> bool" where
  "path_matches tmpl actual = segments_match (split_on SLASH tmpl) (split_on SLASH actual)"

definition applies_to :: "route_permission \<Rightarrow> http_method \<Rightarrow> ustring \<Rightarrow> bool" where
  "applies_to r mth path \<longleftrightarrow> (rp_method r = mth \<or> rp_method r = GET \<and> mth = HEAD) \<and> path_matches (rp_path r) path"

text \<open>The outcome of authenticating the request is an argument: it runs only when a requirement applies, and has no
  effect of its own on the answer otherwise.\<close>

definition enforce_route_permission ::
    "(ustring \<Rightarrow> ustring) \<Rightarrow> route_permission list \<Rightarrow> cratestack_error + cs_context \<Rightarrow> http_method \<Rightarrow> ustring
      \<Rightarrow> cratestack_error + unit" where
  "enforce_route_permission debug requirements auth mth path =
     (case find (\<lambda>r. applies_to r mth path) requirements of
        None \<Rightarrow> Inr ()
      | Some requirement \<Rightarrow> bind_res auth (\<lambda>ctx. require_permission debug ctx (rp_permission requirement)))"

subsection \<open>auth.rs\<close>

datatype principal_kind = UserKind | AppKind

fun kind_as_str :: "principal_kind \<Rightarrow> ustring" where
  "kind_as_str UserKind = lit ''user''"
| "kind_as_str AppKind = lit ''app''"

record principal =
  pr_sub :: ustring
  pr_kind :: principal_kind
  pr_role :: ustring
  pr_app_id :: ustring

record grants =
  gr_message_read :: bool
  gr_opt_out_read :: bool

definition no_grants :: grants where
  "no_grants = \<lparr>gr_message_read = False, gr_opt_out_read = False\<rparr>"

definition MESSAGE_READ_PERMISSION :: ustring where "MESSAGE_READ_PERMISSION = lit ''sms:read''"
definition OPT_OUT_READ_PERMISSION :: ustring where "OPT_OUT_READ_PERMISSION = lit ''optout:read''"
definition OPT_OUT_MANAGE_PERMISSION :: ustring where "OPT_OUT_MANAGE_PERMISSION = lit ''optout:manage''"

definition grants_of :: "ustring list \<Rightarrow> cs_value \<Rightarrow> grants" where
  "grants_of perms scope =
     (let s = (case scope of StringV s \<Rightarrow> Some s | _ \<Rightarrow> None)
      in \<lparr>gr_message_read = holds perms s MESSAGE_READ_PERMISSION,
          gr_opt_out_read = holds perms s OPT_OUT_READ_PERMISSION \<or> holds perms None OPT_OUT_MANAGE_PERMISSION\<rparr>)"

definition claim :: "bool \<Rightarrow> cs_value" where
  "claim granted = StringV (if granted then lit ''granted'' else lit ''denied'')"

definition into_context_granting :: "principal \<Rightarrow> grants \<Rightarrow> cs_context" where
  "into_context_granting p g =
     \<lparr>ctx_auth = map_of
        [(lit ''sub'', StringV (pr_sub p)), (lit ''kind'', StringV (kind_as_str (pr_kind p))),
         (lit ''role'', StringV (pr_role p)), (lit ''appId'', StringV (pr_app_id p)),
         (lit ''messageRead'', claim (gr_message_read g)), (lit ''optOutRead'', claim (gr_opt_out_read g))],
      ctx_extensions = (\<lambda>_. None)\<rparr>"

definition into_context :: "principal \<Rightarrow> cs_context" where
  "into_context p = into_context_granting p no_grants"

definition system_context :: "ustring \<Rightarrow> cs_context" where
  "system_context sub = into_context \<lparr>pr_sub = sub, pr_kind = AppKind, pr_role = lit ''system'', pr_app_id = []\<rparr>"

record app_standing =
  as_client_id :: ustring
  as_app_id :: ustring
  as_scopes :: ustring

record user_standing =
  us_user_id :: ustring
  us_role :: ustring
  us_perms :: "ustring list"

datatype standing = AppStanding app_standing | UserStanding user_standing

fun standing_principal :: "standing \<Rightarrow> ustring" where
  "standing_principal (AppStanding a) = lit ''client:'' @ as_client_id a"
| "standing_principal (UserStanding u) = lit ''user:'' @ us_user_id u"

fun standing_parts :: "standing \<Rightarrow> principal \<times> ustring list \<times> cs_value" where
  "standing_parts (AppStanding a) =
     (\<lparr>pr_sub = as_client_id a, pr_kind = AppKind, pr_role = lit ''app'', pr_app_id = as_app_id a\<rparr>, [], StringV (as_scopes a))"
| "standing_parts (UserStanding u) =
     (\<lparr>pr_sub = us_user_id u, pr_kind = UserKind, pr_role = us_role u, pr_app_id = []\<rparr>, us_perms u, NullV)"

definition context_for :: "standing \<Rightarrow> cs_context" where
  "context_for s = (case standing_parts s of (p, perms, scope) \<Rightarrow>
     (into_context_granting p (grants_of perms scope))\<lparr>ctx_extensions :=
        [lit ''perms'' \<mapsto> ListV (map StringV perms), lit ''scope'' \<mapsto> scope]\<rparr>)"

definition DEVICE_ONLY_ROLES :: "ustring list" where "DEVICE_ONLY_ROLES = [lit ''owner'', lit ''admin'']"
definition RESERVED_ROLE_KEYS :: "ustring list" where "RESERVED_ROLE_KEYS = [lit ''system'', lit ''app'']"

definition DEVICE_REQUIRED :: ustring where
  "DEVICE_REQUIRED = lit ''this account's role acts only from a paired console key; a signed-in session cannot carry it''"

definition refuse_device_only_role :: "user_standing \<Rightarrow> cratestack_error + unit" where
  "refuse_device_only_role person =
     (if us_role person \<in> set DEVICE_ONLY_ROLES then Inl (Forbidden DEVICE_REQUIRED) else Inr ())"

subsection \<open>The pairing scope\<close>

text \<open>\<^verbatim>\<open>str::eq_ignore_ascii_case\<close>.\<close>

definition eq_ignore_ascii_case :: "ustring \<Rightarrow> ustring \<Rightarrow> bool" where
  "eq_ignore_ascii_case s t \<longleftrightarrow> (let low = map (\<lambda>c. if 65 \<le> c \<and> c \<le> 90 then c + 32 else c) in low s = low t)"

definition PAIR_SCOPE :: ustring where "PAIR_SCOPE = lit ''console:pair''"

definition names_pair_scope :: "ustring \<Rightarrow> bool" where
  "names_pair_scope scopes = list_ex (\<lambda>scope. eq_ignore_ascii_case scope PAIR_SCOPE) (unpack scopes)"

definition refuse_pair_scope :: "ustring \<Rightarrow> cratestack_error + unit" where
  "refuse_pair_scope scopes =
     (if names_pair_scope scopes
      then Inl (Forbidden (PAIR_SCOPE @ lit '' is granted only by `sms-gateway register-client`'')) else Inr ())"

definition require_pair_scope :: "cs_context \<Rightarrow> cratestack_error + unit" where
  "require_pair_scope ctx =
     (case ctx_extensions ctx (lit ''scope'') of
        Some (StringV scope) \<Rightarrow> if contains scope PAIR_SCOPE then Inr ()
          else Inl (Forbidden (lit ''registerConsoleKey needs the '' @ PAIR_SCOPE @ lit '' scope''))
      | _ \<Rightarrow> Inl (Forbidden (lit ''registerConsoleKey needs the '' @ PAIR_SCOPE @ lit '' scope'')))"

subsection \<open>Guards that read the body\<close>

record http_call =
  hc_method :: http_method
  hc_path :: ustring
  hc_headers :: "(ustring \<times> ustring) list"
  hc_bytes :: "u8 list option"

type_synonym 'a decode = "(ustring \<times> ustring) list \<Rightarrow> u8 list \<Rightarrow> cratestack_error + 'a"

record decoder =
  dc_route :: "http_method \<Rightarrow> ustring \<Rightarrow> bool"
  dc_create_client_scopes :: "ustring decode"
  dc_update_client_scopes :: "ustring option decode"
  dc_create_user_role :: "ustring decode"
  dc_update_user_role :: "ustring option decode"
  dc_create_endpoint_mode :: "webhook_delivery_mode decode"
  dc_update_endpoint :: "(webhook_delivery_mode option \<times> ustring option option \<times> ustring option option) decode"

datatype shape = CreateShape | UpdateShape

record guarded_route =
  gu_method :: http_method
  gu_path :: ustring
  gu_shape :: shape

definition guard_of :: "guarded_route list \<Rightarrow> http_call \<Rightarrow> guarded_route option" where
  "guard_of routes call = find (\<lambda>r. gu_method r = hc_method call \<and> path_matches (gu_path r) (hc_path call)) routes"

definition as_client_error :: "cratestack_error \<Rightarrow> cratestack_error" where
  "as_client_error error = (case error of
     UnsupportedMediaType _ \<Rightarrow> error
   | BadRequest _ \<Rightarrow> error
   | _ \<Rightarrow> BadRequest (lit ''request body could not be decoded''))"

definition map_err :: "('e \<Rightarrow> 'f) \<Rightarrow> 'e + 'a \<Rightarrow> 'f + 'a" where
  "map_err g r = (case r of Inl e \<Rightarrow> Inl (g e) | Inr x \<Rightarrow> Inr x)"

text \<open>The shape three guards share: the route must be generated, the body readable, and \<open>refuse\<close> judges what it
  decodes to.\<close>

definition unreadable :: cratestack_error where
  "unreadable = BadRequest (lit ''request body is too large or unreadable'')"

definition refuse_pair_grant ::
    "decoder \<Rightarrow> guarded_route \<Rightarrow> (ustring \<times> ustring) list \<Rightarrow> u8 list \<Rightarrow> cratestack_error + unit" where
  "refuse_pair_grant D route headers body =
     (if \<not> dc_route D (gu_method route) (gu_path route)
      then Inl (Internal (lit ''pair-scope guard: no generated route '' @ method_str (gu_method route) @ lit '' '' @ gu_path route))
      else bind_res
        (case gu_shape route of
           CreateShape \<Rightarrow> map_err as_client_error (dc_create_client_scopes D headers body)
         | UpdateShape \<Rightarrow> bind_res (map_err as_client_error (dc_update_client_scopes D headers body))
             (\<lambda>scopes. Inr (case scopes of Some s \<Rightarrow> s | None \<Rightarrow> [])))
        refuse_pair_scope)"

definition PAIR_GUARDED_ROUTES :: "guarded_route list" where
  "PAIR_GUARDED_ROUTES =
     [\<lparr>gu_method = POST, gu_path = lit ''/app_clients'', gu_shape = CreateShape\<rparr>,
      \<lparr>gu_method = PATCH, gu_path = lit ''/app_clients/{id}'', gu_shape = UpdateShape\<rparr>]"

definition enforce_pair_scope_guard :: "decoder \<Rightarrow> http_call \<Rightarrow> cratestack_error + unit" where
  "enforce_pair_scope_guard D call =
     (case guard_of PAIR_GUARDED_ROUTES call of
        None \<Rightarrow> Inr ()
      | Some route \<Rightarrow> (case hc_bytes call of
          None \<Rightarrow> Inl unreadable
        | Some bytes \<Rightarrow> refuse_pair_grant D route (hc_headers call) bytes))"

definition OWNER_ROLE_KEY :: ustring where "OWNER_ROLE_KEY = lit ''owner''"

definition is_owner :: "cs_context \<Rightarrow> bool" where
  "is_owner ctx \<longleftrightarrow> text_field ctx (lit ''role'') = Some OWNER_ROLE_KEY"

definition names_owner :: "ustring \<Rightarrow> bool" where
  "names_owner named_role = eq_ignore_ascii_case (trim named_role) OWNER_ROLE_KEY"

definition refuse_owner_grant ::
    "decoder \<Rightarrow> guarded_route \<Rightarrow> (ustring \<times> ustring) list \<Rightarrow> u8 list \<Rightarrow> cratestack_error + unit" where
  "refuse_owner_grant D route headers body =
     (if \<not> dc_route D (gu_method route) (gu_path route)
      then Inl (Internal (lit ''owner-grant guard: no generated route '' @ method_str (gu_method route) @ lit '' '' @ gu_path route))
      else bind_res
        (case gu_shape route of
           CreateShape \<Rightarrow> map_err as_client_error (dc_create_user_role D headers body)
         | UpdateShape \<Rightarrow> bind_res (map_err as_client_error (dc_update_user_role D headers body))
             (\<lambda>role. Inr (case role of Some s \<Rightarrow> s | None \<Rightarrow> [])))
        (\<lambda>named_role. if names_owner named_role then Inl (Forbidden (lit ''only an owner may assign the owner role''))
           else Inr ()))"

definition OWNER_GUARDED_ROUTES :: "guarded_route list" where
  "OWNER_GUARDED_ROUTES =
     [\<lparr>gu_method = POST, gu_path = lit ''/users'', gu_shape = CreateShape\<rparr>,
      \<lparr>gu_method = PATCH, gu_path = lit ''/users/{id}'', gu_shape = UpdateShape\<rparr>]"

definition enforce_owner_grant_guard ::
    "decoder \<Rightarrow> cratestack_error + cs_context \<Rightarrow> http_call \<Rightarrow> cratestack_error + unit" where
  "enforce_owner_grant_guard D auth call =
     (case guard_of OWNER_GUARDED_ROUTES call of
        None \<Rightarrow> Inr ()
      | Some route \<Rightarrow> bind_res auth (\<lambda>ctx.
          if is_owner ctx then Inr ()
          else (case hc_bytes call of
            None \<Rightarrow> Inl unreadable
          | Some bytes \<Rightarrow> refuse_owner_grant D route (hc_headers call) bytes)))"

definition AUTH_METHOD_DISABLED :: ustring where "AUTH_METHOD_DISABLED = lit ''auth_method_disabled''"

definition hmac_require :: "hmac_webhooks \<Rightarrow> ustring \<Rightarrow> cratestack_error + unit" where
  "hmac_require h what = (case h of
     Permitted \<Rightarrow> Inr ()
   | HmacDisabled \<Rightarrow> Inl (Validation (AUTH_METHOD_DISABLED
       @ lit '': this deployment does not permit hmac_webhooks (auth.methods), so '' @ what
       @ lit ''. Use a sealed endpoint'')))"

definition refuse_hmac_body ::
    "decoder \<Rightarrow> guarded_route \<Rightarrow> (ustring \<times> ustring) list \<Rightarrow> u8 list \<Rightarrow> cratestack_error + unit" where
  "refuse_hmac_body D route headers body =
     (if \<not> dc_route D (gu_method route) (gu_path route)
      then Inl (Internal (lit ''hmac gate: no generated route '' @ method_str (gu_method route) @ lit '' '' @ gu_path route))
      else bind_res
        (case gu_shape route of
           CreateShape \<Rightarrow> bind_res (map_err as_client_error (dc_create_endpoint_mode D headers body))
             (\<lambda>mode. Inr (mode = hmac))
         | UpdateShape \<Rightarrow> bind_res (map_err as_client_error (dc_update_endpoint D headers body))
             (\<lambda>(mode, secret, prev). Inr (mode = Some hmac \<or> (\<exists>s. secret = Some (Some s)) \<or> (\<exists>s. prev = Some (Some s)))))
        (\<lambda>sets_hmac. if sets_hmac
           then hmac_require HmacDisabled (case gu_shape route of
               CreateShape \<Rightarrow> lit ''an hmac endpoint cannot be created''
             | UpdateShape \<Rightarrow> lit ''an endpoint cannot be given an hmac mode or a signing secret'')
           else Inr ()))"

definition HMAC_GUARDED_ROUTES :: "guarded_route list" where
  "HMAC_GUARDED_ROUTES =
     [\<lparr>gu_method = POST, gu_path = lit ''/webhook_endpoints'', gu_shape = CreateShape\<rparr>,
      \<lparr>gu_method = PATCH, gu_path = lit ''/webhook_endpoints/{id}'', gu_shape = UpdateShape\<rparr>]"

definition enforce_hmac_gate :: "decoder \<Rightarrow> hmac_webhooks \<Rightarrow> http_call \<Rightarrow> cratestack_error + unit" where
  "enforce_hmac_gate D h call =
     (if is_permitted h then Inr ()
      else case guard_of HMAC_GUARDED_ROUTES call of
        None \<Rightarrow> Inr ()
      | Some route \<Rightarrow> (case hc_bytes call of
          None \<Rightarrow> Inl unreadable
        | Some bytes \<Rightarrow> refuse_hmac_body D route (hc_headers call) bytes))"

subsection \<open>The keypair gate\<close>

datatype keypair = KeypairPermitted | KeypairDisabled

definition keypair_from_permitted :: "bool \<Rightarrow> keypair" where
  "keypair_from_permitted allowed = (if allowed then KeypairPermitted else KeypairDisabled)"

definition REGISTRATION_ROUTES :: "(ustring \<times> ustring) list" where
  "REGISTRATION_ROUTES =
     [(lit ''/$procs/registerAppClientKey'',
       lit ''a signing key cannot be registered; register a machine client with provision-client''),
      (lit ''/$procs/registerConsoleKey'',
       lit ''a console key cannot be paired; pairing a console returns with VSA-5'')]"

definition keypair_require :: "keypair \<Rightarrow> ustring \<Rightarrow> cratestack_error + unit" where
  "keypair_require k what = (case k of
     KeypairPermitted \<Rightarrow> Inr ()
   | KeypairDisabled \<Rightarrow> Inl (Validation (AUTH_METHOD_DISABLED
       @ lit '': this deployment does not permit keypair (auth.methods), so '' @ what)))"

definition enforce_keypair_gate :: "keypair \<Rightarrow> http_call \<Rightarrow> cratestack_error + unit" where
  "enforce_keypair_gate k call =
     (if k = KeypairPermitted \<or> hc_method call \<noteq> POST then Inr ()
      else case find (\<lambda>(path, _). path = hc_path call) REGISTRATION_ROUTES of
        None \<Rightarrow> Inr ()
      | Some (_, what) \<Rightarrow> keypair_require k what)"

subsection \<open>The guards of the router\<close>

definition PROVIDER_WRITE_ROUTES :: "route_permission list" where
  "PROVIDER_WRITE_ROUTES =
     [\<lparr>rp_method = PATCH, rp_path = lit ''/providers/{id}'', rp_permission = lit ''provider:update''\<rparr>]"

definition JOB_READ_ROUTES :: "route_permission list" where
  "JOB_READ_ROUTES =
     [\<lparr>rp_method = GET, rp_path = lit ''/jobs'', rp_permission = lit ''job:read''\<rparr>,
      \<lparr>rp_method = GET, rp_path = lit ''/jobs/{id}'', rp_permission = lit ''job:read''\<rparr>]"

definition PROVIDER_ROUTE_READ_ROUTES :: "route_permission list" where
  "PROVIDER_ROUTE_READ_ROUTES =
     [\<lparr>rp_method = GET, rp_path = lit ''/providers'', rp_permission = lit ''provider:read''\<rparr>,
      \<lparr>rp_method = GET, rp_path = lit ''/providers/{id}'', rp_permission = lit ''provider:read''\<rparr>,
      \<lparr>rp_method = GET, rp_path = lit ''/routes'', rp_permission = lit ''route:read''\<rparr>,
      \<lparr>rp_method = GET, rp_path = lit ''/routes/{id}'', rp_permission = lit ''route:read''\<rparr>]"

definition SENDER_AND_WEBHOOK_WRITE_ROUTES :: "route_permission list" where
  "SENDER_AND_WEBHOOK_WRITE_ROUTES =
     [\<lparr>rp_method = POST, rp_path = lit ''/sender_ids'', rp_permission = lit ''sender:manage''\<rparr>,
      \<lparr>rp_method = PATCH, rp_path = lit ''/sender_ids/{id}'', rp_permission = lit ''sender:manage''\<rparr>,
      \<lparr>rp_method = POST, rp_path = lit ''/sender_id_registrations'', rp_permission = lit ''sender:manage''\<rparr>,
      \<lparr>rp_method = PATCH, rp_path = lit ''/sender_id_registrations/{id}'', rp_permission = lit ''sender:manage''\<rparr>,
      \<lparr>rp_method = POST, rp_path = lit ''/webhook_endpoints'', rp_permission = lit ''webhook:manage''\<rparr>,
      \<lparr>rp_method = PATCH, rp_path = lit ''/webhook_endpoints/{id}'', rp_permission = lit ''webhook:manage''\<rparr>,
      \<lparr>rp_method = DELETE, rp_path = lit ''/webhook_endpoints/{id}'', rp_permission = lit ''webhook:manage''\<rparr>]"

definition MESSAGE_READ_ROUTES :: "route_permission list" where
  "MESSAGE_READ_ROUTES =
     [\<lparr>rp_method = GET, rp_path = lit ''/messages'', rp_permission = lit ''sms:read''\<rparr>,
      \<lparr>rp_method = GET, rp_path = lit ''/messages/{id}'', rp_permission = lit ''sms:read''\<rparr>,
      \<lparr>rp_method = GET, rp_path = lit ''/delivery_receipts'', rp_permission = lit ''sms:read''\<rparr>,
      \<lparr>rp_method = GET, rp_path = lit ''/delivery_receipts/{id}'', rp_permission = lit ''sms:read''\<rparr>,
      \<lparr>rp_method = GET, rp_path = lit ''/message_parts'', rp_permission = lit ''sms:read''\<rparr>,
      \<lparr>rp_method = GET, rp_path = lit ''/message_parts/{id}'', rp_permission = lit ''sms:read''\<rparr>]"

lemmas route_tables = PROVIDER_WRITE_ROUTES_def JOB_READ_ROUTES_def PROVIDER_ROUTE_READ_ROUTES_def
  SENDER_AND_WEBHOOK_WRITE_ROUTES_def MESSAGE_READ_ROUTES_def

text \<open>The layers of \<^verbatim>\<open>router\<close> from the outside in, from the pairing guard to the generated routes; the
  layers outside them (source rate limit, envelope, bearer door, rate limit, idempotency) are the framework's or establish
  who the caller is.\<close>

definition guards :: "(ustring \<Rightarrow> ustring) \<Rightarrow> decoder \<Rightarrow> hmac_webhooks \<Rightarrow> keypair \<Rightarrow> cratestack_error + cs_context \<Rightarrow> http_call
    \<Rightarrow> cratestack_error + unit" where
  "guards debug D h k auth call =
     (let permission = (\<lambda>requirements. enforce_route_permission debug requirements auth (hc_method call) (hc_path call))
      in bind_res (enforce_pair_scope_guard D call) (\<lambda>_.
         bind_res (enforce_owner_grant_guard D auth call) (\<lambda>_.
         bind_res (permission MESSAGE_READ_ROUTES) (\<lambda>_.
         bind_res (permission SENDER_AND_WEBHOOK_WRITE_ROUTES) (\<lambda>_.
         bind_res (permission PROVIDER_ROUTE_READ_ROUTES) (\<lambda>_.
         bind_res (permission JOB_READ_ROUTES) (\<lambda>_.
         bind_res (permission PROVIDER_WRITE_ROUTES) (\<lambda>_.
         bind_res (enforce_hmac_gate D h call) (\<lambda>_.
         enforce_keypair_gate k call)))))))))"

subsection \<open>consent.rs and composition.rs\<close>

definition MARKETING_QUIET_HOURS_START_WAT :: int where "MARKETING_QUIET_HOURS_START_WAT = 8"
definition MARKETING_QUIET_HOURS_END_WAT :: int where "MARKETING_QUIET_HOURS_END_WAT = 20"
definition WAT_OFFSET_HOURS :: int where "WAT_OFFSET_HOURS = 1"

fun requires_recipient_consent_controls :: "schema_class \<Rightarrow> bool" where
  "requires_recipient_consent_controls otp = False"
| "requires_recipient_consent_controls transactional = False"
| "requires_recipient_consent_controls notification = True"
| "requires_recipient_consent_controls marketing = True"

fun subject_to_quiet_hours :: "schema_class \<Rightarrow> bool" where
  "subject_to_quiet_hours marketing = True"
| "subject_to_quiet_hours otp = False"
| "subject_to_quiet_hours transactional = False"
| "subject_to_quiet_hours notification = False"

text \<open>\<^verbatim>\<open>Timelike::hour\<close> of a UTC time.\<close>

definition hours :: "int \<Rightarrow> duration" where
  "hours n = minutes (60 * n)"

definition hour_of :: "instant \<Rightarrow> int" where
  "hour_of t = t div hours 1 mod 24"

definition is_within_marketing_quiet_hours :: "instant \<Rightarrow> bool" where
  "is_within_marketing_quiet_hours now_utc =
     (let wat_hour = hour_of (now_utc + hours WAT_OFFSET_HOURS)
      in MARKETING_QUIET_HOURS_START_WAT \<le> wat_hour \<and> wat_hour < MARKETING_QUIET_HOURS_END_WAT)"

definition COMPOSE_PERMISSION :: ustring where "COMPOSE_PERMISSION = lit ''sms:send''"
definition OPERATIONS :: "ustring list" where "OPERATIONS = [lit ''send'', lit ''preview'']"

definition is_sha256_hex :: "ustring \<Rightarrow> bool" where
  "is_sha256_hex text \<longleftrightarrow> byte_len text = 64 \<and> list_all (\<lambda>c. is_ascii_digit c \<or> 97 \<le> c \<and> c \<le> 102) text"

record authorize_input =
  ai_operation :: ustring
  ai_inputSha256 :: ustring

record composition_authorization =
  ca_userId :: ustring
  ca_role :: ustring
  ca_operation :: ustring
  ca_inputSha256 :: ustring

definition authorize :: "(ustring \<Rightarrow> ustring) \<Rightarrow> cs_context \<Rightarrow> authorize_input \<Rightarrow> cratestack_error + composition_authorization" where
  "authorize debug ctx args =
     (if text_field ctx (lit ''kind'') \<noteq> Some (kind_as_str UserKind)
      then Inl (Forbidden (lit ''authorizeComposition is for a signed-in person only''))
      else bind_res (require_permission debug ctx COMPOSE_PERMISSION) (\<lambda>_.
        if ai_operation args \<notin> set OPERATIONS then Inl (Validation (lit ''operation must be `send` or `preview`''))
        else if \<not> is_sha256_hex (ai_inputSha256 args)
        then Inl (Validation (lit ''inputSha256 must be 64 lowercase hexadecimal digits''))
        else case (text_field ctx (lit ''sub''), text_field ctx (lit ''role'')) of
          (Some user_id, Some role) \<Rightarrow> Inr \<lparr>ca_userId = user_id, ca_role = role, ca_operation = ai_operation args,
            ca_inputSha256 = ai_inputSha256 args\<rparr>
        | _ \<Rightarrow> Inl (Unauthorized (lit ''the caller names no person''))))"

subsection \<open>What the guards let through\<close>

text \<open>Two templates that match one path agree segment by segment, up to wildcards.\<close>

fun compatible :: "ustring list \<Rightarrow> ustring list \<Rightarrow> bool" where
  "compatible [] [] = True"
| "compatible (t # ts) (u # us) = ((t = u \<or> is_wildcard t \<or> is_wildcard u) \<and> compatible ts us)"
| "compatible _ _ = False"

lemma segments_match_compatible: "segments_match ts xs \<Longrightarrow> segments_match us xs \<Longrightarrow> compatible ts us"
proof (induction ts xs arbitrary: us rule: segments_match.induct)
  case (2 t ts a xs)
  then show ?case by (cases us) (auto split: if_splits)
next
  case 1
  then show ?case by (cases us) auto
qed auto

definition overlap :: "route_permission \<Rightarrow> route_permission \<Rightarrow> bool" where
  "overlap r r' \<longleftrightarrow> (rp_method r = rp_method r' \<or> {rp_method r, rp_method r'} = {GET, HEAD})
     \<and> compatible (split_on SLASH (rp_path r)) (split_on SLASH (rp_path r'))"

lemma applies_overlap: "applies_to r mth path \<Longrightarrow> applies_to r' mth path \<Longrightarrow> overlap r r'"
  by (auto simp: applies_to_def path_matches_def overlap_def dest: segments_match_compatible)

text \<open>In a consistent table, whatever applies asks for the same permission as the first entry that does.\<close>

definition consistent :: "route_permission list \<Rightarrow> bool" where
  "consistent tab \<longleftrightarrow> list_all (\<lambda>r. list_all (\<lambda>r'. overlap r r' \<longrightarrow> rp_permission r = rp_permission r') tab) tab"

lemma enforce_consistent:
  assumes "consistent tab" "r \<in> set tab" "applies_to r mth path"
    and "enforce_route_permission debug tab auth mth path = Inr ()"
  shows "\<exists>ctx. auth = Inr ctx \<and> holds (context_perms ctx) (context_scope ctx) (rp_permission r)"
proof -
  obtain r' where r': "find (\<lambda>r. applies_to r mth path) tab = Some r'"
    using assms(2,3) by (cases "find (\<lambda>r. applies_to r mth path) tab") (auto simp: find_None_iff)
  have first: "applies_to r' mth path" "r' \<in> set tab" using find_in_set [OF r'] by simp_all
  have "overlap r' r" by (rule applies_overlap [OF first(1) assms(3)])
  with assms(1,2) first(2) have "rp_permission r' = rp_permission r"
    unfolding consistent_def list_all_iff by blast
  with assms(4) r' show ?thesis
    by (auto simp: enforce_route_permission_def bind_res_Inr_conv require_permission_def split: if_splits)
qed

lemma lit_inject: "lit s = lit t \<longleftrightarrow> s = t"
  by (simp add: lit_def inj_map_eq_map inj_def of_char_eq_iff)

lemma lit_Nil_iff: "lit s = [] \<longleftrightarrow> s = []" "[] = lit s \<longleftrightarrow> s = []"
  by (simp_all add: lit_def)

text \<open>Splitting a literal, on its characters.\<close>

fun split_chars :: "char \<Rightarrow> string \<Rightarrow> string \<Rightarrow> string list" where
  "split_chars sep run [] = [rev run]"
| "split_chars sep run (c # cs) = (if c = sep then rev run # split_chars sep [] cs else split_chars sep (c # run) cs)"

lemma split_acc_lit: "split_acc (of_char sep) (lit (rev run)) (lit s) = map lit (split_chars sep run s)"
proof (induction sep run s rule: split_chars.induct)
  case (2 sep run c cs)
  have "lit (rev run) @ [of_char c] = lit (rev (c # run))" by (simp add: lit_def)
  with 2 show ?case by (simp add: of_char_eq_iff)
qed simp

lemma split_on_lit: "split_on SLASH (lit s) = map lit (split_chars CHR ''/'' [] s)"
  using split_acc_lit [of "CHR ''/''" "[]" s] by (simp add: split_on_def SLASH_def)

lemma path_splits:
  "split_on SLASH (lit ''/app_clients'') = [[], lit ''app_clients'']"
  "split_on SLASH (lit ''/app_clients/{id}'') = [[], lit ''app_clients'', lit ''{id}'']"
  "split_on SLASH (lit ''/delivery_receipts'') = [[], lit ''delivery_receipts'']"
  "split_on SLASH (lit ''/delivery_receipts/{id}'') = [[], lit ''delivery_receipts'', lit ''{id}'']"
  "split_on SLASH (lit ''/jobs'') = [[], lit ''jobs'']"
  "split_on SLASH (lit ''/jobs/{id}'') = [[], lit ''jobs'', lit ''{id}'']"
  "split_on SLASH (lit ''/message_parts'') = [[], lit ''message_parts'']"
  "split_on SLASH (lit ''/message_parts/{id}'') = [[], lit ''message_parts'', lit ''{id}'']"
  "split_on SLASH (lit ''/messages'') = [[], lit ''messages'']"
  "split_on SLASH (lit ''/messages/{id}'') = [[], lit ''messages'', lit ''{id}'']"
  "split_on SLASH (lit ''/providers'') = [[], lit ''providers'']"
  "split_on SLASH (lit ''/providers/{id}'') = [[], lit ''providers'', lit ''{id}'']"
  "split_on SLASH (lit ''/routes'') = [[], lit ''routes'']"
  "split_on SLASH (lit ''/routes/{id}'') = [[], lit ''routes'', lit ''{id}'']"
  "split_on SLASH (lit ''/sender_id_registrations'') = [[], lit ''sender_id_registrations'']"
  "split_on SLASH (lit ''/sender_id_registrations/{id}'') = [[], lit ''sender_id_registrations'', lit ''{id}'']"
  "split_on SLASH (lit ''/sender_ids'') = [[], lit ''sender_ids'']"
  "split_on SLASH (lit ''/sender_ids/{id}'') = [[], lit ''sender_ids'', lit ''{id}'']"
  "split_on SLASH (lit ''/users'') = [[], lit ''users'']"
  "split_on SLASH (lit ''/users/{id}'') = [[], lit ''users'', lit ''{id}'']"
  "split_on SLASH (lit ''/webhook_endpoints'') = [[], lit ''webhook_endpoints'']"
  "split_on SLASH (lit ''/webhook_endpoints/{id}'') = [[], lit ''webhook_endpoints'', lit ''{id}'']"
  by (simp_all add: split_on_lit del: lit_Cons)

lemma wildcard_segments: "is_wildcard (lit ''{id}'')" "\<not> is_wildcard []"
  "\<not> is_wildcard (lit ''app_clients'')"
  "\<not> is_wildcard (lit ''delivery_receipts'')"
  "\<not> is_wildcard (lit ''jobs'')"
  "\<not> is_wildcard (lit ''message_parts'')"
  "\<not> is_wildcard (lit ''messages'')"
  "\<not> is_wildcard (lit ''providers'')"
  "\<not> is_wildcard (lit ''routes'')"
  "\<not> is_wildcard (lit ''sender_id_registrations'')"
  "\<not> is_wildcard (lit ''sender_ids'')"
  "\<not> is_wildcard (lit ''users'')"
  "\<not> is_wildcard (lit ''webhook_endpoints'')"
  by (simp_all add: is_wildcard_def suffix_def)

lemma tables_consistent:
  "consistent PROVIDER_WRITE_ROUTES" "consistent JOB_READ_ROUTES" "consistent PROVIDER_ROUTE_READ_ROUTES"
  "consistent SENDER_AND_WEBHOOK_WRITE_ROUTES" "consistent MESSAGE_READ_ROUTES"
  by (simp_all add: consistent_def overlap_def route_tables path_splits wildcard_segments lit_inject lit_Nil_iff
      doubleton_eq_iff del: lit_Cons)

definition permission_tables :: "route_permission list list" where
  "permission_tables = [PROVIDER_WRITE_ROUTES, JOB_READ_ROUTES, PROVIDER_ROUTE_READ_ROUTES,
     SENDER_AND_WEBHOOK_WRITE_ROUTES, MESSAGE_READ_ROUTES]"

lemma guards_parts:
  assumes "guards debug D h k auth call = Inr ()"
  shows "enforce_pair_scope_guard D call = Inr ()" "enforce_owner_grant_guard D auth call = Inr ()"
    "tab \<in> set permission_tables \<Longrightarrow>
       enforce_route_permission debug tab auth (hc_method call) (hc_path call) = Inr ()"
    "enforce_hmac_gate D h call = Inr ()" "enforce_keypair_gate k call = Inr ()"
  using assms by (auto simp: guards_def Let_def bind_res_Inr_conv permission_tables_def)

subsection \<open>A deployment to test the guards on\<close>

definition demo_context :: "ustring \<Rightarrow> cs_context" where
  "demo_context scopes = context_for (AppStanding \<lparr>as_client_id = lit ''c1'', as_app_id = lit ''a1'', as_scopes = scopes\<rparr>)"

definition demo_decoder :: "ustring \<Rightarrow> decoder" where
  "demo_decoder text = \<lparr>dc_route = (\<lambda>_ _. True), dc_create_client_scopes = (\<lambda>_ _. Inr text),
     dc_update_client_scopes = (\<lambda>_ _. Inr (Some text)), dc_create_user_role = (\<lambda>_ _. Inr text),
     dc_update_user_role = (\<lambda>_ _. Inr (Some text)), dc_create_endpoint_mode = (\<lambda>_ _. Inr sealed),
     dc_update_endpoint = (\<lambda>_ _. Inr (None, None, None))\<rparr>"

definition demo_call :: "http_method \<Rightarrow> string \<Rightarrow> http_call" where
  "demo_call mth path = \<lparr>hc_method = mth, hc_path = lit path, hc_headers = [], hc_bytes = Some []\<rparr>"

lemma demo_contexts:
  "context_perms (demo_context scopes) = []" "context_scope (demo_context scopes) = Some scopes"
  "ctx_extensions (demo_context scopes) (lit ''scope'') = Some (StringV scopes)" "\<not> is_owner (demo_context scopes)"
  by (simp_all add: demo_context_def context_for_def context_perms_def context_scope_def string_items_def
      is_owner_def text_field_def into_context_granting_def OWNER_ROLE_KEY_def map_filter_def)

lemma demo_sms_read: "contains (lit '' sms:read '') (lit ''sms:read'')"
  by (simp add: contains_def unpack_def split_whitespace_def is_whitespace_def)

lemma demo_sms_read_no_pair: "\<not> names_pair_scope (lit '' sms:read '')"
  by (simp add: names_pair_scope_def unpack_def split_whitespace_def is_whitespace_def eq_ignore_ascii_case_def
      PAIR_SCOPE_def)

lemma demo_no_owner: "\<not> names_owner (lit ''admin'')"
  by (simp add: names_owner_def trim_def is_whitespace_def eq_ignore_ascii_case_def OWNER_ROLE_KEY_def)

lemmas guard_eval = guards_def enforce_pair_scope_guard_def enforce_owner_grant_guard_def enforce_hmac_gate_def
  enforce_keypair_gate_def enforce_route_permission_def guard_of_def applies_to_def path_matches_def route_tables
  PAIR_GUARDED_ROUTES_def OWNER_GUARDED_ROUTES_def HMAC_GUARDED_ROUTES_def path_splits wildcard_segments lit_inject lit_Nil_iff
  demo_call_def split_on_lit

text \<open>C9: A guarded route needs its permission. Whatever request reaches the generated routes, if an entry of one of
  the permission tables of the router covers its method and path (a HEAD counts as the GET it mirrors), then the caller
  is authenticated and holds exactly the permission that entry names, as one of its role's permissions or in its scope.\<close>

theorem route_needs_permission:
  assumes "guards debug D h k auth call = Inr ()"
    and "tab \<in> set permission_tables" "r \<in> set tab" "applies_to r (hc_method call) (hc_path call)"
  shows "\<exists>ctx. auth = Inr ctx \<and> holds (context_perms ctx) (context_scope ctx) (rp_permission r)"
proof -
  have "consistent tab" using assms(2) tables_consistent by (auto simp: permission_tables_def)
  then show ?thesis by (rule enforce_consistent [OF _ assms(3,4) guards_parts(3) [OF assms(1,2)]])
qed

text \<open>An application with the scope reads one message.\<close>

theorem route_needs_permission_witness:
  "guards id (demo_decoder []) HmacDisabled KeypairDisabled (Inr (demo_context (lit '' sms:read ''))) (demo_call HEAD ''/messages/m1'') = Inr ()
   \<and> (\<exists>ctx. Inr (demo_context (lit '' sms:read '')) = (Inr ctx :: cratestack_error + cs_context)
        \<and> holds (context_perms ctx) (context_scope ctx) (lit ''sms:read''))"
proof
  let ?r = "\<lparr>rp_method = GET, rp_path = lit ''/messages/{id}'', rp_permission = lit ''sms:read''\<rparr>"
  show go: "guards id (demo_decoder []) HmacDisabled KeypairDisabled (Inr (demo_context (lit '' sms:read '')))
      (demo_call HEAD ''/messages/m1'') = Inr ()"
    by (simp add: guard_eval require_permission_def holds_def demo_contexts demo_sms_read del: lit_Cons)
  have "?r \<in> set MESSAGE_READ_ROUTES" "applies_to ?r HEAD (lit ''/messages/m1'')"
    by (simp_all add: guard_eval del: lit_Cons)
  then show "\<exists>ctx. Inr (demo_context (lit '' sms:read '')) = (Inr ctx :: cratestack_error + cs_context)
      \<and> holds (context_perms ctx) (context_scope ctx) (lit ''sms:read'')"
    using route_needs_permission [OF go, of MESSAGE_READ_ROUTES ?r]
    by (simp add: permission_tables_def demo_call_def del: lit_Cons)
qed

lemma contains_names_pair: "contains s PAIR_SCOPE \<Longrightarrow> names_pair_scope s"
  unfolding contains_def names_pair_scope_def list_ex_iff eq_ignore_ascii_case_def Let_def by blast

lemma guard_of_pair:
  assumes "hc_method call = POST \<and> path_matches c (hc_path call) \<or> hc_method call = PATCH \<and> path_matches u (hc_path call)"
  shows "guard_of [\<lparr>gu_method = POST, gu_path = c, gu_shape = CreateShape\<rparr>,
      \<lparr>gu_method = PATCH, gu_path = u, gu_shape = UpdateShape\<rparr>] call =
    Some (if hc_method call = POST then \<lparr>gu_method = POST, gu_path = c, gu_shape = CreateShape\<rparr>
      else \<lparr>gu_method = PATCH, gu_path = u, gu_shape = UpdateShape\<rparr>)"
  using assms by (auto simp: guard_of_def)

text \<open>C10: A client written through the API cannot pair consoles. When a request to create or to change an application
  client reaches the generated routes, the scopes in its body, whatever their case and whichever white space separates
  them, do not let a caller that carries them register a console key.\<close>

theorem no_pair_grant:
  assumes "guards debug D h k auth call = Inr ()" "hc_bytes call = Some bytes"
    and "hc_method call = POST \<and> path_matches (lit ''/app_clients'') (hc_path call)
           \<and> dc_create_client_scopes D (hc_headers call) bytes = Inr scopes
       \<or> hc_method call = PATCH \<and> path_matches (lit ''/app_clients/{id}'') (hc_path call)
           \<and> dc_update_client_scopes D (hc_headers call) bytes = Inr (Some scopes)"
    and "ctx_extensions ctx (lit ''scope'') = Some (StringV scopes)"
  shows "\<exists>why. require_pair_scope ctx = Inl (Forbidden why)"
proof -
  note pass = guards_parts(1) [OF assms(1)]
  have guard: "guard_of PAIR_GUARDED_ROUTES call = Some (if hc_method call = POST
      then \<lparr>gu_method = POST, gu_path = lit ''/app_clients'', gu_shape = CreateShape\<rparr>
      else \<lparr>gu_method = PATCH, gu_path = lit ''/app_clients/{id}'', gu_shape = UpdateShape\<rparr>)"
    unfolding PAIR_GUARDED_ROUTES_def by (rule guard_of_pair) (use assms(3) in blast)
  from assms(3) have "refuse_pair_scope scopes = Inr ()"
    by (elim disjE; elim conjE)
      (use pass guard assms(2) in \<open>simp_all add: enforce_pair_scope_guard_def refuse_pair_grant_def map_err_def
        del: lit_Cons split: if_splits\<close>)
  then have "\<not> contains scopes PAIR_SCOPE"
    using contains_names_pair by (auto simp: refuse_pair_scope_def split: if_splits)
  with assms(4) show ?thesis by (simp add: require_pair_scope_def)
qed

text \<open>A client with an ordinary scope.\<close>

theorem no_pair_grant_witness:
  "guards id (demo_decoder (lit '' sms:read '')) Permitted KeypairPermitted (Inl unreadable) (demo_call POST ''/app_clients'') = Inr ()
   \<and> (\<exists>why. require_pair_scope (demo_context (lit '' sms:read '')) = Inl (Forbidden why))"
proof
  show go: "guards id (demo_decoder (lit '' sms:read '')) Permitted KeypairPermitted (Inl unreadable)
      (demo_call POST ''/app_clients'') = Inr ()"
    by (simp add: guard_eval demo_decoder_def refuse_pair_grant_def map_err_def refuse_pair_scope_def
        demo_sms_read_no_pair del: lit_Cons)
  have "path_matches (lit ''/app_clients'') (lit ''/app_clients'')" by (simp add: guard_eval del: lit_Cons)
  then show "\<exists>why. require_pair_scope (demo_context (lit '' sms:read '')) = Inl (Forbidden why)"
    by (intro no_pair_grant [OF go, of "[]"] disjI1)
      (simp_all add: demo_call_def demo_decoder_def demo_contexts del: lit_Cons)
qed

text \<open>C11: Only an owner makes an owner. When a request to create or change a person reaches the generated routes and
  the caller's role is not owner, the role in its body is not owner, in any case and with any white space around it.\<close>

theorem only_owner_grants_owner:
  assumes "guards debug D h k (Inr ctx) call = Inr ()" "\<not> is_owner ctx" "hc_bytes call = Some bytes"
    and "hc_method call = POST \<and> path_matches (lit ''/users'') (hc_path call)
           \<and> dc_create_user_role D (hc_headers call) bytes = Inr named
       \<or> hc_method call = PATCH \<and> path_matches (lit ''/users/{id}'') (hc_path call)
           \<and> dc_update_user_role D (hc_headers call) bytes = Inr (Some named)"
  shows "\<not> eq_ignore_ascii_case (trim named) OWNER_ROLE_KEY"
proof -
  note pass = guards_parts(2) [OF assms(1)]
  have guard: "guard_of OWNER_GUARDED_ROUTES call = Some (if hc_method call = POST
      then \<lparr>gu_method = POST, gu_path = lit ''/users'', gu_shape = CreateShape\<rparr>
      else \<lparr>gu_method = PATCH, gu_path = lit ''/users/{id}'', gu_shape = UpdateShape\<rparr>)"
    unfolding OWNER_GUARDED_ROUTES_def by (rule guard_of_pair) (use assms(4) in blast)
  from assms(4) have "\<not> names_owner named"
    by (elim disjE; elim conjE)
      (use pass guard assms(2,3) in \<open>simp_all add: enforce_owner_grant_guard_def refuse_owner_grant_def map_err_def
        del: lit_Cons split: if_splits\<close>)
  then show ?thesis by (simp add: names_owner_def)
qed

text \<open>An application's key makes an admin.\<close>

theorem only_owner_grants_owner_witness:
  "guards id (demo_decoder (lit ''admin'')) Permitted KeypairPermitted (Inr (demo_context [])) (demo_call POST ''/users'') = Inr ()
   \<and> \<not> eq_ignore_ascii_case (trim (lit ''admin'')) OWNER_ROLE_KEY"
proof
  show go: "guards id (demo_decoder (lit ''admin'')) Permitted KeypairPermitted (Inr (demo_context []))
      (demo_call POST ''/users'') = Inr ()"
    by (simp add: guard_eval demo_decoder_def refuse_owner_grant_def map_err_def demo_contexts demo_no_owner del: lit_Cons)
  have "path_matches (lit ''/users'') (lit ''/users'')" by (simp add: guard_eval del: lit_Cons)
  then show "\<not> eq_ignore_ascii_case (trim (lit ''admin'')) OWNER_ROLE_KEY"
    by (intro only_owner_grants_owner [OF go, of "[]"] disjI1)
      (simp_all add: demo_call_def demo_decoder_def demo_contexts del: lit_Cons)
qed

end
