(* ===== verification/Auth.thy ===== *)
theory Auth
  imports Access
begin

text \<open>
  Who a request comes from: the time-limited caches (\<^verbatim>\<open>sms-api/src/cache.rs\<close>), the directory of signers
  (\<^verbatim>\<open>signers.rs\<close>), the bearer door (\<^verbatim>\<open>bearer.rs\<close>) and the authentication of a request
  (\<^verbatim>\<open>auth.rs\<close>). The envelope that verifies a signature and the verifier of a token are outside: a
  request arrives with the signer the envelope verified, or the token the verifier accepted. The cache is passed through
  the calls: \<^verbatim>\<open>Instant::now\<close> and \<^verbatim>\<open>elapsed\<close> read the clock, and a clock that went back counts as
  no time passed.
\<close>

subsection \<open>cache.rs\<close>

record ('k, 'v) ttl_cache =
  tc_ttl :: duration
  tc_entries :: "'k \<rightharpoonup> 'v \<times> instant"

definition ttl_cache_new :: "duration \<Rightarrow> ('k, 'v) ttl_cache" where
  "ttl_cache_new ttl = \<lparr>tc_ttl = ttl, tc_entries = (\<lambda>_. None)\<rparr>"

definition fresh_in :: "('k, 'v) ttl_cache \<Rightarrow> instant \<Rightarrow> instant \<Rightarrow> bool" where
  "fresh_in c fetched_at now \<longleftrightarrow> max 0 (now - fetched_at) < tc_ttl c"

definition cache_get :: "('k, 'v) ttl_cache \<Rightarrow> 'k \<Rightarrow> 'v option prog" where
  "cache_get c key = (case tc_entries c key of
     None \<Rightarrow> Ret None
   | Some (value, fetched_at) \<Rightarrow> bind_prog utc_now (\<lambda>now. Ret (if fresh_in c fetched_at now then Some value else None)))"

definition get_or_fetch ::
    "('k, 'v) ttl_cache \<Rightarrow> 'k \<Rightarrow> ('k \<Rightarrow> ('e + 'v) prog) \<Rightarrow> (('e + 'v) \<times> ('k, 'v) ttl_cache) prog" where
  "get_or_fetch c key fetch = bind_prog (cache_get c key) (\<lambda>hit. case hit of
     Some value \<Rightarrow> Ret (Inr value, c)
   | None \<Rightarrow> bind_prog (fetch key) (\<lambda>r. case r of
       Inl e \<Rightarrow> Ret (Inl e, c)
     | Inr value \<Rightarrow> bind_prog utc_now (\<lambda>now. Ret (Inr value, c\<lparr>tc_entries := (tc_entries c)(key \<mapsto> (value, now))\<rparr>))))"

subsection \<open>signers.rs\<close>

definition STANDING_TTL :: duration where "STANDING_TTL = minutes 1"

record directory =
  dir_apps :: "(ustring, app_standing) ttl_cache"
  dir_users :: "(ustring, user_standing) ttl_cache"

definition directory_new :: directory where
  "directory_new = \<lparr>dir_apps = ttl_cache_new STANDING_TTL, dir_users = ttl_cache_new STANDING_TTL\<rparr>"

definition unknown :: cratestack_error where
  "unknown = Unauthorized (lit ''unknown signer'')"

text \<open>\<^verbatim>\<open>rows.into_iter().next().ok_or_else(...)\<close>.\<close>

definition first_or :: "cratestack_error \<Rightarrow> (cratestack_error + 'a list) prog \<Rightarrow> (cratestack_error + 'a) prog" where
  "first_or e p = try_prog p (\<lambda>rows. Ret (case rows of [] \<Rightarrow> Inl e | r # _ \<Rightarrow> Inr r))"

definition load_app :: "ustring \<Rightarrow> (cratestack_error + app_standing) prog" where
  "load_app app_client_id =
     try_prog (first_or unknown (find_app_clients (\<lambda>c. ac_id c = app_client_id \<and> ac_active c \<and> ac_retiredAt c = None) (Some 1)))
       (\<lambda>client. Ret (Inr \<lparr>as_client_id = aci_clientId (ac_input client), as_app_id = aci_appId (ac_input client),
          as_scopes = aci_scopes (ac_input client)\<rparr>))"

definition refuse_reserved_role :: "ustring \<Rightarrow> cratestack_error + unit" where
  "refuse_reserved_role named = (if named \<in> set RESERVED_ROLE_KEYS then Inl unknown else Inr ())"

definition load_user :: "ustring \<Rightarrow> (cratestack_error + user_standing) prog" where
  "load_user user_id =
     try_prog (first_or unknown (find_users (\<lambda>u. usr_id u = user_id \<and> usr_active u) (Some 1))) (\<lambda>person.
     try_prog (first_or unknown (find_roles (\<lambda>r. role_key r = usr_roleKey person) (Some 1))) (\<lambda>role_row.
     try_prog (Ret (refuse_reserved_role (role_key role_row))) (\<lambda>_.
     Ret (Inr \<lparr>us_user_id = usr_id person, us_role = role_key role_row, us_perms = unpack (role_permissions role_row)\<rparr>))))"

datatype cose_alg = Ed25519 | Esp256 | OtherAlg

record verified_signer =
  vs_thumbprint_hex :: ustring
  vs_alg :: cose_alg

definition live_client_key :: "ustring \<Rightarrow> (cratestack_error + client_key option) prog" where
  "live_client_key hex =
     try_prog (find_client_keys (\<lambda>k. cki_thumbprint (ck_input k) = hex \<and> ck_revokedAt k = None) (Some 1))
       (\<lambda>rows. Ret (Inr (case rows of [] \<Rightarrow> None | k # _ \<Rightarrow> Some k)))"

definition live_console_key :: "ustring \<Rightarrow> instant \<Rightarrow> (cratestack_error + console_key option) prog" where
  "live_console_key hex now =
     try_prog (find_console_keys (\<lambda>k. coki_thumbprint (cok_input k) = hex \<and> cok_revokedAt k = None
         \<and> now < coki_expiresAt (cok_input k)) (Some 1))
       (\<lambda>rows. Ret (Inr (case rows of [] \<Rightarrow> None | k # _ \<Rightarrow> Some k)))"

definition live_oauth_client :: "ustring \<Rightarrow> (cratestack_error + oauth_client) prog" where
  "live_oauth_client client_id =
     first_or unknown (find_oauth_clients (\<lambda>c. oc_clientId c = client_id \<and> oc_active c) (Some 1))"

definition app_of :: "directory \<Rightarrow> ustring \<Rightarrow> ((cratestack_error + app_standing) \<times> directory) prog" where
  "app_of d i = bind_prog (get_or_fetch (dir_apps d) i load_app) (\<lambda>(r, c). Ret (r, d\<lparr>dir_apps := c\<rparr>))"

definition user_of :: "directory \<Rightarrow> ustring \<Rightarrow> ((cratestack_error + user_standing) \<times> directory) prog" where
  "user_of d i = bind_prog (get_or_fetch (dir_users d) i load_user) (\<lambda>(r, c). Ret (r, d\<lparr>dir_users := c\<rparr>))"

text \<open>\<^verbatim>\<open>?\<close> on a result that comes with the directory.\<close>

definition try_dir :: "('e + 'a) prog \<Rightarrow> 's \<Rightarrow> ('a \<Rightarrow> (('e + 'b) \<times> 's) prog) \<Rightarrow> (('e + 'b) \<times> 's) prog" where
  "try_dir p d f = bind_prog p (\<lambda>r. case r of Inl e \<Rightarrow> Ret (Inl e, d) | Inr x \<Rightarrow> f x)"

definition standing_of :: "directory \<Rightarrow> verified_signer \<Rightarrow> instant \<Rightarrow> ((cratestack_error + standing) \<times> directory) prog" where
  "standing_of d signer now = (case vs_alg signer of
     Ed25519 \<Rightarrow> try_dir (live_client_key (vs_thumbprint_hex signer)) d (\<lambda>key. case key of
         None \<Rightarrow> Ret (Inl unknown, d)
       | Some key \<Rightarrow> bind_prog (app_of d (cki_appClientId (ck_input key))) (\<lambda>(r, d'). Ret (map_sum id AppStanding r, d')))
   | Esp256 \<Rightarrow> try_dir (live_console_key (vs_thumbprint_hex signer) now) d (\<lambda>key. case key of
         None \<Rightarrow> Ret (Inl unknown, d)
       | Some key \<Rightarrow> bind_prog (user_of d (coki_userId (cok_input key))) (\<lambda>(r, d'). Ret (map_sum id UserStanding r, d')))
   | OtherAlg \<Rightarrow> Ret (Inl unknown, d))"

definition effective_scopes :: "ustring \<Rightarrow> ustring \<Rightarrow> ustring option \<Rightarrow> ustring" where
  "effective_scopes granted registered claimed =
     (let kept = filter (\<lambda>scope. \<not> names_pair_scope scope \<and> scope \<in> set (unpack registered)
            \<and> (case claimed of None \<Rightarrow> True | Some c \<Rightarrow> list_ex (\<lambda>named. named = scope) (split_whitespace c))) (unpack granted)
      in case pack kept of Inr s \<Rightarrow> s | Inl _ \<Rightarrow> [])"

datatype verified_bearer =
  Machine (vb_client: ustring) (vb_scope: "ustring option")
| Person (vb_user: ustring) (vb_console: ustring)

definition machine_standing ::
    "directory \<Rightarrow> ustring \<Rightarrow> ustring option \<Rightarrow> ((cratestack_error + standing) \<times> directory) prog" where
  "machine_standing d client_id claimed = try_dir (live_oauth_client client_id) d (\<lambda>client.
     case oc_appClientId client of
       None \<Rightarrow> Ret (Inl unknown, d)
     | Some app_client_id \<Rightarrow> bind_prog (app_of d app_client_id) (\<lambda>(r, d'). case r of
         Inl e \<Rightarrow> Ret (Inl e, d')
       | Inr app \<Rightarrow> if as_client_id app \<noteq> client_id then Ret (Inl unknown, d')
           else Ret (Inr (AppStanding (app\<lparr>as_scopes := effective_scopes (as_scopes app) (oc_scopes client) claimed\<rparr>)), d')))"

definition person_standing ::
    "directory \<Rightarrow> ustring \<Rightarrow> ustring \<Rightarrow> ((cratestack_error + standing) \<times> directory) prog" where
  "person_standing d user_id client_id = try_dir (live_oauth_client client_id) d (\<lambda>console.
     if oc_appClientId console \<noteq> None \<or> oc_tokenEndpointAuthMethod console \<noteq> auth_none then Ret (Inl unknown, d)
     else bind_prog (user_of d user_id) (\<lambda>(r, d'). case r of
         Inl e \<Rightarrow> Ret (Inl e, d')
       | Inr person \<Rightarrow> Ret (bind_res (refuse_device_only_role person) (\<lambda>_. Inr (UserStanding person)), d')))"

fun bearer_standing :: "directory \<Rightarrow> verified_bearer \<Rightarrow> ((cratestack_error + standing) \<times> directory) prog" where
  "bearer_standing d (Machine client_id scope) = machine_standing d client_id scope"
| "bearer_standing d (Person user_id client_id) = person_standing d user_id client_id"

subsection \<open>bearer.rs\<close>

datatype bearer_refusal =
  Malformed | MissingKid | UnknownKid | SignatureRefused | Issuer | Audience | TokenExpired | NotYetValid
| HumanToken | MachineToken | IdToken | SenderConstrained

text \<open>\<^verbatim>\<open>str::split_once\<close> at a space. The values of the Authorization headers as text; \<open>None\<close> is a value
  that is not visible ASCII.\<close>

fun split_once_space :: "ustring \<Rightarrow> (ustring \<times> ustring) option" where
  "split_once_space [] = None"
| "split_once_space (c # cs) = (if c = 32 then Some ([], cs)
     else case split_once_space cs of None \<Rightarrow> None | Some (a, b) \<Rightarrow> Some (c # a, b))"

definition bearer_token :: "ustring option list \<Rightarrow> bearer_refusal + ustring" where
  "bearer_token authorization = (case authorization of
     [Some text] \<Rightarrow> (case split_once_space text of
         None \<Rightarrow> Inl Malformed
       | Some (scheme, token) \<Rightarrow>
           if eq_ignore_ascii_case scheme (lit ''bearer'') \<and> trim token \<noteq> [] then Inr (trim token) else Inl Malformed)
   | _ \<Rightarrow> Inl Malformed)"

record api_doors =
  do_keypair :: bool
  do_bearer :: "(ustring \<Rightarrow> bearer_refusal + verified_bearer) option"

definition api_doors_new :: "bool \<Rightarrow> (ustring \<Rightarrow> bearer_refusal + verified_bearer) option \<Rightarrow> api_doors option" where
  "api_doors_new kp bearer = (if \<not> kp \<and> bearer = None then None else Some \<lparr>do_keypair = kp, do_bearer = bearer\<rparr>)"

record credentials =
  cd_authorization :: "ustring option list"
  cd_signer :: "verified_signer option"
  cd_bearer :: "standing option"

text \<open>The text of a refusal that says nothing is the framework's \<^verbatim>\<open>UNAUTHENTICATED\<close>, an argument.\<close>

definition two_credentials :: cratestack_error where
  "two_credentials = BadRequest (lit ''a signed request cannot also carry an Authorization header: send one credential'')"

definition enforce_bearer_door ::
    "ustring \<Rightarrow> api_doors \<Rightarrow> directory \<Rightarrow> credentials \<Rightarrow> ((cratestack_error + credentials) \<times> directory) prog" where
  "enforce_bearer_door UNAUTHENTICATED doors d cd =
     (if cd_signer cd \<noteq> None
      then if cd_authorization cd \<noteq> [] then Ret (Inl two_credentials, d) else Ret (Inr cd, d)
      else case do_bearer doors of
        None \<Rightarrow> Ret (Inl (Unauthorized UNAUTHENTICATED), d)
      | Some verifier \<Rightarrow> (case bind_res (bearer_token (cd_authorization cd)) verifier of
          Inl _ \<Rightarrow> Ret (Inl (Unauthorized UNAUTHENTICATED), d)
        | Inr claims \<Rightarrow> bind_prog (bearer_standing d claims) (\<lambda>(r, d'). case r of
            Inr s \<Rightarrow> Ret (Inr (cd\<lparr>cd_bearer := Some s\<rparr>), d')
          | Inl (Unauthorized _) \<Rightarrow> Ret (Inl (Unauthorized UNAUTHENTICATED), d')
          | Inl e \<Rightarrow> Ret (Inl e, d'))))"

subsection \<open>auth.rs: authenticating a request\<close>

definition authenticate :: "directory \<Rightarrow> credentials \<Rightarrow> ((cratestack_error + cs_context) \<times> directory) prog" where
  "authenticate d cd = (case (cd_signer cd, cd_bearer cd) of
     (Some _, Some _) \<Rightarrow> Ret (Inl (Unauthorized (lit ''more than one verified credential'')), d)
   | (Some signer, None) \<Rightarrow>
       if cd_authorization cd \<noteq> [] then Ret (Inl two_credentials, d)
       else bind_prog utc_now (\<lambda>now. bind_prog (standing_of d signer now) (\<lambda>(r, d'). Ret (map_sum id context_for r, d')))
   | (None, Some (UserStanding person)) \<Rightarrow>
       Ret (bind_res (refuse_device_only_role person) (\<lambda>_. Inr (context_for (UserStanding person))), d)
   | (None, Some (AppStanding app)) \<Rightarrow> Ret (Inr (context_for (AppStanding app)), d)
   | (None, None) \<Rightarrow> Ret (Inl (Unauthorized (lit ''no verified credential'')), d))"

text \<open>A request from the door to the handler: what it carried when it came in has no standing yet.\<close>

definition admit_request ::
    "ustring \<Rightarrow> api_doors \<Rightarrow> directory \<Rightarrow> credentials \<Rightarrow> ((cratestack_error + cs_context) \<times> directory) prog" where
  "admit_request UNAUTHENTICATED doors d cd = bind_prog (enforce_bearer_door UNAUTHENTICATED doors d (cd\<lparr>cd_bearer := None\<rparr>)) (\<lambda>(r, d'). case r of
     Inl e \<Rightarrow> Ret (Inl e, d')
   | Inr cd' \<Rightarrow> authenticate d' cd')"

subsection \<open>What a cached read returns\<close>

lemma alone_permissive:
  assumes "lawful answers" "alone answers T p U x"
  shows "alone lawful_answer T p U x"
  using assms(2)
proof (induction rule: alone.induct)
  case (alone_call T req r T' k U x)
  from assms(1) alone_call.hyps(1) have "lawful_answer T req r T'" by (simp add: lawful_def)
  then show ?case using alone_call.IH by (rule alone.alone_call)
qed (rule alone_ret)

lemmas lawful_self = lawful_permissive

text \<open>A fetch that only reads and whose values are true of the tables it read.\<close>

locale fetcher =
  fixes fetch :: "'k \<Rightarrow> ('e + 'v) prog" and truth :: "tables \<Rightarrow> 'k \<Rightarrow> 'v \<Rightarrow> bool"
  assumes fetch_reads: "alone lawful_answer T (fetch key) U x \<Longrightarrow> U = T"
    and fetch_true: "alone lawful_answer T (fetch key) U (Inr v) \<Longrightarrow> truth T key v"
begin

lemma cached:
  assumes "alone lawful_answer T (get_or_fetch c key fetch) U (x, c')"
  shows "U = T" "x = Inr v \<Longrightarrow> truth T key v \<or> (\<exists>t0 now. tc_entries c key = Some (v, t0) \<and> fresh_in c t0 now)"
    "c' = c \<or> (\<exists>v t0. truth T key v \<and> c' = c\<lparr>tc_entries := (tc_entries c)(key \<mapsto> (v, t0))\<rparr>)"
proof -
  from assms obtain V hit where hit: "alone lawful_answer T (cache_get c key) V hit"
    and rest: "alone lawful_answer V (case hit of
       Some value \<Rightarrow> Ret (Inr value, c)
     | None \<Rightarrow> bind_prog (fetch key) (\<lambda>r. case r of
         Inl e \<Rightarrow> Ret (Inl e, c)
       | Inr value \<Rightarrow> bind_prog utc_now (\<lambda>now. Ret (Inr value, c\<lparr>tc_entries := (tc_entries c)(key \<mapsto> (value, now))\<rparr>)))) U (x, c')"
    unfolding get_or_fetch_def by auto
  have V: "V = T" "hit = Some w \<Longrightarrow> \<exists>t0 now. tc_entries c key = Some (w, t0) \<and> fresh_in c t0 now" for w
    using hit by (auto simp: cache_get_def dest!: alone_utc_now [OF lawful_self] split: option.splits if_splits)
  have "U = T \<and> (x = Inr v \<longrightarrow> truth T key v \<or> (\<exists>t0 now. tc_entries c key = Some (v, t0) \<and> fresh_in c t0 now))
    \<and> (c' = c \<or> (\<exists>v t0. truth T key v \<and> c' = c\<lparr>tc_entries := (tc_entries c)(key \<mapsto> (v, t0))\<rparr>))"
  proof (cases hit)
    case (Some w)
    with rest V show ?thesis by auto
  next
    case None
    with rest V obtain W r where r: "alone lawful_answer T (fetch key) W r" and go: "alone lawful_answer W (case r of
         Inl e \<Rightarrow> Ret (Inl e, c)
       | Inr value \<Rightarrow> bind_prog utc_now (\<lambda>now. Ret (Inr value, c\<lparr>tc_entries := (tc_entries c)(key \<mapsto> (value, now))\<rparr>))) U (x, c')"
      by auto
    show ?thesis
      using go fetch_reads [OF r] fetch_true [of T key W] r
      by (cases r) (auto dest!: alone_utc_now [OF lawful_self])
  qed
  then show "U = T" "x = Inr v \<Longrightarrow> truth T key v \<or> (\<exists>t0 now. tc_entries c key = Some (v, t0) \<and> fresh_in c t0 now)"
    "c' = c \<or> (\<exists>v t0. truth T key v \<and> c' = c\<lparr>tc_entries := (tc_entries c)(key \<mapsto> (v, t0))\<rparr>)" by blast+
qed

end

lemma alone_first_or:
  assumes "alone answers T (first_or e p) U x"
  obtains e' where "x = Inl e'" | r rows where "x = Inr r" "alone answers T p U (Inr (r # rows))"
  using assms unfolding first_or_def by (rule alone_tryE) (auto split: list.splits)

lemma alone_first_orI:
  "alone answers T p U (Inr (r # rows)) \<Longrightarrow> alone answers T (first_or e p) U (Inr r)"
  unfolding first_or_def by (rule alone_tryI, assumption) simp

lemma first_or_reads:
  assumes "alone answers T (first_or e p) U x" "\<And>V y. alone answers T p V y \<Longrightarrow> V = T"
  shows "U = T"
  using assms(1) unfolding first_or_def by (rule alone_tryE) (use assms(2) in auto)

text \<open>A standing is what the tables say of an active client, or of an active person whose role is not reserved.\<close>

definition app_truth :: "tables \<Rightarrow> ustring \<Rightarrow> app_standing \<Rightarrow> bool" where
  "app_truth T i a \<longleftrightarrow> (\<exists>c. a_clients (t_api T) i = Some c \<and> ac_active c \<and> ac_retiredAt c = None
     \<and> a = \<lparr>as_client_id = aci_clientId (ac_input c), as_app_id = aci_appId (ac_input c), as_scopes = aci_scopes (ac_input c)\<rparr>)"

definition user_truth :: "tables \<Rightarrow> ustring \<Rightarrow> user_standing \<Rightarrow> bool" where
  "user_truth T i u \<longleftrightarrow> us_role u \<notin> set RESERVED_ROLE_KEYS \<and> us_user_id u = i
     \<and> (\<exists>p j r. a_users (t_api T) i = Some p \<and> usr_active p \<and> usr_roleKey p = us_role u
         \<and> a_roles (t_api T) j = Some r \<and> role_key r = us_role u \<and> us_perms u = unpack (role_permissions r))"

interpretation apps: fetcher load_app app_truth
proof
  fix T U :: tables and i :: ustring and x :: "cratestack_error + app_standing" and v
  show "alone lawful_answer T (load_app i) U x \<Longrightarrow> U = T"
    unfolding load_app_def
    by (erule alone_tryE) (auto dest!: first_or_reads alone_find_app_clients [OF lawful_self])
  show "alone lawful_answer T (load_app i) U (Inr v) \<Longrightarrow> app_truth T i v"
    unfolding load_app_def
    by (erule alone_tryE, simp, erule alone_first_or)
      (auto simp: app_truth_def dest!: alone_find_app_clients [OF lawful_self] selects_rows)
qed

lemma load_user_true:
  assumes "alone lawful_answer T (load_user i) U (Inr v)"
  shows "user_truth T i v"
proof -
  note find_user = alone_find_users [OF lawful_self] and find_role = alone_find_roles [OF lawful_self]
  from assms obtain V p where p: "alone lawful_answer T (first_or unknown (find_users (\<lambda>u. usr_id u = i \<and> usr_active u) (Some 1))) V (Inr p)"
    and rest: "alone lawful_answer V (try_prog (first_or unknown (find_roles (\<lambda>r. role_key r = usr_roleKey p) (Some 1))) (\<lambda>role_row.
       try_prog (Ret (refuse_reserved_role (role_key role_row))) (\<lambda>_.
       Ret (Inr \<lparr>us_user_id = usr_id p, us_role = role_key role_row, us_perms = unpack (role_permissions role_row)\<rparr>)))) U (Inr v)"
    unfolding load_user_def by (rule alone_tryE) simp
  have V: "V = T" by (rule first_or_reads [OF p]) (simp add: find_user)
  obtain rows where "alone lawful_answer T (find_users (\<lambda>u. usr_id u = i \<and> usr_active u) (Some 1)) V (Inr (p # rows))"
    using p by (rule alone_first_or) simp_all
  then have p': "usr_id p = i" "usr_active p" "a_users (t_api T) i = Some p"
    by (auto dest!: find_user selects_rows)
  from rest obtain W r where r: "alone lawful_answer V (first_or unknown (find_roles (\<lambda>r. role_key r = usr_roleKey p) (Some 1))) W (Inr r)"
    and v: "refuse_reserved_role (role_key r) = Inr ()"
      "v = \<lparr>us_user_id = usr_id p, us_role = role_key r, us_perms = unpack (role_permissions r)\<rparr>"
    by (rule alone_tryE) (auto simp: try_prog_def split: sum.splits)
  obtain rows' where "alone lawful_answer V (find_roles (\<lambda>r. role_key r = usr_roleKey p) (Some 1)) W (Inr (r # rows'))"
    using r by (rule alone_first_or) simp_all
  then have "role_key r = usr_roleKey p" "a_roles (t_api T) (role_id r) = Some r"
    by (auto simp: V dest!: find_role selects_rows)
  with p' v show ?thesis by (auto simp: user_truth_def refuse_reserved_role_def split: if_splits)
qed

interpretation users: fetcher load_user user_truth
proof
  fix T U :: tables and i :: ustring and x :: "cratestack_error + user_standing" and v
  show "alone lawful_answer T (load_user i) U x \<Longrightarrow> U = T"
    unfolding load_user_def
    by (elim alone_tryE) (auto dest!: first_or_reads alone_find_users [OF lawful_self] alone_find_roles [OF lawful_self])
  show "alone lawful_answer T (load_user i) U (Inr v) \<Longrightarrow> user_truth T i v" by (rule load_user_true)
qed

subsection \<open>Who is admitted\<close>

definition dir_sound :: "directory \<Rightarrow> bool" where
  "dir_sound d \<longleftrightarrow> (\<forall>i u t0. tc_entries (dir_users d) i = Some (u, t0) \<longrightarrow> us_role u \<notin> set RESERVED_ROLE_KEYS)"

lemma alone_app_of:
  assumes "alone lawful_answer T (app_of d i) U (r, d')" "dir_sound d"
  shows "U = T \<and> dir_sound d'"
proof -
  from assms(1) obtain c where c: "alone lawful_answer T (get_or_fetch (dir_apps d) i load_app) U (r, c)"
    "d' = d\<lparr>dir_apps := c\<rparr>" by (auto simp: app_of_def)
  show ?thesis using apps.cached(1) [OF c(1)] c(2) assms(2) by (simp add: dir_sound_def)
qed

lemma alone_user_of:
  assumes "alone lawful_answer T (user_of d i) U (r, d')" "dir_sound d"
  shows "U = T \<and> dir_sound d' \<and> (\<forall>u. r = Inr u \<longrightarrow> us_role u \<notin> set RESERVED_ROLE_KEYS)"
proof -
  from assms(1) obtain c where c: "alone lawful_answer T (get_or_fetch (dir_users d) i load_user) U (r, c)"
    "d' = d\<lparr>dir_users := c\<rparr>" by (auto simp: user_of_def)
  have "us_role u \<notin> set RESERVED_ROLE_KEYS" if "r = Inr u" for u
    using users.cached(2) [OF c(1) that] assms(2) by (auto simp: user_truth_def dir_sound_def)
  moreover have "dir_sound d'"
    using users.cached(3) [OF c(1)]
  proof
    assume "c = dir_users d"
    then show ?thesis using c(2) assms(2) by simp
  next
    assume "\<exists>v t0. user_truth T i v \<and> c = dir_users d\<lparr>tc_entries := (tc_entries (dir_users d))(i \<mapsto> (v, t0))\<rparr>"
    then obtain v t0 where "user_truth T i v" "tc_entries c = (tc_entries (dir_users d))(i \<mapsto> (v, t0))" by auto
    then have "us_role u \<notin> set RESERVED_ROLE_KEYS" if "tc_entries c j = Some (u, t1)" for j u t1
      using that assms(2) by (cases "j = i") (auto simp: user_truth_def dir_sound_def)
    then show ?thesis using c(2) by (auto simp: dir_sound_def)
  qed
  ultimately show ?thesis using users.cached(1) [OF c(1)] by blast
qed

text \<open>A standing the code may give: a person's role is never a reserved one.\<close>

fun unreserved :: "standing \<Rightarrow> bool" where
  "unreserved (AppStanding a) = True"
| "unreserved (UserStanding u) = (us_role u \<notin> set RESERVED_ROLE_KEYS)"

definition live_signer :: "tables \<Rightarrow> verified_signer \<Rightarrow> standing \<Rightarrow> bool" where
  "live_signer T signer s \<longleftrightarrow> (case s of
     AppStanding _ \<Rightarrow> vs_alg signer = Ed25519 \<and> (\<exists>i k. a_client_keys (t_api T) i = Some k
         \<and> cki_thumbprint (ck_input k) = vs_thumbprint_hex signer \<and> ck_revokedAt k = None)
   | UserStanding _ \<Rightarrow> vs_alg signer = Esp256 \<and> (\<exists>i k now. a_console_keys (t_api T) i = Some k
         \<and> coki_thumbprint (cok_input k) = vs_thumbprint_hex signer \<and> cok_revokedAt k = None
         \<and> now < coki_expiresAt (cok_input k)))"

lemma alone_try_dirE:
  assumes "alone answers T (try_dir p d f) U (r, d')"
  obtains e where "alone answers T p U (Inl e)" "r = Inl e" "d' = d"
  | V x where "alone answers T p V (Inr x)" "alone answers V (f x) U (r, d')"
proof -
  from assms obtain V y where y: "alone answers T p V y"
    and go: "alone answers V (case y of Inl e \<Rightarrow> Ret (Inl e, d) | Inr x \<Rightarrow> f x) U (r, d')"
    unfolding try_dir_def by auto
  show ?thesis using that y go by (cases y) simp_all
qed

lemma alone_live_client_key:
  assumes "alone lawful_answer T (live_client_key hex) U x"
  shows "U = T \<and> (\<forall>k. x = Inr (Some k) \<longrightarrow> a_client_keys (t_api T) (ck_id k) = Some k
    \<and> cki_thumbprint (ck_input k) = hex \<and> ck_revokedAt k = None)"
  using assms unfolding live_client_key_def
  by (rule alone_tryE) (auto dest!: alone_find_client_keys [OF lawful_self] selects_rows split: list.splits)

lemma alone_live_console_key:
  assumes "alone lawful_answer T (live_console_key hex now) U x"
  shows "U = T \<and> (\<forall>k. x = Inr (Some k) \<longrightarrow> a_console_keys (t_api T) (cok_id k) = Some k
    \<and> coki_thumbprint (cok_input k) = hex \<and> cok_revokedAt k = None \<and> now < coki_expiresAt (cok_input k))"
  using assms unfolding live_console_key_def
  by (rule alone_tryE) (auto dest!: alone_find_console_keys [OF lawful_self] selects_rows split: list.splits)

lemma alone_live_oauth_client:
  "alone lawful_answer T (live_oauth_client i) U x \<Longrightarrow> U = T"
  unfolding live_oauth_client_def
  by (erule first_or_reads) (auto dest!: alone_find_oauth_clients [OF lawful_self])

lemma alone_standing_of:
  assumes "alone lawful_answer T (standing_of d signer now) U (r, d')" "dir_sound d"
  shows "U = T \<and> dir_sound d' \<and> (\<forall>s. r = Inr s \<longrightarrow> unreserved s \<and> live_signer T signer s)"
proof (cases "vs_alg signer")
  case Ed25519
  then have "alone lawful_answer T (try_dir (live_client_key (vs_thumbprint_hex signer)) d (\<lambda>key. case key of
         None \<Rightarrow> Ret (Inl unknown, d)
       | Some key \<Rightarrow> bind_prog (app_of d (cki_appClientId (ck_input key))) (\<lambda>(r, d'). Ret (map_sum id AppStanding r, d'))))
      U (r, d')" using assms(1) by (simp add: standing_of_def)
  then show ?thesis
  proof (rule alone_try_dirE)
    fix V key
    assume key: "alone lawful_answer T (live_client_key (vs_thumbprint_hex signer)) V (Inr key)"
      and go: "alone lawful_answer V (case key of
         None \<Rightarrow> Ret (Inl unknown, d)
       | Some key \<Rightarrow> bind_prog (app_of d (cki_appClientId (ck_input key))) (\<lambda>(r, d'). Ret (map_sum id AppStanding r, d'))) U (r, d')"
    show ?thesis
    proof (cases key)
      case None
      then show ?thesis using go alone_live_client_key [OF key] assms(2) by simp
    next
      case (Some k)
      with go obtain y where "alone lawful_answer V (app_of d (cki_appClientId (ck_input k))) U (y, d')"
        "r = map_sum id AppStanding y" by auto
      then show ?thesis
        using alone_app_of [of V d _ U y d'] assms(2) alone_live_client_key [OF key] Some Ed25519
        by (cases y) (auto simp: live_signer_def)
    qed
  qed (use assms(2) alone_live_client_key in auto)
next
  case Esp256
  then have "alone lawful_answer T (try_dir (live_console_key (vs_thumbprint_hex signer) now) d (\<lambda>key. case key of
         None \<Rightarrow> Ret (Inl unknown, d)
       | Some key \<Rightarrow> bind_prog (user_of d (coki_userId (cok_input key))) (\<lambda>(r, d'). Ret (map_sum id UserStanding r, d'))))
      U (r, d')" using assms(1) by (simp add: standing_of_def)
  then show ?thesis
  proof (rule alone_try_dirE)
    fix V key
    assume key: "alone lawful_answer T (live_console_key (vs_thumbprint_hex signer) now) V (Inr key)"
      and go: "alone lawful_answer V (case key of
         None \<Rightarrow> Ret (Inl unknown, d)
       | Some key \<Rightarrow> bind_prog (user_of d (coki_userId (cok_input key))) (\<lambda>(r, d'). Ret (map_sum id UserStanding r, d'))) U (r, d')"
    show ?thesis
    proof (cases key)
      case None
      then show ?thesis using go alone_live_console_key [OF key] assms(2) by simp
    next
      case (Some k)
      with go obtain y where "alone lawful_answer V (user_of d (coki_userId (cok_input k))) U (y, d')"
        "r = map_sum id UserStanding y" by auto
      then show ?thesis
        using alone_user_of [of V d _ U y d'] assms(2) alone_live_console_key [OF key] Some Esp256
        by (cases y) (auto simp: live_signer_def)
    qed
  qed (use assms(2) alone_live_console_key in auto)
next
  case OtherAlg
  then show ?thesis using assms by (simp add: standing_of_def)
qed

lemma alone_machine_standing:
  assumes "alone lawful_answer T (machine_standing d i claimed) U (r, d')" "dir_sound d"
  shows "U = T \<and> dir_sound d' \<and> (\<forall>s. r = Inr s \<longrightarrow> (\<exists>a. s = AppStanding a))"
  using assms(1) unfolding machine_standing_def
proof (rule alone_try_dirE)
  fix V client
  assume client: "alone lawful_answer T (live_oauth_client i) V (Inr client)"
    and go: "alone lawful_answer V (case oc_appClientId client of
       None \<Rightarrow> Ret (Inl unknown, d)
     | Some app_client_id \<Rightarrow> bind_prog (app_of d app_client_id) (\<lambda>(r, d'). case r of
         Inl e \<Rightarrow> Ret (Inl e, d')
       | Inr app \<Rightarrow> if as_client_id app \<noteq> i then Ret (Inl unknown, d')
           else Ret (Inr (AppStanding (app\<lparr>as_scopes := effective_scopes (as_scopes app) (oc_scopes client) claimed\<rparr>)), d')))
       U (r, d')"
  have V: "V = T" by (rule alone_live_oauth_client [OF client])
  show ?thesis
  proof (cases "oc_appClientId client")
    case None
    then show ?thesis using go V assms(2) by simp
  next
    case (Some j)
    with go obtain W y e where y: "alone lawful_answer V (app_of d j) W (y, e)"
      and "alone lawful_answer W (case y of
         Inl e' \<Rightarrow> Ret (Inl e', e)
       | Inr app \<Rightarrow> if as_client_id app \<noteq> i then Ret (Inl unknown, e)
           else Ret (Inr (AppStanding (app\<lparr>as_scopes := effective_scopes (as_scopes app) (oc_scopes client) claimed\<rparr>)), e))
       U (r, d')"
      by auto
    then show ?thesis
      using alone_app_of [OF y assms(2)] V by (cases y) (auto split: if_splits)
  qed
qed (use assms(2) alone_live_oauth_client in auto)

lemma alone_person_standing:
  assumes "alone lawful_answer T (person_standing d u i) U (r, d')" "dir_sound d"
  shows "U = T \<and> dir_sound d' \<and> (\<forall>s. r = Inr s \<longrightarrow> (\<exists>p. s = UserStanding p
    \<and> us_role p \<notin> set RESERVED_ROLE_KEYS \<and> us_role p \<notin> set DEVICE_ONLY_ROLES))"
  using assms(1) unfolding person_standing_def
proof (rule alone_try_dirE)
  fix V console
  assume console: "alone lawful_answer T (live_oauth_client i) V (Inr console)"
    and go: "alone lawful_answer V (if oc_appClientId console \<noteq> None \<or> oc_tokenEndpointAuthMethod console \<noteq> auth_none
     then Ret (Inl unknown, d)
     else bind_prog (user_of d u) (\<lambda>(r, d'). case r of
         Inl e \<Rightarrow> Ret (Inl e, d')
       | Inr person \<Rightarrow> Ret (bind_res (refuse_device_only_role person) (\<lambda>_. Inr (UserStanding person)), d'))) U (r, d')"
  have V: "V = T" by (rule alone_live_oauth_client [OF console])
  show ?thesis
  proof (cases "oc_appClientId console \<noteq> None \<or> oc_tokenEndpointAuthMethod console \<noteq> auth_none")
    case True
    then show ?thesis using go V assms(2) by auto
  next
    case False
    with go obtain W y e where y: "alone lawful_answer V (user_of d u) W (y, e)"
      and "alone lawful_answer W (case y of
         Inl e' \<Rightarrow> Ret (Inl e', e)
       | Inr person \<Rightarrow> Ret (bind_res (refuse_device_only_role person) (\<lambda>_. Inr (UserStanding person)), e)) U (r, d')"
      by auto
    then show ?thesis
      using alone_user_of [OF y assms(2)] V
      by (cases y) (auto simp: refuse_device_only_role_def split: if_splits)
  qed
qed (use assms(2) alone_live_oauth_client in auto)

text \<open>A standing from a token: a client, or a person who needs no device.\<close>

fun from_token :: "standing \<Rightarrow> bool" where
  "from_token (AppStanding a) = True"
| "from_token (UserStanding u) = (us_role u \<notin> set RESERVED_ROLE_KEYS \<and> us_role u \<notin> set DEVICE_ONLY_ROLES)"

lemma alone_bearer_standing:
  assumes "alone lawful_answer T (bearer_standing d b) U (r, d')" "dir_sound d"
  shows "U = T \<and> dir_sound d' \<and> (\<forall>s. r = Inr s \<longrightarrow> from_token s)"
proof (cases b)
  case (Machine c sc)
  then show ?thesis using alone_machine_standing [of T d c sc U r d'] assms by auto
next
  case (Person u c)
  then show ?thesis using alone_person_standing [of T d u c U r d'] assms by auto
qed

lemma alone_bearer_door:
  assumes "alone lawful_answer T (enforce_bearer_door txt doors d (cd\<lparr>cd_bearer := None\<rparr>)) U (r, d')" "dir_sound d"
  shows "U = T \<and> dir_sound d' \<and> (\<forall>cd'. r = Inr cd' \<longrightarrow> cd_signer cd' = cd_signer cd \<and> cd_authorization cd' = cd_authorization cd
    \<and> (cd_signer cd \<noteq> None \<longrightarrow> cd_bearer cd' = None) \<and> (\<forall>s. cd_bearer cd' = Some s \<longrightarrow> from_token s))"
proof (cases "cd_signer cd \<noteq> None \<or> do_bearer doors = None")
  case True
  then show ?thesis using assms by (auto simp: enforce_bearer_door_def split: if_splits)
next
  case False
  then obtain verifier where v: "do_bearer doors = Some verifier" "cd_signer cd = None" by auto
  show ?thesis
  proof (cases "bind_res (bearer_token (cd_authorization cd)) verifier")
    case (Inl e)
    then show ?thesis using assms v by (simp add: enforce_bearer_door_def)
  next
    case (Inr claims)
    with assms(1) v obtain V y e where y: "alone lawful_answer T (bearer_standing d claims) V (y, e)"
      and go: "alone lawful_answer V (case y of
            Inr s \<Rightarrow> Ret (Inr (cd\<lparr>cd_bearer := None, cd_bearer := Some s\<rparr>), e)
          | Inl (Unauthorized _) \<Rightarrow> Ret (Inl (Unauthorized txt), e)
          | Inl e' \<Rightarrow> Ret (Inl e', e)) U (r, d')"
      by (auto simp: enforce_bearer_door_def)
    show ?thesis
      using go alone_bearer_standing [OF y assms(2)] v
      by (cases y) (auto split: cratestack_error.splits)
  qed
qed


text \<open>A client that signs with its registered key.\<close>

definition demo_client :: app_client where
  "demo_client = \<lparr>ac_id = lit ''ac1'', ac_input = \<lparr>aci_appId = lit ''a1'', aci_clientId = lit ''appc_1'', aci_label = lit ''one'',
     aci_scopes = lit '' sms:send ''\<rparr>, ac_active = True, ac_retiredAt = None\<rparr>"

definition demo_client_key :: client_key where
  "demo_client_key = \<lparr>ck_id = lit ''k1'', ck_input = \<lparr>cki_appClientId = lit ''ac1'', cki_alg = ed25519, cki_publicKey = [],
     cki_thumbprint = lit ''ab'', cki_label = None\<rparr>, ck_revokedAt = None\<rparr>"

definition demo_signer_tables :: tables where
  "demo_signer_tables = demo_tables\<lparr>t_api := no_api_rows\<lparr>a_clients := [lit ''ac1'' \<mapsto> demo_client],
     a_client_keys := [lit ''k1'' \<mapsto> demo_client_key]\<rparr>\<rparr>"

definition demo_standing :: app_standing where
  "demo_standing = \<lparr>as_client_id = lit ''appc_1'', as_app_id = lit ''a1'', as_scopes = lit '' sms:send ''\<rparr>"

definition demo_credentials :: credentials where
  "demo_credentials = \<lparr>cd_authorization = [], cd_signer = Some \<lparr>vs_thumbprint_hex = lit ''ab'', vs_alg = Ed25519\<rparr>,
     cd_bearer = None\<rparr>"

definition demo_directory :: directory where
  "demo_directory = directory_new\<lparr>dir_apps := (dir_apps directory_new)\<lparr>tc_entries := [lit ''ac1'' \<mapsto> (demo_standing, 5)]\<rparr>\<rparr>"

lemma demo_signer_rows:
  "a_clients (t_api demo_signer_tables) = [lit ''ac1'' \<mapsto> demo_client]"
  "a_client_keys (t_api demo_signer_tables) = [lit ''k1'' \<mapsto> demo_client_key]"
  "ac_id demo_client = lit ''ac1''" "ac_active demo_client" "ac_retiredAt demo_client = None"
  "ck_id demo_client_key = lit ''k1''" "ck_revokedAt demo_client_key = None"
  "cki_thumbprint (ck_input demo_client_key) = lit ''ab''" "cki_appClientId (ck_input demo_client_key) = lit ''ac1''"
  "\<lparr>as_client_id = aci_clientId (ac_input demo_client), as_app_id = aci_appId (ac_input demo_client),
     as_scopes = aci_scopes (ac_input demo_client)\<rparr> = demo_standing"
  by (simp_all add: demo_signer_tables_def demo_standing_def) (simp_all add: demo_client_def demo_client_key_def)

lemma demo_load_app:
  "alone lawful_answer demo_signer_tables (load_app (lit ''ac1'')) demo_signer_tables (Inr demo_standing)"
proof -
  have "alone lawful_answer demo_signer_tables (find_app_clients (\<lambda>c. ac_id c = lit ''ac1'' \<and> ac_active c \<and> ac_retiredAt c = None)
      (Some 1)) demo_signer_tables (Inr [demo_client])"
    by (rule alone_find_app_clientsI, rule selects_one) (simp_all add: demo_signer_rows del: lit_Cons)
  then show ?thesis
    unfolding load_app_def by (rule alone_tryI [OF alone_first_orI]) (simp add: demo_signer_rows)
qed

lemma demo_app_of:
  "alone lawful_answer demo_signer_tables (app_of directory_new (lit ''ac1'')) demo_signer_tables (Inr demo_standing, demo_directory)"
proof -
  have miss: "cache_get (dir_apps directory_new) (lit ''ac1'') = Ret None"
    by (simp add: cache_get_def directory_new_def ttl_cache_new_def)
  have "alone lawful_answer demo_signer_tables (get_or_fetch (dir_apps directory_new) (lit ''ac1'') load_app)
      demo_signer_tables (Inr demo_standing, dir_apps demo_directory)"
    unfolding get_or_fetch_def miss bind_prog.simps option.case
    by (rule alone_bindI, rule demo_load_app, unfold sum.case, rule alone_bindI [where x = 5], rule alone_nowI)
      (simp add: demo_directory_def directory_new_def ttl_cache_new_def)
  then show ?thesis
    unfolding app_of_def by (rule alone_bindI) (simp add: demo_directory_def)
qed

lemma demo_key_found:
  "alone lawful_answer demo_signer_tables (live_client_key (lit ''ab'')) demo_signer_tables (Inr (Some demo_client_key))"
  unfolding live_client_key_def
  by (rule alone_tryI, rule alone_find_client_keysI [where rows = "[demo_client_key]"], rule selects_one)
    (simp_all add: demo_signer_rows del: lit_Cons)

lemma demo_admitted:
  "alone lawful_answer demo_signer_tables (admit_request [] \<lparr>do_keypair = True, do_bearer = None\<rparr> directory_new demo_credentials)
     demo_signer_tables (Inr (context_for (AppStanding demo_standing)), demo_directory)"
proof -
  have "alone lawful_answer demo_signer_tables (bind_prog (app_of directory_new (cki_appClientId (ck_input demo_client_key)))
      (\<lambda>(r, d'). Ret (map_sum id AppStanding r, d'))) demo_signer_tables (Inr (AppStanding demo_standing), demo_directory)"
    unfolding demo_signer_rows by (rule alone_bindI, rule demo_app_of) simp
  then have "alone lawful_answer demo_signer_tables (standing_of directory_new \<lparr>vs_thumbprint_hex = lit ''ab'', vs_alg = Ed25519\<rparr> 5)
      demo_signer_tables (Inr (AppStanding demo_standing), demo_directory)"
    unfolding standing_of_def try_dir_def verified_signer.select_convs cose_alg.case
    by (intro alone_bindI [OF demo_key_found]) (simp only: sum.case option.case)
  then show ?thesis
    unfolding admit_request_def enforce_bearer_door_def authenticate_def
    by (simp add: demo_credentials_def del: lit_Cons alone_bind)
      (intro alone_bindI [OF alone_nowI [where t = 5]] alone_bindI, assumption, simp)
qed


text \<open>A token only narrows. The scopes of a machine's token caller are, in the order of the client's own scopes,
  exactly those the client holds, its registration names and the token claims (when it claims any), without the
  pairing scope in any case; a token caller never registers a console key.\<close>

theorem token_scopes_narrow:
  "unpack (effective_scopes granted registered claimed) =
     filter (\<lambda>s. s \<in> set (unpack registered) \<and> (case claimed of None \<Rightarrow> True | Some c \<Rightarrow> s \<in> set (split_whitespace c))
        \<and> \<not> eq_ignore_ascii_case s PAIR_SCOPE) (unpack granted)
   \<and> \<not> contains (effective_scopes granted registered claimed) PAIR_SCOPE"
proof -
  let ?kept = "filter (\<lambda>s. \<not> names_pair_scope s \<and> s \<in> set (unpack registered)
      \<and> (case claimed of None \<Rightarrow> True | Some c \<Rightarrow> list_ex (\<lambda>named. named = s) (split_whitespace c))) (unpack granted)"
  have words: "list_all wordlike ?kept" using unpack_wordlike [of granted] by (auto simp: list_all_iff)
  then have "list_all packable ?kept" by (auto simp: list_all_iff intro: wordlike_packable)
  then have packed: "effective_scopes granted registered claimed = column ?kept"
    by (simp add: effective_scopes_def pack_Inr_iff [THEN iffD2])
  have single: "names_pair_scope s \<longleftrightarrow> eq_ignore_ascii_case s PAIR_SCOPE" if "s \<in> set (unpack granted)" for s
  proof -
    have "wordlike s" using that unpack_wordlike [of granted] by (simp add: list_all_iff)
    then have "unpack s = [s]"
      using split_ws_acc_no_ws [of "[]" s] by (simp add: unpack_def split_whitespace_def wordlike_def)
    then show ?thesis by (simp add: names_pair_scope_def)
  qed
  have eq: "unpack (effective_scopes granted registered claimed) = ?kept" using packed unpack_column [OF words] by simp
  moreover have "PAIR_SCOPE \<notin> set ?kept"
    using single [of PAIR_SCOPE] by (auto simp: eq_ignore_ascii_case_def)
  ultimately show ?thesis
    using single by (auto simp: contains_def list_ex_iff intro!: filter_cong split: option.splits)
qed

end
