(* ===== verification/Procedures.thy ===== *)
theory Procedures
  imports Auth Dlr Encoding
begin

text \<open>
  Accepting a message, from \<^verbatim>\<open>backends/crates/sms-api/src/procedures.rs\<close>: the preview and
  \<^verbatim>\<open>send\<close> with every check on its way (permission, caller, application, recipient, opt-out, quiet hours,
  consent, quota, sender), the analysis of the text, the operator hint, the cost estimate and the row it inserts; and the
  keyed hash (\<^verbatim>\<open>pepper.rs\<close>). The two caches of \<^verbatim>\<open>Procedures\<close> are passed through the calls.
  What the code takes from other crates is in \<open>api_env\<close>: cryptography, the phone number library, Unicode
  normalisation, the day of the month, the arithmetic of durations (\<open>None\<close> is the panic of an overflow) and of
  decimals, and the \<^verbatim>\<open>Debug\<close> of strings and characters.
\<close>

record api_env =
  ae_crypto :: crypto
  ae_pepper :: ustring
  ae_phone :: phonelib
  ae_nfc :: "ustring \<Rightarrow> ustring"
  ae_nfd :: "uchar \<Rightarrow> ustring"
  ae_day :: "instant \<Rightarrow> int"
  ae_minutes :: "int \<Rightarrow> duration option"
  ae_add :: "instant \<Rightarrow> duration \<Rightarrow> instant option"
  ae_decimal_mul :: "decimal \<Rightarrow> int \<Rightarrow> decimal"
  ae_debug :: "ustring \<Rightarrow> ustring"
  ae_debug_char :: "uchar \<Rightarrow> ustring"

subsection \<open>pepper.rs\<close>

definition MIN_PEPPER_BYTES :: nat where "MIN_PEPPER_BYTES = 32"
definition HASH_SCHEME :: ustring where "HASH_SCHEME = lit ''hmac-sha256-v1''"

definition hash_pepper_new :: "ustring \<Rightarrow> (nat \<times> nat) + ustring" where
  "hash_pepper_new value = (if byte_len value < MIN_PEPPER_BYTES then Inl (MIN_PEPPER_BYTES, byte_len value) else Inr value)"

definition hex_byte :: "u8 \<Rightarrow> ustring" where
  "hex_byte b = (let d = (\<lambda>n. if n < 10 then 48 + n else 87 + n) in [d (unat b div 16), d (unat b mod 16)])"

definition keyed_hash_hex :: "api_env \<Rightarrow> ustring \<Rightarrow> ustring" where
  "keyed_hash_hex E input =
     HASH_SCHEME @ lit '':'' @ concat (map hex_byte (cr_hmac (ae_crypto E) (as_bytes (ae_pepper E)) (as_bytes input)))"

subsection \<open>Small conversions\<close>

fun encoding_of :: "sms_encoding \<Rightarrow> schema_encoding" where
  "encoding_of Gsm7 = gsm7"
| "encoding_of Ucs2 = ucs2"

fun distinct_loop :: "ustring list \<Rightarrow> offending_char list \<Rightarrow> ustring list" where
  "distinct_loop seen [] = seen"
| "distinct_loop seen (x # xs) = (let ch = [oc_ch x] in distinct_loop (if ch \<in> set seen then seen else seen @ [ch]) xs)"

definition distinct_offending :: "encoding_report \<Rightarrow> ustring list" where
  "distinct_offending report = distinct_loop [] (offending report)"

fun operator_code_str :: "schema_operator \<Rightarrow> ustring" where
  "operator_code_str mtn = lit ''mtn''"
| "operator_code_str orange = lit ''orange''"
| "operator_code_str camtel = lit ''camtel''"
| "operator_code_str nexttel = lit ''nexttel''"
| "operator_code_str unknown_operator = lit ''unknown''"

fun schema_class_debug :: "schema_class \<Rightarrow> ustring" where
  "schema_class_debug otp = lit ''otp''"
| "schema_class_debug transactional = lit ''transactional''"
| "schema_class_debug notification = lit ''notification''"
| "schema_class_debug marketing = lit ''marketing''"

fun msisdn_error_to_string :: "api_env \<Rightarrow> msisdn_error \<Rightarrow> ustring" where
  "msisdn_error_to_string E MsisdnEmpty = lit ''empty number''"
| "msisdn_error_to_string E (InvalidCharacter ch) = lit ''unexpected character '' @ ae_debug_char E ch @ lit '' in number''"
| "msisdn_error_to_string E (UnknownRegion code) = ae_debug E code @ lit '' is not an ISO 3166-1 alpha-2 region code''"
| "msisdn_error_to_string E (UnknownCountryCode digits) = lit ''no country uses the calling code in +'' @ digits"
| "msisdn_error_to_string E (LegacyEightDigit digits) =
     digits @ lit '' is an eight-digit pre-2014 Cameroon number; it needs a leading 6 (mobile) or 2 (fixed)''"
| "msisdn_error_to_string E (BadLength got) = show_nat got @ lit '' digits is not a usable length for a number in this country''"
| "msisdn_error_to_string E (NotAllocated n) = n @ lit '' is not in an assigned range''"
| "msisdn_error_to_string E (NotAddressable n line) =
     n @ lit '' cannot receive an SMS: line type '' @ line_type_as_str line"

definition valid_mobile :: "api_env \<Rightarrow> ustring \<Rightarrow> cratestack_error + msisdn" where
  "valid_mobile E to = map_err (\<lambda>error. Validation (msisdn_error_to_string E error)) (parse_mobile (ae_phone E) to)"

text \<open>\<^verbatim>\<open>with_day(1)\<close> and midnight, which exist for every UTC time.\<close>

definition days :: "int \<Rightarrow> duration" where
  "days n = hours (24 * n)"

definition month_start :: "api_env \<Rightarrow> instant \<Rightarrow> instant" where
  "month_start E now = (now div days 1) * days 1 - days (ae_day E now - 1)"

fun default_validity :: "schema_class \<Rightarrow> duration" where
  "default_validity otp = minutes 15"
| "default_validity transactional = hours 24"
| "default_validity notification = hours 24"
| "default_validity marketing = hours 24"

subsection \<open>Preview\<close>

record preview_input =
  pi_body :: ustring
  pi_to :: "ustring option"

record preview_result =
  pv_encoding :: schema_encoding
  pv_segments :: int
  pv_length :: int
  pv_perSegment :: int
  pv_offending :: "ustring list"
  pv_suggestion :: "ustring option"
  pv_operator :: schema_operator
  pv_normalizedTo :: "ustring option"

text \<open>\<^verbatim>\<open>i64::try_from(...).unwrap_or(i64::MAX)\<close>.\<close>

definition i64_of :: "nat \<Rightarrow> int" where
  "i64_of n = min (int n) (2 ^ 63 - 1)"

definition preview :: "api_env \<Rightarrow> preview_input \<Rightarrow> cratestack_error + preview_result" where
  "preview E args =
     (let normalised = normalise (ae_nfc E) (pi_body args);
          report = analyse (ae_nfd E) normalised
      in bind_res
        (case pi_to args of
           None \<Rightarrow> Inr None
         | Some to \<Rightarrow> if trim to = [] then Inr None else bind_res (valid_mobile E to) (\<lambda>m. Inr (Some (e164 m))))
        (\<lambda>normalized_to. Inr \<lparr>pv_encoding = encoding_of (encoding report), pv_segments = uint (segments report),
           pv_length = i64_of (er_length report), pv_perSegment = i64_of (per_segment report),
           pv_offending = distinct_offending report, pv_suggestion = suggestion report, pv_operator = unknown_operator,
           pv_normalizedTo = normalized_to\<rparr>))"

subsection \<open>The state of the procedures\<close>

record caches =
  ca_apps :: "(ustring, app) ttl_cache"
  ca_operators :: "(unit, prefix_table) ttl_cache"

definition procedures_new :: caches where
  "procedures_new = \<lparr>ca_apps = ttl_cache_new (minutes 1), ca_operators = ttl_cache_new (minutes 5)\<rparr>"

definition fetch_app :: "ustring \<Rightarrow> (cratestack_error + app) prog" where
  "fetch_app client_id =
     try_prog (first_or (Unauthorized (lit ''unknown client''))
         (find_app_clients (\<lambda>c. aci_clientId (ac_input c) = client_id \<and> ac_active c) (Some 1))) (\<lambda>app_client.
     first_or (Unauthorized (lit ''app not found or inactive''))
         (find_apps (\<lambda>a. app_id a = aci_appId (ac_input app_client) \<and> app_active a) (Some 1)))"

definition resolve_app :: "caches \<Rightarrow> ustring \<Rightarrow> ((cratestack_error + app) \<times> caches) prog" where
  "resolve_app st client_id =
     bind_prog (get_or_fetch (ca_apps st) client_id fetch_app) (\<lambda>(r, c). Ret (r, st\<lparr>ca_apps := c\<rparr>))"

definition fetch_operators :: "unit \<Rightarrow> (cratestack_error + prefix_table) prog" where
  "fetch_operators u = try_prog (find_prefix_rules opr_active) (\<lambda>rows.
     Ret (Inr (prefix_table_new (map (\<lambda>row. (opr_prefix row, operator_code_str (opr_operator row))) rows))))"

definition operator_table :: "caches \<Rightarrow> ((cratestack_error + prefix_table) \<times> caches) prog" where
  "operator_table st = bind_prog (get_or_fetch (ca_operators st) () fetch_operators) (\<lambda>(r, c). Ret (r, st\<lparr>ca_operators := c\<rparr>))"

definition classify_operator :: "caches \<Rightarrow> msisdn \<Rightarrow> ((cratestack_error + schema_operator) \<times> caches) prog" where
  "classify_operator st m = bind_prog (operator_table st) (\<lambda>(r, st'). Ret (map_sum id (\<lambda>table.
     case Option.bind (lookup_operator table m) parse_operator_code of Some op \<Rightarrow> op | None \<Rightarrow> unknown_operator) r, st'))"

subsection \<open>The checks\<close>

definition ensure_not_opted_out :: "ustring \<Rightarrow> (cratestack_error + unit) prog" where
  "ensure_not_opted_out msisdn_hash =
     try_prog (find_opt_outs (\<lambda>row. ooi_msisdnHash (oo_input row) = msisdn_hash) (Some 1)) (\<lambda>opted_out.
       Ret (if opted_out = [] then Inr () else Inl (Validation (lit ''recipient has opted out of messages from this scope''))))"

definition two_digits :: "int \<Rightarrow> ustring" where
  "two_digits n = (if n < 10 then lit ''0'' else []) @ show_int n"

definition ensure_within_marketing_quiet_hours :: "instant \<Rightarrow> cratestack_error + unit" where
  "ensure_within_marketing_quiet_hours delivery_utc =
     (if is_within_marketing_quiet_hours delivery_utc then Inr ()
      else Inl (Validation (lit ''marketing messages are only sent between ''
        @ two_digits MARKETING_QUIET_HOURS_START_WAT @ lit '':00 and '' @ two_digits MARKETING_QUIET_HOURS_END_WAT
        @ lit '':00 WAT (self-imposed quiet hours, docs/architecture.md '' @ [0xA7] @ lit ''10) '' @ [0x2014]
        @ lit '' schedule this send for that window instead'')))"

definition ensure_consent_on_file :: "ustring \<Rightarrow> ustring \<Rightarrow> schema_class \<Rightarrow> (cratestack_error + unit) prog" where
  "ensure_consent_on_file app_i msisdn_hash cls =
     try_prog (find_consents (\<lambda>row. cr_appId row = app_i \<and> cr_msisdnHash row = msisdn_hash \<and> cr_scope row = cls) (Some 1))
       (\<lambda>consented. Ret (if consented = []
          then Inl (Validation (lit ''no consent record on file for this recipient for '' @ schema_class_debug cls
            @ lit '' messages '' @ [0x2014] @ lit '' Law No. 2024/017 requires opt-in consent before this class may be sent''))
          else Inr ()))"

definition ensure_within_quota :: "api_env \<Rightarrow> app \<Rightarrow> instant \<Rightarrow> (cratestack_error + unit) prog" where
  "ensure_within_quota E app now =
     try_prog (count_messages (\<lambda>m. msg_appId m = app_id app \<and> month_start E now \<le> msg_createdAt m)) (\<lambda>sent_this_month.
       Ret (if sent_this_month < app_monthlyQuota app then Inr ()
         else Inl (Validation (lit ''monthly quota of '' @ show_int (app_monthlyQuota app) @ lit '' messages exceeded''))))"

definition requested_sender :: "app \<Rightarrow> ustring option \<Rightarrow> (cratestack_error + ustring) prog" where
  "requested_sender app requested = (case requested of
     Some value \<Rightarrow> Ret (Inr value)
   | None \<Rightarrow> (case app_defaultSenderIdId app of
       None \<Rightarrow> Ret (Inl (Validation (lit ''no senderId given and this app has no default sender'')))
     | Some default_id \<Rightarrow>
         try_prog (first_or (Validation (lit ''this app's default sender id no longer exists''))
           (find_senders (\<lambda>s. sid_id s = default_id) (Some 1))) (\<lambda>s. Ret (Inr (sid_value s)))))"

definition resolve_sender_id :: "api_env \<Rightarrow> app \<Rightarrow> ustring option \<Rightarrow> (cratestack_error + ustring) prog" where
  "resolve_sender_id E app requested =
     try_prog (requested_sender app requested) (\<lambda>value.
     try_prog (first_or (Validation (lit ''sender id '' @ ae_debug E value @ lit '' is not a registered sender''))
         (find_senders (\<lambda>s. sid_value s = value \<and> sid_active s) (Some 1))) (\<lambda>sender.
     try_prog (find_registrations (\<lambda>r. sir_senderIdId r = sid_id sender \<and> sir_status r = reg_approved) (Some 1)) (\<lambda>approved.
     Ret (if approved = []
       then Inl (Validation (lit ''sender id '' @ ae_debug E value @ lit '' has no approved provider registration''))
       else Inr value))))"

definition estimate_cost :: "api_env \<Rightarrow> int \<Rightarrow> (cratestack_error + decimal) prog" where
  "estimate_cost E n =
     try_prog (find_providers (\<lambda>p. prov_state p = Active) [Asc (\<lambda>p. Some (KDec (prov_costPerSegmentXaf p)))] (Some 1))
       (\<lambda>cheapest. let per_seg = (case cheapest of [] \<Rightarrow> (0, 0) | p # _ \<Rightarrow> prov_costPerSegmentXaf p)
          in Ret (Inr (ae_decimal_mul E per_seg n)))"

definition caller_client_id :: "cs_context \<Rightarrow> cratestack_error + ustring" where
  "caller_client_id ctx = (case text_field ctx (lit ''kind'') of
     None \<Rightarrow> Inl (Unauthorized (lit ''missing kind claim''))
   | Some kind \<Rightarrow>
       if kind \<noteq> kind_as_str AppKind
       then Inl (Validation (lit ''sendMessage currently requires a machine (registered client key) caller '' @ [0x2014]
         @ lit '' deriving an App for a human caller has no design yet''))
       else (case text_field ctx (lit ''sub'') of
         Some sub \<Rightarrow> Inr sub
       | None \<Rightarrow> Inl (Unauthorized (lit ''missing sub claim''))))"

subsection \<open>Sending\<close>

record send_message_input =
  sm_to :: ustring
  sm_body :: ustring
  sm_senderId :: "ustring option"
  sm_class :: "schema_class option"
  sm_clientRef :: "ustring option"
  sm_scheduledAt :: "instant option"
  sm_validityMinutes :: "int option"

record send_message_result =
  sr_messageId :: ustring
  sr_state :: message_state
  sr_encoding :: schema_encoding
  sr_segments :: int
  sr_operator :: schema_operator
  sr_estimatedCostXaf :: decimal

definition class_of :: "send_message_input \<Rightarrow> schema_class" where
  "class_of args = (case sm_class args of Some c \<Rightarrow> c | None \<Rightarrow> transactional)"

definition delivery_time :: "send_message_input \<Rightarrow> instant \<Rightarrow> instant" where
  "delivery_time args now = (case sm_scheduledAt args of Some t \<Rightarrow> t | None \<Rightarrow> now)"

text \<open>Steps 3 to 5 of \<^verbatim>\<open>send\<close>: what the recipient, the clock, the quota and the sender have to allow.\<close>

definition send_checks ::
    "api_env \<Rightarrow> app \<Rightarrow> ustring \<Rightarrow> instant \<Rightarrow> send_message_input \<Rightarrow> (cratestack_error + ustring) prog" where
  "send_checks E app msisdn_hash now args =
     try_prog (if requires_recipient_consent_controls (class_of args) then ensure_not_opted_out msisdn_hash else Ret (Inr ())) (\<lambda>_.
     try_prog (Ret (if subject_to_quiet_hours (class_of args)
         then ensure_within_marketing_quiet_hours (delivery_time args now) else Inr ())) (\<lambda>_.
     try_prog (if requires_recipient_consent_controls (class_of args)
         then ensure_consent_on_file (app_id app) msisdn_hash (class_of args) else Ret (Inr ())) (\<lambda>_.
     try_prog (ensure_within_quota E app now) (\<lambda>_.
     resolve_sender_id E app (sm_senderId args)))))"

definition outgoing_body :: "api_env \<Rightarrow> app \<Rightarrow> send_message_input \<Rightarrow> ustring" where
  "outgoing_body E app args =
     (let normalised = normalise (ae_nfc E) (sm_body args)
      in if app_transliterateToGsm7 app then fst (transliterate_to_gsm7 (ae_nfd E) normalised) else normalised)"

definition validity_of :: "api_env \<Rightarrow> send_message_input \<Rightarrow> duration option" where
  "validity_of E args = (case sm_validityMinutes args of
     None \<Rightarrow> Some (default_validity (class_of args))
   | Some m \<Rightarrow> ae_minutes E m)"

definition expires_at :: "api_env \<Rightarrow> send_message_input \<Rightarrow> instant \<Rightarrow> instant option" where
  "expires_at E args now = Option.bind (validity_of E args) (ae_add E (delivery_time args now))"

definition message_input_of ::
    "api_env \<Rightarrow> app \<Rightarrow> msisdn \<Rightarrow> ustring \<Rightarrow> schema_operator \<Rightarrow> instant \<Rightarrow> send_message_input \<Rightarrow> message_input" where
  "message_input_of E app m sender op expiry args =
     (let body = outgoing_body E app args; report = analyse (ae_nfd E) body
      in \<lparr>mi_appId = app_id app, mi_clientRef = sm_clientRef args, mi_idempotencyKey = sm_clientRef args, mi_msisdn = e164 m,
          mi_msisdnHash = keyed_hash_hex E (e164 m), mi_operator = op, mi_senderIdValue = sender,
          mi_class = class_of args, mi_priority = 100, mi_body = Some body, mi_bodyHash = keyed_hash_hex E body,
          mi_bodyLength = i64_of (byte_len body), mi_encoding = encoding_of (encoding report),
          mi_segments = uint (segments report), mi_maxAttempts = 3, mi_scheduledAt = sm_scheduledAt args, mi_expiresAt = expiry\<rparr>)"

text \<open>Steps 6 to the end: analyse, classify, estimate, insert.\<close>

definition send_accept ::
    "api_env \<Rightarrow> caches \<Rightarrow> app \<Rightarrow> msisdn \<Rightarrow> ustring \<Rightarrow> instant \<Rightarrow> send_message_input
      \<Rightarrow> ((cratestack_error + send_message_result) \<times> caches) prog" where
  "send_accept E st app m sender now args =
     (let report = analyse (ae_nfd E) (outgoing_body E app args)
      in bind_prog (classify_operator st m) (\<lambda>(r, st'). try_dir (Ret r) st' (\<lambda>op.
         try_dir (estimate_cost E (uint (segments report))) st' (\<lambda>estimated_cost.
         case expires_at E args now of
           None \<Rightarrow> Panic
         | Some expiry \<Rightarrow>
             try_dir (create_message (message_input_of E app m sender op expiry args)) st' (\<lambda>row.
             Ret (Inr \<lparr>sr_messageId = msg_id row, sr_state = msg_state row, sr_encoding = msg_encoding row,
               sr_segments = msg_segments row, sr_operator = msg_operator row, sr_estimatedCostXaf = estimated_cost\<rparr>, st'))))))"

definition send_message ::
    "api_env \<Rightarrow> caches \<Rightarrow> cs_context \<Rightarrow> send_message_input \<Rightarrow> ((cratestack_error + send_message_result) \<times> caches) prog" where
  "send_message E st ctx args =
     try_dir (Ret (require_permission (ae_debug E) ctx (lit ''sms:send''))) st (\<lambda>_.
     bind_prog utc_now (\<lambda>now.
     try_dir (Ret (caller_client_id ctx)) st (\<lambda>client_id.
     bind_prog (resolve_app st client_id) (\<lambda>(r, st1). try_dir (Ret r) st1 (\<lambda>app.
     try_dir (Ret (valid_mobile E (sm_to args))) st1 (\<lambda>m.
     try_dir (send_checks E app (keyed_hash_hex E (e164 m)) now args) st1 (\<lambda>sender.
     send_accept E st1 app m sender now args)))))))"

subsection \<open>What the checks read\<close>

lemma alone_ensure_not_opted_out:
  assumes "alone lawful_answer T (ensure_not_opted_out h) U x"
  shows "U = T \<and> (x = Inr () \<longrightarrow> (\<forall>i row. a_opt_outs (t_api T) i = Some row \<longrightarrow> ooi_msisdnHash (oo_input row) \<noteq> h))"
  using assms unfolding ensure_not_opted_out_def
  by (rule alone_tryE) (auto dest!: alone_find_opt_outs [OF lawful_self] dest: selects_none split: if_splits)

lemma alone_ensure_consent:
  assumes "alone lawful_answer T (ensure_consent_on_file a h c) U x"
  shows "U = T \<and> (x = Inr () \<longrightarrow> (\<exists>i row. a_consents (t_api T) i = Some row
    \<and> cr_appId row = a \<and> cr_msisdnHash row = h \<and> cr_scope row = c))"
  using assms unfolding ensure_consent_on_file_def
proof (rule alone_tryE)
  fix V rows
  assume rows: "alone lawful_answer T (find_consents (\<lambda>row. cr_appId row = a \<and> cr_msisdnHash row = h \<and> cr_scope row = c) (Some 1)) V (Inr rows)"
    and go: "alone lawful_answer V (Ret (if rows = []
          then Inl (Validation (lit ''no consent record on file for this recipient for '' @ schema_class_debug c
            @ lit '' messages '' @ [0x2014] @ lit '' Law No. 2024/017 requires opt-in consent before this class may be sent''))
          else Inr ())) U x"
  from alone_find_consents [OF lawful_self rows] have V: "V = T"
    and sel: "selects (a_consents (t_api T)) cr_id (\<lambda>row. cr_appId row = a \<and> cr_msisdnHash row = h \<and> cr_scope row = c) (Some 1) rows"
    by auto
  show ?thesis
  proof (cases rows)
    case Nil
    then show ?thesis using go V by simp
  next
    case (Cons row rest)
    then show ?thesis using go V selects_rows [OF sel, of row] by auto
  qed
qed (use alone_find_consents [OF lawful_self] in auto)

lemma alone_count_messages:
  assumes "alone lawful_answer T (count_messages f) U x"
  shows "U = T \<and> (\<forall>n. x = Inr n \<longrightarrow> counts (t_messages T) f n)"
proof -
  from assms obtain r T' where law: "lawful_answer T (CountMessages f) r T'"
    and r: "alone lawful_answer T' (case r of Count x \<Rightarrow> Ret x | _ \<Rightarrow> Panic) U x"
    unfolding count_messages_def by (rule alone_lawful [OF lawful_self])
  from r have "r = Count x" "T' = U" by (simp_all split: response.splits)
  with law show ?thesis by (auto simp: lawful_answer_def)
qed

lemma alone_ensure_quota:
  assumes "alone lawful_answer T (ensure_within_quota E app now) U x"
  shows "U = T \<and> (x = Inr () \<longrightarrow> (\<exists>n. counts (t_messages T) (\<lambda>m. msg_appId m = app_id app \<and> month_start E now \<le> msg_createdAt m) n
    \<and> n < app_monthlyQuota app))"
  using assms unfolding ensure_within_quota_def
  by (rule alone_tryE) (auto dest!: alone_count_messages split: if_splits)

definition approved_sender :: "tables \<Rightarrow> ustring \<Rightarrow> bool" where
  "approved_sender T value \<longleftrightarrow> (\<exists>i s j g. a_senders (t_api T) i = Some s \<and> sid_value s = value \<and> sid_active s
     \<and> a_registrations (t_api T) j = Some g \<and> sir_senderIdId g = sid_id s \<and> sir_status g = reg_approved)"

lemma alone_requested_sender: "alone lawful_answer T (requested_sender app req) U x \<Longrightarrow> U = T"
  unfolding requested_sender_def
  by (auto split: option.splits elim!: alone_tryE dest!: first_or_reads alone_find_senders [OF lawful_self])

lemma alone_resolve_sender:
  assumes "alone lawful_answer T (resolve_sender_id E app req) U x"
  shows "U = T \<and> (\<forall>v. x = Inr v \<longrightarrow> approved_sender T v)"
  using assms unfolding resolve_sender_id_def
proof (rule alone_tryE)
  fix V v
  let ?find = "find_senders (\<lambda>s. sid_value s = v \<and> sid_active s) (Some 1)"
  let ?none = "Validation (lit ''sender id '' @ ae_debug E v @ lit '' is not a registered sender'')"
  let ?fin = "\<lambda>sender. try_prog (find_registrations (\<lambda>r. sir_senderIdId r = sid_id sender \<and> sir_status r = reg_approved) (Some 1)) (\<lambda>approved.
     Ret (if approved = []
       then Inl (Validation (lit ''sender id '' @ ae_debug E v @ lit '' has no approved provider registration''))
       else Inr v))"
  assume "alone lawful_answer T (requested_sender app req) V (Inr v)"
    and go: "alone lawful_answer V (try_prog (first_or ?none ?find) ?fin) U x"
  then have V: "V = T" using alone_requested_sender by blast
  from go show ?thesis
  proof (rule alone_tryE)
    fix W s
    assume s: "alone lawful_answer V (first_or ?none ?find) W (Inr s)" and go: "alone lawful_answer W (?fin s) U x"
    from s obtain rows where "alone lawful_answer V ?find W (Inr (s # rows))" by (rule alone_first_or) simp_all
    then have s': "W = T" "a_senders (t_api T) (sid_id s) = Some s" "sid_value s = v" "sid_active s"
      using V by (auto dest!: alone_find_senders [OF lawful_self] selects_rows)
    from go show ?thesis
    proof (rule alone_tryE)
      fix X approved
      assume a: "alone lawful_answer W (find_registrations (\<lambda>r. sir_senderIdId r = sid_id s \<and> sir_status r = reg_approved) (Some 1)) X (Inr approved)"
        and ret: "alone lawful_answer X (Ret (if approved = []
          then Inl (Validation (lit ''sender id '' @ ae_debug E v @ lit '' has no approved provider registration''))
          else Inr v)) U x"
      from alone_find_registrations [OF lawful_self a] s'(1) have X: "X = T"
        and sel: "selects (a_registrations (t_api T)) sir_id (\<lambda>r. sir_senderIdId r = sid_id s \<and> sir_status r = reg_approved) (Some 1) approved"
        by auto
      show ?thesis
      proof (cases approved)
        case (Cons g gs)
        with selects_rows [OF sel, of g] s' have "approved_sender T v" unfolding approved_sender_def by auto
        then show ?thesis using ret X Cons by simp
      qed (use ret X in simp)
    qed (use s'(1) alone_find_registrations [OF lawful_self] in auto)
  next
    fix e
    assume e: "alone lawful_answer V (first_or ?none ?find) U (Inl e)" "x = Inl e"
    have "U = V" by (rule first_or_reads [OF e(1)]) (auto dest: alone_find_senders [OF lawful_self])
    with e V show ?thesis by simp
  qed
qed (use alone_requested_sender in auto)

text \<open>What the checks of a send establish of the tables they read.\<close>

definition recipient_allows :: "tables \<Rightarrow> app \<Rightarrow> ustring \<Rightarrow> schema_class \<Rightarrow> bool" where
  "recipient_allows T app h cls \<longleftrightarrow> (requires_recipient_consent_controls cls \<longrightarrow>
     (\<forall>i row. a_opt_outs (t_api T) i = Some row \<longrightarrow> ooi_msisdnHash (oo_input row) \<noteq> h)
     \<and> (\<exists>i row. a_consents (t_api T) i = Some row \<and> cr_appId row = app_id app \<and> cr_msisdnHash row = h \<and> cr_scope row = cls))"

definition quota_left :: "api_env \<Rightarrow> tables \<Rightarrow> app \<Rightarrow> instant \<Rightarrow> bool" where
  "quota_left E T app now \<longleftrightarrow>
     int (card {i. \<exists>m. t_messages T i = Some m \<and> msg_appId m = app_id app \<and> month_start E now \<le> msg_createdAt m})
       < app_monthlyQuota app"

lemma alone_send_checks:
  assumes "alone lawful_answer T (send_checks E app h now args) U x"
  shows "U = T \<and> (\<forall>sender. x = Inr sender \<longrightarrow> recipient_allows T app h (class_of args)
    \<and> (subject_to_quiet_hours (class_of args) \<longrightarrow> is_within_marketing_quiet_hours (delivery_time args now))
    \<and> quota_left E T app now \<and> approved_sender T sender)"
  using assms unfolding send_checks_def
  apply (elim alone_tryE)
  apply (auto simp: recipient_allows_def quota_left_def counts_def ensure_within_marketing_quiet_hours_def
      split: if_splits
      dest!: alone_ensure_not_opted_out alone_ensure_consent alone_ensure_quota alone_resolve_sender)
  done

subsection \<open>What is read through the caches\<close>

definition client_app_truth :: "tables \<Rightarrow> ustring \<Rightarrow> app \<Rightarrow> bool" where
  "client_app_truth T client_id app \<longleftrightarrow> (\<exists>i c. a_clients (t_api T) i = Some c \<and> aci_clientId (ac_input c) = client_id \<and> ac_active c
     \<and> a_apps (t_api T) (aci_appId (ac_input c)) = Some app \<and> app_active app)"

definition operators_truth :: "tables \<Rightarrow> unit \<Rightarrow> prefix_table \<Rightarrow> bool" where
  "operators_truth T u table \<longleftrightarrow> (\<exists>rows. selects (a_prefix_rules (t_api T)) opr_id opr_active None rows
     \<and> table = prefix_table_new (map (\<lambda>row. (opr_prefix row, operator_code_str (opr_operator row))) rows))"

lemma fetch_app_true:
  assumes "alone lawful_answer T (fetch_app client) U (Inr app)"
  shows "client_app_truth T client app"
proof -
  note find_client = alone_find_app_clients [OF lawful_self] and find_app = alone_find_apps [OF lawful_self]
  let ?clients = "find_app_clients (\<lambda>c. aci_clientId (ac_input c) = client \<and> ac_active c) (Some 1)"
  let ?apps = "\<lambda>c. find_apps (\<lambda>a. app_id a = aci_appId (ac_input c) \<and> app_active a) (Some 1)"
  from assms obtain V c where c: "alone lawful_answer T (first_or (Unauthorized (lit ''unknown client'')) ?clients) V (Inr c)"
    and a: "alone lawful_answer V (first_or (Unauthorized (lit ''app not found or inactive'')) (?apps c)) U (Inr app)"
    unfolding fetch_app_def by (rule alone_tryE) simp
  have V: "V = T" by (rule first_or_reads [OF c]) (simp add: find_client)
  from c obtain rows where "alone lawful_answer T ?clients V (Inr (c # rows))" by (rule alone_first_or) simp_all
  then have c': "a_clients (t_api T) (ac_id c) = Some c" "aci_clientId (ac_input c) = client" "ac_active c"
    by (auto dest!: find_client selects_rows)
  from a obtain rows where "alone lawful_answer V (?apps c) U (Inr (app # rows))" by (rule alone_first_or) simp_all
  then have "a_apps (t_api T) (aci_appId (ac_input c)) = Some app" "app_active app"
    by (auto simp: V dest!: find_app selects_rows)
  with c' show ?thesis unfolding client_app_truth_def by blast
qed

interpretation client_apps: fetcher fetch_app client_app_truth
proof
  fix T U :: tables and i :: ustring and x :: "cratestack_error + app" and v
  show "alone lawful_answer T (fetch_app i) U x \<Longrightarrow> U = T"
    unfolding fetch_app_def
    by (elim alone_tryE) (auto dest!: first_or_reads alone_find_app_clients [OF lawful_self] alone_find_apps [OF lawful_self])
  show "alone lawful_answer T (fetch_app i) U (Inr v) \<Longrightarrow> client_app_truth T i v" by (rule fetch_app_true)
qed

interpretation operators: fetcher fetch_operators operators_truth
proof
  fix T U :: tables and i :: unit and x :: "cratestack_error + prefix_table" and v
  show "alone lawful_answer T (fetch_operators i) U x \<Longrightarrow> U = T"
    unfolding fetch_operators_def by (elim alone_tryE) (auto dest!: alone_find_prefix_rules [OF lawful_self])
  show "alone lawful_answer T (fetch_operators i) U (Inr v) \<Longrightarrow> operators_truth T i v"
    unfolding fetch_operators_def
    by (elim alone_tryE) (auto simp: operators_truth_def dest!: alone_find_prefix_rules [OF lawful_self])
qed

text \<open>The application of a machine caller: what the tables say now, or what they said less than a minute ago.\<close>

definition serves_app :: "tables \<Rightarrow> caches \<Rightarrow> ustring \<Rightarrow> app \<Rightarrow> bool" where
  "serves_app T st client app \<longleftrightarrow> client_app_truth T client app
     \<or> (\<exists>t0 now. tc_entries (ca_apps st) client = Some (app, t0) \<and> fresh_in (ca_apps st) t0 now)"

lemma alone_resolve_app:
  assumes "alone lawful_answer T (resolve_app st client) U (r, st')"
  shows "U = T \<and> ca_operators st' = ca_operators st \<and> (\<forall>app. r = Inr app \<longrightarrow> serves_app T st client app)"
proof -
  from assms obtain c where c: "alone lawful_answer T (get_or_fetch (ca_apps st) client fetch_app) U (r, c)"
    "st' = st\<lparr>ca_apps := c\<rparr>" by (auto simp: resolve_app_def)
  show ?thesis using client_apps.cached(1,2) [OF c(1)] c(2) by (auto simp: serves_app_def)
qed

lemma alone_classify:
  assumes "alone lawful_answer T (classify_operator st m) U (r, st')"
  shows "U = T"
proof -
  from assms obtain V r0 st0 c where "alone lawful_answer T (get_or_fetch (ca_operators st) () fetch_operators) U (r0, c)"
    by (auto simp: classify_operator_def operator_table_def)
  then show ?thesis by (rule operators.cached(1))
qed

lemma alone_find_providers:
  assumes "alone lawful_answer T (find_providers f ord l) U x"
  shows "U = T"
  using assms unfolding find_providers_def
  by (rule alone_lawful [OF lawful_self]) (auto simp: lawful_answer_def split: response.splits)

lemma alone_estimate_cost: "alone lawful_answer T (estimate_cost E n) U x \<Longrightarrow> U = T"
  unfolding estimate_cost_def by (erule alone_tryE) (auto dest: alone_find_providers simp: Let_def)

lemma alone_create_message:
  assumes "alone lawful_answer T (create_message i) U x"
  shows "case x of Inl e \<Rightarrow> U = T | Inr row \<Rightarrow> (\<exists>key now v. row = new_message key now v i \<and> t_messages T key = None
    \<and> (\<forall>j m. t_messages T j = Some m \<longrightarrow> \<not> same_key_blocks i m) \<and> segments_in_range i
    \<and> U = T\<lparr>t_messages := (t_messages T)(key \<mapsto> row)\<rparr>)"
proof -
  from assms obtain r T' where law: "lawful_answer T (CreateMessage i) r T'"
    and r: "alone lawful_answer T' (case r of MessageRow x \<Rightarrow> Ret x | _ \<Rightarrow> Panic) U x"
    unfolding create_message_def by (rule alone_lawful [OF lawful_self])
  from r have "r = MessageRow x" "T' = U" by (simp_all split: response.splits)
  with law consider e where "x = Inl e" "U = T"
    | key now v where "x = Inr (new_message key now v i)" "t_messages T key = None"
        "\<forall>j m. t_messages T j = Some m \<longrightarrow> \<not> same_key_blocks i m" "segments_in_range i"
        "U = T\<lparr>t_messages := (t_messages T)(key \<mapsto> new_message key now v i)\<rparr>"
    by (auto simp: lawful_answer_def)
  then show ?thesis
  proof cases
    case 2
    then show ?thesis unfolding 2(1) sum.case by (intro exI [of _ key] exI [of _ now] exI [of _ v]) simp
  qed simp
qed

subsection \<open>What a send does\<close>

text \<open>The conditions under which a text is accepted, and the row that records it.\<close>

definition send_allowed ::
    "api_env \<Rightarrow> tables \<Rightarrow> caches \<Rightarrow> cs_context \<Rightarrow> send_message_input \<Rightarrow> app \<Rightarrow> msisdn \<Rightarrow> ustring \<Rightarrow> instant \<Rightarrow> bool" where
  "send_allowed E T st ctx args app m sender now \<longleftrightarrow>
     holds (context_perms ctx) (context_scope ctx) (lit ''sms:send'')
     \<and> (\<exists>client. caller_client_id ctx = Inr client \<and> serves_app T st client app)
     \<and> parse_mobile (ae_phone E) (sm_to args) = Inr m
     \<and> recipient_allows T app (keyed_hash_hex E (e164 m)) (class_of args)
     \<and> (subject_to_quiet_hours (class_of args) \<longrightarrow> is_within_marketing_quiet_hours (delivery_time args now))
     \<and> quota_left E T app now \<and> approved_sender T sender"

definition records_send ::
    "api_env \<Rightarrow> tables \<Rightarrow> send_message_input \<Rightarrow> app \<Rightarrow> msisdn \<Rightarrow> ustring \<Rightarrow> instant \<Rightarrow> send_message_result \<Rightarrow> tables \<Rightarrow> bool" where
  "records_send E T args app m sender now res U \<longleftrightarrow> (\<exists>op expiry key t v.
     let i = message_input_of E app m sender op expiry args; row = new_message key t v i
     in expires_at E args now = Some expiry \<and> t_messages T key = None
        \<and> (\<forall>j old. t_messages T j = Some old \<longrightarrow> \<not> same_key_blocks i old) \<and> segments_in_range i
        \<and> U = T\<lparr>t_messages := (t_messages T)(key \<mapsto> row)\<rparr>
        \<and> sr_messageId res = key \<and> sr_state res = Accepted \<and> sr_encoding res = msg_encoding row
        \<and> sr_segments res = msg_segments row \<and> sr_operator res = op)"

lemma alone_send_accept:
  assumes "alone lawful_answer T (send_accept E st app m sender now args) U (x, st')"
  shows "case x of Inl e \<Rightarrow> U = T | Inr res \<Rightarrow> records_send E T args app m sender now res U"
proof -
  let ?n = "uint (segments (analyse (ae_nfd E) (outgoing_body E app args)))"
  let ?in = "\<lambda>op expiry. message_input_of E app m sender op expiry args"
  let ?res = "\<lambda>cost row. \<lparr>sr_messageId = msg_id row, sr_state = msg_state row, sr_encoding = msg_encoding row,
     sr_segments = msg_segments row, sr_operator = msg_operator row, sr_estimatedCostXaf = cost\<rparr>"
  let ?k = "\<lambda>st1 op cost. case expires_at E args now of None \<Rightarrow> Panic
     | Some expiry \<Rightarrow> try_dir (create_message (?in op expiry)) st1 (\<lambda>row. Ret (Inr (?res cost row), st1))"
  from assms obtain V r st1 where r: "alone lawful_answer T (classify_operator st m) V (r, st1)"
    and go: "alone lawful_answer V (try_dir (Ret r) st1 (\<lambda>op. try_dir (estimate_cost E ?n) st1 (?k st1 op))) U (x, st')"
    by (auto simp: send_accept_def Let_def)
  have V: "V = T" by (rule alone_classify [OF r])
  from go show ?thesis
  proof (rule alone_try_dirE)
    fix W op
    assume "alone lawful_answer V (Ret r) W (Inr op)"
      and "alone lawful_answer W (try_dir (estimate_cost E ?n) st1 (?k st1 op)) U (x, st')"
    then have "alone lawful_answer T (try_dir (estimate_cost E ?n) st1 (?k st1 op)) U (x, st')" using V by simp
    then show ?thesis
    proof (rule alone_try_dirE)
      fix X cost
      assume "alone lawful_answer T (estimate_cost E ?n) X (Inr cost)" and k: "alone lawful_answer X (?k st1 op cost) U (x, st')"
      then have X: "X = T" using alone_estimate_cost by blast
      from k obtain expiry where expiry: "expires_at E args now = Some expiry" by (auto split: option.splits)
      with k X have "alone lawful_answer T (try_dir (create_message (?in op expiry)) st1 (\<lambda>row. Ret (Inr (?res cost row), st1))) U (x, st')"
        by simp
      then show ?thesis
      proof (rule alone_try_dirE)
        fix Y row
        assume row: "alone lawful_answer T (create_message (?in op expiry)) Y (Inr row)"
          and ret: "alone lawful_answer Y (Ret (Inr (?res cost row), st1)) U (x, st')"
        from alone_create_message [OF row] obtain key t v where new: "row = new_message key t v (?in op expiry)"
          "t_messages T key = None" "\<forall>j old. t_messages T j = Some old \<longrightarrow> \<not> same_key_blocks (?in op expiry) old"
          "segments_in_range (?in op expiry)" "Y = T\<lparr>t_messages := (t_messages T)(key \<mapsto> row)\<rparr>" by auto
        have "records_send E T args app m sender now (?res cost row) U"
          unfolding records_send_def Let_def
          by (rule exI [of _ op], rule exI [of _ expiry], rule exI [of _ key], rule exI [of _ t], rule exI [of _ v])
            (use new ret expiry in \<open>auto simp: new_message_def message_input_of_def Let_def\<close>)
        then show ?thesis using ret by auto
      qed (use alone_create_message in fastforce)
    qed (use alone_estimate_cost in auto)
  qed (use V in simp)
qed

lemma alone_send:
  assumes "lawful answers" "alone answers T (send_message E st ctx args) U (x, st')"
  shows "case x of Inl e \<Rightarrow> U = T
    | Inr res \<Rightarrow> \<exists>app m sender now. send_allowed E T st ctx args app m sender now \<and> records_send E T args app m sender now res U"
  using alone_permissive [OF assms] unfolding send_message_def
proof (rule alone_try_dirE)
  let ?acc = "\<lambda>st1 now app m sender. send_accept E st1 app m sender now args"
  let ?chk = "\<lambda>st1 now app m. try_dir (send_checks E app (keyed_hash_hex E (e164 m)) now args) st1 (?acc st1 now app m)"
  let ?par = "\<lambda>st1 now app. try_dir (Ret (valid_mobile E (sm_to args))) st1 (?chk st1 now app)"
  fix V u
  assume "alone lawful_answer T (Ret (require_permission (ae_debug E) ctx (lit ''sms:send''))) V (Inr u)"
    and "alone lawful_answer V (bind_prog utc_now (\<lambda>now. try_dir (Ret (caller_client_id ctx)) st (\<lambda>client_id.
       bind_prog (resolve_app st client_id) (\<lambda>(r, st1). try_dir (Ret r) st1 (?par st1 now))))) U (x, st')"
  then obtain now where perm: "require_permission (ae_debug E) ctx (lit ''sms:send'') = Inr u"
    and "alone lawful_answer T (try_dir (Ret (caller_client_id ctx)) st (\<lambda>client_id.
       bind_prog (resolve_app st client_id) (\<lambda>(r, st1). try_dir (Ret r) st1 (?par st1 now)))) U (x, st')"
    by (auto dest!: alone_utc_now [OF lawful_self])
  from this(2) show ?thesis
  proof (rule alone_try_dirE)
    fix W client
    assume "alone lawful_answer T (Ret (caller_client_id ctx)) W (Inr client)"
      and "alone lawful_answer W (bind_prog (resolve_app st client) (\<lambda>(r, st1). try_dir (Ret r) st1 (?par st1 now))) U (x, st')"
    then obtain X r st1 where client: "caller_client_id ctx = Inr client"
      and r: "alone lawful_answer T (resolve_app st client) X (r, st1)"
      and "alone lawful_answer X (try_dir (Ret r) st1 (?par st1 now)) U (x, st')" by auto
    with alone_resolve_app [OF r] have "alone lawful_answer T (try_dir (Ret r) st1 (?par st1 now)) U (x, st')" by simp
    then show ?thesis
    proof (rule alone_try_dirE)
      fix Y app
      assume "alone lawful_answer T (Ret r) Y (Inr app)" and "alone lawful_answer Y (?par st1 now app) U (x, st')"
      then have app: "serves_app T st client app" and "alone lawful_answer T (?par st1 now app) U (x, st')"
        using alone_resolve_app [OF r] by auto
      from this(2) show ?thesis
      proof (rule alone_try_dirE)
        fix Z m
        assume "alone lawful_answer T (Ret (valid_mobile E (sm_to args))) Z (Inr m)"
          and "alone lawful_answer Z (?chk st1 now app m) U (x, st')"
        then have m: "valid_mobile E (sm_to args) = Inr m" and "alone lawful_answer T (?chk st1 now app m) U (x, st')" by auto
        from this(2) show ?thesis
        proof (rule alone_try_dirE)
          fix Q sender
          assume s: "alone lawful_answer T (send_checks E app (keyed_hash_hex E (e164 m)) now args) Q (Inr sender)"
            and "alone lawful_answer Q (?acc st1 now app m sender) U (x, st')"
          then have acc: "alone lawful_answer T (?acc st1 now app m sender) U (x, st')" using alone_send_checks [OF s] by simp
          have "send_allowed E T st ctx args app m sender now"
            using alone_send_checks [OF s] perm client app m unfolding send_allowed_def
            by (auto simp: require_permission_def valid_mobile_def map_err_def split: if_splits sum.splits)
          then show ?thesis using alone_send_accept [OF acc] by (cases x) auto
        qed (use alone_send_checks in auto)
      qed simp
    qed simp
  qed simp
qed simp


text \<open>C18: The preview tells the truth about a send. If the previewed text is then accepted, the row has the encoding and the
  segment count of the preview when the application does not transliterate; when it does and the preview suggested a
  rewrite, the row's text is that suggestion, in GSM-7. With the recipient previewed too, the row's number is the
  preview's.\<close>

theorem preview_agrees_with_send:
  assumes "lawful answers" "alone answers T (send_message E st ctx args) U (Inr res, st')"
    and "preview E \<lparr>pi_body = sm_body args, pi_to = Some (sm_to args)\<rparr> = Inr pv"
  shows "\<exists>client app row. caller_client_id ctx = Inr client \<and> serves_app T st client app
    \<and> t_messages U (sr_messageId res) = Some row \<and> msg_appId row = app_id app
    \<and> (trim (sm_to args) \<noteq> [] \<longrightarrow> pv_normalizedTo pv = Some (msg_msisdn row))
    \<and> (\<not> app_transliterateToGsm7 app \<longrightarrow> sr_encoding res = pv_encoding pv \<and> sr_segments res = pv_segments pv)
    \<and> (\<forall>s. app_transliterateToGsm7 app \<and> pv_suggestion pv = Some s \<longrightarrow> msg_body row = Some s \<and> sr_encoding res = gsm7)"
proof -
  from alone_send [OF assms(1,2)] obtain app m sender now where
    allowed: "send_allowed E T st ctx args app m sender now" and rec: "records_send E T args app m sender now res U" by auto
  let ?body = "normalise (ae_nfc E) (sm_body args)"
  from rec obtain op expiry key t v row where row: "row = new_message key t v (message_input_of E app m sender op expiry args)"
    "t_messages U key = Some row"
    and res: "sr_messageId res = key" "sr_encoding res = msg_encoding row" "sr_segments res = msg_segments row"
    by (auto simp: records_send_def Let_def)
  from allowed obtain client where client: "caller_client_id ctx = Inr client" "serves_app T st client app"
    by (auto simp: send_allowed_def)
  have m: "valid_mobile E (sm_to args) = Inr m"
    using allowed by (simp add: send_allowed_def valid_mobile_def map_err_def)
  with assms(3) have pv: "pv_encoding pv = encoding_of (encoding (analyse (ae_nfd E) ?body))"
    "pv_segments pv = uint (segments (analyse (ae_nfd E) ?body))" "pv_suggestion pv = suggestion (analyse (ae_nfd E) ?body)"
    "trim (sm_to args) \<noteq> [] \<Longrightarrow> pv_normalizedTo pv = Some (e164 m)"
    by (auto simp: preview_def Let_def split: if_splits)
  have sugg: "fst (transliterate_to_gsm7 (ae_nfd E) ?body) = s" "encoding (analyse (ae_nfd E) s) = Gsm7"
    if "suggestion (analyse (ae_nfd E) ?body) = Some s" for s
  proof -
    have "\<not> is_gsm7_str ?body" using that by (auto simp: analyse_gsm7 Let_def)
    with that have "fst (transliterate_to_gsm7 (ae_nfd E) ?body) = s \<and> is_gsm7_str s"
      by (auto simp: analyse_ucs2 Let_def split: if_splits)
    then show "fst (transliterate_to_gsm7 (ae_nfd E) ?body) = s" "encoding (analyse (ae_nfd E) s) = Gsm7"
      by (auto simp: analyse_gsm7 Let_def)
  qed
  show ?thesis
    by (rule exI [of _ client], rule exI [of _ app], rule exI [of _ row])
      (use client row res pv sugg in \<open>auto simp: new_message_def message_input_of_def outgoing_body_def Let_def\<close>)
qed

subsection \<open>A run that panics\<close>

inductive crashes :: "world \<Rightarrow> tables \<Rightarrow> 'a prog \<Rightarrow> bool" for answers where
  crash_here: "crashes answers T Panic"
| crash_later: "answers T req r T' \<Longrightarrow> crashes answers T' (k r) \<Longrightarrow> crashes answers T (Call req k)"

inductive_simps crashes_Panic [simp]: "crashes answers T Panic"
inductive_simps crashes_Ret [simp]: "crashes answers T (Ret x)"

lemma crashes_bind:
  "alone answers T p V x \<Longrightarrow> crashes answers V (f x) \<Longrightarrow> crashes answers T (bind_prog p f)"
  by (induction rule: alone.induct) (auto intro: crash_later)

text \<open>\<^verbatim>\<open>send\<close> up to the expiry time: nothing before it looks at the validity asked for.\<close>

definition send_until_expiry ::
    "api_env \<Rightarrow> caches \<Rightarrow> cs_context \<Rightarrow> send_message_input
      \<Rightarrow> ((cratestack_error + (instant \<times> app \<times> msisdn \<times> ustring \<times> schema_operator \<times> decimal)) \<times> caches) prog" where
  "send_until_expiry E st ctx args =
     try_dir (Ret (require_permission (ae_debug E) ctx (lit ''sms:send''))) st (\<lambda>_.
     bind_prog utc_now (\<lambda>now.
     try_dir (Ret (caller_client_id ctx)) st (\<lambda>client_id.
     bind_prog (resolve_app st client_id) (\<lambda>(r, st1). try_dir (Ret r) st1 (\<lambda>app.
     try_dir (Ret (valid_mobile E (sm_to args))) st1 (\<lambda>m.
     try_dir (send_checks E app (keyed_hash_hex E (e164 m)) now args) st1 (\<lambda>sender.
     bind_prog (classify_operator st1 m) (\<lambda>(r, st2). try_dir (Ret r) st2 (\<lambda>op.
     try_dir (estimate_cost E (uint (segments (analyse (ae_nfd E) (outgoing_body E app args))))) st2 (\<lambda>cost.
     Ret (Inr (now, app, m, sender, op, cost), st2)))))))))))"

definition send_from_expiry ::
    "api_env \<Rightarrow> send_message_input \<Rightarrow> caches \<Rightarrow> instant \<times> app \<times> msisdn \<times> ustring \<times> schema_operator \<times> decimal
      \<Rightarrow> ((cratestack_error + send_message_result) \<times> caches) prog" where
  "send_from_expiry E args st found = (case found of (now, app, m, sender, op, cost) \<Rightarrow> (case expires_at E args now of
     None \<Rightarrow> Panic
   | Some expiry \<Rightarrow> try_dir (create_message (message_input_of E app m sender op expiry args)) st (\<lambda>row.
       Ret (Inr \<lparr>sr_messageId = msg_id row, sr_state = msg_state row, sr_encoding = msg_encoding row,
         sr_segments = msg_segments row, sr_operator = msg_operator row, sr_estimatedCostXaf = cost\<rparr>, st))))"

lemma try_dir_then:
  "bind_prog (try_dir p d f) (\<lambda>(r, s). try_dir (Ret r) s (g s)) =
     try_dir p d (\<lambda>x. bind_prog (f x) (\<lambda>(r, s). try_dir (Ret r) s (g s)))"
proof -
  have "bind_prog (case r of Inl e \<Rightarrow> Ret (Inl e, d) | Inr x \<Rightarrow> f x) (\<lambda>(r, s). try_dir (Ret r) s (g s))
    = (case r of Inl e \<Rightarrow> Ret (Inl e, d) | Inr x \<Rightarrow> bind_prog (f x) (\<lambda>(r, s). try_dir (Ret r) s (g s)))" for r
    by (simp add: try_dir_def split: sum.split)
  then show ?thesis by (simp add: try_dir_def [of p] bind_prog_assoc)
qed

lemma bind_pair_then:
  "bind_prog (bind_prog p (\<lambda>(a, b). f a b)) h = bind_prog p (\<lambda>(a, b). bind_prog (f a b) h)"
  by (simp add: bind_prog_assoc split_beta')

lemma send_at_expiry:
  "send_message E st ctx args =
     bind_prog (send_until_expiry E st ctx args) (\<lambda>(r, s). try_dir (Ret r) s (send_from_expiry E args s))"
proof -
  have last: "bind_prog (Ret (Inr y, s0)) (\<lambda>(r, s). try_dir (Ret r) s (g s)) = g s0 y"
    for y :: 'y and s0 and g :: "caches \<Rightarrow> 'y \<Rightarrow> ((cratestack_error + send_message_result) \<times> caches) prog"
    by (simp add: try_dir_def)
  show ?thesis
    unfolding send_until_expiry_def send_message_def send_accept_def Let_def try_dir_then bind_pair_then
      bind_prog_assoc [of utc_now] last send_from_expiry_def prod.case ..
qed

lemma until_expiry_validity: "send_until_expiry E st ctx (args\<lparr>sm_validityMinutes := v\<rparr>) = send_until_expiry E st ctx args"
proof -
  let ?args = "args\<lparr>sm_validityMinutes := v\<rparr>"
  have "class_of ?args = class_of args" "delivery_time ?args = delivery_time args" "outgoing_body E app ?args = outgoing_body E app args"
    "sm_to ?args = sm_to args" "sm_senderId ?args = sm_senderId args" for app
    by (auto simp: class_of_def delivery_time_def outgoing_body_def)
  then show ?thesis unfolding send_until_expiry_def send_checks_def by (simp only:)
qed

text \<open>C38: \<^verbatim>\<open>send\<close> has a panic that its caller controls: whatever text the gateway accepts, the same request with a
  \<^verbatim>\<open>validityMinutes\<close> that does not fit the duration type runs to the same point and panics there instead of
  being refused, since \<^verbatim>\<open>ChronoDuration::minutes\<close> panics out of range.\<close>

theorem send_overflow_panics:
  assumes "alone answers T (send_message E st ctx args) U (Inr res, st')" "ae_minutes E m = None"
  shows "crashes answers T (send_message E st ctx (args\<lparr>sm_validityMinutes := Some m\<rparr>))"
proof -
  let ?args = "args\<lparr>sm_validityMinutes := Some m\<rparr>"
  from assms(1) obtain V r s where run: "alone answers T (send_until_expiry E st ctx args) V (r, s)"
    and go: "alone answers V (try_dir (Ret r) s (send_from_expiry E args s)) U (Inr res, st')"
    unfolding send_at_expiry [of E st ctx args] by auto
  from go obtain found where r: "r = Inr found" by (rule alone_try_dirE) auto
  have none: "expires_at E ?args now = None" for now by (simp add: expires_at_def validity_of_def assms(2))
  have "crashes answers V (try_dir (Ret r) s (send_from_expiry E ?args s))"
    by (simp add: r try_dir_def send_from_expiry_def none split_beta)
  then show ?thesis
    unfolding send_at_expiry [of E st ctx ?args] until_expiry_validity
    by (intro crashes_bind [OF run]) simp
qed

subsection \<open>A marketing text that is accepted\<close>

text \<open>The duration type holds \<open>i64::MAX\<close> milliseconds, as in the library.\<close>

definition demo_api_env :: api_env where
  "demo_api_env = \<lparr>ae_crypto = demo_crypto, ae_pepper = lit ''pepper'', ae_phone = cm_lib, ae_nfc = id, ae_nfd = (\<lambda>c. [c]),
     ae_day = (\<lambda>_. 1), ae_minutes = (\<lambda>m. if \<bar>m * 60\<bar> \<le> 9223372036854775 then Some (minutes m) else None),
     ae_add = (\<lambda>t d. Some (t + d)), ae_decimal_mul = (\<lambda>(a, b) n. (a * n, b)), ae_debug = id, ae_debug_char = (\<lambda>c. [c])\<rparr>"

definition demo_app :: app where
  "demo_app = \<lparr>app_id = lit ''a1'', app_defaultSenderIdId = None, app_monthlyQuota = 2, app_transliterateToGsm7 = False, app_active = True\<rparr>"

definition demo_consent :: consent_record where
  "demo_consent = \<lparr>cr_id = lit ''c1'', cr_appId = lit ''a1'', cr_msisdnHash = keyed_hash_hex demo_api_env (lit ''+237677123456''), cr_scope = marketing\<rparr>"

definition demo_sender :: sender_id where
  "demo_sender = \<lparr>sid_id = lit ''s1'', sid_value = lit ''VYMALO'', sid_active = True\<rparr>"

definition demo_registration :: sender_id_registration where
  "demo_registration = \<lparr>sir_id = lit ''r1'', sir_senderIdId = lit ''s1'', sir_status = reg_approved\<rparr>"

definition demo_send_tables :: tables where
  "demo_send_tables = demo_tables\<lparr>t_api := no_api_rows\<lparr>a_apps := [lit ''a1'' \<mapsto> demo_app], a_clients := [lit ''ac1'' \<mapsto> demo_client],
     a_consents := [lit ''c1'' \<mapsto> demo_consent], a_senders := [lit ''s1'' \<mapsto> demo_sender],
     a_registrations := [lit ''r1'' \<mapsto> demo_registration]\<rparr>\<rparr>"

definition demo_send :: send_message_input where
  "demo_send = \<lparr>sm_to = lit ''+237 677 12 34 56'', sm_body = lit ''Hi'', sm_senderId = Some (lit ''VYMALO''), sm_class = Some marketing,
     sm_clientRef = Some (lit ''ref''), sm_scheduledAt = None, sm_validityMinutes = None\<rparr>"

definition demo_number :: msisdn where
  "demo_number = \<lparr>e164 = lit ''+237677123456'', national_offset = 4, m_region = Some CM, m_line_type = Mobile\<rparr>"

definition demo_caller :: cs_context where
  "demo_caller = context_for (AppStanding demo_standing)"

lemma demo_send_rows:
  "a_apps (t_api demo_send_tables) = [lit ''a1'' \<mapsto> demo_app]" "a_clients (t_api demo_send_tables) = [lit ''ac1'' \<mapsto> demo_client]"
  "a_consents (t_api demo_send_tables) = [lit ''c1'' \<mapsto> demo_consent]" "a_senders (t_api demo_send_tables) = [lit ''s1'' \<mapsto> demo_sender]"
  "a_registrations (t_api demo_send_tables) = [lit ''r1'' \<mapsto> demo_registration]" "a_opt_outs (t_api demo_send_tables) = (\<lambda>_. None)"
  "a_prefix_rules (t_api demo_send_tables) = (\<lambda>_. None)" "t_messages demo_send_tables = [lit ''m1'' \<mapsto> demo_message]"
  by (simp_all add: demo_send_tables_def no_api_rows_def) (simp_all add: demo_tables_def)

lemma demo_send_fields:
  "app_id demo_app = lit ''a1''" "app_active demo_app" "app_monthlyQuota demo_app = 2" "\<not> app_transliterateToGsm7 demo_app"
  "aci_clientId (ac_input demo_client) = lit ''appc_1''" "aci_appId (ac_input demo_client) = lit ''a1''"
  "cr_id demo_consent = lit ''c1''" "cr_appId demo_consent = lit ''a1''" "cr_scope demo_consent = marketing"
  "cr_msisdnHash demo_consent = keyed_hash_hex demo_api_env (lit ''+237677123456'')"
  "sid_id demo_sender = lit ''s1''" "sid_value demo_sender = lit ''VYMALO''" "sid_active demo_sender"
  "sir_id demo_registration = lit ''r1''" "sir_senderIdId demo_registration = lit ''s1''" "sir_status demo_registration = reg_approved"
  "sm_senderId demo_send = Some (lit ''VYMALO'')" "class_of demo_send = marketing" "delivery_time demo_send now = now"
  "sm_clientRef demo_send = Some (lit ''ref'')" "sm_validityMinutes demo_send = None" "e164 demo_number = lit ''+237677123456''"
  by (simp_all add: demo_app_def demo_client_def demo_consent_def demo_sender_def demo_registration_def demo_send_def class_of_def
      delivery_time_def demo_number_def)

lemma demo_checks_pass:
  "alone lawful_answer demo_send_tables
     (send_checks demo_api_env demo_app (keyed_hash_hex demo_api_env (e164 demo_number)) (hours 11) demo_send)
     demo_send_tables (Inr (lit ''VYMALO''))"
proof -
  let ?T = demo_send_tables and ?h = "keyed_hash_hex demo_api_env (e164 demo_number)"
  have opt_out: "alone lawful_answer ?T (ensure_not_opted_out ?h) ?T (Inr ())"
    unfolding ensure_not_opted_out_def
    by (rule alone_tryI, rule alone_find_opt_outsI [where rows = "[]"], rule selects_Nil) (simp_all add: demo_send_rows)
  have hours_ok: "ensure_within_marketing_quiet_hours (hours 11) = Inr ()"
    by (simp add: ensure_within_marketing_quiet_hours_def is_within_marketing_quiet_hours_def hour_of_def hours_def minutes_def secs_def Let_def
        MARKETING_QUIET_HOURS_START_WAT_def MARKETING_QUIET_HOURS_END_WAT_def WAT_OFFSET_HOURS_def)
  have consent: "alone lawful_answer ?T (ensure_consent_on_file (app_id demo_app) ?h marketing) ?T (Inr ())"
    unfolding ensure_consent_on_file_def
    by (rule alone_tryI, rule alone_find_consentsI [where rows = "[demo_consent]"], rule selects_one)
      (simp_all add: demo_send_rows demo_send_fields del: lit_Cons)
  let ?f = "\<lambda>m. msg_appId m = app_id demo_app \<and> month_start demo_api_env (hours 11) \<le> msg_createdAt m"
  define n where "n = int (card {i. \<exists>m. t_messages ?T i = Some m \<and> ?f m})"
  have "{i. \<exists>m. t_messages ?T i = Some m \<and> ?f m} \<subseteq> {lit ''m1''}" by (auto simp: demo_send_rows split: if_splits simp del: lit_Cons)
  from card_mono [OF _ this] have n: "counts (t_messages ?T) ?f n" "n < 2" by (simp_all add: counts_def n_def)
  have quota: "alone lawful_answer ?T (ensure_within_quota demo_api_env demo_app (hours 11)) ?T (Inr ())"
    unfolding ensure_within_quota_def count_messages_def
    by (rule alone_tryI, rule alone_call [where r = "Count (Inr n)" and T' = ?T])
      (use n in \<open>auto simp: lawful_answer_def demo_send_fields simp del: lit_Cons\<close>)
  have sender: "alone lawful_answer ?T (resolve_sender_id demo_api_env demo_app (Some (lit ''VYMALO''))) ?T (Inr (lit ''VYMALO''))"
    unfolding resolve_sender_id_def requested_sender_def option.case
    by (rule alone_tryI, rule alone_ret, rule alone_tryI, rule alone_first_orI, rule alone_find_sendersI [where rows = "[demo_sender]"],
        rule selects_one, simp add: demo_send_rows demo_send_fields del: lit_Cons, simp add: demo_send_fields del: lit_Cons,
        rule alone_tryI, rule alone_find_registrationsI [where rows = "[demo_registration]"], rule selects_one)
      (simp_all add: demo_send_rows demo_send_fields del: lit_Cons)
  show ?thesis
    unfolding send_checks_def demo_send_fields requires_recipient_consent_controls.simps subject_to_quiet_hours.simps if_True hours_ok
    using opt_out consent quota sender
    by (intro alone_tryI alone_ret) (assumption | simp add: demo_send_fields del: lit_Cons)+
qed

lemma alone_missI:
  assumes "tc_entries c key = None" "alone lawful_answer T (fetch key) T (Inr v)"
  shows "alone lawful_answer T (get_or_fetch c key fetch) T (Inr v, c\<lparr>tc_entries := (tc_entries c)(key \<mapsto> (v, 5))\<rparr>)"
proof -
  have miss: "cache_get c key = Ret None" by (simp add: cache_get_def assms(1))
  show ?thesis
    unfolding get_or_fetch_def miss bind_prog.simps option.case
    by (rule alone_bindI, rule assms(2), unfold sum.case, rule alone_bindI, rule alone_nowI) (rule alone_ret)
qed

lemma demo_fetch_app: "alone lawful_answer demo_send_tables (fetch_app (lit ''appc_1'')) demo_send_tables (Inr demo_app)"
  unfolding fetch_app_def
  by (rule alone_tryI, rule alone_first_orI, rule alone_find_app_clientsI [where rows = "[demo_client]"], rule selects_one,
      simp add: demo_send_rows demo_signer_rows del: lit_Cons, simp add: demo_send_fields demo_signer_rows del: lit_Cons,
      rule alone_first_orI, rule alone_find_appsI [where rows = "[demo_app]"], rule selects_one)
    (simp_all add: demo_send_rows demo_send_fields del: lit_Cons)

lemma demo_fetch_operators: "alone lawful_answer demo_send_tables (fetch_operators ()) demo_send_tables (Inr (prefix_table_new []))"
  unfolding fetch_operators_def
  by (rule alone_tryI, rule alone_find_prefix_rulesI [where rows = "[]"])
    (simp_all add: demo_send_rows selects_def in_limit_def below_limit_def)

lemma alone_try_dirI:
  "alone answers T p V (Inr x) \<Longrightarrow> alone answers V (f x) U y \<Longrightarrow> alone answers T (try_dir p d f) U y"
  unfolding try_dir_def by (rule alone_bindI, assumption) simp

definition demo_caches :: caches where
  "demo_caches = procedures_new\<lparr>ca_apps := (ca_apps procedures_new)\<lparr>tc_entries := [lit ''appc_1'' \<mapsto> (demo_app, 5)]\<rparr>\<rparr>"

definition demo_row :: message where
  "demo_row = new_message (lit ''m2'') 7 1 (message_input_of demo_api_env demo_app demo_number (lit ''VYMALO'') unknown_operator
     (hours 11 + hours 24) demo_send)"

definition demo_result :: send_message_result where
  "demo_result = \<lparr>sr_messageId = lit ''m2'', sr_state = Accepted, sr_encoding = gsm7, sr_segments = 1, sr_operator = unknown_operator,
     sr_estimatedCostXaf = (0, 0)\<rparr>"

definition demo_sent_tables :: tables where
  "demo_sent_tables = demo_send_tables\<lparr>t_messages := (t_messages demo_send_tables)(lit ''m2'' \<mapsto> demo_row)\<rparr>"

lemma demo_analysis: "encoding (analyse (ae_nfd demo_api_env) (outgoing_body demo_api_env demo_app demo_send)) = Gsm7"
  "segments (analyse (ae_nfd demo_api_env) (outgoing_body demo_api_env demo_app demo_send)) = 1"
proof -
  have body: "outgoing_body demo_api_env demo_app demo_send = lit ''Hi''"
    by (simp add: outgoing_body_def demo_send_fields demo_api_env_def normalise_eq del: lit_Cons) (simp add: demo_send_def substitute_def SUBSTITUTIONS_def)
  show "encoding (analyse (ae_nfd demo_api_env) (outgoing_body demo_api_env demo_app demo_send)) = Gsm7"
    "segments (analyse (ae_nfd demo_api_env) (outgoing_body demo_api_env demo_app demo_send)) = 1"
    unfolding body by code_simp+
qed

lemma alone_create_messageI:
  assumes "t_messages T key = None" "\<And>j m. t_messages T j = Some m \<Longrightarrow> \<not> same_key_blocks i m" "segments_in_range i"
  shows "alone lawful_answer T (create_message i) (T\<lparr>t_messages := (t_messages T)(key \<mapsto> new_message key now v i)\<rparr>)
    (Inr (new_message key now v i))"
proof -
  have "lawful_answer T (CreateMessage i) (MessageRow (Inr (new_message key now v i)))
      (T\<lparr>t_messages := (t_messages T)(key \<mapsto> new_message key now v i)\<rparr>)"
    unfolding lawful_answer_def request.case
    by (rule disjI2, rule exI [of _ key], rule exI [of _ now], rule exI [of _ v]) (use assms in auto)
  then show ?thesis unfolding create_message_def by (rule alone_call) simp
qed

lemma demo_accepted:
  "alone lawful_answer demo_send_tables (send_accept demo_api_env demo_caches demo_app demo_number (lit ''VYMALO'') (hours 11) demo_send)
     demo_sent_tables (Inr demo_result, demo_caches\<lparr>ca_operators := (ca_operators demo_caches)\<lparr>tc_entries := [() \<mapsto> (prefix_table_new [], 5)]\<rparr>\<rparr>)"
    (is "alone _ ?T _ _ (_, ?st)")
proof -
  have miss: "tc_entries (ca_operators demo_caches) = (\<lambda>_. None)" by (simp add: demo_caches_def procedures_new_def ttl_cache_new_def)
  have "alone lawful_answer ?T (operator_table demo_caches) ?T (Inr (prefix_table_new []), ?st)"
    unfolding operator_table_def
    by (rule alone_bindI, rule alone_missI, simp add: miss, rule demo_fetch_operators) (simp add: miss)
  then have op: "alone lawful_answer ?T (classify_operator demo_caches demo_number) ?T (Inr unknown_operator, ?st)"
    unfolding classify_operator_def
    by (rule alone_bindI) (simp add: lookup_operator_def lookup_national_def prefix_table_new_def split: if_splits option.splits)
  have cost: "alone lawful_answer ?T (estimate_cost demo_api_env n) ?T (Inr (0, 0))" for n
    unfolding estimate_cost_def find_providers_def
    by (rule alone_tryI, rule alone_call [where r = "Providers (Inr [])" and T' = ?T])
      (auto simp: lawful_answer_def in_limit_def demo_api_env_def)
  have expiry: "expires_at demo_api_env demo_send (hours 11) = Some (hours 11 + hours 24)"
    by (simp add: expires_at_def validity_of_def demo_send_fields) (simp add: demo_api_env_def)
  let ?i = "message_input_of demo_api_env demo_app demo_number (lit ''VYMALO'') unknown_operator (hours 11 + hours 24) demo_send"
  have i: "mi_segments ?i = 1" "mi_encoding ?i = gsm7" "mi_operator ?i = unknown_operator" "mi_idempotencyKey ?i = Some (lit ''ref'')"
    by (simp_all add: message_input_of_def Let_def demo_analysis demo_send_fields del: lit_Cons)
  have "\<not> same_key_blocks ?i demo_message" by (simp add: same_key_blocks_def i del: lit_Cons) (simp add: demo_message_def)
  then have row: "alone lawful_answer ?T (create_message ?i) demo_sent_tables (Inr demo_row)"
    unfolding demo_sent_tables_def demo_row_def
    by (intro alone_create_messageI) (auto simp: demo_send_rows segments_in_range_def i lit_inject split: if_splits simp del: lit_Cons)
  have out: "msg_id demo_row = lit ''m2''" "msg_state demo_row = Accepted" "msg_encoding demo_row = gsm7" "msg_segments demo_row = 1"
    "msg_operator demo_row = unknown_operator"
    by (simp_all add: demo_row_def new_message_def i del: lit_Cons)
  show ?thesis
    unfolding send_accept_def Let_def
    by (rule alone_bindI, rule op, unfold prod.case, rule alone_try_dirI, rule alone_ret, rule alone_try_dirI, rule cost,
        unfold expiry option.case, rule alone_try_dirI, rule row) (simp add: out demo_result_def del: lit_Cons)
qed

lemma demo_valid: "valid_mobile demo_api_env (sm_to demo_send) = Inr demo_number"
  using cm_lib_example
  by (simp add: valid_mobile_def parse_mobile_def parse_mobile_in_def demo_send_def demo_api_env_def demo_number_def map_err_def del: lit_Cons)

lemma demo_sms_send: "contains (lit '' sms:send '') (lit ''sms:send'')"
  by (simp add: contains_def unpack_def split_whitespace_def is_whitespace_def)

lemma demo_caller_scope: "context_scope demo_caller = Some (lit '' sms:send '')"
  by (simp add: context_scope_def demo_caller_def context_for_def into_context_granting_def demo_standing_def lit_inject del: lit_Cons)

lemma demo_caller_may:
  "require_permission d demo_caller (lit ''sms:send'') = Inr ()" "caller_client_id demo_caller = Inr (lit ''appc_1'')"
  by (simp add: require_permission_def holds_def demo_caller_scope demo_sms_send del: lit_Cons)
    (simp add: demo_caller_def caller_client_id_def text_field_def context_for_def into_context_granting_def demo_standing_def lit_inject
      del: lit_Cons)

lemma demo_sent:
  "\<exists>st'. alone lawful_answer demo_send_tables (send_message demo_api_env procedures_new demo_caller demo_send)
     demo_sent_tables (Inr demo_result, st')"
proof -
  let ?T = demo_send_tables
  have app: "alone lawful_answer ?T (resolve_app procedures_new (lit ''appc_1'')) ?T (Inr demo_app, demo_caches)"
    unfolding resolve_app_def
    by (rule alone_bindI, rule alone_missI, simp add: procedures_new_def ttl_cache_new_def, rule demo_fetch_app)
      (simp add: demo_caches_def procedures_new_def ttl_cache_new_def)
  show ?thesis
    unfolding send_message_def demo_caller_may
    by (rule exI, rule alone_try_dirI, rule alone_ret, rule alone_bindI, rule alone_nowI [where t = "hours 11"],
        rule alone_try_dirI, rule alone_ret, rule alone_bindI, rule app, unfold prod.case, rule alone_try_dirI, rule alone_ret,
        unfold demo_valid, rule alone_try_dirI, rule alone_ret, rule alone_try_dirI, rule demo_checks_pass, rule demo_accepted)
qed


theorem preview_agrees_with_send_witness:
  "case preview demo_api_env \<lparr>pi_body = sm_body demo_send, pi_to = Some (sm_to demo_send)\<rparr> of
     Inl e \<Rightarrow> False | Inr pv \<Rightarrow> pv_normalizedTo pv = Some (msg_msisdn demo_row)"
proof -
  from demo_sent obtain st' where run: "alone lawful_answer demo_send_tables (send_message demo_api_env procedures_new demo_caller demo_send)
     demo_sent_tables (Inr demo_result, st')" ..
  have trimmed: "trim (sm_to demo_send) \<noteq> []" by (simp add: demo_send_def trim_def is_whitespace_def)
  then obtain pv where pv: "preview demo_api_env \<lparr>pi_body = sm_body demo_send, pi_to = Some (sm_to demo_send)\<rparr> = Inr pv"
    by (auto simp: preview_def Let_def demo_valid)
  have row: "t_messages demo_sent_tables (sr_messageId demo_result) = Some demo_row"
    by (simp add: demo_sent_tables_def demo_result_def)
  show ?thesis using preview_agrees_with_send [OF lawful_permissive run pv] trimmed by (auto simp: pv row)
qed

theorem send_overflow_panics_witness:
  "crashes lawful_answer demo_send_tables
     (send_message demo_api_env procedures_new demo_caller (demo_send\<lparr>sm_validityMinutes := Some 9223372036854775807\<rparr>))"
proof -
  from demo_sent obtain st' where "alone lawful_answer demo_send_tables (send_message demo_api_env procedures_new demo_caller demo_send)
     demo_sent_tables (Inr demo_result, st')" ..
  then show ?thesis by (rule send_overflow_panics) (simp add: demo_api_env_def)
qed

subsection \<open>A send beside the workers\<close>

text \<open>A program that keeps the rules whatever it has read so far.\<close>

definition obeys :: "rules \<Rightarrow> 'a prog \<Rightarrow> bool" where
  "obeys P p \<longleftrightarrow> (\<forall>K. wp P p K (\<lambda>_ _. True))"

lemma obeysD: "obeys P p \<Longrightarrow> wp P p K (\<lambda>_ _. True)"
  by (simp add: obeys_def)

lemma obeys_bind: "obeys P p \<Longrightarrow> (\<And>x. obeys P (f x)) \<Longrightarrow> obeys P (bind_prog p f)"
  unfolding obeys_def by (auto intro: wp_mono)

lemma obeys_try: "obeys P p \<Longrightarrow> (\<And>x. obeys P (f x)) \<Longrightarrow> obeys P (try_prog p f)"
  unfolding try_prog_def by (rule obeys_bind) (auto simp: obeys_def split: sum.split)

lemma obeys_try_dir: "obeys P p \<Longrightarrow> (\<And>x. obeys P (f x)) \<Longrightarrow> obeys P (try_dir p d f)"
  unfolding try_dir_def by (rule obeys_bind) (auto simp: obeys_def split: sum.split)

lemma obeys_first_or: "obeys P p \<Longrightarrow> obeys P (first_or e p)"
  unfolding first_or_def by (rule obeys_try) (simp_all add: obeys_def)

lemma obeys_Ret [simp]: "obeys P (Ret x)"
  by (simp add: obeys_def)

lemma obeys_if: "obeys P p \<Longrightarrow> obeys P q \<Longrightarrow> obeys P (if b then p else q)"
  by simp

lemma obeys_reads [simp]:
  "obeys P utc_now" "obeys P (find_providers fp op lp)" "obeys P (find_endpoints fe le)" "obeys P (find_receipts fr orr lr)"
  "obeys P (find_messages fm om lm)" "obeys P (find_routes ro)" "obeys P random_f64"
  "obeys P (count_messages cm)" "obeys P (count_jobs cj)" "obeys P (count_attempts ca)" "obeys P (update_endpoint ie pe ve)"
  by (simp_all add: obeys_def)

lemma obeys_api [simp]:
  "obeys P (find_roles f l)" "obeys P (find_oauth_clients f1 l)" "obeys P (find_apps f2 l)" "obeys P (find_app_clients f3 l)"
  "obeys P (create_app_client i3)" "obeys P (find_client_keys f4 l)" "obeys P (create_client_key i5)" "obeys P (revoke_client_key i6 n6)"
  "obeys P (find_console_keys f7 l)" "obeys P (create_console_key i8)" "obeys P (revoke_console_key i9 n9)" "obeys P (find_users f10 l)"
  "obeys P (create_user i11)" "obeys P (update_user_subject i12 s12 v12)" "obeys P (find_links f13 l)" "obeys P (create_link a b c)"
  "obeys P (find_prefix_rules f14)" "obeys P (find_opt_outs f15 l)" "obeys P (create_opt_out i16)" "obeys P (find_consents f17 l)"
  "obeys P (find_senders f18 l)" "obeys P (find_registrations f19 l)" "obeys P (create_lookup i20)" "obeys P (count_lookups f21)"
  "obeys P (settle_lookup i22 o22 n22)"
  unfolding obeys_def by (intro allI wp_apiI TrueI)+

lemma obeys_cached: "(\<And>k. obeys P (fetch k)) \<Longrightarrow> obeys P (get_or_fetch c key fetch)"
  unfolding get_or_fetch_def cache_get_def by (auto intro!: obeys_bind split: option.split sum.split)

lemmas obeys_intros = obeys_bind obeys_try obeys_try_dir obeys_first_or obeys_Ret obeys_if obeys_reads obeys_api obeys_cached

lemma new_text_inv: "message_inv (new_message key now v (message_input_of E app m sender op expiry args))"
  by (simp add: message_inv_def new_message_def message_input_of_def Let_def excluded_of_def tried_def)

abbreviation api_rules :: rules where
  "api_rules \<equiv> worker_rules\<lparr>may_panic := True\<rparr>"

lemma obeys_send_accept: "obeys api_rules (send_accept E st app m sender now args)"
proof -
  have "obeys api_rules (classify_operator st m)"
    unfolding classify_operator_def operator_table_def fetch_operators_def by (auto intro!: obeys_intros)
  moreover have "obeys api_rules (estimate_cost E n)" for n
    unfolding estimate_cost_def by (auto intro!: obeys_intros simp: Let_def)
  moreover have "obeys api_rules (create_message (message_input_of E app m sender op expiry args))" for op expiry
    by (simp add: obeys_def new_text_inv)
  moreover have "obeys api_rules Panic" by (simp add: obeys_def)
  ultimately show ?thesis
    unfolding send_accept_def by (auto intro!: obeys_intros simp: Let_def split: option.split)
qed

lemma obeys_send: "obeys api_rules (send_message E st ctx args)"
proof -
  have "obeys api_rules (resolve_app st client)" for client
    unfolding resolve_app_def fetch_app_def by (auto intro!: obeys_intros)
  moreover have "obeys api_rules (send_checks E app h now args)" for app h now
    unfolding send_checks_def ensure_not_opted_out_def ensure_consent_on_file_def ensure_within_quota_def resolve_sender_id_def
      requested_sender_def
    by (auto intro!: obeys_intros split: option.split)
  ultimately show ?thesis
    unfolding send_message_def by (auto intro!: obeys_intros obeys_send_accept)
qed

end
