(* ===== verification/Operations.thy ===== *)
theory Operations
  imports Procedures
begin

text \<open>
  The other procedures of \<^verbatim>\<open>backends/crates/sms-api/src/procedures.rs\<close>: requeueing a job, replaying a webhook
  delivery, rotating a webhook secret and switching an endpoint's delivery mode, opt-outs, provisioning a console user,
  the receipts of a message, the dashboard and its cache, and the three procedures that are not implemented. Their
  transactions are the \<open>transaction\<close> of the program model; the theorems run them with rollback (\<open>solo\<close>).
  Arguments stand for what is outside: the \<^verbatim>\<open>Display\<close> of framework errors (\<open>ts\<close>), fresh random bytes and
  identifiers, the pattern of sealable URLs and the URL parser, and the generated row policies the dashboard reads under.
\<close>

subsection \<open>Unimplemented procedures\<close>

definition not_yet :: "ustring \<Rightarrow> ustring \<Rightarrow> cratestack_error" where
  "not_yet procedure milestone =
     Internal (procedure @ lit '' is not implemented: it depends on work scheduled for '' @ milestone)"

definition list_messages_page :: "'args \<Rightarrow> (cratestack_error + 'out) prog" where
  "list_messages_page args = Ret (Inl (not_yet (lit ''listMessagesPage'') (lit ''milestone 2'')))"

definition cancel_message :: "'args \<Rightarrow> (cratestack_error + message) prog" where
  "cancel_message args = Ret (Inl (not_yet (lit ''cancelMessage'') (lit ''milestone 2'')))"

definition enqueue_job :: "'args \<Rightarrow> (cratestack_error + job) prog" where
  "enqueue_job args = Ret (Inl (not_yet (lit ''enqueueJob'') (lit ''milestone 2 (the jobs role)'')))"

subsection \<open>Jobs and deliveries\<close>

fun job_state_debug :: "job_state \<Rightarrow> ustring" where
  "job_state_debug JobPending = lit ''pending''"
| "job_state_debug JobRunning = lit ''running''"
| "job_state_debug JobSucceeded = lit ''succeeded''"
| "job_state_debug JobFailed = lit ''failed''"
| "job_state_debug JobDead = lit ''dead''"
| "job_state_debug JobCancelled = lit ''cancelled''"

fun attempt_state_debug :: "attempt_state \<Rightarrow> ustring" where
  "attempt_state_debug AttPending = lit ''pending''"
| "attempt_state_debug Delivering = lit ''delivering''"
| "attempt_state_debug AttSucceeded = lit ''succeeded''"
| "attempt_state_debug AttFailed = lit ''failed''"
| "attempt_state_debug AttDead = lit ''dead''"

definition requeue_patch :: "instant \<Rightarrow> job_patch" where
  "requeue_patch now = no_job_patch\<lparr>jp_state := Some JobPending, jp_attempts := Some 0, jp_lastError := Some None,
     jp_leaseOwner := Some None, jp_leaseUntil := Some None, jp_runAt := Some now\<rparr>"

definition requeue_body :: "ustring \<Rightarrow> instant \<Rightarrow> (cratestack_error + job) prog" where
  "requeue_body i now =
     try_prog (first_or (NotFound (lit ''no Job with id '' @ i)) (find_jobs (\<lambda>j. job_id j = i) [] (Some 1))) (\<lambda>existing.
     if job_st existing \<noteq> JobDead
     then Ret (Inl (Conflict (lit ''job '' @ i @ lit '' is '' @ job_state_debug (job_st existing)
       @ lit ''; requeue only applies to a dead job'')))
     else update_job i (requeue_patch now) (job_version existing))"

definition requeue :: "api_env \<Rightarrow> (cratestack_error \<Rightarrow> ustring) \<Rightarrow> cs_context \<Rightarrow> ustring \<Rightarrow> (cratestack_error + job) prog" where
  "requeue E ts ctx i =
     try_prog (Ret (require_permission (ae_debug E) ctx (lit ''job:enqueue''))) (\<lambda>_.
     bind_prog utc_now (\<lambda>now.
     bind_prog (transaction (requeue_body i now)) (\<lambda>r. Ret (map_err (map_database_error ts) r))))"

definition replay_patch :: "instant \<Rightarrow> attempt_patch" where
  "replay_patch now = no_attempt_patch\<lparr>ap_state := Some AttPending, ap_attempts := Some 0, ap_lastStatusCode := Some None,
     ap_lastError := Some None, ap_leaseOwner := Some None, ap_leaseUntil := Some None, ap_nextAttemptAt := Some (Some now)\<rparr>"

definition one_endpoint :: "ustring \<Rightarrow> (cratestack_error + endpoint list) prog" where
  "one_endpoint i = find_endpoints (\<lambda>e. ep_id e = i) (Some 1)"

text \<open>The refusal for an hmac endpoint while the method is off.\<close>

definition replay_allowed :: "hmac_webhooks \<Rightarrow> ustring \<Rightarrow> (cratestack_error + unit) prog" where
  "replay_allowed h endpoint_id = (if is_permitted h then Ret (Inr ())
     else try_prog (one_endpoint endpoint_id) (\<lambda>rows.
       Ret (case rows of
         e # _ \<Rightarrow> if ep_deliveryMode e = hmac
           then hmac_require h (lit ''an hmac endpoint's attempt cannot be replayed (replayWebhookAttempt)'') else Inr ()
       | [] \<Rightarrow> Inr ())))"

text \<open>The endpoint's breaker closes again.\<close>

definition reset_breaker :: "ustring \<Rightarrow> (cratestack_error + unit) prog" where
  "reset_breaker endpoint_id = try_prog (one_endpoint endpoint_id) (\<lambda>rows. case rows of
     [] \<Rightarrow> Ret (Inr ())
   | e # _ \<Rightarrow>
       if ep_consecutiveFailures e \<noteq> 0 \<or> ep_circuitOpenUntil e \<noteq> None
       then try_prog (update_endpoint (ep_id e)
              (no_endpoint_patch\<lparr>epp_consecutiveFailures := Some 0, epp_circuitOpenUntil := Some None\<rparr>) (ep_version e)) (\<lambda>_. Ret (Inr ()))
       else Ret (Inr ()))"

definition replay_body :: "hmac_webhooks \<Rightarrow> ustring \<Rightarrow> instant \<Rightarrow> (cratestack_error + attempt) prog" where
  "replay_body h i now =
     try_prog (first_or (NotFound (lit ''no WebhookAttempt with id '' @ i)) (find_attempts (\<lambda>a. att_id a = i) [] (Some 1))) (\<lambda>attempt.
     if att_st attempt \<noteq> AttFailed \<and> att_st attempt \<noteq> AttDead
     then Ret (Inl (Conflict (lit ''webhook attempt '' @ i @ lit '' is '' @ attempt_state_debug (att_st attempt)
       @ lit ''; replay only applies to a failed or dead delivery'')))
     else
       try_prog (replay_allowed h (att_endpointId attempt)) (\<lambda>_.
       try_prog (update_attempt i (replay_patch now) (att_version attempt)) (\<lambda>updated.
       try_prog (reset_breaker (att_endpointId attempt)) (\<lambda>_. Ret (Inr updated)))))"

definition replay_attempt ::
    "api_env \<Rightarrow> (cratestack_error \<Rightarrow> ustring) \<Rightarrow> hmac_webhooks \<Rightarrow> cs_context \<Rightarrow> ustring \<Rightarrow> (cratestack_error + attempt) prog" where
  "replay_attempt E ts h ctx i =
     try_prog (Ret (require_permission (ae_debug E) ctx (lit ''webhook:manage''))) (\<lambda>_.
     bind_prog utc_now (\<lambda>now.
     bind_prog (transaction (replay_body h i now)) (\<lambda>r. Ret (map_err (map_database_error ts) r))))"

subsection \<open>Webhook endpoints\<close>

definition endpoint_by_id :: "ustring \<Rightarrow> (cratestack_error + endpoint) prog" where
  "endpoint_by_id i = first_or (NotFound (lit ''no WebhookEndpoint with id '' @ i)) (one_endpoint i)"

definition rotate_body :: "api_env \<Rightarrow> u8 list \<Rightarrow> ustring \<Rightarrow> (cratestack_error + endpoint) prog" where
  "rotate_body E bytes i =
     try_prog (endpoint_by_id i) (\<lambda>e.
     if ep_deliveryMode e \<noteq> hmac
     then Ret (Inl (Validation (lit ''webhook endpoint '' @ i @ lit '' is sealed: it has no signing secret to rotate ''
       @ lit ''(its deliveries are sealed under vsms's envelope signing key)'')))
     else bind_prog utc_now (\<lambda>now.
       update_endpoint i (no_endpoint_patch\<lparr>epp_secret := Some (Some (generate_secret (ae_crypto E) bytes)),
         epp_prevSecret := Some (ep_secret e), epp_secretRotatedAt := Some (Some now)\<rparr>) (ep_version e)))"

definition rotate_secret ::
    "api_env \<Rightarrow> hmac_webhooks \<Rightarrow> u8 list \<Rightarrow> cs_context \<Rightarrow> ustring \<Rightarrow> (cratestack_error + endpoint) prog" where
  "rotate_secret E h bytes ctx i =
     try_prog (Ret (require_permission (ae_debug E) ctx (lit ''webhook:manage''))) (\<lambda>_.
     try_prog (Ret (hmac_require h (lit ''a signing secret cannot be rotated (rotateWebhookSecret)''))) (\<lambda>_.
     transaction (rotate_body E bytes i)))"

fun mode_name :: "webhook_delivery_mode \<Rightarrow> ustring" where
  "mode_name sealed = lit ''sealed''"
| "mode_name hmac = lit ''hmac''"

definition plan_mode_switch ::
    "api_env \<Rightarrow> (ustring \<Rightarrow> bool) \<Rightarrow> (ustring \<Rightarrow> parsed_url option) \<Rightarrow> u8 list \<Rightarrow> endpoint \<Rightarrow> webhook_delivery_mode
      \<Rightarrow> ustring option \<Rightarrow> cratestack_error + endpoint_patch" where
  "plan_mode_switch E url_can_be_sealed url_parse bytes e mode audience =
     (if ep_deliveryMode e = mode
      then Inl (Validation (lit ''webhook endpoint '' @ ep_id e @ lit '' is already '' @ mode_name mode @ lit '': there is nothing to switch''))
      else case mode of
        hmac \<Rightarrow>
          if audience \<noteq> None then Inl (Validation (lit ''an hmac endpoint has no audience: leave it out''))
          else Inr (no_endpoint_patch\<lparr>epp_deliveryMode := Some hmac, epp_audience := Some None,
            epp_secret := Some (Some (generate_secret (ae_crypto E) bytes)), epp_prevSecret := Some None, epp_secretRotatedAt := Some None\<rparr>)
      | sealed \<Rightarrow> (case audience of
          None \<Rightarrow> Inl (Validation (lit ''a sealed endpoint needs an audience: the name its receiver answers to''))
        | Some a \<Rightarrow>
            if a = [] then Inl (Validation (lit ''a sealed endpoint needs an audience: the name its receiver answers to''))
            else if \<not> url_can_be_sealed (ep_url e)
            then (let reason = (case delivery_route url_parse (ep_url e) of
                    Inl (SealUrl why) \<Rightarrow> why
                  | _ \<Rightarrow> lit ''its host or port is not written in the form a sealed endpoint takes'')
                  in Inl (Validation (lit ''webhook endpoint '' @ ep_id e @ [39] @ lit ''s URL cannot carry a sealed delivery (''
                    @ reason @ lit ''): change the URL first'')))
            else Inr (no_endpoint_patch\<lparr>epp_deliveryMode := Some sealed, epp_audience := Some (Some a),
              epp_secret := Some None, epp_prevSecret := Some None, epp_secretRotatedAt := Some None\<rparr>)))"

record switch_input =
  sw_endpointId :: ustring
  sw_mode :: webhook_delivery_mode
  sw_audience :: "ustring option"

definition switch_body ::
    "api_env \<Rightarrow> (cratestack_error \<Rightarrow> ustring) \<Rightarrow> (ustring \<Rightarrow> bool) \<Rightarrow> (ustring \<Rightarrow> parsed_url option) \<Rightarrow> u8 list \<Rightarrow> switch_input
      \<Rightarrow> (cratestack_error + endpoint) prog" where
  "switch_body E ts sealable url_parse bytes args =
     try_prog (endpoint_by_id (sw_endpointId args)) (\<lambda>e.
     try_prog (Ret (plan_mode_switch E sealable url_parse bytes e (sw_mode args) (sw_audience args))) (\<lambda>change.
     bind_prog (update_endpoint (sw_endpointId args) change (ep_version e)) (\<lambda>r. Ret (map_err (map_database_error ts) r))))"

definition switch_mode ::
    "api_env \<Rightarrow> (cratestack_error \<Rightarrow> ustring) \<Rightarrow> hmac_webhooks \<Rightarrow> (ustring \<Rightarrow> bool) \<Rightarrow> (ustring \<Rightarrow> parsed_url option) \<Rightarrow> u8 list
      \<Rightarrow> cs_context \<Rightarrow> switch_input \<Rightarrow> (cratestack_error + endpoint) prog" where
  "switch_mode E ts h sealable url_parse bytes ctx args =
     try_prog (Ret (require_permission (ae_debug E) ctx (lit ''webhook:manage''))) (\<lambda>_.
     try_prog (Ret (if sw_mode args = hmac
         then hmac_require h (lit ''an endpoint cannot be switched to hmac (switchWebhookDeliveryMode)'') else Inr ())) (\<lambda>_.
     transaction (switch_body E ts sealable url_parse bytes args)))"

subsection \<open>People and opt-outs\<close>

record provision_user_input =
  pu_email :: ustring
  pu_displayName :: ustring
  pu_roleKey :: ustring

record provision_user_result =
  pur_userId :: ustring
  pur_email :: ustring
  pur_roleKey :: ustring

text \<open>The placeholder subject, then the row's own id.\<close>

definition provision_body :: "ustring \<Rightarrow> provision_user_input \<Rightarrow> (cratestack_error + ustring) prog" where
  "provision_body uuid args =
     try_prog (create_user \<lparr>ui_subject = lit ''pending-'' @ uuid, ui_email = pu_email args, ui_displayName = pu_displayName args,
       ui_roleKey = pu_roleKey args\<rparr>) (\<lambda>u.
     try_prog (update_user_subject (usr_id u) (usr_id u) (usr_version u)) (\<lambda>_. Ret (Inr (usr_id u))))"

definition provision_console_user ::
    "api_env \<Rightarrow> (cratestack_error \<Rightarrow> ustring) \<Rightarrow> ustring \<Rightarrow> cs_context \<Rightarrow> provision_user_input
      \<Rightarrow> (cratestack_error + provision_user_result) prog" where
  "provision_console_user E ts uuid ctx args =
     try_prog (Ret (require_permission (ae_debug E) ctx (lit ''user:manage''))) (\<lambda>_.
     bind_prog (transaction (provision_body uuid args)) (\<lambda>r.
     Ret (bind_res (map_err (map_database_error ts) r) (\<lambda>user_id.
       Inr \<lparr>pur_userId = user_id, pur_email = pu_email args, pur_roleKey = pu_roleKey args\<rparr>))))"

record record_opt_out_input =
  ro_msisdn :: ustring
  ro_source :: opt_out_source
  ro_scope :: ustring
  ro_reason :: "ustring option"

definition create_opt_out_entry ::
    "api_env \<Rightarrow> (cratestack_error \<Rightarrow> ustring) \<Rightarrow> cs_context \<Rightarrow> record_opt_out_input \<Rightarrow> (cratestack_error + opt_out) prog" where
  "create_opt_out_entry E ts ctx args =
     try_prog (Ret (require_permission (ae_debug E) ctx OPT_OUT_MANAGE_PERMISSION)) (\<lambda>_.
     try_prog (Ret (valid_mobile E (ro_msisdn args))) (\<lambda>m.
     bind_prog utc_now (\<lambda>now.
     bind_prog (create_opt_out \<lparr>ooi_msisdnHash = keyed_hash_hex E (e164 m), ooi_msisdn = e164 m, ooi_source = ro_source args,
         ooi_scope = ro_scope args, ooi_reason = ro_reason args, ooi_optedOutAt = now\<rparr>) (\<lambda>r.
     Ret (map_err (map_database_error ts) r)))))"

record opt_out_summary =
  os_id :: ustring
  os_msisdnHash :: ustring
  os_source :: opt_out_source
  os_scope :: ustring
  os_reason :: "ustring option"
  os_optedOutAt :: instant
  os_createdAt :: instant

definition to_opt_out_summary :: "opt_out \<Rightarrow> opt_out_summary" where
  "to_opt_out_summary row = \<lparr>os_id = oo_id row, os_msisdnHash = ooi_msisdnHash (oo_input row), os_source = ooi_source (oo_input row),
     os_scope = ooi_scope (oo_input row), os_reason = ooi_reason (oo_input row), os_optedOutAt = ooi_optedOutAt (oo_input row),
     os_createdAt = oo_createdAt row\<rparr>"

definition search_opt_out :: "api_env \<Rightarrow> cs_context \<Rightarrow> ustring \<Rightarrow> (cratestack_error + opt_out_summary option) prog" where
  "search_opt_out E ctx msisdn =
     try_prog (Ret (require_permission (ae_debug E) ctx OPT_OUT_MANAGE_PERMISSION)) (\<lambda>_.
     try_prog (Ret (valid_mobile E msisdn)) (\<lambda>m.
     try_prog (find_opt_outs (\<lambda>row. ooi_msisdnHash (oo_input row) = keyed_hash_hex E (e164 m)) (Some 1)) (\<lambda>rows.
     Ret (Inr (case rows of [] \<Rightarrow> None | row # _ \<Rightarrow> Some (to_opt_out_summary row))))))"

subsection \<open>The receipts of a message\<close>

record receipt_summary =
  rs_id :: ustring
  rs_providerId :: ustring
  rs_outcome :: schema_outcome
  rs_rawStatus :: ustring
  rs_errorCode :: "ustring option"
  rs_networkCode :: schema_operator
  rs_receivedAt :: instant
  rs_occurredAt :: "instant option"

definition receipt_summary_of :: "stored_receipt \<Rightarrow> receipt_summary" where
  "receipt_summary_of row = (let i = sr_input row in \<lparr>rs_id = sr_id row, rs_providerId = rec_providerId i, rs_outcome = rec_outcome i,
     rs_rawStatus = rec_rawStatus i, rs_errorCode = rec_errorCode i, rs_networkCode = rec_networkCode i,
     rs_receivedAt = sr_receivedAt row, rs_occurredAt = rec_occurredAt i\<rparr>)"

definition message_receipts :: "api_env \<Rightarrow> cs_context \<Rightarrow> ustring \<Rightarrow> (cratestack_error + receipt_summary list) prog" where
  "message_receipts E ctx message_id =
     try_prog (Ret (require_permission (ae_debug E) ctx (lit ''sms:read''))) (\<lambda>_.
     try_prog (find_receipts (\<lambda>row. rec_messageId (sr_input row) = message_id) [Asc (\<lambda>row. Some (KInt (sr_receivedAt row)))] None)
       (\<lambda>rows. Ret (Inr (map receipt_summary_of rows))))"

subsection \<open>The dashboard\<close>

text \<open>The generated read policies: which rows a caller's own context sees.\<close>

record row_policy =
  rp_message :: "cs_context \<Rightarrow> message \<Rightarrow> bool"
  rp_job :: "cs_context \<Rightarrow> job \<Rightarrow> bool"
  rp_attempt :: "cs_context \<Rightarrow> attempt \<Rightarrow> bool"

record hourly_bucket =
  hb_bucketStart :: instant
  hb_totalCount :: int
  hb_ucs2Count :: int

definition hourly_bucket_of :: "row_policy \<Rightarrow> cs_context \<Rightarrow> instant \<Rightarrow> int \<Rightarrow> (cratestack_error + hourly_bucket) prog" where
  "hourly_bucket_of pol ctx now hours_ago =
     (let fin = now - hours hours_ago; start = fin - hours 1;
          window = (\<lambda>m. rp_message pol ctx m \<and> start \<le> msg_createdAt m \<and> msg_createdAt m < fin)
      in try_prog (count_messages window) (\<lambda>total_count.
         try_prog (count_messages (\<lambda>m. window m \<and> msg_encoding m = ucs2)) (\<lambda>ucs2_count.
         Ret (Inr \<lparr>hb_bucketStart = start, hb_totalCount = total_count, hb_ucs2Count = ucs2_count\<rparr>))))"

text \<open>A loop that stops at the first error and collects the rest.\<close>

fun collect_prog :: "('a \<Rightarrow> ('e + 'b) prog) \<Rightarrow> 'a list \<Rightarrow> ('e + 'b list) prog" where
  "collect_prog f [] = Ret (Inr [])"
| "collect_prog f (x # xs) = try_prog (f x) (\<lambda>y. try_prog (collect_prog f xs) (\<lambda>ys. Ret (Inr (y # ys))))"

definition dashboard_hourly_buckets :: "row_policy \<Rightarrow> cs_context \<Rightarrow> instant \<Rightarrow> (cratestack_error + hourly_bucket list) prog" where
  "dashboard_hourly_buckets pol ctx now = collect_prog (hourly_bucket_of pol ctx now) [5, 4, 3, 2, 1, 0]"

record operator_stats =
  ops_operator :: schema_operator
  ops_delivered :: int
  ops_terminalTotal :: int

definition operator_stats_of :: "row_policy \<Rightarrow> cs_context \<Rightarrow> instant \<Rightarrow> schema_operator \<Rightarrow> (cratestack_error + operator_stats) prog" where
  "operator_stats_of pol ctx now op =
     (let in_window = (\<lambda>m. rp_message pol ctx m \<and> msg_operator m = op \<and> now - hours 24 \<le> msg_createdAt m)
      in try_prog (count_messages (\<lambda>m. in_window m \<and> msg_state m = Delivered)) (\<lambda>delivered.
         try_prog (count_messages (\<lambda>m. in_window m \<and> msg_state m \<in> {Delivered, MsgFailed, Expired, Rejected, Cancelled})) (\<lambda>terminal_total.
         Ret (Inr \<lparr>ops_operator = op, ops_delivered = delivered, ops_terminalTotal = terminal_total\<rparr>))))"

definition dashboard_operator_stats :: "row_policy \<Rightarrow> cs_context \<Rightarrow> instant \<Rightarrow> (cratestack_error + operator_stats list) prog" where
  "dashboard_operator_stats pol ctx now =
     collect_prog (operator_stats_of pol ctx now) [mtn, orange, camtel, nexttel, unknown_operator]"

definition dashboard_live_gauges :: "row_policy \<Rightarrow> cs_context \<Rightarrow> (cratestack_error + int \<times> int \<times> int \<times> int) prog" where
  "dashboard_live_gauges pol ctx =
     try_prog (count_messages (\<lambda>m. rp_message pol ctx m \<and> msg_state m \<in> {Accepted, Queued, Routed})) (\<lambda>queue_depth.
     try_prog (count_messages (\<lambda>m. rp_message pol ctx m \<and> msg_state m \<in> {Uncertain, Undelivered})) (\<lambda>stuck_messages.
     try_prog (count_jobs (\<lambda>j. rp_job pol ctx j \<and> job_st j \<in> {JobPending, JobRunning})) (\<lambda>job_backlog.
     try_prog (count_attempts (\<lambda>a. rp_attempt pol ctx a \<and> att_st a \<in> {AttPending, Delivering})) (\<lambda>outbox_depth.
     Ret (Inr (queue_depth, stuck_messages, job_backlog, outbox_depth))))))"

record dashboard_summary =
  ds_generatedAt :: instant
  ds_appId :: "ustring option"
  ds_queueDepth :: int
  ds_jobBacklog :: int
  ds_outboxDepth :: int
  ds_stuckMessages :: int
  ds_operatorStats :: "operator_stats list"
  ds_hourlyBuckets :: "hourly_bucket list"

definition dashboard_cache_key :: "cs_context \<Rightarrow> ustring" where
  "dashboard_cache_key ctx =
     (let field = (\<lambda>name. case text_field ctx (lit name) of Some s \<Rightarrow> s | None \<Rightarrow> [])
      in field ''kind'' @ lit '':'' @ field ''role'' @ lit '':'' @ field ''appId'')"

definition take_snapshot :: "row_policy \<Rightarrow> cs_context \<Rightarrow> (cratestack_error + dashboard_summary) prog" where
  "take_snapshot pol ctx =
     bind_prog utc_now (\<lambda>now.
     try_prog (dashboard_hourly_buckets pol ctx now) (\<lambda>hourly_buckets.
     try_prog (dashboard_operator_stats pol ctx now) (\<lambda>stats.
     try_prog (dashboard_live_gauges pol ctx) (\<lambda>(queue_depth, stuck_messages, job_backlog, outbox_depth).
     Ret (Inr \<lparr>ds_generatedAt = now,
       ds_appId = (case text_field ctx (lit ''appId'') of Some s \<Rightarrow> if s = [] then None else Some s | None \<Rightarrow> None),
       ds_queueDepth = queue_depth, ds_jobBacklog = job_backlog, ds_outboxDepth = outbox_depth,
       ds_stuckMessages = stuck_messages, ds_operatorStats = stats, ds_hourlyBuckets = hourly_buckets\<rparr>)))))"

definition dashboard_cache_new :: "(ustring, dashboard_summary) ttl_cache" where
  "dashboard_cache_new = ttl_cache_new (secs 15)"

definition dashboard_snapshot ::
    "api_env \<Rightarrow> row_policy \<Rightarrow> (ustring, dashboard_summary) ttl_cache \<Rightarrow> cs_context
      \<Rightarrow> ((cratestack_error + dashboard_summary) \<times> (ustring, dashboard_summary) ttl_cache) prog" where
  "dashboard_snapshot E pol c ctx =
     try_dir (Ret (require_permission (ae_debug E) ctx (lit ''dashboard:read''))) c (\<lambda>_.
     get_or_fetch c (dashboard_cache_key ctx) (\<lambda>_. take_snapshot pol ctx))"

subsection \<open>One transaction\<close>

declare bind_Ret [simp]

lemma solo_tx_retE:
  assumes "solo answers None T (bind_prog (transaction p) (\<lambda>r. Ret (g r))) U x" "tx_free p"
  obtains e where "U = T" "x = g (Inl e)" | y where "alone answers T p U (Inr y)" "x = g (Inr y)"
proof -
  from assms show ?thesis
  proof (rule solo_transactionE)
    fix V y
    assume "alone answers T p V (Inr y)" "solo answers None V (Ret (g (Inr y))) U x"
    then show ?thesis using that(2) [of y] by simp
  next
    fix e
    assume "solo answers None T (Ret (g (Inl e))) U x"
    then show ?thesis using that(1) [of e] by simp
  qed
qed

lemma solo_txE:
  assumes "solo answers None T (transaction p) U x" "tx_free p"
  obtains e where "U = T" "x = Inl e" | y where "alone answers T p U (Inr y)" "x = Inr y"
  using assms solo_tx_retE [of answers T p "\<lambda>r. r" U x thesis] by simp

text \<open>A guard in front: it refuses and nothing happened, or the rest runs.\<close>

lemma solo_guardE:
  assumes "solo answers None T (try_prog (Ret r) f) U x"
  obtains e where "r = Inl e" "U = T" "x = Inl e" | y where "r = Inr y" "solo answers None T (f y) U x"
  using assms by (rule solo_tryE) (use that in auto)

lemma solo_nowE:
  assumes "lawful answers" "solo answers None T (bind_prog utc_now f) U x"
  obtains now where "solo answers None T (f now) U x"
  using assms(2) that by (auto simp: solo_bind_free dest!: alone_utc_now [OF assms(1)])

lemma tx_free_first_or [simp]: "tx_free p \<Longrightarrow> tx_free (first_or e p)"
  unfolding first_or_def by (rule tx_free_try) simp_all

lemma require_permission_Inr:
  "require_permission d ctx what = Inr u \<longleftrightarrow> holds (context_perms ctx) (context_scope ctx) what"
  by (simp add: require_permission_def)

lemma alone_find_jobs:
  assumes "lawful answers" "alone answers T (find_jobs f ord l) U x"
  shows "U = T \<and> (\<forall>rows. x = Inr rows \<longrightarrow> (\<forall>j \<in> set rows. f j \<and> t_jobs T (job_id j) = Some j))"
  using assms(2) unfolding find_jobs_def
  by (rule alone_lawful [OF assms(1)]) (auto simp: lawful_answer_def split: response.splits)

lemma alone_find_attempts:
  assumes "lawful answers" "alone answers T (find_attempts f ord l) U x"
  shows "U = T \<and> (\<forall>rows. x = Inr rows \<longrightarrow> (\<forall>a \<in> set rows. f a \<and> t_attempts T (att_id a) = Some a))"
  using assms(2) unfolding find_attempts_def
  by (rule alone_lawful [OF assms(1)]) (auto simp: lawful_answer_def split: response.splits)

lemma alone_find_endpoints:
  assumes "lawful answers" "alone answers T (find_endpoints f l) U x"
  shows "U = T \<and> (\<forall>rows. x = Inr rows \<longrightarrow> (\<forall>e \<in> set rows. f e \<and> t_endpoints T (ep_id e) = Some e))"
  using assms(2) unfolding find_endpoints_def
  by (rule alone_lawful [OF assms(1)]) (auto simp: lawful_answer_def split: response.splits)

text \<open>Reading one row: an error, or the row the key names.\<close>

locale keyed_read =
  fixes read :: "ustring \<Rightarrow> (cratestack_error + 'r list) prog" and stored :: "tables \<Rightarrow> ustring \<rightharpoonup> 'r"
  assumes read_rows: "lawful answers \<Longrightarrow> alone answers T (read i) U x \<Longrightarrow>
      U = T \<and> (\<forall>rows. x = Inr rows \<longrightarrow> (\<forall>r \<in> set rows. stored T i = Some r))"
begin

lemma one_row:
  assumes "lawful answers" "alone answers T (first_or e (read i)) U x"
  shows "U = T \<and> (\<forall>r. x = Inr r \<longrightarrow> stored T i = Some r)"
proof -
  have "U = T" by (rule first_or_reads [OF assms(2)]) (use read_rows [OF assms(1)] in blast)
  moreover have "stored T i = Some r" if "x = Inr r" for r
    using assms(2) unfolding that by (rule alone_first_or) (use read_rows [OF assms(1)] in force)+
  ultimately show ?thesis by blast
qed

end

interpretation job_read: keyed_read "\<lambda>i. find_jobs (\<lambda>j. job_id j = i) [] (Some 1)" t_jobs
  by unfold_locales (drule (1) alone_find_jobs, auto)

interpretation attempt_read: keyed_read "\<lambda>i. find_attempts (\<lambda>a. att_id a = i) [] (Some 1)" t_attempts
  by unfold_locales (drule (1) alone_find_attempts, auto)

interpretation endpoint_read: keyed_read one_endpoint t_endpoints
  unfolding one_endpoint_def by unfold_locales (drule (1) alone_find_endpoints, auto)

subsection \<open>Requeueing a job\<close>

lemma tx_free_requeue: "tx_free (requeue_body i now)"
  unfolding requeue_body_def by (rule tx_free_try) simp_all

definition requeued :: "instant \<Rightarrow> job \<Rightarrow> job" where
  "requeued now j = j\<lparr>job_st := JobPending, job_attempts := 0, job_lastError := None, job_leaseOwner := None, job_leaseUntil := None,
     job_runAt := now, job_version := job_version j + 1\<rparr>"

lemma write_requeue: "job_st j = JobDead \<Longrightarrow> write_job t (requeue_patch now) j = Some row \<Longrightarrow> row = requeued now j"
  by (auto simp: write_job_def requeue_patch_def jobs_guard_transition_def requeued_def row_defs state_edges)

lemma alone_requeue_body:
  assumes "lawful answers" "alone answers T (requeue_body i now) U (Inr row)"
  shows "\<exists>old. t_jobs T i = Some old \<and> job_st old = JobDead \<and> row = requeued now old \<and> U = T\<lparr>t_jobs := (t_jobs T)(i \<mapsto> row)\<rparr>"
  using assms(2) unfolding requeue_body_def
proof (rule alone_tryE)
  fix V old
  assume old: "alone answers T (first_or (NotFound (lit ''no Job with id '' @ i)) (find_jobs (\<lambda>j. job_id j = i) [] (Some 1))) V (Inr old)"
    and go: "alone answers V (if job_st old \<noteq> JobDead
      then Ret (Inl (Conflict (lit ''job '' @ i @ lit '' is '' @ job_state_debug (job_st old) @ lit ''; requeue only applies to a dead job'')))
      else update_job i (requeue_patch now) (job_version old)) U (Inr row)"
  from job_read.one_row [OF assms(1) old] have V: "V = T" "t_jobs T i = Some old" by auto
  from go have dead: "job_st old = JobDead" and w: "alone answers V (update_job i (requeue_patch now) (job_version old)) U (Inr row)"
    by (auto split: if_splits)
  from assms(1) w show ?thesis
    by (rule alone_update_job) (use V dead write_requeue in auto)
qed simp


subsection \<open>Replaying a delivery\<close>

definition replayed :: "instant \<Rightarrow> attempt \<Rightarrow> attempt" where
  "replayed now a = a\<lparr>att_st := AttPending, att_attempts := 0, att_lastStatusCode := None, att_lastError := None, att_leaseOwner := None,
     att_leaseUntil := None, att_nextAttemptAt := Some now, att_version := att_version a + 1\<rparr>"

definition breaker_closed :: "endpoint \<Rightarrow> endpoint" where
  "breaker_closed e = e\<lparr>ep_consecutiveFailures := 0, ep_circuitOpenUntil := None, ep_version := ep_version e + 1\<rparr>"

lemma write_replay:
  "att_st a \<in> {AttFailed, AttDead} \<Longrightarrow> write_attempt t (replay_patch now) a = Some row \<Longrightarrow> row = replayed now a"
  by (auto simp: write_attempt_def replay_patch_def attempts_guard_transition_def replayed_def row_defs state_edges)

lemma alone_replay_allowed: "lawful answers \<Longrightarrow> alone answers T (replay_allowed h i) U x \<Longrightarrow> U = T"
  unfolding replay_allowed_def
  by (auto split: if_splits elim!: alone_tryE dest: endpoint_read.read_rows)

lemma tx_free_replay: "tx_free (replay_body h i now)"
  unfolding replay_body_def replay_allowed_def reset_breaker_def one_endpoint_def
  by (intro tx_free_try) (auto intro!: tx_free_try split: list.split)

lemma alone_reset_breaker:
  assumes "lawful answers" "alone answers T (reset_breaker i) U x"
  shows "U = T \<or> (\<exists>e. t_endpoints T i = Some e \<and> ep_id e = i \<and> U = T\<lparr>t_endpoints := (t_endpoints T)(i \<mapsto> breaker_closed e)\<rparr>)"
  using assms(2) unfolding reset_breaker_def
proof (rule alone_tryE)
  fix V rows
  assume rows: "alone answers T (one_endpoint i) V (Inr rows)" and go: "alone answers V (case rows of [] \<Rightarrow> Ret (Inr ())
   | e # _ \<Rightarrow> if ep_consecutiveFailures e \<noteq> 0 \<or> ep_circuitOpenUntil e \<noteq> None
       then try_prog (update_endpoint (ep_id e)
              (no_endpoint_patch\<lparr>epp_consecutiveFailures := Some 0, epp_circuitOpenUntil := Some None\<rparr>) (ep_version e)) (\<lambda>_. Ret (Inr ()))
       else Ret (Inr ())) U x"
  from endpoint_read.read_rows [OF assms(1) rows] have V: "V = T" by simp
  show ?thesis
  proof (cases rows)
    case Nil
    then show ?thesis using go V by simp
  next
    case (Cons e es)
    have e: "t_endpoints T i = Some e" "ep_id e = i"
      using endpoint_read.read_rows [OF assms(1) rows] alone_find_endpoints [OF assms(1) rows [unfolded one_endpoint_def]] Cons by auto
    show ?thesis
      using go [unfolded Cons V list.case] e
      by (auto split: if_splits elim!: alone_tryE elim: alone_update_endpoint [OF assms(1)]
          simp: breaker_closed_def row_defs)
  qed
qed (use endpoint_read.read_rows [OF assms(1)] in auto)

lemma alone_replay_body:
  assumes "lawful answers" "alone answers T (replay_body h i now) U (Inr row)"
  shows "\<exists>old. t_attempts T i = Some old \<and> att_st old \<in> {AttFailed, AttDead} \<and> row = replayed now old
    \<and> (let V = T\<lparr>t_attempts := (t_attempts T)(i \<mapsto> row)\<rparr> in U = V \<or> (\<exists>e. t_endpoints T (att_endpointId old) = Some e
         \<and> U = V\<lparr>t_endpoints := (t_endpoints V)(att_endpointId old \<mapsto> breaker_closed e)\<rparr>))"
  using assms(2) unfolding replay_body_def
proof (rule alone_tryE)
  let ?tail = "\<lambda>old updated. try_prog (reset_breaker (att_endpointId old)) (\<lambda>_. Ret (Inr updated))"
  let ?upd = "\<lambda>old. try_prog (update_attempt i (replay_patch now) (att_version old)) (?tail old)"
  fix V old
  assume old: "alone answers T (first_or (NotFound (lit ''no WebhookAttempt with id '' @ i)) (find_attempts (\<lambda>a. att_id a = i) [] (Some 1))) V (Inr old)"
    and go: "alone answers V (if att_st old \<noteq> AttFailed \<and> att_st old \<noteq> AttDead
      then Ret (Inl (Conflict (lit ''webhook attempt '' @ i @ lit '' is '' @ attempt_state_debug (att_st old)
        @ lit ''; replay only applies to a failed or dead delivery'')))
      else try_prog (replay_allowed h (att_endpointId old)) (\<lambda>_. ?upd old)) U (Inr row)"
  from attempt_read.one_row [OF assms(1) old] have V: "V = T" "t_attempts T i = Some old" by auto
  from go have st: "att_st old \<in> {AttFailed, AttDead}"
    and "alone answers T (try_prog (replay_allowed h (att_endpointId old)) (\<lambda>_. ?upd old)) U (Inr row)"
    by (auto simp: V split: if_splits)
  from this(2) have "alone answers T (?upd old) U (Inr row)"
    by (rule alone_tryE) (auto dest: alone_replay_allowed [OF assms(1)])
  then obtain W upd where upd: "alone answers T (update_attempt i (replay_patch now) (att_version old)) W (Inr upd)"
    and tail: "alone answers W (?tail old upd) U (Inr row)" by (rule alone_tryE) simp
  from assms(1) upd have W: "upd = replayed now old" "W = T\<lparr>t_attempts := (t_attempts T)(i \<mapsto> upd)\<rparr>"
    by (rule alone_update_attempt, use V st write_replay in auto)+
  from tail have reset: "\<exists>y. alone answers W (reset_breaker (att_endpointId old)) U y" and row: "row = upd"
    by (auto elim!: alone_tryE)
  from reset alone_reset_breaker [OF assms(1)] have
    "U = W \<or> (\<exists>e. t_endpoints W (att_endpointId old) = Some e \<and> U = W\<lparr>t_endpoints := (t_endpoints W)(att_endpointId old \<mapsto> breaker_closed e)\<rparr>)"
    by blast
  then show ?thesis using V st W row by (intro exI [of _ old]) (auto simp: Let_def)
qed simp

text \<open>Replaying revives exactly one failed or dead webhook delivery, with its endpoint's breaker closed in the same transaction,
  or changes nothing at all: the delivery is made pending and due now with its counter, status, error and lease cleared and
  its event, payload and identity kept; the endpoint's active flag, mode and secrets are never touched.\<close>

theorem replay_revives_delivery:
  assumes "lawful answers" "solo answers None T (replay_attempt E ts h ctx i) U x"
  shows "case x of Inl e \<Rightarrow> U = T
    | Inr row \<Rightarrow> \<exists>old now. holds (context_perms ctx) (context_scope ctx) (lit ''webhook:manage'') \<and> t_attempts T i = Some old
        \<and> att_st old \<in> {AttFailed, AttDead} \<and> row = replayed now old
        \<and> (let V = T\<lparr>t_attempts := (t_attempts T)(i \<mapsto> row)\<rparr> in U = V \<or> (\<exists>e. t_endpoints T (att_endpointId old) = Some e
             \<and> U = V\<lparr>t_endpoints := (t_endpoints V)(att_endpointId old \<mapsto> breaker_closed e)\<rparr>))"
  using assms(2) unfolding replay_attempt_def
proof (rule solo_guardE)
  fix u
  assume perm: "require_permission (ae_debug E) ctx (lit ''webhook:manage'') = Inr u"
    and go: "solo answers None T (bind_prog utc_now (\<lambda>now. bind_prog (transaction (replay_body h i now))
      (\<lambda>r. Ret (map_err (map_database_error ts) r)))) U x"
  from solo_nowE [OF assms(1) go] obtain now where
    "solo answers None T (bind_prog (transaction (replay_body h i now)) (\<lambda>r. Ret (map_err (map_database_error ts) r))) U x" .
  then show ?thesis
  proof (rule solo_tx_retE [OF _ tx_free_replay])
    fix row
    assume row: "alone answers T (replay_body h i now) U (Inr row)" and x: "x = map_err (map_database_error ts) (Inr row)"
    have "holds (context_perms ctx) (context_scope ctx) (lit ''webhook:manage'')" using perm by (simp only: require_permission_Inr)
    with alone_replay_body [OF assms(1) row] show ?thesis
      unfolding x map_err_def sum.case by blast
  qed (simp add: map_err_def)
qed simp

subsection \<open>Endpoints keep the rules of the table\<close>

text \<open>The CHECKs of \<^verbatim>\<open>0010_sealed_webhooks\<close> that tie the columns together.\<close>

definition endpoint_checks :: "(ustring \<Rightarrow> bool) \<Rightarrow> endpoint \<Rightarrow> bool" where
  "endpoint_checks sealable e \<longleftrightarrow> (case ep_deliveryMode e of
     hmac \<Rightarrow> ep_audience e = None \<and> ep_secret e \<noteq> None
   | sealed \<Rightarrow> ep_audience e \<notin> {None, Some []} \<and> ep_secret e = None \<and> ep_prevSecret e = None \<and> ep_secretRotatedAt e = None
       \<and> sealable (ep_url e))"

lemma plan_checks:
  assumes "plan_mode_switch E sealable url_parse bytes e mode audience = Inr p"
  shows "endpoint_checks sealable ((patch_endpoint p e)\<lparr>ep_version := v\<rparr>) \<and> ep_deliveryMode (patch_endpoint p e) = mode
    \<and> ep_deliveryMode e \<noteq> mode"
  using assms
  by (cases mode) (auto simp: plan_mode_switch_def endpoint_checks_def row_defs split: if_splits option.splits)

lemma tx_free_endpoint_by_id [simp]: "tx_free (endpoint_by_id i)"
  by (simp add: endpoint_by_id_def one_endpoint_def)

lemma tx_free_switch: "tx_free (switch_body E ts sealable url_parse bytes args)"
  unfolding switch_body_def by (intro tx_free_try tx_free_bind) simp_all

lemma alone_endpoint_by_id:
  "lawful answers \<Longrightarrow> alone answers T (endpoint_by_id i) U x \<Longrightarrow> U = T \<and> (\<forall>e. x = Inr e \<longrightarrow> t_endpoints T i = Some e)"
  unfolding endpoint_by_id_def by (rule endpoint_read.one_row)

text \<open>What a successful switch stores.\<close>

lemma alone_switch_body:
  assumes "lawful answers" "alone answers T (switch_body E ts sealable url_parse bytes args) U (Inr row)"
  shows "\<exists>old p. t_endpoints T (sw_endpointId args) = Some old \<and> plan_mode_switch E sealable url_parse bytes old (sw_mode args) (sw_audience args) = Inr p
    \<and> row = (patch_endpoint p old)\<lparr>ep_version := ep_version old + 1\<rparr> \<and> U = T\<lparr>t_endpoints := (t_endpoints T)(sw_endpointId args \<mapsto> row)\<rparr>"
  using assms(2) unfolding switch_body_def
proof (rule alone_tryE)
  let ?i = "sw_endpointId args"
  fix V e
  assume e: "alone answers T (endpoint_by_id ?i) V (Inr e)"
    and go: "alone answers V (try_prog (Ret (plan_mode_switch E sealable url_parse bytes e (sw_mode args) (sw_audience args))) (\<lambda>change.
     bind_prog (update_endpoint ?i change (ep_version e)) (\<lambda>r. Ret (map_err (map_database_error ts) r)))) U (Inr row)"
  from alone_endpoint_by_id [OF assms(1) e] have V: "V = T" "t_endpoints T ?i = Some e" by auto
  from go obtain p r where p: "Inr p = plan_mode_switch E sealable url_parse bytes e (sw_mode args) (sw_audience args)"
    and w: "alone answers T (update_endpoint ?i p (ep_version e)) U r" "Inr row = map_err (map_database_error ts) r"
    unfolding V by (rule alone_tryE) auto
  then have "alone answers T (update_endpoint ?i p (ep_version e)) U (Inr row)" by (cases r) (auto simp: map_err_def)
  with assms(1) show ?thesis by (rule alone_update_endpoint) (use V p [symmetric] in auto)
qed simp

text \<open>A switch of an endpoint's delivery mode writes one row that obeys the table's rules, or nothing. A successful switch is by a
  caller with \<open>webhook:manage\<close>, to the other mode, to hmac only where the deployment permits it; the stored row is in the
  asked mode with exactly the columns that mode has (an audience and no secret, or a new secret and no audience), its URL
  can be sealed when the mode is sealed, and all its other columns are the old ones.\<close>

theorem switch_keeps_rules:
  assumes "lawful answers" "solo answers None T (switch_mode E ts h sealable url_parse bytes ctx args) U x"
  shows "case x of Inl e \<Rightarrow> U = T
    | Inr row \<Rightarrow> \<exists>old. holds (context_perms ctx) (context_scope ctx) (lit ''webhook:manage'') \<and> t_endpoints T (sw_endpointId args) = Some old
        \<and> (sw_mode args = sealed \<or> is_permitted h) \<and> ep_deliveryMode old \<noteq> sw_mode args \<and> ep_deliveryMode row = sw_mode args
        \<and> endpoint_checks sealable row \<and> ep_url row = ep_url old \<and> ep_active row = ep_active old \<and> ep_appId row = ep_appId old
        \<and> U = T\<lparr>t_endpoints := (t_endpoints T)(sw_endpointId args \<mapsto> row)\<rparr>"
  using assms(2) unfolding switch_mode_def
proof (rule solo_guardE)
  fix u
  assume perm: "require_permission (ae_debug E) ctx (lit ''webhook:manage'') = Inr u"
    and go: "solo answers None T (try_prog (Ret (if sw_mode args = hmac
        then hmac_require h (lit ''an endpoint cannot be switched to hmac (switchWebhookDeliveryMode)'') else Inr ()))
        (\<lambda>_. transaction (switch_body E ts sealable url_parse bytes args))) U x"
  from go show ?thesis
  proof (rule solo_guardE)
    fix w
    assume h: "(if sw_mode args = hmac then hmac_require h (lit ''an endpoint cannot be switched to hmac (switchWebhookDeliveryMode)'')
        else Inr ()) = Inr w"
      and tx: "solo answers None T (transaction (switch_body E ts sealable url_parse bytes args)) U x"
    have ok: "sw_mode args = sealed \<or> is_permitted h"
      using h by (cases "sw_mode args"; cases h) (auto simp: hmac_require_def)
    have held: "holds (context_perms ctx) (context_scope ctx) (lit ''webhook:manage'')" using perm by (simp only: require_permission_Inr)
    from tx show ?thesis
    proof (rule solo_txE [OF _ tx_free_switch])
      fix row
      assume row: "alone answers T (switch_body E ts sealable url_parse bytes args) U (Inr row)" and x: "x = Inr row"
      from alone_switch_body [OF assms(1) row] obtain old p where p: "t_endpoints T (sw_endpointId args) = Some old"
        "plan_mode_switch E sealable url_parse bytes old (sw_mode args) (sw_audience args) = Inr p"
        "row = (patch_endpoint p old)\<lparr>ep_version := ep_version old + 1\<rparr>" "U = T\<lparr>t_endpoints := (t_endpoints T)(sw_endpointId args \<mapsto> row)\<rparr>"
        by blast
      have plan: "endpoint_checks sealable row" "ep_deliveryMode row = sw_mode args" "ep_deliveryMode old \<noteq> sw_mode args"
        using plan_checks [OF p(2), of "ep_version old + 1"] p(3) by auto
      have keep: "ep_url row = ep_url old" "ep_active row = ep_active old" "ep_appId row = ep_appId old"
        using p(2,3) by (cases "sw_mode args"; auto simp: plan_mode_switch_def row_defs split: if_splits option.splits)+
      show ?thesis unfolding x sum.case
        by (intro exI [of _ old] conjI held p(1) ok plan keep p(4))
    qed simp
  qed simp
qed simp

subsection \<open>Opt-outs\<close>

lemma alone_create_opt_out:
  assumes "lawful answers" "alone answers T (create_opt_out i) U x"
  shows "case x of Inl e \<Rightarrow> U = T | Inr row \<Rightarrow> oo_input row = i \<and> a_opt_outs (t_api T) (oo_id row) = None
    \<and> (\<forall>j s. a_opt_outs (t_api T) j = Some s \<longrightarrow> ooi_msisdnHash (oo_input s) \<noteq> ooi_msisdnHash i)
    \<and> U = T\<lparr>t_api := (t_api T)\<lparr>a_opt_outs := (a_opt_outs (t_api T))(oo_id row \<mapsto> row)\<rparr>\<rparr>"
  using assms(2) unfolding create_opt_out_def
  by (rule alone_api [OF assms(1)]) (auto simp: lawful_api_def inserts_def new_opt_out_def)

lemma alone_record_opt_out:
  assumes "lawful answers" "alone answers T (create_opt_out_entry E ts ctx args) U x"
  shows "case x of Inl e \<Rightarrow> U = T | Inr row \<Rightarrow> \<exists>m. parse_mobile (ae_phone E) (ro_msisdn args) = Inr m
    \<and> ooi_msisdnHash (oo_input row) = keyed_hash_hex E (e164 m) \<and> a_opt_outs (t_api T) (oo_id row) = None
    \<and> (\<forall>j s. a_opt_outs (t_api T) j = Some s \<longrightarrow> ooi_msisdnHash (oo_input s) \<noteq> keyed_hash_hex E (e164 m))
    \<and> U = T\<lparr>t_api := (t_api T)\<lparr>a_opt_outs := (a_opt_outs (t_api T))(oo_id row \<mapsto> row)\<rparr>\<rparr>"
  using assms(2) unfolding create_opt_out_entry_def
proof (rule alone_tryE)
  let ?i = "\<lambda>m now. \<lparr>ooi_msisdnHash = keyed_hash_hex E (e164 m), ooi_msisdn = e164 m, ooi_source = ro_source args,
         ooi_scope = ro_scope args, ooi_reason = ro_reason args, ooi_optedOutAt = now\<rparr>"
  let ?k = "\<lambda>m. bind_prog utc_now (\<lambda>now. bind_prog (create_opt_out (?i m now)) (\<lambda>r. Ret (map_err (map_database_error ts) r)))"
  fix V u
  assume "alone answers T (Ret (require_permission (ae_debug E) ctx OPT_OUT_MANAGE_PERMISSION)) V (Inr u)"
    and "alone answers V (try_prog (Ret (valid_mobile E (ro_msisdn args))) ?k) U x"
  then have "alone answers T (try_prog (Ret (valid_mobile E (ro_msisdn args))) ?k) U x" by simp
  then show ?thesis
  proof (rule alone_tryE)
    fix W m
    assume "alone answers T (Ret (valid_mobile E (ro_msisdn args))) W (Inr m)" and "alone answers W (?k m) U x"
    then obtain now r where m: "valid_mobile E (ro_msisdn args) = Inr m" and r: "alone answers T (create_opt_out (?i m now)) U r"
      and x: "x = map_err (map_database_error ts) r"
      by (auto dest!: alone_utc_now [OF assms(1)])
    from m have "parse_mobile (ae_phone E) (ro_msisdn args) = Inr m" by (auto simp: valid_mobile_def map_err_def split: sum.splits)
    with alone_create_opt_out [OF assms(1) r] x show ?thesis by (cases r) (auto simp: map_err_def)
  qed simp
qed simp

text \<open>C20: An opt-out that was recorded is obeyed and found. Once recording a number's opt-out succeeds, a send to that number (however
  the two were written) of any class under consent control is refused and stores nothing, whatever the caller, the
  application and its consents; and a search for the number answers that opt-out, unless the search itself fails.\<close>

theorem recorded_opt_out_blocks:
  assumes "lawful answers" "alone answers T (create_opt_out_entry E ts ctx args) V (Inr row)"
    and "parse_mobile (ae_phone E) (ro_msisdn args) = Inr m" "parse_mobile (ae_phone E) to = Inr m'" "e164 m' = e164 m"
    and "requires_recipient_consent_controls (class_of sends)" "sm_to sends = to"
    and "alone answers V (send_message E st ctx' sends) U (x, st')" "alone answers V (search_opt_out E ctx'' to) W y"
  shows "(\<exists>e. x = Inl e) \<and> U = V \<and> W = V \<and> (\<forall>s. y = Inr s \<longrightarrow> s = Some (to_opt_out_summary row))"
proof -
  from alone_record_opt_out [OF assms(1,2)] assms(3) have hash: "ooi_msisdnHash (oo_input row) = keyed_hash_hex E (e164 m)"
    and old: "\<And>j s. a_opt_outs (t_api T) j = Some s \<Longrightarrow> ooi_msisdnHash (oo_input s) \<noteq> keyed_hash_hex E (e164 m)"
    and V: "a_opt_outs (t_api V) = (a_opt_outs (t_api T))(oo_id row \<mapsto> row)" by auto
  have only: "s = row" if "a_opt_outs (t_api V) j = Some s" "ooi_msisdnHash (oo_input s) = keyed_hash_hex E (e164 m)" for j s
    using that old [of j s] V by (auto split: if_splits)
  have refused: "\<exists>e. x = Inl e"
  proof (cases x)
    case (Inr res)
    from alone_send [OF assms(1,8)] Inr obtain app n sender now where "send_allowed E V st ctx' sends app n sender now" by auto
    with assms(4-7) have "recipient_allows V app (keyed_hash_hex E (e164 m)) (class_of sends)" by (auto simp: send_allowed_def)
    then have "a_opt_outs (t_api V) (oo_id row) \<noteq> Some row" using assms(6) hash unfolding recipient_allows_def by blast
    then show ?thesis by (simp add: V)
  qed simp
  moreover have "U = V" using alone_send [OF assms(1,8)] refused by auto
  moreover have "W = V \<and> (\<forall>s. y = Inr s \<longrightarrow> s = Some (to_opt_out_summary row))"
    using assms(9) unfolding search_opt_out_def
  proof (rule alone_tryE)
    let ?find = "\<lambda>m. find_opt_outs (\<lambda>row. ooi_msisdnHash (oo_input row) = keyed_hash_hex E (e164 m)) (Some 1)"
    let ?k = "\<lambda>m. try_prog (?find m) (\<lambda>rows. Ret (Inr (case rows of [] \<Rightarrow> None | row # _ \<Rightarrow> Some (to_opt_out_summary row))))"
    fix X u
    assume "alone answers V (Ret (require_permission (ae_debug E) ctx'' OPT_OUT_MANAGE_PERMISSION)) X (Inr u)"
      and "alone answers X (try_prog (Ret (valid_mobile E to)) ?k) W y"
    moreover have "valid_mobile E to = Inr m'" using assms(4) by (simp add: valid_mobile_def map_err_def)
    ultimately have "alone answers V (try_prog (Ret (Inr m')) ?k) W y" by simp
    then have "alone answers V (?k m') W y" by (rule alone_tryE) auto
    then show ?thesis
    proof (rule alone_tryE)
      fix Y rows
      assume rows: "alone answers V (?find m') Y (Inr rows)"
        and ret: "alone answers Y (Ret (Inr (case rows of [] \<Rightarrow> None | row # _ \<Rightarrow> Some (to_opt_out_summary row)))) W y"
      from alone_find_opt_outs [OF assms(1) rows] assms(5) have Y: "Y = V"
        and sel: "selects (a_opt_outs (t_api V)) oo_id (\<lambda>row. ooi_msisdnHash (oo_input row) = keyed_hash_hex E (e164 m)) (Some 1) rows" by auto
      have "rows \<noteq> []" using selects_none [of "a_opt_outs (t_api V)" oo_id _ "oo_id row" row] sel V hash by auto
      then obtain r rs where "rows = r # rs" by (cases rows) auto
      moreover from this have "r = row" using selects_rows [OF sel, of r] only by auto
      ultimately show ?thesis using ret Y by auto
    qed (use alone_find_opt_outs [OF assms(1)] in auto)
  qed simp
  ultimately show ?thesis using refused by blast
qed

subsection \<open>The dashboard counts\<close>

definition created_in :: "row_policy \<Rightarrow> cs_context \<Rightarrow> tables \<Rightarrow> instant \<Rightarrow> instant \<Rightarrow> ustring set" where
  "created_in pol ctx T start fin =
     {i. \<exists>m. t_messages T i = Some m \<and> rp_message pol ctx m \<and> start \<le> msg_createdAt m \<and> msg_createdAt m < fin}"

lemma counts_le:
  assumes "counts tbl f m" "counts tbl g n" "finite (dom tbl)" "\<And>r. f r \<Longrightarrow> g r"
  shows "m \<le> n"
proof -
  have "{i. \<exists>r. tbl i = Some r \<and> g r} \<subseteq> dom tbl" by auto
  then have "finite {i. \<exists>r. tbl i = Some r \<and> g r}" by (rule finite_subset) (rule assms(3))
  then have "card {i. \<exists>r. tbl i = Some r \<and> f r} \<le> card {i. \<exists>r. tbl i = Some r \<and> g r}"
    by (rule card_mono) (use assms(4) in auto)
  then show ?thesis using assms(1,2) by (simp add: counts_def)
qed

lemma alone_bucket:
  assumes "alone lawful_answer T (hourly_bucket_of pol ctx now k) U x"
  shows "U = T \<and> (\<forall>b. x = Inr b \<longrightarrow> hb_bucketStart b = now - hours (k + 1)
    \<and> hb_totalCount b = int (card (created_in pol ctx T (now - hours (k + 1)) (now - hours k)))
    \<and> (finite (dom (t_messages T)) \<longrightarrow> hb_ucs2Count b \<le> hb_totalCount b))"
proof -
  let ?w = "\<lambda>m. rp_message pol ctx m \<and> now - hours k - hours 1 \<le> msg_createdAt m \<and> msg_createdAt m < now - hours k"
  have h: "hours (k + 1) = hours k + hours 1" by (simp add: hours_def minutes_def secs_def)
  show ?thesis
    using assms unfolding hourly_bucket_of_def Let_def
  proof (rule alone_tryE)
    fix V n
    assume n: "alone lawful_answer T (count_messages ?w) V (Inr n)" and
      go: "alone lawful_answer V (try_prog (count_messages (\<lambda>m. ?w m \<and> msg_encoding m = ucs2)) (\<lambda>k2.
        Ret (Inr \<lparr>hb_bucketStart = now - hours k - hours 1, hb_totalCount = n, hb_ucs2Count = k2\<rparr>))) U x"
    from alone_count_messages [OF n] have V: "V = T" and cn: "counts (t_messages T) ?w n" by auto
    from go show ?thesis unfolding V
    proof (rule alone_tryE)
      fix W u
      assume u: "alone lawful_answer T (count_messages (\<lambda>m. ?w m \<and> msg_encoding m = ucs2)) W (Inr u)"
        and ret: "alone lawful_answer W (Ret (Inr \<lparr>hb_bucketStart = now - hours k - hours 1, hb_totalCount = n, hb_ucs2Count = u\<rparr>)) U x"
      from alone_count_messages [OF u] have W: "W = T" and cu: "counts (t_messages T) (\<lambda>m. ?w m \<and> msg_encoding m = ucs2) u" by auto
      have "u \<le> n" if "finite (dom (t_messages T))" by (rule counts_le [OF cu cn that]) simp
      then show ?thesis using ret W cn by (auto simp: h counts_def created_in_def diff_diff_eq)
    qed (use alone_count_messages in auto)
  qed (use alone_count_messages in auto)
qed

lemma alone_collect:
  assumes "alone lawful_answer T (collect_prog f xs) U x"
    and "\<And>y V z. y \<in> set xs \<Longrightarrow> alone lawful_answer T (f y) V z \<Longrightarrow> V = T \<and> (\<forall>b. z = Inr b \<longrightarrow> P y b)"
  shows "U = T \<and> (\<forall>bs. x = Inr bs \<longrightarrow> list_all2 P xs bs)"
  using assms
proof (induction xs arbitrary: x U)
  case (Cons y ys)
  from Cons.prems(1) show ?case unfolding collect_prog.simps
  proof (rule alone_tryE)
    fix V b
    assume b: "alone lawful_answer T (f y) V (Inr b)"
      and go: "alone lawful_answer V (try_prog (collect_prog f ys) (\<lambda>bs. Ret (Inr (b # bs)))) U x"
    from Cons.prems(2) [OF _ b] have V: "V = T" and Pb: "P y b" by auto
    have IH: "W = T \<and> (\<forall>bs. z = Inr bs \<longrightarrow> list_all2 P ys bs)" if "alone lawful_answer T (collect_prog f ys) W z" for W z
      by (rule Cons.IH [OF that]) (use Cons.prems(2) in auto)
    from go show ?thesis unfolding V
    proof (rule alone_tryE)
      fix W bs
      assume bs: "alone lawful_answer T (collect_prog f ys) W (Inr bs)" and "alone lawful_answer W (Ret (Inr (b # bs))) U x"
      with IH [OF bs] Pb show ?thesis by auto
    next
      fix e
      assume e: "alone lawful_answer T (collect_prog f ys) U (Inl e)" "x = Inl e"
      with IH [OF e(1)] show ?thesis by auto
    qed
  next
    fix e
    assume e: "alone lawful_answer T (f y) U (Inl e)" "x = Inl e"
    with Cons.prems(2) [OF _ e(1)] show ?thesis by auto
  qed
qed simp

lemma created_in_split:
  assumes "a \<le> b" "b \<le> c" "finite (dom (t_messages T))"
  shows "card (created_in pol ctx T a c) = card (created_in pol ctx T a b) + card (created_in pol ctx T b c)"
proof -
  have fin: "finite (created_in pol ctx T x y)" for x y
    by (rule finite_subset [OF _ assms(3)]) (auto simp: created_in_def)
  have "created_in pol ctx T a c = created_in pol ctx T a b \<union> created_in pol ctx T b c"
    using assms(1,2) by (force simp: created_in_def)
  moreover have "created_in pol ctx T a b \<inter> created_in pol ctx T b c = {}" by (auto simp: created_in_def)
  ultimately show ?thesis by (simp add: card_Un_disjoint fin)
qed

text \<open>The six buckets are consecutive hours up to now, and together count every visible message of the last six hours once.\<close>

lemma hourly_buckets_partition:
  assumes "lawful answers" "alone answers T (dashboard_hourly_buckets pol ctx now) U (Inr bs)" "finite (dom (t_messages T))"
  shows "U = T \<and> map hb_bucketStart bs = map (\<lambda>k. now - hours k) [6, 5, 4, 3, 2, 1]
    \<and> sum_list (map hb_totalCount bs) = int (card (created_in pol ctx T (now - hours 6) now))
    \<and> (\<forall>b \<in> set bs. hb_ucs2Count b \<le> hb_totalCount b)"
proof -
  let ?c = "\<lambda>k. card (created_in pol ctx T (now - hours (k + 1)) (now - hours k))"
  let ?P = "\<lambda>k b. hb_bucketStart b = now - hours (k + 1) \<and> hb_totalCount b = int (?c k) \<and> hb_ucs2Count b \<le> hb_totalCount b"
  have "U = T \<and> (\<forall>bs'. Inr bs = (Inr bs' :: cratestack_error + _) \<longrightarrow> list_all2 ?P [5, 4, 3, 2, 1, 0] bs')"
    using alone_permissive [OF assms(1,2)] unfolding dashboard_hourly_buckets_def
    by (rule alone_collect) (drule alone_bucket, use assms(3) in auto)
  then have "U = T" and bs: "list_all2 ?P [5, 4, 3, 2, 1, 0] bs" by auto
  have "card (created_in pol ctx T (now - hours (k + 1)) now) = ?c k + card (created_in pol ctx T (now - hours k) now)" if "0 \<le> k" for k
    by (rule created_in_split [OF _ _ assms(3)]) (use that in \<open>simp_all add: hours_def minutes_def secs_def\<close>)
  from this [of 5] this [of 4] this [of 3] this [of 2] this [of 1] this [of 0]
  have "card (created_in pol ctx T (now - hours 6) now) = ?c 5 + ?c 4 + ?c 3 + ?c 2 + ?c 1 + ?c 0"
    by (simp add: hours_def minutes_def secs_def created_in_def)
  with bs \<open>U = T\<close> show ?thesis by (auto simp: list_all2_Cons1)
qed

subsection \<open>The dashboard cache\<close>

lemma dashboard_key_app:
  "dashboard_cache_key (context_for (AppStanding a)) = lit ''app:app:'' @ as_app_id a"
  by (simp add: dashboard_cache_key_def text_field_def context_for_def into_context_granting_def lit_inject Let_def)


subsection \<open>The operations beside the workers\<close>

lemma obeys_transaction: "obeys P p \<Longrightarrow> obeys P (transaction p)"
  unfolding obeys_def by (auto intro: wp_mono split: sum.split)

lemma obeys_requeue: "obeys worker_rules (requeue E ts ctx i)"
proof -
  have "job_may j (requeue_patch now)" if "job_st j = JobDead" for j now
    using that by (simp add: job_may_def requeue_patch_def no_job_patch_def guard_allows_def state_edges)
  then have "obeys worker_rules (requeue_body i now)" for now
    unfolding obeys_def requeue_body_def first_or_def by (auto split: list.split)
  then show ?thesis unfolding requeue_def by (auto intro!: obeys_intros obeys_transaction)
qed

lemma obeys_replay: "obeys worker_rules (replay_attempt E ts h ctx i)"
proof -
  have may: "attempt_may a (replay_patch now)" if "att_st a = AttFailed \<or> att_st a = AttDead" for a now
    using that by (auto simp: attempt_may_def replay_patch_def no_attempt_patch_def guard_allows_def state_edges)
  have reset: "obeys worker_rules (reset_breaker e)" for e
    unfolding reset_breaker_def one_endpoint_def by (auto intro!: obeys_intros split: list.split)
  have allowed: "wp worker_rules (replay_allowed h e) K (\<lambda>_ K'. K' = K)" for e K
    by (auto simp: replay_allowed_def one_endpoint_def split: list.split)
  have "wp worker_rules (replay_body h i now) K (\<lambda>_ _. True)" for now K
    unfolding replay_body_def first_or_def
    by (auto split: list.split intro!: wp_mono [OF allowed] may obeysD [OF reset] simp: split_sum_all)
      (auto intro!: wp_mono [OF obeysD [OF reset]] split: sum.split simp: may)
  then have "obeys worker_rules (replay_body h i now)" for now by (simp add: obeys_def)
  then show ?thesis unfolding replay_attempt_def by (auto intro!: obeys_intros obeys_transaction)
qed

lemma obeys_endpoint_operations:
  "obeys worker_rules (rotate_secret E h bytes ctx i)"
  "obeys worker_rules (switch_mode E ts h sealable url_parse bytes ctx args)"
  unfolding rotate_secret_def rotate_body_def switch_mode_def switch_body_def endpoint_by_id_def one_endpoint_def
  by (auto intro!: obeys_intros obeys_transaction)

lemma obeys_collect: "(\<And>x. obeys P (f x)) \<Longrightarrow> obeys P (collect_prog f xs)"
  by (induction xs) (auto intro!: obeys_try)

lemma obeys_other_operations:
  "obeys worker_rules (provision_console_user E ts uuid ctx pu)" "obeys worker_rules (create_opt_out_entry E ts ctx ro)"
  "obeys worker_rules (search_opt_out E ctx msisdn)" "obeys worker_rules (message_receipts E ctx mid)"
  "obeys worker_rules (dashboard_snapshot E pol c ctx)"
  unfolding provision_console_user_def provision_body_def create_opt_out_entry_def search_opt_out_def message_receipts_def
    dashboard_snapshot_def take_snapshot_def dashboard_hourly_buckets_def dashboard_operator_stats_def dashboard_live_gauges_def
    hourly_bucket_of_def operator_stats_of_def Let_def
  by (auto intro!: obeys_intros obeys_transaction obeys_collect simp: split_beta)

subsection \<open>Runs that satisfy the hypotheses\<close>

lemma solo_guardI: "solo answers None T (f y) U x \<Longrightarrow> solo answers None T (try_prog (Ret (Inr y)) f) U x"
  by (simp add: try_prog_def)

lemma solo_nowI: "solo lawful_answer None T (f t) U x \<Longrightarrow> solo lawful_answer None T (bind_prog utc_now f) U x"
  unfolding solo_bind_free [OF tx_free_calls(1)] using alone_nowI by blast

lemma solo_tx_retI:
  "alone answers T p U (Inr y) \<Longrightarrow> tx_free p \<Longrightarrow> solo answers None T (bind_prog (transaction p) (\<lambda>r. Ret (g r))) U (g (Inr y))"
  by (rule solo_transactionI) simp_all

lemma solo_txI: "alone answers T p U (Inr y) \<Longrightarrow> tx_free p \<Longrightarrow> solo answers None T (transaction p) U (Inr y)"
  using solo_tx_retI [of answers T p U y "\<lambda>r. r"] by simp

lemma app_permission:
  "contains (as_scopes a) what \<Longrightarrow> require_permission d (context_for (AppStanding a)) what = Inr ()"
  by (simp add: require_permission_def holds_def context_scope_def context_for_def into_context_granting_def lit_inject del: lit_Cons)

definition demo_operator :: cs_context where
  "demo_operator = context_for (AppStanding (demo_standing\<lparr>as_scopes := lit '' job:enqueue webhook:manage optout:manage ''\<rparr>))"

lemma demo_operator_may:
  "require_permission d demo_operator (lit ''job:enqueue'') = Inr ()" "require_permission d demo_operator (lit ''webhook:manage'') = Inr ()"
  "require_permission d demo_operator OPT_OUT_MANAGE_PERMISSION = Inr ()"
  unfolding demo_operator_def
  by (rule app_permission, simp add: contains_def unpack_def split_whitespace_def is_whitespace_def OPT_OUT_MANAGE_PERMISSION_def)+

definition demo_dead :: job where
  "demo_dead = demo_job\<lparr>job_st := JobDead, job_finishedAt := Some 3\<rparr>"

definition demo_dead_tables :: tables where
  "demo_dead_tables = demo_tables\<lparr>t_jobs := [lit ''j1'' \<mapsto> demo_dead]\<rparr>"

lemma demo_requeued:
  "solo lawful_answer None demo_dead_tables (requeue demo_api_env ts demo_operator (lit ''j1''))
     (demo_dead_tables\<lparr>t_jobs := [lit ''j1'' \<mapsto> requeued 9 demo_dead]\<rparr>) (Inr (requeued 9 demo_dead))"
proof -
  let ?T = demo_dead_tables and ?U = "demo_dead_tables\<lparr>t_jobs := [lit ''j1'' \<mapsto> requeued 9 demo_dead]\<rparr>"
  have rows: "t_jobs ?T = [lit ''j1'' \<mapsto> demo_dead]" by (simp add: demo_dead_tables_def)
  have j: "job_id demo_dead = lit ''j1''" "job_st demo_dead = JobDead" by (simp_all add: demo_dead_def demo_job_def)
  have find: "alone lawful_answer ?T (find_jobs (\<lambda>j. job_id j = lit ''j1'') [] (Some 1)) ?T (Inr [demo_dead])"
    unfolding find_jobs_def
    by (rule alone_call [where r = "Jobs (Inr [demo_dead])" and T' = ?T]) (simp_all add: lawful_answer_def in_limit_def rows j del: lit_Cons)
  have "write_job 0 (requeue_patch 9) demo_dead = Some (requeued 9 demo_dead)"
    using j(2) by (simp add: write_job_def requeue_patch_def jobs_guard_transition_def requeued_def row_defs state_edges)
  then have upd: "alone lawful_answer ?T (update_job (lit ''j1'') (requeue_patch 9) (job_version demo_dead)) ?U (Inr (requeued 9 demo_dead))"
    unfolding update_job_def
    by (intro alone_call [where r = "JobRow (Inr (requeued 9 demo_dead))" and T' = ?U])
      (auto simp: lawful_answer_def rows simp del: lit_Cons)
  have "alone lawful_answer ?T (requeue_body (lit ''j1'') 9) ?U (Inr (requeued 9 demo_dead))"
    unfolding requeue_body_def by (rule alone_tryI, rule alone_first_orI, rule find) (simp add: j upd del: lit_Cons)
  from solo_tx_retI [OF this tx_free_requeue, of "map_err (map_database_error ts)"] show ?thesis
    unfolding requeue_def demo_operator_may by (intro solo_guardI solo_nowI [where t = 9]) (simp add: map_err_def)
qed


definition demo_dead_attempt :: attempt where
  "demo_dead_attempt = demo_attempt\<lparr>att_st := AttDead, att_attempts := 8\<rparr>"

definition demo_hook_tables :: tables where
  "demo_hook_tables = demo_tables\<lparr>t_endpoints := [lit ''e1'' \<mapsto> demo_endpoint], t_attempts := [lit ''w1'' \<mapsto> demo_dead_attempt]\<rparr>"

lemma demo_hook_rows:
  "t_endpoints demo_hook_tables = [lit ''e1'' \<mapsto> demo_endpoint]"
  "t_attempts demo_hook_tables = [lit ''w1'' \<mapsto> demo_dead_attempt]"
  "att_id demo_dead_attempt = lit ''w1''" "att_st demo_dead_attempt = AttDead" "att_endpointId demo_dead_attempt = lit ''e1''"
  "ep_id demo_endpoint = lit ''e1''" "ep_deliveryMode demo_endpoint = hmac" "ep_circuitOpenUntil demo_endpoint = Some 3"
  by (simp_all add: demo_hook_tables_def) (simp_all add: demo_endpoint_def demo_dead_attempt_def demo_attempt_def)

lemma one_endpointI:
  "t_endpoints T i = Some e \<Longrightarrow> ep_id e = i \<Longrightarrow> alone lawful_answer T (one_endpoint i) T (Inr [e])"
  unfolding one_endpoint_def find_endpoints_def
  by (rule alone_call [where r = "Endpoints (Inr [e])" and T' = T]) (simp_all add: lawful_answer_def in_limit_def)

lemma update_endpointI:
  assumes "t_endpoints T i = Some e"
  shows "alone lawful_answer T (update_endpoint i p (ep_version e))
    (T\<lparr>t_endpoints := (t_endpoints T)(i \<mapsto> (patch_endpoint p e)\<lparr>ep_version := ep_version e + 1\<rparr>)\<rparr>)
    (Inr ((patch_endpoint p e)\<lparr>ep_version := ep_version e + 1\<rparr>))"
  unfolding update_endpoint_def
  by (rule alone_call [where r = "EndpointRow (Inr ((patch_endpoint p e)\<lparr>ep_version := ep_version e + 1\<rparr>))"])
    (use assms in \<open>auto simp: lawful_answer_def\<close>)

lemma demo_replayed:
  "\<exists>U. solo lawful_answer None demo_hook_tables (replay_attempt demo_api_env ts Permitted demo_operator (lit ''w1''))
     U (Inr (replayed 9 demo_dead_attempt))"
proof -
  let ?T = demo_hook_tables and ?a = demo_dead_attempt
  let ?V = "?T\<lparr>t_attempts := (t_attempts ?T)(lit ''w1'' \<mapsto> replayed 9 ?a)\<rparr>"
  have find: "alone lawful_answer ?T (find_attempts (\<lambda>a. att_id a = lit ''w1'') [] (Some 1)) ?T (Inr [?a])"
    unfolding find_attempts_def
    by (rule alone_call [where r = "Attempts (Inr [?a])" and T' = ?T]) (simp_all add: lawful_answer_def in_limit_def demo_hook_rows del: lit_Cons)
  have "write_attempt 0 (replay_patch 9) ?a = Some (replayed 9 ?a)"
    using demo_hook_rows(4) by (simp add: write_attempt_def replay_patch_def attempts_guard_transition_def replayed_def row_defs state_edges)
  then have upd: "alone lawful_answer ?T (update_attempt (lit ''w1'') (replay_patch 9) (att_version ?a)) ?V (Inr (replayed 9 ?a))"
    unfolding update_attempt_def
    by (intro alone_call [where r = "AttemptRow (Inr (replayed 9 ?a))" and T' = ?V]) (auto simp: lawful_answer_def demo_hook_rows simp del: lit_Cons)
  have e: "t_endpoints ?V (lit ''e1'') = Some demo_endpoint" by (simp add: demo_hook_rows)
  have "\<exists>U. alone lawful_answer ?V (reset_breaker (lit ''e1'')) U (Inr ())"
    unfolding reset_breaker_def
    by (rule exI, rule alone_tryI, rule one_endpointI, rule e, simp add: demo_hook_rows del: lit_Cons)
      (unfold list.case demo_hook_rows(6), subst if_P, simp add: demo_hook_rows(8), rule alone_tryI, rule update_endpointI, rule e, rule alone_ret)
  then obtain U where reset: "alone lawful_answer ?V (reset_breaker (lit ''e1'')) U (Inr ())" ..
  have "alone lawful_answer ?T (replay_body Permitted (lit ''w1'') 9) U (Inr (replayed 9 ?a))"
    unfolding replay_body_def
    by (rule alone_tryI, rule alone_first_orI, rule find)
      (simp add: demo_hook_rows replay_allowed_def del: lit_Cons, rule alone_tryI, rule alone_ret, rule alone_tryI, rule upd,
        rule alone_tryI, rule reset, rule alone_ret)
  from solo_tx_retI [OF this tx_free_replay, of "map_err (map_database_error ts)"] show ?thesis
    unfolding replay_attempt_def demo_operator_may by (intro exI solo_guardI solo_nowI [where t = 9]) (simp add: map_err_def)
qed

theorem replay_revives_delivery_witness:
  "\<exists>old now. t_attempts demo_hook_tables (lit ''w1'') = Some old \<and> att_st old \<in> {AttFailed, AttDead}
     \<and> replayed 9 demo_dead_attempt = replayed now old"
proof -
  from demo_replayed obtain U where "solo lawful_answer None demo_hook_tables
     (replay_attempt demo_api_env (\<lambda>_. []) Permitted demo_operator (lit ''w1'')) U (Inr (replayed 9 demo_dead_attempt))" by blast
  from replay_revives_delivery [OF lawful_permissive this] show ?thesis unfolding sum.case by blast
qed

definition demo_switch :: switch_input where
  "demo_switch = \<lparr>sw_endpointId = lit ''e1'', sw_mode = sealed, sw_audience = Some (lit ''vaam'')\<rparr>"

lemma demo_switched:
  "\<exists>U row. solo lawful_answer None demo_hook_tables
     (switch_mode demo_api_env ts HmacDisabled (\<lambda>_. True) (\<lambda>_. None) [] demo_operator demo_switch) U (Inr row)"
proof -
  let ?T = demo_hook_tables
  obtain p where p: "plan_mode_switch demo_api_env (\<lambda>_. True) (\<lambda>_. None) [] demo_endpoint sealed (Some (lit ''vaam'')) = Inr p"
    by (simp add: plan_mode_switch_def demo_hook_rows)
  have e: "alone lawful_answer ?T (endpoint_by_id (lit ''e1'')) ?T (Inr demo_endpoint)"
    unfolding endpoint_by_id_def
    by (rule alone_first_orI, rule one_endpointI) (simp_all add: demo_hook_rows del: lit_Cons)
  have w: "alone lawful_answer ?T (update_endpoint (lit ''e1'') p (ep_version demo_endpoint))
      (?T\<lparr>t_endpoints := (t_endpoints ?T)(lit ''e1'' \<mapsto> (patch_endpoint p demo_endpoint)\<lparr>ep_version := ep_version demo_endpoint + 1\<rparr>)\<rparr>)
      (Inr ((patch_endpoint p demo_endpoint)\<lparr>ep_version := ep_version demo_endpoint + 1\<rparr>))" (is "alone _ _ _ ?U (Inr ?row)")
    by (rule update_endpointI) (simp add: demo_hook_rows del: lit_Cons)
  have f: "sw_endpointId demo_switch = lit ''e1''" "sw_mode demo_switch = sealed" "sw_audience demo_switch = Some (lit ''vaam'')"
    by (simp_all add: demo_switch_def)
  have "alone lawful_answer ?T (switch_body demo_api_env ts (\<lambda>_. True) (\<lambda>_. None) [] demo_switch) ?U (Inr ?row)"
    unfolding switch_body_def f
    by (rule alone_tryI, rule e, unfold p, rule alone_tryI, rule alone_ret, rule alone_bindI, rule w) (simp add: map_err_def)
  from solo_txI [OF this tx_free_switch] show ?thesis
    unfolding switch_mode_def demo_operator_may f
    by (intro exI solo_guardI) (simp add: try_prog_def)
qed

theorem switch_keeps_rules_witness:
  "\<exists>row. ep_deliveryMode row = sealed \<and> endpoint_checks (\<lambda>_. True) row"
proof -
  from demo_switched obtain U row where "solo lawful_answer None demo_hook_tables
     (switch_mode demo_api_env (\<lambda>_. []) HmacDisabled (\<lambda>_. True) (\<lambda>_. None) [] demo_operator demo_switch) U (Inr row)" by blast
  from switch_keeps_rules [OF lawful_permissive this] show ?thesis by (auto simp: demo_switch_def)
qed

text \<open>A cached snapshot of an empty day.\<close>

lemma alone_countI:
  "counts (t_messages T) f n \<Longrightarrow> alone lawful_answer T (count_messages f) T (Inr n)"
  "counts (t_jobs T) g m \<Longrightarrow> alone lawful_answer T (count_jobs g) T (Inr m)"
  "counts (t_attempts T) h k \<Longrightarrow> alone lawful_answer T (count_attempts h) T (Inr k)"
  unfolding call_defs
  by (rule alone_call [where r = "Count (Inr n)" and T' = T], simp add: lawful_answer_def, simp,
      rule alone_call [where r = "Count (Inr m)" and T' = T], simp add: lawful_answer_def, simp,
      rule alone_call [where r = "Count (Inr k)" and T' = T], simp add: lawful_answer_def, simp)

definition may_succeed :: "tables \<Rightarrow> ('e + 'a) prog \<Rightarrow> bool" where
  "may_succeed T p \<longleftrightarrow> (\<exists>x. alone lawful_answer T p T (Inr x))"

lemma may_succeed_Ret [simp]: "may_succeed T (Ret (Inr x))"
  by (auto simp: may_succeed_def)

lemma may_succeed_try: "may_succeed T p \<Longrightarrow> (\<And>x. may_succeed T (f x)) \<Longrightarrow> may_succeed T (try_prog p f)"
  unfolding may_succeed_def by (meson alone_tryI)

lemma may_succeed_counts [simp]: "may_succeed T (count_messages f)" "may_succeed T (count_jobs g)" "may_succeed T (count_attempts h)"
  unfolding may_succeed_def by (rule exI, rule alone_countI, simp only: counts_def)+

lemma may_succeed_collect: "(\<And>x. may_succeed T (f x)) \<Longrightarrow> may_succeed T (collect_prog f xs)"
  by (induction xs) (auto intro!: may_succeed_try)

lemma snapshot_taken: "may_succeed T (take_snapshot pol ctx)"
proof -
  have "may_succeed T (dashboard_hourly_buckets pol ctx 0)" "may_succeed T (dashboard_operator_stats pol ctx 0)"
    "may_succeed T (dashboard_live_gauges pol ctx)"
    unfolding dashboard_hourly_buckets_def dashboard_operator_stats_def dashboard_live_gauges_def hourly_bucket_of_def operator_stats_of_def Let_def
    by (intro may_succeed_collect may_succeed_try may_succeed_counts may_succeed_Ret)+
  then have "\<exists>s. alone lawful_answer T (try_prog (dashboard_hourly_buckets pol ctx 0) (\<lambda>hourly_buckets.
     try_prog (dashboard_operator_stats pol ctx 0) (\<lambda>stats.
     try_prog (dashboard_live_gauges pol ctx) (\<lambda>(queue_depth, stuck_messages, job_backlog, outbox_depth).
     Ret (Inr \<lparr>ds_generatedAt = 0,
       ds_appId = (case text_field ctx (lit ''appId'') of Some s \<Rightarrow> if s = [] then None else Some s | None \<Rightarrow> None),
       ds_queueDepth = queue_depth, ds_jobBacklog = job_backlog, ds_outboxDepth = outbox_depth,
       ds_stuckMessages = stuck_messages, ds_operatorStats = stats, ds_hourlyBuckets = hourly_buckets\<rparr>))))) T (Inr s)"
    unfolding may_succeed_def [symmetric] by (intro may_succeed_try) (auto simp: split_beta)
  then show ?thesis
    unfolding may_succeed_def take_snapshot_def by (elim exE) (rule exI, rule alone_bindI [OF alone_nowI [where t = 0]])
qed

definition demo_reader :: app_standing where
  "demo_reader = demo_standing\<lparr>as_scopes := lit '' dashboard:read sms:read ''\<rparr>"

definition demo_viewer :: app_standing where
  "demo_viewer = demo_standing\<lparr>as_scopes := lit '' dashboard:read ''\<rparr>"

lemma demo_dashboard_scopes:
  "contains (as_scopes demo_reader) (lit ''dashboard:read'')" "contains (as_scopes demo_viewer) (lit ''dashboard:read'')"
  by (simp_all add: demo_reader_def demo_viewer_def contains_def unpack_def split_whitespace_def is_whitespace_def)

text \<open>A message is seen by a caller of its application who may read messages.\<close>

definition demo_policy :: row_policy where
  "demo_policy = \<lparr>rp_message = (\<lambda>ctx m. ctx_auth ctx (lit ''messageRead'') = Some (claim True) \<and> text_field ctx (lit ''appId'') = Some (msg_appId m)),
     rp_job = (\<lambda>_ _. False), rp_attempt = (\<lambda>_ _. False)\<rparr>"

lemma demo_policy_sees:
  "rp_message demo_policy (context_for (AppStanding demo_reader)) demo_message"
  "\<not> rp_message demo_policy (context_for (AppStanding demo_viewer)) demo_message"
  by (simp_all add: demo_policy_def context_for_def into_context_granting_def demo_reader_def demo_viewer_def demo_standing_def text_field_def
      demo_message_def grants_of_def holds_def contains_def unpack_def split_whitespace_def is_whitespace_def claim_def MESSAGE_READ_PERMISSION_def)


text \<open>The number of the accepted marketing text above, opted out.\<close>

definition demo_opt_out_input :: record_opt_out_input where
  "demo_opt_out_input = \<lparr>ro_msisdn = lit ''+237 677 12 34 56'', ro_source = source_admin, ro_scope = lit ''all'', ro_reason = None\<rparr>"

definition demo_opt_out :: opt_out where
  "demo_opt_out = new_opt_out (lit ''o1'') 6 \<lparr>ooi_msisdnHash = keyed_hash_hex demo_api_env (e164 demo_number), ooi_msisdn = e164 demo_number,
     ooi_source = source_admin, ooi_scope = lit ''all'', ooi_reason = None, ooi_optedOutAt = 5\<rparr>"

definition demo_opted_tables :: tables where
  "demo_opted_tables = demo_send_tables\<lparr>t_api := (t_api demo_send_tables)\<lparr>a_opt_outs := [lit ''o1'' \<mapsto> demo_opt_out]\<rparr>\<rparr>"

lemma demo_number_parsed: "parse_mobile (ae_phone demo_api_env) (lit ''+237 677 12 34 56'') = Inr demo_number"
  using demo_valid by (auto simp: valid_mobile_def map_err_def demo_send_def simp del: lit_Cons split: sum.splits)

lemma demo_opt_out_recorded:
  "alone lawful_answer demo_send_tables (create_opt_out_entry demo_api_env ts demo_operator demo_opt_out_input) demo_opted_tables (Inr demo_opt_out)"
proof -
  have v: "valid_mobile demo_api_env (ro_msisdn demo_opt_out_input) = Inr demo_number"
    using demo_number_parsed by (simp add: valid_mobile_def map_err_def demo_opt_out_input_def del: lit_Cons)
  have c: "alone lawful_answer demo_send_tables (create_opt_out (oo_input demo_opt_out)) demo_opted_tables (Inr demo_opt_out)"
    unfolding create_opt_out_def demo_opted_tables_def
    by (rule alone_apiI [where a = "OptOutRow (Inr demo_opt_out)" and A = "(t_api demo_send_tables)\<lparr>a_opt_outs := [lit ''o1'' \<mapsto> demo_opt_out]\<rparr>"])
      (auto simp: lawful_api_def inserts_def demo_send_rows demo_opt_out_def new_opt_out_def simp del: lit_Cons)
  have i: "oo_input demo_opt_out = \<lparr>ooi_msisdnHash = keyed_hash_hex demo_api_env (e164 demo_number), ooi_msisdn = e164 demo_number,
      ooi_source = ro_source demo_opt_out_input, ooi_scope = ro_scope demo_opt_out_input, ooi_reason = ro_reason demo_opt_out_input,
      ooi_optedOutAt = 5\<rparr>"
    by (simp add: demo_opt_out_def new_opt_out_def demo_opt_out_input_def del: lit_Cons)
  show ?thesis
    unfolding create_opt_out_entry_def demo_operator_may v
    by (rule alone_tryI, rule alone_ret, rule alone_tryI, rule alone_ret, rule alone_bindI [OF alone_nowI [where t = 5]],
        rule alone_bindI [OF c [unfolded i]]) (simp add: map_err_def)
qed

lemma demo_opted_find:
  "alone lawful_answer demo_opted_tables
     (find_opt_outs (\<lambda>row. ooi_msisdnHash (oo_input row) = keyed_hash_hex demo_api_env (e164 demo_number)) (Some 1)) demo_opted_tables (Inr [demo_opt_out])"
  by (rule alone_find_opt_outsI, rule selects_one) (simp_all add: demo_opted_tables_def demo_opt_out_def new_opt_out_def del: lit_Cons)

lemma alone_try_failI: "alone answers T p V (Inl e) \<Longrightarrow> alone answers T (try_prog p f) V (Inl e)"
  unfolding try_prog_def by (rule alone_bindI, assumption) simp

lemma alone_try_dir_failI: "alone answers T p V (Inl e) \<Longrightarrow> alone answers T (try_dir p d f) V (Inl e, d)"
  unfolding try_dir_def by (rule alone_bindI, assumption) simp

lemma alone_hitI:
  assumes "tc_entries c key = Some (v, t0)" "fresh_in c t0 t"
  shows "alone lawful_answer T (get_or_fetch c key fetch) T (Inr v, c)"
proof -
  have "alone lawful_answer T (cache_get c key) T (Some v)"
    unfolding cache_get_def assms(1) option.case prod.case by (rule alone_bindI [OF alone_nowI [where t = t]]) (simp add: assms(2))
  then show ?thesis unfolding get_or_fetch_def by (rule alone_bindI) simp
qed

lemma demo_send_refused:
  "\<exists>e. alone lawful_answer demo_opted_tables (send_message demo_api_env demo_caches demo_caller demo_send) demo_opted_tables (Inl e, demo_caches)"
proof -
  let ?T = demo_opted_tables
  let ?e = "Validation (lit ''recipient has opted out of messages from this scope'')"
  have "alone lawful_answer ?T (ensure_not_opted_out (keyed_hash_hex demo_api_env (e164 demo_number))) ?T (Inl ?e)"
    unfolding ensure_not_opted_out_def by (rule alone_tryI [OF demo_opted_find]) simp
  then have checks: "alone lawful_answer ?T (send_checks demo_api_env demo_app (keyed_hash_hex demo_api_env (e164 demo_number)) 5 demo_send) ?T (Inl ?e)"
    unfolding send_checks_def demo_send_fields requires_recipient_consent_controls.simps if_True by (rule alone_try_failI)
  have "tc_entries (ca_apps demo_caches) (lit ''appc_1'') = Some (demo_app, 5)" "fresh_in (ca_apps demo_caches) 5 5"
    by (simp_all add: demo_caches_def procedures_new_def ttl_cache_new_def fresh_in_def minutes_def secs_def)
  then have get: "alone lawful_answer ?T (get_or_fetch (ca_apps demo_caches) (lit ''appc_1'') fetch_app) ?T (Inr demo_app, ca_apps demo_caches)"
    by (rule alone_hitI)
  have hit: "alone lawful_answer ?T (resolve_app demo_caches (lit ''appc_1'')) ?T (Inr demo_app, demo_caches)"
    unfolding resolve_app_def by (rule alone_bindI [OF get]) simp
  show ?thesis
    unfolding send_message_def demo_caller_may
    by (rule exI, rule alone_try_dirI, rule alone_ret, rule alone_bindI, rule alone_nowI [where t = 5],
        rule alone_try_dirI, rule alone_ret, rule alone_bindI, rule hit, unfold prod.case, rule alone_try_dirI, rule alone_ret,
        unfold demo_valid, rule alone_try_dirI, rule alone_ret, rule alone_try_dir_failI, rule checks)
qed

theorem recorded_opt_out_blocks_witness:
  "\<exists>y. alone lawful_answer demo_opted_tables (search_opt_out demo_api_env demo_operator (lit ''+237 677 12 34 56'')) demo_opted_tables (Inr y)
     \<and> y = Some (to_opt_out_summary demo_opt_out)"
proof -
  from demo_send_refused obtain e where send: "alone lawful_answer demo_opted_tables
     (send_message demo_api_env demo_caches demo_caller demo_send) demo_opted_tables (Inl e, demo_caches)" ..
  have "valid_mobile demo_api_env (lit ''+237 677 12 34 56'') = Inr demo_number"
    using demo_number_parsed by (simp add: valid_mobile_def map_err_def del: lit_Cons)
  then have "\<exists>y. alone lawful_answer demo_opted_tables
      (search_opt_out demo_api_env demo_operator (lit ''+237 677 12 34 56'')) demo_opted_tables (Inr y)"
    unfolding search_opt_out_def demo_operator_may
    by (intro exI alone_tryI [OF alone_ret]) (simp only:, rule alone_tryI [OF alone_ret], rule alone_tryI [OF demo_opted_find], rule alone_ret)
  then obtain y where search: "alone lawful_answer demo_opted_tables
      (search_opt_out demo_api_env demo_operator (lit ''+237 677 12 34 56'')) demo_opted_tables (Inr y)" ..
  have "y = Some (to_opt_out_summary demo_opt_out)"
    using recorded_opt_out_blocks [OF lawful_permissive demo_opt_out_recorded [where ts = "\<lambda>_. []"] _ demo_number_parsed refl _ _ send search]
      demo_number_parsed by (auto simp: demo_opt_out_input_def demo_send_def class_of_def simp del: lit_Cons)
  with search show ?thesis by blast
qed

end
