(* ===== verification/Keys.thy ===== *)
theory Keys
  imports Operations
begin

text \<open>
  The keys that sign requests: \<^verbatim>\<open>backends/crates/sms-api/src/client_keys.rs\<close> (the Ed25519 keys of
  application clients), \<^verbatim>\<open>console_keys.rs\<close> (the P-256 keys of people at the console) and
  \<^verbatim>\<open>provision_client\<close>. The libraries are in \<open>key_lib\<close>: unpadded base64url, the thumbprint
  of a key (or the refusal of bytes that are not a point) and ECDSA verification. Fresh identifiers are arguments. A
  registration that loses a race on a unique index is run once more, so its loop is \<open>with_retry\<close> with one retry.
\<close>

record key_lib =
  kl_base64 :: "ustring \<Rightarrow> u8 list option"
  kl_ed25519 :: "u8 list \<Rightarrow> cratestack_error + u8 list"
  kl_p256 :: "u8 list \<Rightarrow> cratestack_error + u8 list"
  kl_hex :: "u8 list \<Rightarrow> ustring"
  kl_signature :: "u8 list \<Rightarrow> bool"
  kl_verifying_key :: "u8 list \<Rightarrow> bool"
  kl_verify :: "u8 list \<Rightarrow> u8 list \<Rightarrow> u8 list \<Rightarrow> bool"

fun with_retry :: "nat \<Rightarrow> (cratestack_error \<Rightarrow> bool) \<Rightarrow> (nat \<Rightarrow> (cratestack_error + 'a) prog) \<Rightarrow> (cratestack_error + 'a) prog" where
  "with_retry 0 again p = p 0"
| "with_retry (Suc n) again p = bind_prog (p (Suc n)) (\<lambda>r. case r of
     Inr x \<Rightarrow> Ret (Inr x)
   | Inl error \<Rightarrow> if again error then with_retry n again p else Ret (Inl error))"

definition find_first :: "(cratestack_error + 'a list) prog \<Rightarrow> (cratestack_error + 'a option) prog" where
  "find_first p = try_prog p (\<lambda>rows. Ret (Inr (case rows of [] \<Rightarrow> None | x # _ \<Rightarrow> Some x)))"

subsection \<open>client\_keys.rs\<close>

definition ED25519_PUBLIC_KEY_LEN :: nat where "ED25519_PUBLIC_KEY_LEN = 32"
definition LABEL_MAX_CHARS :: nat where "LABEL_MAX_CHARS = 64"
definition CLIENT_THUMBPRINT_CONSTRAINT :: ustring where "CLIENT_THUMBPRINT_CONSTRAINT = lit ''client_keys_thumbprint_key''"

record parsed_key =
  pk_bytes :: "u8 list"
  pk_thumbprint :: ustring

definition parse_public_key :: "key_lib \<Rightarrow> ustring \<Rightarrow> cratestack_error + parsed_key" where
  "parse_public_key L public_key = (case kl_base64 L (trim public_key) of
     None \<Rightarrow> Inl (Validation (lit ''publicKey must be the raw Ed25519 public key as unpadded base64url''))
   | Some bytes \<Rightarrow>
       if length bytes \<noteq> ED25519_PUBLIC_KEY_LEN
       then Inl (Validation (lit ''publicKey must be '' @ show_nat ED25519_PUBLIC_KEY_LEN
         @ lit '' bytes (a raw Ed25519 public key), got '' @ show_nat (length bytes)))
       else bind_res (kl_ed25519 L bytes) (\<lambda>print. Inr \<lparr>pk_bytes = bytes, pk_thumbprint = kl_hex L print\<rparr>))"

definition clean_label :: "ustring option \<Rightarrow> cratestack_error + ustring option" where
  "clean_label label = (case label of
     None \<Rightarrow> Inr None
   | Some l \<Rightarrow> let trimmed = trim l in
       if trimmed = [] \<or> LABEL_MAX_CHARS < length trimmed
       then Inl (Validation (lit ''label must be 1-'' @ show_nat LABEL_MAX_CHARS @ lit '' characters''))
       else Inr (Some trimmed))"

datatype registrant = Caller | Operator

record register_client_key_input =
  rck_appClientId :: ustring
  rck_publicKey :: ustring
  rck_label :: "ustring option"

definition client_same_registration :: "client_key \<Rightarrow> ustring \<Rightarrow> cratestack_error + client_key" where
  "client_same_registration existing app_client_id =
     (if cki_appClientId (ck_input existing) \<noteq> app_client_id
      then Inl (Conflict (lit ''this public key is already registered to another client''))
      else if ck_revokedAt existing \<noteq> None
      then Inl (Conflict (lit ''this public key was revoked; generate a new keypair, a revoked key is never reinstated''))
      else Inr existing)"

definition client_register_body ::
    "registrant \<Rightarrow> ustring \<Rightarrow> parsed_key \<Rightarrow> ustring option \<Rightarrow> (cratestack_error + client_key) prog" where
  "client_register_body who app_client_id parsed label =
     try_prog (first_or (NotFound (lit ''no AppClient with id '' @ app_client_id))
         (find_app_clients (\<lambda>c. ac_id c = app_client_id) (Some 1))) (\<lambda>client.
     if \<not> ac_active client \<or> ac_retiredAt client \<noteq> None
     then Ret (Inl (Validation (lit ''AppClient '' @ ac_id client @ lit '' is retired or inactive'')))
     else if who = Caller \<and> names_pair_scope (aci_scopes (ac_input client))
     then Ret (Inl (Forbidden (lit ''AppClient '' @ ac_id client @ lit '' holds '' @ PAIR_SCOPE
       @ lit '': its keys are registered only by `sms-gateway register-client`'')))
     else try_prog (find_first (find_client_keys (\<lambda>k. cki_thumbprint (ck_input k) = pk_thumbprint parsed) (Some 1))) (\<lambda>existing.
       case existing of
         Some k \<Rightarrow> Ret (client_same_registration k app_client_id)
       | None \<Rightarrow> create_client_key \<lparr>cki_appClientId = app_client_id, cki_alg = ed25519, cki_publicKey = pk_bytes parsed,
           cki_thumbprint = pk_thumbprint parsed, cki_label = label\<rparr>))"

definition client_register ::
    "key_lib \<Rightarrow> registrant \<Rightarrow> register_client_key_input \<Rightarrow> (cratestack_error + client_key) prog" where
  "client_register L who args =
     try_prog (Ret (parse_public_key L (rck_publicKey args))) (\<lambda>parsed.
     try_prog (Ret (clean_label (rck_label args))) (\<lambda>label.
     with_retry 1 (\<lambda>error. db_sqlstate error = Some UNIQUE_VIOLATION \<and> db_constraint error = Some CLIENT_THUMBPRINT_CONSTRAINT)
       (\<lambda>_. transaction (client_register_body who (rck_appClientId args) parsed label))))"

definition client_revoke_body :: "ustring \<Rightarrow> (cratestack_error + client_key) prog" where
  "client_revoke_body key_id =
     try_prog (first_or (NotFound (lit ''no ClientKey with id '' @ key_id)) (find_client_keys (\<lambda>k. ck_id k = key_id) (Some 1))) (\<lambda>key.
     if ck_revokedAt key \<noteq> None then Ret (Inr key)
     else bind_prog utc_now (\<lambda>now. revoke_client_key key_id now))"

definition client_revoke :: "ustring \<Rightarrow> (cratestack_error + client_key) prog" where
  "client_revoke key_id = transaction (client_revoke_body key_id)"

subsection \<open>console\_keys.rs\<close>

definition FEDERATION_ISSUER :: ustring where "FEDERATION_ISSUER = lit ''vaam''"
definition PAIRED_ROLE :: ustring where "PAIRED_ROLE = lit ''admin''"
definition PROOF_MAX_SKEW_SECS :: int where "PROOF_MAX_SKEW_SECS = 300"
definition KEY_LIFETIME_DAYS :: int where "KEY_LIFETIME_DAYS = 30"
definition P256_SEC1_LEN :: nat where "P256_SEC1_LEN = 65"
definition PROOF_TAG :: ustring where "PROOF_TAG = lit ''vsms.console-pair.v1''"
definition DISPLAY_NAME_MAX_CHARS :: nat where "DISPLAY_NAME_MAX_CHARS = 128"
definition VAAM_USER_ID_MAX_CHARS :: nat where "VAAM_USER_ID_MAX_CHARS = 64"
definition SYNTHETIC_EMAIL_DOMAIN :: ustring where "SYNTHETIC_EMAIL_DOMAIN = lit ''vaam.invalid''"
definition CONSOLE_THUMBPRINT_CONSTRAINT :: ustring where "CONSOLE_THUMBPRINT_CONSTRAINT = lit ''console_keys_thumbprint_key''"
definition LINK_CONSTRAINT :: ustring where "LINK_CONSTRAINT = lit ''federated_links_issuer_subject_key''"
definition USER_EMAIL_CONSTRAINT :: ustring where "USER_EMAIL_CONSTRAINT = lit ''users_email_key''"

definition parse_console_key :: "key_lib \<Rightarrow> ustring \<Rightarrow> cratestack_error + parsed_key" where
  "parse_console_key L public_key = (case kl_base64 L (trim public_key) of
     None \<Rightarrow> Inl (Validation (lit ''publicKey must be the SEC1 uncompressed P-256 point as unpadded base64url''))
   | Some bytes \<Rightarrow>
       if length bytes \<noteq> P256_SEC1_LEN
       then Inl (Validation (lit ''publicKey must be '' @ show_nat P256_SEC1_LEN
         @ lit '' bytes (a SEC1 uncompressed P-256 point), got '' @ show_nat (length bytes)))
       else if hd bytes \<noteq> 4
       then Inl (Validation (lit ''publicKey must be the uncompressed SEC1 form (first byte 0x04); a compressed point is refused''))
       else bind_res (kl_p256 L bytes) (\<lambda>print. Inr \<lparr>pk_bytes = bytes, pk_thumbprint = kl_hex L print\<rparr>))"

definition possession_message :: "ustring \<Rightarrow> int \<Rightarrow> u8 list" where
  "possession_message public_key issued_at_unix = as_bytes (PROOF_TAG @ [10] @ public_key @ [10] @ show_int issued_at_unix)"

definition verify_possession :: "key_lib \<Rightarrow> parsed_key \<Rightarrow> u8 list \<Rightarrow> ustring \<Rightarrow> cratestack_error + unit" where
  "verify_possession L key msg proof_text = (case kl_base64 L (trim proof_text) of
     None \<Rightarrow> Inl (Validation (lit ''possessionProof must be unpadded base64url''))
   | Some sig \<Rightarrow>
       if \<not> kl_signature L sig then Inl (Validation (lit ''possessionProof must be a 64-byte r||s ECDSA signature''))
       else if kl_verifying_key L (pk_bytes key) \<and> kl_verify L (pk_bytes key) msg sig then Inr ()
       else Inl (Validation (lit ''possessionProof does not verify under publicKey'')))"

record register_console_key_input =
  rco_vaamUserId :: ustring
  rco_displayName :: "ustring option"
  rco_publicKey :: ustring
  rco_possessionProof :: ustring
  rco_issuedAt :: instant

text \<open>\<^verbatim>\<open>timestamp()\<close> is the whole seconds of the instant.\<close>

definition timestamp_of :: "instant \<Rightarrow> int" where
  "timestamp_of t = t div secs 1"

definition check_proof :: "key_lib \<Rightarrow> register_console_key_input \<Rightarrow> instant \<Rightarrow> cratestack_error + parsed_key" where
  "check_proof L args now =
     bind_res (parse_console_key L (rco_publicKey args)) (\<lambda>key.
     if secs PROOF_MAX_SKEW_SECS < \<bar>now - rco_issuedAt args\<bar>
     then Inl (Validation (lit ''the pairing request expired: issuedAt must be within '' @ show_int PROOF_MAX_SKEW_SECS
       @ lit '' seconds of the server's clock''))
     else bind_res (verify_possession L key (possession_message (rco_publicKey args) (timestamp_of (rco_issuedAt args)))
       (rco_possessionProof args)) (\<lambda>_. Inr key))"

definition clean_vaam_user_id :: "ustring \<Rightarrow> cratestack_error + ustring" where
  "clean_vaam_user_id i =
     (if i = [] \<or> VAAM_USER_ID_MAX_CHARS < length i \<or>
         \<not> list_all (\<lambda>c. is_ascii_digit c \<or> 65 \<le> c \<and> c \<le> 90 \<or> 97 \<le> c \<and> c \<le> 122 \<or> c = 95 \<or> c = 45) i
      then Inl (Validation (lit ''vaamUserId must be 1-'' @ show_nat VAAM_USER_ID_MAX_CHARS @ lit '' characters of A-Z a-z 0-9 _ -''))
      else Inr i)"

definition display_name_for :: "ustring option \<Rightarrow> ustring \<Rightarrow> cratestack_error + ustring" where
  "display_name_for display_name vaam_user_id = (case display_name of
     None \<Rightarrow> Inr (lit ''vaam '' @ vaam_user_id)
   | Some name \<Rightarrow> let trimmed = trim name in
       if trimmed = [] \<or> DISPLAY_NAME_MAX_CHARS < length trimmed
       then Inl (Validation (lit ''displayName must be 1-'' @ show_nat DISPLAY_NAME_MAX_CHARS @ lit '' characters''))
       else Inr trimmed)"

definition new_key_input :: "ustring \<Rightarrow> parsed_key \<Rightarrow> ustring option \<Rightarrow> instant \<Rightarrow> console_key_input" where
  "new_key_input user_id key label now = \<lparr>coki_userId = user_id, coki_alg = esp256, coki_publicKey = pk_bytes key,
     coki_thumbprint = pk_thumbprint key, coki_label = label, coki_pairedAt = now, coki_expiresAt = now + days KEY_LIFETIME_DAYS\<rparr>"

definition console_same_registration :: "console_key \<Rightarrow> ustring \<Rightarrow> instant \<Rightarrow> cratestack_error + console_key" where
  "console_same_registration existing user_id now =
     (if coki_userId (cok_input existing) \<noteq> user_id
      then Inl (Conflict (lit ''this public key is already registered to another user''))
      else if cok_revokedAt existing \<noteq> None
      then Inl (Conflict (lit ''this public key was revoked; generate a new keypair, a revoked key is never reinstated''))
      else if coki_expiresAt (cok_input existing) \<le> now
      then Inl (Conflict (lit ''this public key has expired; generate a new keypair, an expired key is never extended''))
      else Inr existing)"

definition deactivated :: cratestack_error where
  "deactivated = Forbidden (lit ''this person's vsms account is deactivated'')"

definition owner_pairs_by_cli :: cratestack_error where
  "owner_pairs_by_cli = Forbidden (lit ''an owner pairs a console only through `sms-gateway pair-console-key`'')"

definition create_user_and_link :: "ustring \<Rightarrow> ustring \<Rightarrow> ustring \<Rightarrow> (cratestack_error + ustring) prog" where
  "create_user_and_link uuid vaam_user_id display_name =
     try_prog (create_user \<lparr>ui_subject = lit ''pending-'' @ uuid, ui_email = vaam_user_id @ lit ''@'' @ SYNTHETIC_EMAIL_DOMAIN,
       ui_displayName = display_name, ui_roleKey = PAIRED_ROLE\<rparr>) (\<lambda>created.
     try_prog (update_user_subject (usr_id created) (usr_id created) (usr_version created)) (\<lambda>_.
     try_prog (create_link FEDERATION_ISSUER vaam_user_id (usr_id created)) (\<lambda>_.
     Ret (Inr (usr_id created)))))"

definition paired_user :: "ustring \<Rightarrow> ustring \<Rightarrow> ustring \<Rightarrow> federated_link option \<Rightarrow> (cratestack_error + ustring) prog" where
  "paired_user uuid vaam_user_id display_name link = (case link of
     Some l \<Rightarrow> try_prog (first_or deactivated (find_users (\<lambda>u. usr_id u = fl_userId l \<and> usr_active u) (Some 1))) (\<lambda>active.
       Ret (if usr_roleKey active = OWNER_ROLE_KEY then Inl owner_pairs_by_cli else Inr (usr_id active)))
   | None \<Rightarrow> create_user_and_link uuid vaam_user_id display_name)"

definition console_register_body ::
    "ustring \<Rightarrow> ustring \<Rightarrow> ustring \<Rightarrow> parsed_key \<Rightarrow> instant \<Rightarrow> (cratestack_error + console_key) prog" where
  "console_register_body uuid vaam_user_id display_name parsed now =
     try_prog (find_first (find_links (\<lambda>l. fl_issuer l = FEDERATION_ISSUER \<and> fl_subject l = vaam_user_id) (Some 1))) (\<lambda>link.
     try_prog (find_first (find_console_keys (\<lambda>k. coki_thumbprint (cok_input k) = pk_thumbprint parsed) (Some 1))) (\<lambda>existing.
     case existing of
       Some k \<Rightarrow> Ret (case link of
         None \<Rightarrow> Inl (Conflict (lit ''this public key is already registered to another user''))
       | Some l \<Rightarrow> console_same_registration k (fl_userId l) now)
     | None \<Rightarrow> try_prog (paired_user uuid vaam_user_id display_name link) (\<lambda>user_id.
         create_console_key (new_key_input user_id parsed None now))))"

definition console_register ::
    "key_lib \<Rightarrow> (nat \<Rightarrow> ustring) \<Rightarrow> register_console_key_input \<Rightarrow> instant \<Rightarrow> (cratestack_error + console_key) prog" where
  "console_register L uuid args now =
     try_prog (Ret (check_proof L args now)) (\<lambda>parsed.
     try_prog (Ret (clean_vaam_user_id (rco_vaamUserId args))) (\<lambda>vaam_user_id.
     try_prog (Ret (display_name_for (rco_displayName args) vaam_user_id)) (\<lambda>display_name.
     with_retry 1 (\<lambda>error. db_sqlstate error = Some UNIQUE_VIOLATION \<and>
         (db_constraint error = Some CONSOLE_THUMBPRINT_CONSTRAINT \<or> db_constraint error = Some LINK_CONSTRAINT
          \<or> db_constraint error = Some USER_EMAIL_CONSTRAINT))
       (\<lambda>n. transaction (console_register_body (uuid n) vaam_user_id display_name parsed now)))))"

text \<open>The procedure: the scope before anything else, then the registration at the time of the call.\<close>

definition register_console_key ::
    "key_lib \<Rightarrow> (nat \<Rightarrow> ustring) \<Rightarrow> cs_context \<Rightarrow> register_console_key_input \<Rightarrow> (cratestack_error + console_key) prog" where
  "register_console_key L uuid ctx args =
     try_prog (Ret (require_pair_scope ctx)) (\<lambda>_. bind_prog utc_now (\<lambda>now. console_register L uuid args now))"

definition pair_attempt :: "user \<Rightarrow> parsed_key \<Rightarrow> ustring option \<Rightarrow> instant \<Rightarrow> (cratestack_error + (console_key \<times> bool)) prog" where
  "pair_attempt found parsed label now =
     try_prog (find_first (find_console_keys (\<lambda>k. coki_thumbprint (cok_input k) = pk_thumbprint parsed) (Some 1))) (\<lambda>existing.
     case existing of
       Some k \<Rightarrow> Ret (map_sum id (\<lambda>key. (key, False)) (console_same_registration k (usr_id found) now))
     | None \<Rightarrow> try_prog (create_console_key (new_key_input (usr_id found) parsed label now)) (\<lambda>created. Ret (Inr (created, True))))"

definition pair_existing_user ::
    "api_env \<Rightarrow> key_lib \<Rightarrow> ustring \<Rightarrow> ustring \<Rightarrow> ustring option \<Rightarrow> instant \<Rightarrow> (cratestack_error + (console_key \<times> user \<times> bool)) prog" where
  "pair_existing_user E L user public_key label now =
     try_prog (Ret (parse_console_key L public_key)) (\<lambda>parsed.
     try_prog (Ret (clean_label label)) (\<lambda>cleaned.
     try_prog (first_or (NotFound (lit ''no active user matches '' @ ae_debug E user @ lit '' (by email or id)''))
         (find_users (\<lambda>u. (if 64 \<in> set user then usr_email u = trim user else usr_id u = trim user) \<and> usr_active u) (Some 1))) (\<lambda>found.
     try_prog (with_retry 1 (\<lambda>error. db_sqlstate error = Some UNIQUE_VIOLATION \<and> db_constraint error = Some CONSOLE_THUMBPRINT_CONSTRAINT)
         (\<lambda>_. pair_attempt found parsed cleaned now)) (\<lambda>(key, created).
     Ret (Inr (key, found, created))))))"

definition console_revoke_body :: "ustring \<Rightarrow> (cratestack_error + console_key) prog" where
  "console_revoke_body key_id =
     try_prog (first_or (NotFound (lit ''no ConsoleKey with id '' @ key_id)) (find_console_keys (\<lambda>k. cok_id k = key_id) (Some 1))) (\<lambda>key.
     if cok_revokedAt key \<noteq> None then Ret (Inr key)
     else bind_prog utc_now (\<lambda>now. revoke_console_key key_id now))"

definition console_revoke :: "ustring \<Rightarrow> (cratestack_error + console_key) prog" where
  "console_revoke key_id = transaction (console_revoke_body key_id)"

subsection \<open>provision\_client\<close>

record provision_client_input =
  pci_appId :: ustring
  pci_label :: ustring
  pci_scopes :: "ustring list"
  pci_publicKey :: ustring

record provision_client_result =
  pcr_clientId :: ustring
  pcr_keyId :: ustring
  pcr_thumbprint :: ustring

fun pack_error_to_string :: "api_env \<Rightarrow> pack_error \<Rightarrow> ustring" where
  "pack_error_to_string E (ContainsSeparator v) = lit ''value '' @ ae_debug E v @ lit '' contains the separator and cannot be packed''"
| "pack_error_to_string E PackEmpty = lit ''an empty value cannot be packed''"

definition provision_client_body ::
    "ustring \<Rightarrow> ustring \<Rightarrow> parsed_key \<Rightarrow> provision_client_input \<Rightarrow> (cratestack_error + client_key) prog" where
  "provision_client_body client_id scopes_packed parsed args =
     try_prog (find_client_keys (\<lambda>k. cki_thumbprint (ck_input k) = pk_thumbprint parsed) (Some 1)) (\<lambda>rows.
     if rows \<noteq> [] then Ret (Inl (Conflict (lit ''this public key is already registered to a client'')))
     else try_prog (create_app_client \<lparr>aci_appId = pci_appId args, aci_clientId = client_id, aci_label = pci_label args,
         aci_scopes = scopes_packed\<rparr>) (\<lambda>app_client.
       create_client_key \<lparr>cki_appClientId = ac_id app_client, cki_alg = ed25519, cki_publicKey = pk_bytes parsed,
         cki_thumbprint = pk_thumbprint parsed, cki_label = Some (pci_label args)\<rparr>))"

definition provision_client ::
    "api_env \<Rightarrow> key_lib \<Rightarrow> (cratestack_error \<Rightarrow> ustring) \<Rightarrow> ustring \<Rightarrow> provision_client_input
      \<Rightarrow> (cratestack_error + provision_client_result) prog" where
  "provision_client E L ts uuid args =
     try_prog (Ret (map_err (\<lambda>error. Validation (pack_error_to_string E error)) (pack (pci_scopes args)))) (\<lambda>scopes_packed.
     try_prog (Ret (refuse_pair_scope scopes_packed)) (\<lambda>_.
     try_prog (Ret (parse_public_key L (pci_publicKey args))) (\<lambda>parsed.
     try_prog (first_or (NotFound (lit ''no App with id '' @ pci_appId args)) (find_apps (\<lambda>a. app_id a = pci_appId args) (Some 1))) (\<lambda>app.
     if \<not> app_active app then Ret (Inl (Validation (lit ''App '' @ app_id app @ lit '' is not active'')))
     else let client_id = lit ''appc_'' @ uuid
       in bind_prog (transaction (provision_client_body client_id scopes_packed parsed args)) (\<lambda>r.
          Ret (bind_res (map_err (map_database_error ts) r) (\<lambda>key.
            Inr \<lparr>pcr_clientId = client_id, pcr_keyId = ck_id key, pcr_thumbprint = cki_thumbprint (ck_input key)\<rparr>)))))))"

subsection \<open>What a table of keys keeps\<close>

text \<open>A key row stays, with its thumbprint; a revoked one stays exactly as it is. No two rows have one thumbprint.\<close>

definition keys_kept :: "('k \<Rightarrow> ustring) \<Rightarrow> ('k \<Rightarrow> instant option) \<Rightarrow> (ustring \<rightharpoonup> 'k) \<Rightarrow> (ustring \<rightharpoonup> 'k) \<Rightarrow> bool" where
  "keys_kept print revoked m m' \<longleftrightarrow>
     (\<forall>i k. m i = Some k \<longrightarrow> (\<exists>k'. m' i = Some k' \<and> print k' = print k \<and> (revoked k \<noteq> None \<longrightarrow> k' = k)))"

definition keys_distinct :: "('k \<Rightarrow> ustring) \<Rightarrow> (ustring \<rightharpoonup> 'k) \<Rightarrow> bool" where
  "keys_distinct print m \<longleftrightarrow> (\<forall>i j k l. m i = Some k \<and> m j = Some l \<and> print k = print l \<longrightarrow> i = j)"

locale key_store =
  fixes kprint :: "'k \<Rightarrow> ustring" and krevoked :: "'k \<Rightarrow> instant option" and stamp :: "instant \<Rightarrow> 'k \<Rightarrow> 'k"
  assumes stamp_print: "kprint (stamp now k) = kprint k"
begin

lemma kept_refl: "keys_kept kprint krevoked m m"
  by (simp add: keys_kept_def)

lemma kept_trans: "keys_kept kprint krevoked m m' \<Longrightarrow> keys_kept kprint krevoked m' m'' \<Longrightarrow> keys_kept kprint krevoked m m''"
  unfolding keys_kept_def by metis

lemma insert_keeps:
  assumes "inserts m (\<lambda>s. kprint s = kprint r) i r m'"
  shows "keys_kept kprint krevoked m m'" "keys_distinct kprint m \<Longrightarrow> keys_distinct kprint m'"
  using assms unfolding inserts_def keys_kept_def keys_distinct_def by (fastforce split: if_splits)+

lemma stamp_keeps:
  assumes "m i = Some k" "krevoked k = None"
  shows "keys_kept kprint krevoked m (m(i \<mapsto> stamp now k))"
    "keys_distinct kprint m \<Longrightarrow> keys_distinct kprint (m(i \<mapsto> stamp now k))"
  using assms unfolding keys_kept_def keys_distinct_def by (auto simp: stamp_print split: if_splits)

lemma revoked_stays:
  assumes "keys_kept kprint krevoked m m'" "keys_distinct kprint m'" "m i = Some k" "krevoked k \<noteq> None" "m' j = Some l" "kprint l = kprint k"
  shows "krevoked l \<noteq> None"
  using assms unfolding keys_kept_def keys_distinct_def by (metis option.inject)

end

definition client_print :: "client_key \<Rightarrow> ustring" where "client_print k = cki_thumbprint (ck_input k)"
definition console_print :: "console_key \<Rightarrow> ustring" where "console_print k = coki_thumbprint (cok_input k)"

interpretation client_store: key_store client_print ck_revokedAt "\<lambda>now k. k\<lparr>ck_revokedAt := Some now\<rparr>"
  by unfold_locales (simp add: client_print_def)

interpretation console_store: key_store console_print cok_revokedAt "\<lambda>now k. k\<lparr>cok_revokedAt := Some now\<rparr>"
  by unfold_locales (simp add: console_print_def)

definition keys_safe :: "tables \<Rightarrow> tables \<Rightarrow> bool" where
  "keys_safe T U \<longleftrightarrow>
     keys_kept client_print ck_revokedAt (a_client_keys (t_api T)) (a_client_keys (t_api U))
     \<and> keys_kept console_print cok_revokedAt (a_console_keys (t_api T)) (a_console_keys (t_api U))
     \<and> (keys_distinct client_print (a_client_keys (t_api T)) \<longrightarrow> keys_distinct client_print (a_client_keys (t_api U)))
     \<and> (keys_distinct console_print (a_console_keys (t_api T)) \<longrightarrow> keys_distinct console_print (a_console_keys (t_api U)))"

lemma keys_safe_refl [simp]: "keys_safe T T"
  by (simp add: keys_safe_def client_store.kept_refl console_store.kept_refl)

lemma keys_safe_trans: "keys_safe T V \<Longrightarrow> keys_safe V U \<Longrightarrow> keys_safe T U"
  unfolding keys_safe_def using client_store.kept_trans console_store.kept_trans by blast

subsection \<open>The writes, alone\<close>

lemma alone_create_client_key:
  assumes "lawful answers" "alone answers T (create_client_key x) U r"
  shows "case r of Inl e \<Rightarrow> U = T | Inr k \<Rightarrow> (\<exists>i. k = new_client_key i x
    \<and> inserts (a_client_keys (t_api T)) (\<lambda>s. client_print s = cki_thumbprint x) i k (a_client_keys (t_api U))
    \<and> U = T\<lparr>t_api := (t_api T)\<lparr>a_client_keys := (a_client_keys (t_api T))(i \<mapsto> k)\<rparr>\<rparr>)"
  using assms(2) unfolding create_client_key_def
  by (rule alone_api [OF assms(1)]) (auto simp: lawful_api_def inserts_def client_print_def)

lemma alone_create_console_key:
  assumes "lawful answers" "alone answers T (create_console_key x) U r"
  shows "case r of Inl e \<Rightarrow> U = T | Inr k \<Rightarrow> (\<exists>i. k = new_console_key i x
    \<and> inserts (a_console_keys (t_api T)) (\<lambda>s. console_print s = coki_thumbprint x) i k (a_console_keys (t_api U))
    \<and> U = T\<lparr>t_api := (t_api T)\<lparr>a_console_keys := (a_console_keys (t_api T))(i \<mapsto> k)\<rparr>\<rparr>)"
  using assms(2) unfolding create_console_key_def
  by (rule alone_api [OF assms(1)]) (auto simp: lawful_api_def inserts_def console_print_def)

lemma alone_revoke_client_key:
  assumes "lawful answers" "alone answers T (revoke_client_key i now) U r"
  shows "case r of Inl e \<Rightarrow> U = T | Inr k' \<Rightarrow> (\<exists>k. a_client_keys (t_api T) i = Some k \<and> k' = k\<lparr>ck_revokedAt := Some now\<rparr>
    \<and> U = T\<lparr>t_api := (t_api T)\<lparr>a_client_keys := (a_client_keys (t_api T))(i \<mapsto> k')\<rparr>\<rparr>)"
  using assms(2) unfolding revoke_client_key_def
  by (rule alone_api [OF assms(1)]) (auto simp: lawful_api_def)

lemma alone_revoke_console_key:
  assumes "lawful answers" "alone answers T (revoke_console_key i now) U r"
  shows "case r of Inl e \<Rightarrow> U = T | Inr k' \<Rightarrow> (\<exists>k. a_console_keys (t_api T) i = Some k \<and> k' = k\<lparr>cok_revokedAt := Some now\<rparr>
    \<and> U = T\<lparr>t_api := (t_api T)\<lparr>a_console_keys := (a_console_keys (t_api T))(i \<mapsto> k')\<rparr>\<rparr>)"
  using assms(2) unfolding revoke_console_key_def
  by (rule alone_api [OF assms(1)]) (auto simp: lawful_api_def)

lemma alone_create_app_client:
  assumes "lawful answers" "alone answers T (create_app_client x) U r"
  shows "case r of Inl e \<Rightarrow> U = T | Inr c \<Rightarrow> (\<exists>i. c = new_app_client i x \<and> a_clients (t_api T) i = None
    \<and> U = T\<lparr>t_api := (t_api T)\<lparr>a_clients := (a_clients (t_api T))(i \<mapsto> c)\<rparr>\<rparr>)"
  using assms(2) unfolding create_app_client_def
  by (rule alone_api [OF assms(1)]) (auto simp: lawful_api_def inserts_def)

lemma alone_find_first:
  assumes "alone answers T (find_first p) U (Inr x)"
  obtains rows where "alone answers T p U (Inr rows)" "x = (case rows of [] \<Rightarrow> None | r # _ \<Rightarrow> Some r)"
  using assms unfolding find_first_def by (rule alone_tryE) auto

lemma tx_free_find_first [simp]: "tx_free p \<Longrightarrow> tx_free (find_first p)"
  unfolding find_first_def by (rule tx_free_try) simp_all

text \<open>The reads by key of this theory.\<close>

interpretation client_read: keyed_read "\<lambda>i. find_app_clients (\<lambda>c. ac_id c = i) (Some 1)" "\<lambda>T. a_clients (t_api T)"
  by unfold_locales (drule (1) alone_find_app_clients, auto dest: selects_rows)

interpretation client_key_read: keyed_read "\<lambda>i. find_client_keys (\<lambda>k. ck_id k = i) (Some 1)" "\<lambda>T. a_client_keys (t_api T)"
  by unfold_locales (drule (1) alone_find_client_keys, auto dest: selects_rows)

interpretation console_key_read: keyed_read "\<lambda>i. find_console_keys (\<lambda>k. cok_id k = i) (Some 1)" "\<lambda>T. a_console_keys (t_api T)"
  by unfold_locales (drule (1) alone_find_console_keys, auto dest: selects_rows)

interpretation app_read: keyed_read "\<lambda>i. find_apps (\<lambda>a. app_id a = i) (Some 1)" "\<lambda>T. a_apps (t_api T)"
  by unfold_locales (drule (1) alone_find_apps, auto dest: selects_rows)

subsection \<open>Registrations and revocations, run by themselves\<close>

lemma solo_retry:
  assumes "solo answers None T (with_retry n again (\<lambda>i. transaction (p i))) U y" "\<And>i. tx_free (p i)"
  shows "(\<exists>e. y = Inl e \<and> U = T) \<or> (\<exists>i x. y = Inr x \<and> alone answers T (p i) U (Inr x))"
  using assms(1)
proof (induction n)
  case 0
  have "solo answers None T (bind_prog (transaction (p 0)) Ret) U y" using 0 by (simp add: bind_Ret)
  then show ?case by (rule solo_transactionE [OF _ assms(2)]) auto
next
  case (Suc n)
  from Suc.prems have "solo answers None T (bind_prog (transaction (p (Suc n))) (\<lambda>r. case r of
     Inr x \<Rightarrow> Ret (Inr x) | Inl e \<Rightarrow> if again e then with_retry n again (\<lambda>i. transaction (p i)) else Ret (Inl e))) U y" by simp
  then show ?case
    by (rule solo_transactionE [OF _ assms(2)]) (use Suc.IH in \<open>auto split: if_splits\<close>)
qed

lemma alone_retry:
  assumes "alone answers T (with_retry n again p) U y" "\<And>i V e. alone answers T (p i) V (Inl e) \<Longrightarrow> V = T"
  shows "(\<exists>e. y = Inl e \<and> U = T) \<or> (\<exists>i x. y = Inr x \<and> alone answers T (p i) U (Inr x))"
  using assms(1)
proof (induction n)
  case 0
  then show ?case using assms(2) by (cases y) auto
next
  case (Suc n)
  from Suc.prems obtain V r where r: "alone answers T (p (Suc n)) V r"
    and go: "alone answers V (case r of Inr x \<Rightarrow> Ret (Inr x) | Inl e \<Rightarrow> if again e then with_retry n again p else Ret (Inl e)) U y"
    by auto
  show ?case
  proof (cases r)
    case (Inl e)
    with r assms(2) have "V = T" by blast
    with go Inl Suc.IH show ?thesis by (auto split: if_splits)
  next
    case (Inr x)
    with go r show ?thesis by auto
  qed
qed

definition client_key_settled :: "registrant \<Rightarrow> ustring \<Rightarrow> parsed_key \<Rightarrow> ustring option \<Rightarrow> tables \<Rightarrow> client_key \<Rightarrow> tables \<Rightarrow> bool" where
  "client_key_settled who cid parsed label T k U \<longleftrightarrow>
     (\<exists>client. a_clients (t_api T) cid = Some client \<and> ac_active client \<and> ac_retiredAt client = None
       \<and> (who = Caller \<longrightarrow> \<not> names_pair_scope (aci_scopes (ac_input client))))
     \<and> a_client_keys (t_api U) (ck_id k) = Some k \<and> ck_revokedAt k = None
     \<and> cki_appClientId (ck_input k) = cid \<and> cki_thumbprint (ck_input k) = pk_thumbprint parsed
     \<and> (U = T \<or> (\<forall>i l. a_client_keys (t_api T) i = Some l \<longrightarrow> cki_thumbprint (ck_input l) \<noteq> pk_thumbprint parsed)
          \<and> a_client_keys (t_api T) (ck_id k) = None \<and> cki_publicKey (ck_input k) = pk_bytes parsed \<and> cki_label (ck_input k) = label
          \<and> U = T\<lparr>t_api := (t_api T)\<lparr>a_client_keys := (a_client_keys (t_api T))(ck_id k \<mapsto> k)\<rparr>\<rparr>)"

lemma alone_client_register_body:
  assumes "lawful answers" "alone answers T (client_register_body who cid parsed label) U (Inr k)"
  shows "client_key_settled who cid parsed label T k U"
  using assms(2) unfolding client_register_body_def
proof (rule alone_tryE)
  let ?find = "find_first (find_client_keys (\<lambda>k. cki_thumbprint (ck_input k) = pk_thumbprint parsed) (Some 1))"
  let ?x = "\<lparr>cki_appClientId = cid, cki_alg = ed25519, cki_publicKey = pk_bytes parsed, cki_thumbprint = pk_thumbprint parsed, cki_label = label\<rparr>"
  let ?put = "\<lambda>existing. case existing of Some k \<Rightarrow> Ret (client_same_registration k cid) | None \<Rightarrow> create_client_key ?x"
  fix V client
  assume found: "alone answers T (first_or (NotFound (lit ''no AppClient with id '' @ cid)) (find_app_clients (\<lambda>c. ac_id c = cid) (Some 1))) V (Inr client)"
    and go: "alone answers V (if \<not> ac_active client \<or> ac_retiredAt client \<noteq> None
      then Ret (Inl (Validation (lit ''AppClient '' @ ac_id client @ lit '' is retired or inactive'')))
      else if who = Caller \<and> names_pair_scope (aci_scopes (ac_input client))
      then Ret (Inl (Forbidden (lit ''AppClient '' @ ac_id client @ lit '' holds '' @ PAIR_SCOPE
        @ lit '': its keys are registered only by `sms-gateway register-client`'')))
      else try_prog ?find ?put) U (Inr k)"
  from client_read.one_row [OF assms(1) found] have V: "V = T" and client: "a_clients (t_api T) cid = Some client" by auto
  from go have ok: "ac_active client" "ac_retiredAt client = None" "who = Caller \<longrightarrow> \<not> names_pair_scope (aci_scopes (ac_input client))"
    and put: "alone answers T (try_prog ?find ?put) U (Inr k)"
    unfolding V by (auto split: if_splits simp del: lit_Cons)
  from put show ?thesis
  proof (rule alone_tryE)
    fix W existing
    assume "alone answers T ?find W (Inr existing)" and last: "alone answers W (?put existing) U (Inr k)"
    then obtain rows where W: "W = T" and rows: "selects (a_client_keys (t_api T)) ck_id (\<lambda>k. cki_thumbprint (ck_input k) = pk_thumbprint parsed) (Some 1) rows"
      "existing = (case rows of [] \<Rightarrow> None | r # _ \<Rightarrow> Some r)"
      using alone_find_client_keys [OF assms(1)] by (elim alone_find_first) blast
    show ?thesis
    proof (cases rows)
      case Nil
      with last rows W alone_create_client_key [OF assms(1), of T ?x U "Inr k"] have "\<exists>i. k = new_client_key i ?x
        \<and> inserts (a_client_keys (t_api T)) (\<lambda>s. client_print s = pk_thumbprint parsed) i k (a_client_keys (t_api U))
        \<and> U = T\<lparr>t_api := (t_api T)\<lparr>a_client_keys := (a_client_keys (t_api T))(i \<mapsto> k)\<rparr>\<rparr>" by simp
      then obtain i where k: "k = new_client_key i ?x" and new: "a_client_keys (t_api T) i = None"
        "\<forall>j l. a_client_keys (t_api T) j = Some l \<longrightarrow> cki_thumbprint (ck_input l) \<noteq> pk_thumbprint parsed"
        and U: "U = T\<lparr>t_api := (t_api T)\<lparr>a_client_keys := (a_client_keys (t_api T))(i \<mapsto> k)\<rparr>\<rparr>"
        unfolding inserts_def client_print_def by blast
      show ?thesis unfolding client_key_settled_def U using client ok new by (simp add: k new_client_key_def)
    next
      case (Cons r rest)
      with selects_rows [OF rows(1), of r] last rows(2) W client ok show ?thesis
        unfolding client_key_settled_def by (auto simp: client_same_registration_def split: if_splits)
    qed
  qed auto
qed auto

lemma keys_safe_client:
  assumes "a_console_keys (t_api U) = a_console_keys (t_api T)"
    and "keys_kept client_print ck_revokedAt (a_client_keys (t_api T)) (a_client_keys (t_api U))"
      "keys_distinct client_print (a_client_keys (t_api T)) \<Longrightarrow> keys_distinct client_print (a_client_keys (t_api U))"
  shows "keys_safe T U"
  using assms by (simp add: keys_safe_def console_store.kept_refl)

lemma keys_safe_console:
  assumes "a_client_keys (t_api U) = a_client_keys (t_api T)"
    and "keys_kept console_print cok_revokedAt (a_console_keys (t_api T)) (a_console_keys (t_api U))"
      "keys_distinct console_print (a_console_keys (t_api T)) \<Longrightarrow> keys_distinct console_print (a_console_keys (t_api U))"
  shows "keys_safe T U"
  using assms by (simp add: keys_safe_def client_store.kept_refl)

lemma keys_safe_new_client:
  assumes "inserts (a_client_keys (t_api T)) (\<lambda>s. client_print s = client_print k) i k (a_client_keys (t_api U))"
    "a_console_keys (t_api U) = a_console_keys (t_api T)"
  shows "keys_safe T U"
  using client_store.insert_keeps [OF assms(1)] by (intro keys_safe_client assms(2))

lemma keys_safe_new_console:
  assumes "inserts (a_console_keys (t_api T)) (\<lambda>s. console_print s = console_print k) i k (a_console_keys (t_api U))"
    "a_client_keys (t_api U) = a_client_keys (t_api T)"
  shows "keys_safe T U"
  using console_store.insert_keeps [OF assms(1)] by (intro keys_safe_console assms(2))

lemma settled_client_safe: "client_key_settled who cid parsed label T k U \<Longrightarrow> keys_safe T U"
proof (cases "U = T")
  case False
  assume "client_key_settled who cid parsed label T k U"
  with False have "inserts (a_client_keys (t_api T)) (\<lambda>s. client_print s = client_print k) (ck_id k) k (a_client_keys (t_api U))"
    "a_console_keys (t_api U) = a_console_keys (t_api T)"
    by (auto simp: client_key_settled_def inserts_def client_print_def)
  then show ?thesis by (rule keys_safe_new_client)
qed simp

text \<open>A revocation stamps a live key, once.\<close>

lemma alone_client_revoke_body:
  assumes "lawful answers" "alone answers T (client_revoke_body i) U (Inr k')"
  shows "\<exists>k. a_client_keys (t_api T) i = Some k \<and> (if ck_revokedAt k \<noteq> None then k' = k \<and> U = T
    else \<exists>now. k' = k\<lparr>ck_revokedAt := Some now\<rparr> \<and> U = T\<lparr>t_api := (t_api T)\<lparr>a_client_keys := (a_client_keys (t_api T))(i \<mapsto> k')\<rparr>\<rparr>)"
  using assms(2) unfolding client_revoke_body_def
proof (rule alone_tryE)
  fix V k
  assume found: "alone answers T (first_or (NotFound (lit ''no ClientKey with id '' @ i)) (find_client_keys (\<lambda>k. ck_id k = i) (Some 1))) V (Inr k)"
    and go: "alone answers V (if ck_revokedAt k \<noteq> None then Ret (Inr k) else bind_prog utc_now (\<lambda>now. revoke_client_key i now)) U (Inr k')"
  from client_key_read.one_row [OF assms(1) found] have V: "V = T" and k: "a_client_keys (t_api T) i = Some k" by auto
  show ?thesis
  proof (cases "ck_revokedAt k")
    case None
    with go V obtain W now where "alone answers T utc_now W now" "alone answers W (revoke_client_key i now) U (Inr k')" by auto
    with alone_utc_now [OF assms(1)] have "alone answers T (revoke_client_key i now) U (Inr k')" by blast
    from alone_revoke_client_key [OF assms(1) this] k None show ?thesis by auto
  qed (use go V k in auto)
qed auto

lemma alone_console_revoke_body:
  assumes "lawful answers" "alone answers T (console_revoke_body i) U (Inr k')"
  shows "\<exists>k. a_console_keys (t_api T) i = Some k \<and> (if cok_revokedAt k \<noteq> None then k' = k \<and> U = T
    else \<exists>now. k' = k\<lparr>cok_revokedAt := Some now\<rparr> \<and> U = T\<lparr>t_api := (t_api T)\<lparr>a_console_keys := (a_console_keys (t_api T))(i \<mapsto> k')\<rparr>\<rparr>)"
  using assms(2) unfolding console_revoke_body_def
proof (rule alone_tryE)
  fix V k
  assume found: "alone answers T (first_or (NotFound (lit ''no ConsoleKey with id '' @ i)) (find_console_keys (\<lambda>k. cok_id k = i) (Some 1))) V (Inr k)"
    and go: "alone answers V (if cok_revokedAt k \<noteq> None then Ret (Inr k) else bind_prog utc_now (\<lambda>now. revoke_console_key i now)) U (Inr k')"
  from console_key_read.one_row [OF assms(1) found] have V: "V = T" and k: "a_console_keys (t_api T) i = Some k" by auto
  show ?thesis
  proof (cases "cok_revokedAt k")
    case None
    with go V obtain W now where "alone answers T utc_now W now" "alone answers W (revoke_console_key i now) U (Inr k')" by auto
    with alone_utc_now [OF assms(1)] have "alone answers T (revoke_console_key i now) U (Inr k')" by blast
    from alone_revoke_console_key [OF assms(1) this] k None show ?thesis by auto
  qed (use go V k in auto)
qed auto

lemma revokes_safe:
  "lawful answers \<Longrightarrow> alone answers T (client_revoke_body i) U (Inr k) \<Longrightarrow> keys_safe T U"
  "lawful answers \<Longrightarrow> alone answers T (console_revoke_body i) U (Inr l) \<Longrightarrow> keys_safe T U"
proof -
  assume "lawful answers" "alone answers T (client_revoke_body i) U (Inr k)"
  from alone_client_revoke_body [OF this] obtain old where old: "a_client_keys (t_api T) i = Some old"
    and new: "if ck_revokedAt old \<noteq> None then k = old \<and> U = T
      else \<exists>now. k = old\<lparr>ck_revokedAt := Some now\<rparr> \<and> U = T\<lparr>t_api := (t_api T)\<lparr>a_client_keys := (a_client_keys (t_api T))(i \<mapsto> k)\<rparr>\<rparr>" by blast
  show "keys_safe T U"
  proof (cases "ck_revokedAt old")
    case None
    with client_store.stamp_keeps [where m = "a_client_keys (t_api T)" and i = i, OF old None] new show ?thesis by (auto intro!: keys_safe_client)
  qed (use new in auto)
next
  assume "lawful answers" "alone answers T (console_revoke_body i) U (Inr l)"
  from alone_console_revoke_body [OF this] obtain old where old: "a_console_keys (t_api T) i = Some old"
    and new: "if cok_revokedAt old \<noteq> None then l = old \<and> U = T
      else \<exists>now. l = old\<lparr>cok_revokedAt := Some now\<rparr> \<and> U = T\<lparr>t_api := (t_api T)\<lparr>a_console_keys := (a_console_keys (t_api T))(i \<mapsto> l)\<rparr>\<rparr>" by blast
  show "keys_safe T U"
  proof (cases "cok_revokedAt old")
    case None
    with console_store.stamp_keeps [where m = "a_console_keys (t_api T)" and i = i, OF old None] new show ?thesis by (auto intro!: keys_safe_console)
  qed (use new in auto)
qed

lemma alone_provision_client_body:
  assumes "lawful answers" "alone answers T (provision_client_body client_id scopes parsed args) U (Inr k)"
  shows "\<exists>c. a_clients (t_api T) (ac_id c) = None \<and> aci_scopes (ac_input c) = scopes \<and> aci_appId (ac_input c) = pci_appId args
    \<and> aci_clientId (ac_input c) = client_id \<and> cki_appClientId (ck_input k) = ac_id c \<and> cki_thumbprint (ck_input k) = pk_thumbprint parsed
    \<and> ck_revokedAt k = None \<and> inserts (a_client_keys (t_api T)) (\<lambda>s. client_print s = client_print k) (ck_id k) k (a_client_keys (t_api U))
    \<and> U = T\<lparr>t_api := (t_api T)\<lparr>a_clients := (a_clients (t_api T))(ac_id c \<mapsto> c), a_client_keys := (a_client_keys (t_api T))(ck_id k \<mapsto> k)\<rparr>\<rparr>"
  using assms(2) unfolding provision_client_body_def
proof (rule alone_tryE)
  let ?c = "\<lparr>aci_appId = pci_appId args, aci_clientId = client_id, aci_label = pci_label args, aci_scopes = scopes\<rparr>"
  let ?x = "\<lambda>c. \<lparr>cki_appClientId = ac_id c, cki_alg = ed25519, cki_publicKey = pk_bytes parsed,
    cki_thumbprint = pk_thumbprint parsed, cki_label = Some (pci_label args)\<rparr>"
  fix V rows
  assume found: "alone answers T (find_client_keys (\<lambda>k. cki_thumbprint (ck_input k) = pk_thumbprint parsed) (Some 1)) V (Inr rows)"
    and go: "alone answers V (if rows \<noteq> [] then Ret (Inl (Conflict (lit ''this public key is already registered to a client'')))
      else try_prog (create_app_client ?c) (\<lambda>app_client. create_client_key (?x app_client))) U (Inr k)"
  from alone_find_client_keys [OF assms(1) found] have V: "V = T" by blast
  from go have "alone answers T (try_prog (create_app_client ?c) (\<lambda>app_client. create_client_key (?x app_client))) U (Inr k)"
    unfolding V by (simp split: if_splits)
  then show ?thesis
  proof (rule alone_tryE)
    fix W c
    assume "alone answers T (create_app_client ?c) W (Inr c)" and key: "alone answers W (create_client_key (?x c)) U (Inr k)"
    with alone_create_app_client [OF assms(1), of T ?c W "Inr c"] have c: "ac_input c = ?c" "a_clients (t_api T) (ac_id c) = None"
      and W: "W = T\<lparr>t_api := (t_api T)\<lparr>a_clients := (a_clients (t_api T))(ac_id c \<mapsto> c)\<rparr>\<rparr>"
      by (auto simp: new_app_client_def)
    from alone_create_client_key [OF assms(1) key] obtain i where k: "k = new_client_key i (?x c)"
      and ins: "inserts (a_client_keys (t_api W)) (\<lambda>s. client_print s = pk_thumbprint parsed) i k (a_client_keys (t_api U))"
      and U: "U = W\<lparr>t_api := (t_api W)\<lparr>a_client_keys := (a_client_keys (t_api W))(i \<mapsto> k)\<rparr>\<rparr>" by auto
    have fields: "ck_id k = i" "client_print k = pk_thumbprint parsed" "ck_input k = ?x c" "ck_revokedAt k = None"
      by (simp_all add: k new_client_key_def client_print_def)
    show ?thesis
      by (rule exI [of _ c]) (use c ins in \<open>simp add: U W fields\<close>)
  qed auto
qed auto

lemma provision_safe:
  "lawful answers \<Longrightarrow> alone answers T (provision_client_body client_id scopes parsed args) U (Inr k) \<Longrightarrow> keys_safe T U"
  by (drule (1) alone_provision_client_body) (auto intro: keys_safe_new_client)

definition console_key_settled :: "ustring \<Rightarrow> parsed_key \<Rightarrow> instant \<Rightarrow> tables \<Rightarrow> console_key \<Rightarrow> tables \<Rightarrow> bool" where
  "console_key_settled vaam parsed now T k U \<longleftrightarrow>
     (\<exists>l. a_links (t_api U) (fl_id l) = Some l \<and> fl_issuer l = FEDERATION_ISSUER \<and> fl_subject l = vaam
        \<and> fl_userId l = coki_userId (cok_input k))
     \<and> a_console_keys (t_api U) (cok_id k) = Some k \<and> cok_revokedAt k = None \<and> now < coki_expiresAt (cok_input k)
     \<and> coki_thumbprint (cok_input k) = pk_thumbprint parsed
     \<and> (U = T
        \<or> inserts (a_console_keys (t_api T)) (\<lambda>s. console_print s = console_print k) (cok_id k) k (a_console_keys (t_api U))
          \<and> a_client_keys (t_api U) = a_client_keys (t_api T)
          \<and> coki_publicKey (cok_input k) = pk_bytes parsed \<and> coki_expiresAt (cok_input k) = now + days KEY_LIFETIME_DAYS
          \<and> (\<exists>u. a_users (t_api U) (coki_userId (cok_input k)) = Some u \<and> usr_active u \<and> usr_roleKey u \<noteq> OWNER_ROLE_KEY
             \<and> (a_users (t_api U) = a_users (t_api T)
                \<or> a_users (t_api T) (usr_id u) = None \<and> usr_roleKey u = PAIRED_ROLE
                  \<and> a_users (t_api U) = (a_users (t_api T))(usr_id u \<mapsto> u))))"

lemma alone_create_user:
  assumes "lawful answers" "alone answers T (create_user x) U r"
  shows "case r of Inl e \<Rightarrow> U = T | Inr u \<Rightarrow> usr_roleKey u = ui_roleKey x \<and> usr_active u \<and> a_users (t_api T) (usr_id u) = None
    \<and> U = T\<lparr>t_api := (t_api T)\<lparr>a_users := (a_users (t_api T))(usr_id u \<mapsto> u)\<rparr>\<rparr>"
  using assms(2) unfolding create_user_def
  by (rule alone_api [OF assms(1)]) (auto simp: lawful_api_def inserts_def new_user_def)

lemma alone_update_user_subject:
  assumes "lawful answers" "alone answers T (update_user_subject i sub v) U r"
  shows "case r of Inl e \<Rightarrow> U = T | Inr u' \<Rightarrow> (\<exists>u. a_users (t_api T) i = Some u
    \<and> u' = u\<lparr>usr_subject := sub, usr_version := v + 1\<rparr> \<and> U = T\<lparr>t_api := (t_api T)\<lparr>a_users := (a_users (t_api T))(i \<mapsto> u')\<rparr>\<rparr>)"
  using assms(2) unfolding update_user_subject_def
  by (rule alone_api [OF assms(1)]) (auto simp: lawful_api_def)

lemma alone_create_link:
  assumes "lawful answers" "alone answers T (create_link iss sub uid) U r"
  shows "case r of Inl e \<Rightarrow> U = T | Inr x \<Rightarrow> (\<exists>i. U = T\<lparr>t_api := (t_api T)\<lparr>a_links := (a_links (t_api T))(i \<mapsto>
    \<lparr>fl_id = i, fl_issuer = iss, fl_subject = sub, fl_userId = uid\<rparr>)\<rparr>\<rparr>)"
  using assms(2) unfolding create_link_def
  by (rule alone_api [OF assms(1)]) (auto simp: lawful_api_def inserts_def)

text \<open>The person a pairing ends with, and what it did to the tables of people and links.\<close>

definition paired_with :: "ustring \<Rightarrow> tables \<Rightarrow> ustring \<Rightarrow> tables \<Rightarrow> bool" where
  "paired_with vaam T uid U \<longleftrightarrow>
     a_client_keys (t_api U) = a_client_keys (t_api T) \<and> a_console_keys (t_api U) = a_console_keys (t_api T)
     \<and> (\<exists>l. a_links (t_api U) (fl_id l) = Some l \<and> fl_issuer l = FEDERATION_ISSUER \<and> fl_subject l = vaam \<and> fl_userId l = uid)
     \<and> (\<exists>u. a_users (t_api U) uid = Some u \<and> usr_active u \<and> usr_roleKey u \<noteq> OWNER_ROLE_KEY
        \<and> (a_users (t_api U) = a_users (t_api T)
           \<or> a_users (t_api T) (usr_id u) = None \<and> usr_roleKey u = PAIRED_ROLE \<and> a_users (t_api U) = (a_users (t_api T))(usr_id u \<mapsto> u)))"

lemma paired_not_owner: "PAIRED_ROLE \<noteq> OWNER_ROLE_KEY"
  by (simp add: PAIRED_ROLE_def OWNER_ROLE_KEY_def)

lemma alone_create_user_and_link:
  assumes "lawful answers" "alone answers T (create_user_and_link uuid vaam name) U (Inr uid)"
  shows "paired_with vaam T uid U"
  using assms(2) unfolding create_user_and_link_def
proof (rule alone_tryE)
  let ?x = "\<lparr>ui_subject = lit ''pending-'' @ uuid, ui_email = vaam @ lit ''@'' @ SYNTHETIC_EMAIL_DOMAIN, ui_displayName = name, ui_roleKey = PAIRED_ROLE\<rparr>"
  fix V u
  assume "alone answers T (create_user ?x) V (Inr u)"
    and go: "alone answers V (try_prog (update_user_subject (usr_id u) (usr_id u) (usr_version u)) (\<lambda>_.
      try_prog (create_link FEDERATION_ISSUER vaam (usr_id u)) (\<lambda>_. Ret (Inr (usr_id u))))) U (Inr uid)"
  with alone_create_user [OF assms(1), of T ?x V "Inr u"] have u: "usr_roleKey u = PAIRED_ROLE" "usr_active u" "a_users (t_api T) (usr_id u) = None"
    and V: "V = T\<lparr>t_api := (t_api T)\<lparr>a_users := (a_users (t_api T))(usr_id u \<mapsto> u)\<rparr>\<rparr>" by simp_all
  from go show ?thesis
  proof (rule alone_tryE)
    fix W u'
    assume "alone answers V (update_user_subject (usr_id u) (usr_id u) (usr_version u)) W (Inr u')"
      and go: "alone answers W (try_prog (create_link FEDERATION_ISSUER vaam (usr_id u)) (\<lambda>_. Ret (Inr (usr_id u)))) U (Inr uid)"
    with alone_update_user_subject [OF assms(1), of V "usr_id u" "usr_id u" "usr_version u" W "Inr u'"]
    have u': "u' = u\<lparr>usr_subject := usr_id u, usr_version := usr_version u + 1\<rparr>"
      and W: "W = T\<lparr>t_api := (t_api T)\<lparr>a_users := (a_users (t_api T))(usr_id u \<mapsto> u')\<rparr>\<rparr>" by (simp_all add: V)
    from go show ?thesis
    proof (rule alone_tryE)
      fix X y
      assume "alone answers W (create_link FEDERATION_ISSUER vaam (usr_id u)) X (Inr y)" "alone answers X (Ret (Inr (usr_id u))) U (Inr uid)"
      with alone_create_link [OF assms(1), of W FEDERATION_ISSUER vaam "usr_id u" X "Inr y"] obtain i where
        U: "U = W\<lparr>t_api := (t_api W)\<lparr>a_links := (a_links (t_api W))(i \<mapsto>
          \<lparr>fl_id = i, fl_issuer = FEDERATION_ISSUER, fl_subject = vaam, fl_userId = usr_id u\<rparr>)\<rparr>\<rparr>" and uid: "uid = usr_id u" by auto
      show ?thesis
        unfolding paired_with_def uid
        by (intro conjI exI [of _ "\<lparr>fl_id = i, fl_issuer = FEDERATION_ISSUER, fl_subject = vaam, fl_userId = usr_id u\<rparr>"] exI [of _ u'])
          (simp_all add: U W u' u paired_not_owner)
    qed auto
  qed auto
qed auto

lemma alone_paired_user:
  assumes "lawful answers" "alone answers T (paired_user uuid vaam name link) U (Inr uid)"
    and "\<And>l. link = Some l \<Longrightarrow> a_links (t_api T) (fl_id l) = Some l \<and> fl_issuer l = FEDERATION_ISSUER \<and> fl_subject l = vaam"
  shows "paired_with vaam T uid U"
proof (cases link)
  case None
  with assms(2) alone_create_user_and_link [OF assms(1)] show ?thesis by (simp add: paired_user_def)
next
  case (Some l)
  from assms(2) have "alone answers T (try_prog (first_or deactivated (find_users (\<lambda>u. usr_id u = fl_userId l \<and> usr_active u) (Some 1)))
      (\<lambda>active. Ret (if usr_roleKey active = OWNER_ROLE_KEY then Inl owner_pairs_by_cli else Inr (usr_id active)))) U (Inr uid)"
    by (simp add: paired_user_def Some)
  then show ?thesis
  proof (rule alone_tryE)
    fix V u
    assume found: "alone answers T (first_or deactivated (find_users (\<lambda>u. usr_id u = fl_userId l \<and> usr_active u) (Some 1))) V (Inr u)"
      and last: "alone answers V (Ret (if usr_roleKey u = OWNER_ROLE_KEY then Inl owner_pairs_by_cli else Inr (usr_id u))) U (Inr uid)"
    from found obtain rows where "alone answers T (find_users (\<lambda>u. usr_id u = fl_userId l \<and> usr_active u) (Some 1)) V (Inr (u # rows))"
      by (rule alone_first_or) auto
    from alone_find_users [OF assms(1) this] have V: "V = T" and u: "usr_id u = fl_userId l" "usr_active u" "a_users (t_api T) (usr_id u) = Some u"
      by (auto dest: selects_rows)
    from last V have "uid = usr_id u" "U = T" "usr_roleKey u \<noteq> OWNER_ROLE_KEY" by (auto split: if_splits)
    with u assms(3) [OF Some] show ?thesis unfolding paired_with_def by auto
  qed auto
qed

lemma settled_new:
  assumes paired: "paired_with vaam T uid X" and k: "k = new_console_key i (new_key_input uid parsed label now)"
    and ins: "inserts (a_console_keys (t_api X)) (\<lambda>s. console_print s = coki_thumbprint (new_key_input uid parsed label now)) i k (a_console_keys (t_api U))"
    and U: "U = X\<lparr>t_api := (t_api X)\<lparr>a_console_keys := (a_console_keys (t_api X))(i \<mapsto> k)\<rparr>\<rparr>"
  shows "console_key_settled vaam parsed now T k U"
proof -
  have lives: "0 < days KEY_LIFETIME_DAYS" by (simp add: days_def KEY_LIFETIME_DAYS_def hours_def minutes_def secs_def)
  then have fields: "cok_id k = i" "coki_userId (cok_input k) = uid" "coki_thumbprint (cok_input k) = pk_thumbprint parsed"
    "console_print k = coki_thumbprint (new_key_input uid parsed label now)" "cok_revokedAt k = None"
    "coki_publicKey (cok_input k) = pk_bytes parsed" "coki_expiresAt (cok_input k) = now + days KEY_LIFETIME_DAYS"
    "now < coki_expiresAt (cok_input k)"
    by (simp_all add: k new_console_key_def new_key_input_def console_print_def)
  have same: "a_client_keys (t_api X) = a_client_keys (t_api T)" "a_console_keys (t_api X) = a_console_keys (t_api T)"
    using paired by (simp_all add: paired_with_def)
  show ?thesis
    using paired ins unfolding console_key_settled_def paired_with_def fields same
    by (auto simp: U fields(1) same lives)
qed

lemma alone_console_register_body:
  assumes "lawful answers" "alone answers T (console_register_body uuid vaam name parsed now) U (Inr k)"
  shows "console_key_settled vaam parsed now T k U"
  using assms(2) unfolding console_register_body_def
proof (rule alone_tryE)
  let ?find = "find_first (find_console_keys (\<lambda>k. coki_thumbprint (cok_input k) = pk_thumbprint parsed) (Some 1))"
  let ?put = "\<lambda>link existing. case existing of
      Some k \<Rightarrow> Ret (case link of
        None \<Rightarrow> Inl (Conflict (lit ''this public key is already registered to another user''))
      | Some l \<Rightarrow> console_same_registration k (fl_userId l) now)
    | None \<Rightarrow> try_prog (paired_user uuid vaam name link) (\<lambda>user_id. create_console_key (new_key_input user_id parsed None now))"
  fix V link
  assume "alone answers T (find_first (find_links (\<lambda>l. fl_issuer l = FEDERATION_ISSUER \<and> fl_subject l = vaam) (Some 1))) V (Inr link)"
    and go: "alone answers V (try_prog ?find (?put link)) U (Inr k)"
  then obtain ls where "alone answers T (find_links (\<lambda>l. fl_issuer l = FEDERATION_ISSUER \<and> fl_subject l = vaam) (Some 1)) V (Inr ls)"
    and ls: "link = (case ls of [] \<Rightarrow> None | r # _ \<Rightarrow> Some r)" by (elim alone_find_first)
  from alone_find_links [OF assms(1) this(1)] have V: "V = T"
    and sel: "selects (a_links (t_api T)) fl_id (\<lambda>l. fl_issuer l = FEDERATION_ISSUER \<and> fl_subject l = vaam) (Some 1) ls" by auto
  have link: "a_links (t_api T) (fl_id l) = Some l \<and> fl_issuer l = FEDERATION_ISSUER \<and> fl_subject l = vaam" if "link = Some l" for l
    using that ls selects_rows [OF sel, of l] by (auto split: list.splits)
  from go [unfolded V] show ?thesis
  proof (rule alone_tryE)
    fix W existing
    assume "alone answers T ?find W (Inr existing)" and last: "alone answers W (?put link existing) U (Inr k)"
    then obtain ks where "alone answers T (find_console_keys (\<lambda>k. coki_thumbprint (cok_input k) = pk_thumbprint parsed) (Some 1)) W (Inr ks)"
      and ks: "existing = (case ks of [] \<Rightarrow> None | r # _ \<Rightarrow> Some r)" by (elim alone_find_first)
    from alone_find_console_keys [OF assms(1) this(1)] have W: "W = T"
      and sel: "selects (a_console_keys (t_api T)) cok_id (\<lambda>k. coki_thumbprint (cok_input k) = pk_thumbprint parsed) (Some 1) ks" by auto
    show ?thesis
    proof (cases ks)
      case (Cons old rest)
      with last ks W obtain l where l: "link = Some l" and same: "console_same_registration old (fl_userId l) now = Inr k" "U = T"
        by (auto split: option.splits)
      with link [OF l] selects_rows [OF sel, of old] Cons show ?thesis
        unfolding console_key_settled_def by (auto simp: console_same_registration_def split: if_splits)
    next
      case Nil
      with last ks W have "alone answers T (try_prog (paired_user uuid vaam name link)
        (\<lambda>user_id. create_console_key (new_key_input user_id parsed None now))) U (Inr k)" by simp
      then show ?thesis
      proof (rule alone_tryE)
        fix X uid
        assume "alone answers T (paired_user uuid vaam name link) X (Inr uid)"
          and key: "alone answers X (create_console_key (new_key_input uid parsed None now)) U (Inr k)"
        then have paired: "paired_with vaam T uid X" using alone_paired_user [OF assms(1) _ link] by blast
        from alone_create_console_key [OF assms(1) key] show ?thesis
          by (auto intro: settled_new [OF paired])
      qed auto
    qed
  qed auto
qed auto

lemma settled_console_safe: "console_key_settled vaam parsed now T k U \<Longrightarrow> keys_safe T U"
  unfolding console_key_settled_def by (auto intro: keys_safe_new_console)

lemma created_console_safe:
  assumes "lawful answers" "alone answers T (create_console_key x) U r"
  shows "keys_safe T U" "r = Inl e \<Longrightarrow> U = T"
proof -
  note created = alone_create_console_key [OF assms]
  then show "r = Inl e \<Longrightarrow> U = T" by simp
  show "keys_safe T U"
  proof (cases r)
    case (Inr k)
    with created obtain i where "k = new_console_key i x"
      "inserts (a_console_keys (t_api T)) (\<lambda>s. console_print s = coki_thumbprint x) i k (a_console_keys (t_api U))"
      and U: "U = T\<lparr>t_api := (t_api T)\<lparr>a_console_keys := (a_console_keys (t_api T))(i \<mapsto> k)\<rparr>\<rparr>" by auto
    then have "inserts (a_console_keys (t_api T)) (\<lambda>s. console_print s = console_print k) i k (a_console_keys (t_api U))"
      by (simp add: console_print_def new_console_key_def)
    then show ?thesis by (rule keys_safe_new_console) (simp add: U)
  qed (use created in simp)
qed

lemma alone_pair_attempt:
  assumes "lawful answers" "alone answers T (pair_attempt found parsed label now) U r"
  shows "keys_safe T U \<and> (\<forall>e. r = Inl e \<longrightarrow> U = T)"
proof -
  let ?new = "create_console_key (new_key_input (usr_id found) parsed label now)"
  let ?put = "\<lambda>existing. case existing of
      Some k \<Rightarrow> Ret (map_sum id (\<lambda>key. (key, False)) (console_same_registration k (usr_id found) now))
    | None \<Rightarrow> try_prog ?new (\<lambda>created. Ret (Inr (created, True)))"
  let ?find = "find_first (find_console_keys (\<lambda>k. coki_thumbprint (cok_input k) = pk_thumbprint parsed) (Some 1))"
  have reads: "V = T" if "alone answers T ?find V x" for V x
    using that unfolding find_first_def by (rule alone_tryE) (use alone_find_console_keys [OF assms(1)] in auto)
  have creates: "keys_safe T U \<and> (\<forall>e. r = Inl e \<longrightarrow> U = T)"
    if "alone answers T (try_prog ?new (\<lambda>created. Ret (Inr (created, True)))) U r"
    using that by (rule alone_tryE) (use created_console_safe [OF assms(1)] in auto)
  from assms(2) obtain V x where "alone answers T ?find V x"
    and go: "alone answers V (case x of Inl e \<Rightarrow> Ret (Inl e) | Inr existing \<Rightarrow> ?put existing) U r"
    unfolding pair_attempt_def try_prog_def [of ?find] by auto
  with reads have "V = T" by blast
  with go creates show ?thesis by (cases x) (auto split: option.splits)
qed

subsection \<open>Any sequence of key operations\<close>

text \<open>One call of a procedure or command that writes keys, whatever its arguments and its outcome, and any number of them
  one after another.\<close>

inductive key_step :: "world \<Rightarrow> api_env \<Rightarrow> key_lib \<Rightarrow> (cratestack_error \<Rightarrow> ustring) \<Rightarrow> tables \<Rightarrow> tables \<Rightarrow> bool" for answers E L ts where
  step_provision: "solo answers None T (provision_client E L ts uuid pc) U r \<Longrightarrow> key_step answers E L ts T U"
| step_client: "solo answers None T (client_register L who rc) U r' \<Longrightarrow> key_step answers E L ts T U"
| step_client_revoke: "solo answers None T (client_revoke i) U r' \<Longrightarrow> key_step answers E L ts T U"
| step_console: "solo answers None T (register_console_key L uuids ctx rk) U k \<Longrightarrow> key_step answers E L ts T U"
| step_pair: "solo answers None T (pair_existing_user E L person key label now) U p \<Longrightarrow> key_step answers E L ts T U"
| step_console_revoke: "solo answers None T (console_revoke i) U k \<Longrightarrow> key_step answers E L ts T U"

definition key_history :: "world \<Rightarrow> api_env \<Rightarrow> key_lib \<Rightarrow> (cratestack_error \<Rightarrow> ustring) \<Rightarrow> tables \<Rightarrow> tables \<Rightarrow> bool" where
  "key_history answers E L ts = (key_step answers E L ts)\<^sup>*\<^sup>*"

lemma tx_free_bodies:
  "tx_free (client_register_body who cid parsed label)" "tx_free (client_revoke_body i)" "tx_free (console_revoke_body i)"
  "tx_free (provision_client_body client_id scopes parsed pc)" "tx_free (console_register_body uuid vaam name parsed now)"
  "tx_free (pair_attempt found parsed label now)"
  unfolding client_register_body_def client_revoke_body_def console_revoke_body_def provision_client_body_def pair_attempt_def
    console_register_body_def paired_user_def create_user_and_link_def
  by (auto intro!: tx_free_try tx_free_bind split: option.split)

lemma solo_try_ret:
  "solo answers None T (try_prog (Ret r) f) U y \<longleftrightarrow>
     (case r of Inl e \<Rightarrow> U = T \<and> y = Inl e | Inr x \<Rightarrow> solo answers None T (f x) U y)"
  by (auto simp: try_prog_def split: sum.split)

lemma register_console_solo:
  assumes "lawful answers" "solo answers None T (register_console_key L uuids ctx args) U r"
  obtains e where "r = Inl e" "U = T"
  | now parsed vaam uuid name k where "r = Inr k" "require_pair_scope ctx = Inr ()" "check_proof L args now = Inr parsed"
      "clean_vaam_user_id (rco_vaamUserId args) = Inr vaam" "alone answers T (console_register_body uuid vaam name parsed now) U (Inr k)"
proof (cases "require_pair_scope ctx")
  case (Inl e)
  with assms(2) that(1) show ?thesis by (simp add: register_console_key_def solo_try_ret)
next
  case (Inr u)
  with assms(2) obtain V now where "alone answers T utc_now V now" and go: "solo answers None V (console_register L uuids args now) U r"
    unfolding register_console_key_def by (auto simp: solo_try_ret solo_bind_free)
  with alone_utc_now [OF assms(1)] have V: "V = T" by blast
  show ?thesis
  proof (cases "check_proof L args now")
    case (Inl e)
    with go V that(1) show ?thesis by (simp add: console_register_def solo_try_ret)
  next
    case parsed: (Inr parsed)
    show ?thesis
    proof (cases "clean_vaam_user_id (rco_vaamUserId args)")
      case (Inl e)
      with go V that(1) parsed show ?thesis by (simp add: console_register_def solo_try_ret)
    next
      case vaam: (Inr vaam)
      show ?thesis
      proof (cases "display_name_for (rco_displayName args) vaam")
        case (Inl e)
        with go V that(1) parsed vaam show ?thesis by (simp add: console_register_def solo_try_ret)
      next
        case (Inr name)
        from go [unfolded V console_register_def, simplified parsed vaam Inr solo_try_ret sum.case]
        have "(\<exists>e. r = Inl e \<and> U = T) \<or> (\<exists>i x. r = Inr x \<and> alone answers T (console_register_body (uuids i) vaam name parsed now) U (Inr x))"
          by (rule solo_retry) (rule tx_free_bodies)
        with that \<open>require_pair_scope ctx = Inr u\<close> parsed vaam show ?thesis by auto
      qed
    qed
  qed
qed

lemma client_register_solo:
  assumes "solo answers None T (client_register L who args) U r"
  obtains e where "r = Inl e" "U = T"
  | parsed label k where "r = Inr k" "parse_public_key L (rck_publicKey args) = Inr parsed" "clean_label (rck_label args) = Inr label"
      "alone answers T (client_register_body who (rck_appClientId args) parsed label) U (Inr k)"
proof (cases "parse_public_key L (rck_publicKey args)")
  case (Inl e)
  with assms that(1) show ?thesis by (simp add: client_register_def solo_try_ret)
next
  case parsed: (Inr parsed)
  show ?thesis
  proof (cases "clean_label (rck_label args)")
    case (Inl e)
    with assms that(1) parsed show ?thesis by (simp add: client_register_def solo_try_ret)
  next
    case (Inr label)
    from assms [unfolded client_register_def, simplified parsed Inr solo_try_ret sum.case]
    have "(\<exists>e. r = Inl e \<and> U = T) \<or>
        (\<exists>(i :: nat) x. r = Inr x \<and> alone answers T (client_register_body who (rck_appClientId args) parsed label) U (Inr x))"
      by (rule solo_retry) (rule tx_free_bodies)
    with that parsed Inr show ?thesis by auto
  qed
qed

lemma provision_solo:
  assumes "lawful answers" "solo answers None T (provision_client E L ts uuid args) U r"
  obtains e where "r = Inl e" "U = T"
  | scopes parsed k where "pack (pci_scopes args) = Inr scopes" "\<not> names_pair_scope scopes" "parse_public_key L (pci_publicKey args) = Inr parsed"
      "alone answers T (provision_client_body (lit ''appc_'' @ uuid) scopes parsed args) U (Inr k)"
      "r = Inr \<lparr>pcr_clientId = lit ''appc_'' @ uuid, pcr_keyId = ck_id k, pcr_thumbprint = cki_thumbprint (ck_input k)\<rparr>"
proof -
  let ?find = "first_or (NotFound (lit ''no App with id '' @ pci_appId args)) (find_apps (\<lambda>a. app_id a = pci_appId args) (Some 1))"
  let ?tx = "\<lambda>scopes parsed. bind_prog (transaction (provision_client_body (lit ''appc_'' @ uuid) scopes parsed args)) (\<lambda>r.
    Ret (bind_res (map_err (map_database_error ts) r) (\<lambda>key.
      Inr \<lparr>pcr_clientId = lit ''appc_'' @ uuid, pcr_keyId = ck_id key, pcr_thumbprint = cki_thumbprint (ck_input key)\<rparr>)))"
  have free: "tx_free ?find" by simp
  consider e where "r = Inl e" "U = T"
    | scopes parsed where "pack (pci_scopes args) = Inr scopes" "\<not> names_pair_scope scopes" "parse_public_key L (pci_publicKey args) = Inr parsed"
      "solo answers None T (try_prog ?find (\<lambda>app. if \<not> app_active app then Ret (Inl (Validation (lit ''App '' @ app_id app @ lit '' is not active'')))
        else ?tx scopes parsed)) U r"
    using assms(2) unfolding provision_client_def Let_def solo_try_ret
    by (auto simp: map_err_def refuse_pair_scope_def split: sum.splits if_splits simp del: lit_Cons)
  then show ?thesis
  proof cases
    case (2 scopes parsed)
    from solo_tryE [OF 2(4) free] show ?thesis
    proof cases
      case (1 V e)
      with app_read.one_row [OF assms(1)] that(1) show ?thesis by auto
    next
      case app: (2 V app)
      with app_read.one_row [OF assms(1)] have V: "V = T" by blast
      show ?thesis
      proof (cases "app_active app")
        case True
        with app(2) V have "solo answers None T (?tx scopes parsed) U r" by simp
        then show ?thesis
        proof (rule solo_tx_retE [OF _ tx_free_bodies(4)])
          fix e
          assume "U = T" "r = bind_res (map_err (map_database_error ts) (Inl e)) (\<lambda>key.
            Inr \<lparr>pcr_clientId = lit ''appc_'' @ uuid, pcr_keyId = ck_id key, pcr_thumbprint = cki_thumbprint (ck_input key)\<rparr>)"
          then show ?thesis using that(1) by (simp add: map_err_def)
        next
          fix k
          assume "alone answers T (provision_client_body (lit ''appc_'' @ uuid) scopes parsed args) U (Inr k)"
            "r = bind_res (map_err (map_database_error ts) (Inr k)) (\<lambda>key.
            Inr \<lparr>pcr_clientId = lit ''appc_'' @ uuid, pcr_keyId = ck_id key, pcr_thumbprint = cki_thumbprint (ck_input key)\<rparr>)"
          then show ?thesis using that(2) [OF 2(1-3)] by (simp add: map_err_def del: lit_Cons)
        qed
      qed (use app V that(1) in auto)
    qed
  qed (use that(1) in auto)
qed

lemma solo_free: "tx_free p \<Longrightarrow> solo answers None T p U x \<longleftrightarrow> alone answers T p U x"
  using solo_bind_free [of p answers None T Ret U x] by (simp add: bind_Ret)

lemma tx_free_retry: "(\<And>i. tx_free (p i)) \<Longrightarrow> tx_free (with_retry n again p)"
  by (induction n) (auto intro!: tx_free_bind split: sum.split)

lemma pair_safe:
  assumes "lawful answers" "solo answers None T (pair_existing_user E L person key label now) U r"
  shows "keys_safe T U"
proof -
  let ?find = "first_or (NotFound (lit ''no active user matches '' @ ae_debug E person @ lit '' (by email or id)''))
    (find_users (\<lambda>u. (if 64 \<in> set person then usr_email u = trim person else usr_id u = trim person) \<and> usr_active u) (Some 1))"
  let ?again = "\<lambda>error. db_sqlstate error = Some UNIQUE_VIOLATION \<and> db_constraint error = Some CONSOLE_THUMBPRINT_CONSTRAINT"
  let ?attempt = "\<lambda>found parsed cleaned. with_retry 1 ?again (\<lambda>_. pair_attempt found parsed cleaned now)"
  have free: "tx_free ?find" by simp
  consider "U = T" | parsed cleaned where "solo answers None T (try_prog ?find (\<lambda>found. try_prog (?attempt found parsed cleaned)
      (\<lambda>(key, created). Ret (Inr (key, found, created))))) U r"
    using assms(2) unfolding pair_existing_user_def solo_try_ret by (auto split: sum.splits simp del: lit_Cons)
  then show ?thesis
  proof cases
    case (2 parsed cleaned)
    have reads: "V = T" if "alone answers T ?find V x" for V x
      by (rule first_or_reads [OF that]) (use alone_find_users [OF assms(1)] in blast)
    from solo_tryE [OF 2 free] show ?thesis
    proof cases
      case (1 V e)
      with reads [OF 1(1)] show ?thesis by simp
    next
      case (2 V found)
      with reads [OF 2(1)] have "solo answers None T (try_prog (?attempt found parsed cleaned) (\<lambda>(key, created). Ret (Inr (key, found, created)))) U r" by blast
      then obtain y where "alone answers T (?attempt found parsed cleaned) U y"
        by (rule solo_tryE [OF _ tx_free_retry [OF tx_free_bodies(6)]]) (auto simp del: with_retry.simps One_nat_def split: prod.splits)
      then have "(\<exists>e. y = Inl e \<and> U = T) \<or> (\<exists>(i :: nat) x. y = Inr x \<and> alone answers T (pair_attempt found parsed cleaned now) U (Inr x))"
        by (rule alone_retry) (use alone_pair_attempt [OF assms(1)] in blast)
      with alone_pair_attempt [OF assms(1)] show ?thesis by auto
    qed
  qed simp
qed

lemma key_step_safe: "lawful answers \<Longrightarrow> key_step answers E L ts T U \<Longrightarrow> keys_safe T U"
proof (erule key_step.cases; clarsimp)
  fix uuid pc r
  assume "lawful answers" "solo answers None T (provision_client E L ts uuid pc) U r"
  from this(2) show "keys_safe T U"
    by (rule provision_solo [OF \<open>lawful answers\<close>]) (simp_all add: provision_safe [OF \<open>lawful answers\<close>] del: lit_Cons)
next
  fix who rc r
  assume "lawful answers" "solo answers None T (client_register L who rc) U r"
  then show "keys_safe T U" by (elim client_register_solo) (auto dest: alone_client_register_body settled_client_safe)
next
  fix i r
  assume "lawful answers" "solo answers None T (client_revoke i) U r"
  then show "keys_safe T U"
    unfolding client_revoke_def by (elim solo_txE [OF _ tx_free_bodies(2)]) (auto dest: revokes_safe)
next
  fix uuids ctx rk k
  assume "lawful answers" "solo answers None T (register_console_key L uuids ctx rk) U k"
  from this(2) show "keys_safe T U"
    by (rule register_console_solo [OF \<open>lawful answers\<close>])
      (auto dest: settled_console_safe [OF alone_console_register_body [OF \<open>lawful answers\<close>]])
next
  fix person key label now a
  assume "lawful answers" "solo answers None T (pair_existing_user E L person key label now) U a"
  then show "keys_safe T U" by (rule pair_safe)
next
  fix i k
  assume "lawful answers" "solo answers None T (console_revoke i) U k"
  then show "keys_safe T U"
    unfolding console_revoke_def by (elim solo_txE [OF _ tx_free_bodies(3)]) (auto dest: revokes_safe)
qed

lemma key_history_safe:
  assumes "lawful answers" "key_history answers E L ts T U"
  shows "keys_safe T U"
  using assms(2) unfolding key_history_def
  by (induction rule: rtranclp_induct) (auto intro: keys_safe_trans key_step_safe [OF assms(1)])

subsection \<open>Properties\<close>

text \<open>C16: Registering a key for an application's client is safe. A successful call has checked the encoding and the length of
  the key; the client is stored, active and not retired, and when the call came over HTTP it does not hold the pairing
  scope. The key returned is stored, live, the client's, and has the thumbprint of the bytes sent. Either nothing was
  written, or the key is a new row under a thumbprint no key had and nothing else changed.\<close>

theorem client_key_registration:
  assumes "lawful answers" "solo answers None T (client_register L who args) U (Inr k)"
  shows "\<exists>parsed label. parse_public_key L (rck_publicKey args) = Inr parsed \<and> clean_label (rck_label args) = Inr label
    \<and> length (pk_bytes parsed) = 32 \<and> client_key_settled who (rck_appClientId args) parsed label T k U"
  using assms(2)
proof (rule client_register_solo)
  fix parsed label k'
  assume run: "Inr k = (Inr k' :: cratestack_error + client_key)" "parse_public_key L (rck_publicKey args) = Inr parsed"
    "clean_label (rck_label args) = Inr label"
    "alone answers T (client_register_body who (rck_appClientId args) parsed label) U (Inr k')"
  then have "length (pk_bytes parsed) = 32"
    by (auto simp: parse_public_key_def ED25519_PUBLIC_KEY_LEN_def bind_res_Inr_conv split: option.splits if_splits)
  with run alone_client_register_body [OF assms(1) run(4)] show ?thesis by auto
qed simp

text \<open>C15: Pairing a console. A successful call holds the pairing scope, is within five minutes of the server's clock and carries
  a signature that verifies under the key it registers, over the pairing message of that key and time. The key
  returned is stored, live, unexpired, has the thumbprint of the bytes sent and belongs to the person linked to the id
  given. If it is new, it lives thirty days, its person is active and not an owner, and a person made for it is an
  admin; nothing is written otherwise.\<close>

theorem console_pairing:
  assumes "lawful answers" "solo answers None T (register_console_key L uuids ctx args) U (Inr k)"
  shows "require_pair_scope ctx = Inr () \<and> (\<exists>now parsed sig. \<bar>now - rco_issuedAt args\<bar> \<le> secs 300
    \<and> kl_base64 L (trim (rco_possessionProof args)) = Some sig
    \<and> kl_verify L (pk_bytes parsed) (possession_message (rco_publicKey args) (timestamp_of (rco_issuedAt args))) sig
    \<and> kl_base64 L (trim (rco_publicKey args)) = Some (pk_bytes parsed) \<and> length (pk_bytes parsed) = 65 \<and> hd (pk_bytes parsed) = 4
    \<and> console_key_settled (rco_vaamUserId args) parsed now T k U)"
  using assms
proof (rule register_console_solo)
  fix now parsed vaam uuid name k'
  assume run: "Inr k = (Inr k' :: cratestack_error + console_key)" "require_pair_scope ctx = Inr ()" "check_proof L args now = Inr parsed"
    "clean_vaam_user_id (rco_vaamUserId args) = Inr vaam" "alone answers T (console_register_body uuid vaam name parsed now) U (Inr k')"
  from run(3) have parsed: "parse_console_key L (rco_publicKey args) = Inr parsed" and skew: "\<bar>now - rco_issuedAt args\<bar> \<le> secs 300"
    and proof_ok: "verify_possession L parsed (possession_message (rco_publicKey args) (timestamp_of (rco_issuedAt args))) (rco_possessionProof args) = Inr ()"
    by (auto simp: check_proof_def bind_res_Inr_conv PROOF_MAX_SKEW_SECS_def split: if_splits)
  from parsed have key: "kl_base64 L (trim (rco_publicKey args)) = Some (pk_bytes parsed)" "length (pk_bytes parsed) = 65" "hd (pk_bytes parsed) = 4"
    by (auto simp: parse_console_key_def P256_SEC1_LEN_def bind_res_Inr_conv split: option.splits if_splits)
  from proof_ok obtain sig where sig: "kl_base64 L (trim (rco_possessionProof args)) = Some sig"
    "kl_verify L (pk_bytes parsed) (possession_message (rco_publicKey args) (timestamp_of (rco_issuedAt args))) sig"
    by (auto simp: verify_possession_def split: option.splits if_splits)
  have "vaam = rco_vaamUserId args" using run(4) by (auto simp: clean_vaam_user_id_def split: if_splits)
  with alone_console_register_body [OF assms(1) run(5)] run(1,2) skew key sig show ?thesis by blast
qed simp

text \<open>C14: A revoked key signs nothing, ever. Once a key is revoked, then after any number of calls of the procedures and
  commands that write keys, with any arguments and outcomes, a request signed with it gets no standing. (No two keys
  share a thumbprint to begin with, and nobody else writes between the calls of one operation.)\<close>

theorem revoked_key_never_signs:
  assumes "lawful answers" "key_history answers E L ts T U"
    and "keys_distinct client_print (a_client_keys (t_api T))" "keys_distinct console_print (a_console_keys (t_api T))"
    and "(vs_alg signer = Ed25519 \<and> a_client_keys (t_api T) i = Some k \<and> ck_revokedAt k \<noteq> None \<and> client_print k = vs_thumbprint_hex signer)
      \<or> (vs_alg signer = Esp256 \<and> a_console_keys (t_api T) i = Some l \<and> cok_revokedAt l \<noteq> None \<and> console_print l = vs_thumbprint_hex signer)"
    and "dir_sound d" "alone lawful_answer U (standing_of d signer now) V (r, d')"
  shows "\<exists>e. r = Inl e"
proof (rule ccontr)
  assume "\<not> ?thesis"
  then obtain s where "r = Inr s" by (cases r) auto
  with alone_standing_of [OF assms(7,6)] have live: "live_signer U signer s" by blast
  from key_history_safe [OF assms(1,2)] assms(3,4) have safe:
    "keys_kept client_print ck_revokedAt (a_client_keys (t_api T)) (a_client_keys (t_api U))" "keys_distinct client_print (a_client_keys (t_api U))"
    "keys_kept console_print cok_revokedAt (a_console_keys (t_api T)) (a_console_keys (t_api U))" "keys_distinct console_print (a_console_keys (t_api U))"
    by (auto simp: keys_safe_def)
  show False
  proof (cases s)
    case (AppStanding a)
    with live obtain j l' where "vs_alg signer = Ed25519" "a_client_keys (t_api U) j = Some l'" "client_print l' = vs_thumbprint_hex signer" "ck_revokedAt l' = None"
      by (auto simp: live_signer_def client_print_def)
    with client_store.revoked_stays [OF safe(1,2)] assms(5) show False by (metis cose_alg.distinct(1))
  next
    case (UserStanding u)
    with live obtain j l' where "vs_alg signer = Esp256" "a_console_keys (t_api U) j = Some l'" "console_print l' = vs_thumbprint_hex signer" "cok_revokedAt l' = None"
      by (auto simp: live_signer_def console_print_def)
    with console_store.revoked_stays [OF safe(3,4)] assms(5) show False by (metis cose_alg.distinct(1))
  qed
qed

subsection \<open>Runs that satisfy the hypotheses\<close>

definition demo_key_lib :: key_lib where
  "demo_key_lib = \<lparr>kl_base64 = (\<lambda>s. if s = lit ''ed'' then Some (replicate 32 1) else if s = lit ''ec'' then Some (replicate 65 4) else Some [7]),
     kl_ed25519 = Inr, kl_p256 = Inr, kl_hex = (\<lambda>b. map unat (take 2 b)), kl_signature = (\<lambda>b. b = [7]), kl_verifying_key = (\<lambda>_. True),
     kl_verify = (\<lambda>key msg sig. sig = [7])\<rparr>"

definition demo_new_key :: register_client_key_input where
  "demo_new_key = \<lparr>rck_appClientId = lit ''ac1'', rck_publicKey = lit ''ed'', rck_label = None\<rparr>"

definition demo_registered :: client_key where
  "demo_registered = new_client_key (lit ''k2'') \<lparr>cki_appClientId = lit ''ac1'', cki_alg = ed25519, cki_publicKey = replicate 32 1,
     cki_thumbprint = [1, 1], cki_label = None\<rparr>"

lemma solo_retryI:
  assumes "alone answers T (p (Suc n)) U (Inr x)" "\<And>i. tx_free (p i)"
  shows "solo answers None T (with_retry (Suc n) again (\<lambda>i. transaction (p i))) U (Inr x)"
  unfolding with_retry.simps by (rule solo_transactionI [OF assms(1)]) (simp_all add: assms(2))

lemma demo_parsed: "parse_public_key demo_key_lib (lit ''ed'') = Inr \<lparr>pk_bytes = replicate 32 1, pk_thumbprint = [1, 1]\<rparr>"
proof -
  have "trim (lit ''ed'') = lit ''ed''" by (simp add: trim_def is_whitespace_def)
  then show ?thesis by (simp add: parse_public_key_def demo_key_lib_def ED25519_PUBLIC_KEY_LEN_def numeral_eq_Suc del: lit_Cons)
qed

lemma alone_find_firstI:
  "alone answers T p U (Inr rows) \<Longrightarrow> alone answers T (find_first p) U (Inr (case rows of [] \<Rightarrow> None | r # _ \<Rightarrow> Some r))"
  unfolding find_first_def by (rule alone_tryI, assumption) simp

lemma demo_registers:
  "\<exists>U. solo lawful_answer None demo_signer_tables (client_register demo_key_lib Caller demo_new_key) U (Inr demo_registered)"
proof -
  let ?T = demo_signer_tables
  let ?U = "?T\<lparr>t_api := (t_api ?T)\<lparr>a_client_keys := (a_client_keys (t_api ?T))(lit ''k2'' \<mapsto> demo_registered)\<rparr>\<rparr>"
  let ?x = "\<lparr>cki_appClientId = lit ''ac1'', cki_alg = ed25519, cki_publicKey = replicate 32 1, cki_thumbprint = [1, 1], cki_label = None\<rparr>"
  have scopes: "\<not> names_pair_scope (aci_scopes (ac_input demo_client))"
    by (simp add: demo_client_def names_pair_scope_def unpack_def split_whitespace_def is_whitespace_def eq_ignore_ascii_case_def PAIR_SCOPE_def)
  have client: "alone lawful_answer ?T (first_or e (find_app_clients (\<lambda>c. ac_id c = lit ''ac1'') (Some 1))) ?T (Inr demo_client)" for e
    by (rule alone_first_orI, rule alone_find_app_clientsI, rule selects_one) (simp_all add: demo_signer_rows del: lit_Cons)
  have fresh: "lit ''ab'' \<noteq> [1, 1]" by (simp add: lit_def)
  have none: "alone lawful_answer ?T (find_first (find_client_keys (\<lambda>k. cki_thumbprint (ck_input k) = [1, 1]) (Some 1))) ?T (Inr None)"
    by (rule alone_find_firstI [where rows = "[]", simplified], rule alone_find_client_keysI, rule selects_Nil)
      (use fresh in \<open>auto simp: demo_signer_rows split: if_splits simp del: lit_Cons One_nat_def\<close>)
  have put: "alone lawful_answer ?T (create_client_key ?x) ?U (Inr demo_registered)"
    unfolding create_client_key_def
    by (rule alone_apiI [where a = "ClientKeyRow (Inr demo_registered)" and A = "(t_api ?T)\<lparr>a_client_keys := (a_client_keys (t_api ?T))(lit ''k2'' \<mapsto> demo_registered)\<rparr>"])
      (use fresh in \<open>auto simp: lawful_api_def inserts_def demo_registered_def new_client_key_def demo_signer_rows lit_inject
        split: if_splits simp del: lit_Cons\<close>)
  have body: "alone lawful_answer ?T (client_register_body Caller (lit ''ac1'') \<lparr>pk_bytes = replicate 32 1, pk_thumbprint = [1, 1]\<rparr> None) ?U (Inr demo_registered)"
    unfolding client_register_body_def parsed_key.select_convs
    by (rule alone_tryI, rule client, simp only: demo_signer_rows(4,5) scopes not_True_eq_False if_False simp_thms,
        rule alone_tryI, rule none, unfold option.case, rule put)
  have "clean_label None = Inr None" by (simp add: clean_label_def)
  with solo_retryI [OF body tx_free_bodies(1), of 0] show ?thesis
    unfolding client_register_def demo_new_key_def register_client_key_input.select_convs demo_parsed
    by (intro exI [of _ ?U] solo_guardI) (simp add: solo_guardI)
qed

theorem client_key_registration_witness:
  "\<exists>U parsed label. parse_public_key demo_key_lib (rck_publicKey demo_new_key) = Inr parsed \<and> length (pk_bytes parsed) = 32
    \<and> client_key_settled Caller (lit ''ac1'') parsed label demo_signer_tables demo_registered U \<and> U \<noteq> demo_signer_tables"
proof -
  from demo_registers obtain U where run: "solo lawful_answer None demo_signer_tables
    (client_register demo_key_lib Caller demo_new_key) U (Inr demo_registered)" ..
  from client_key_registration [OF lawful_permissive run] obtain parsed label where
    parsed: "parse_public_key demo_key_lib (rck_publicKey demo_new_key) = Inr parsed" "length (pk_bytes parsed) = 32"
    and settled: "client_key_settled Caller (rck_appClientId demo_new_key) parsed label demo_signer_tables demo_registered U" by blast
  have "a_client_keys (t_api demo_signer_tables) (ck_id demo_registered) = None"
    by (simp add: demo_signer_rows demo_registered_def new_client_key_def lit_inject del: lit_Cons)
  with settled have "U \<noteq> demo_signer_tables" by (auto simp: client_key_settled_def)
  with parsed settled show ?thesis by (auto simp: demo_new_key_def simp del: lit_Cons)
qed

definition demo_pairer :: cs_context where
  "demo_pairer = context_for (AppStanding (demo_standing\<lparr>as_scopes := lit '' console:pair ''\<rparr>))"

definition demo_person :: user where
  "demo_person = \<lparr>usr_id = lit ''u1'', usr_subject = lit ''u1'', usr_email = lit ''p@vaam.invalid'', usr_displayName = lit ''p'',
     usr_roleKey = lit ''admin'', usr_active = True, usr_version = 1\<rparr>"

definition demo_link :: federated_link where
  "demo_link = \<lparr>fl_id = lit ''l1'', fl_issuer = lit ''vaam'', fl_subject = lit ''p'', fl_userId = lit ''u1''\<rparr>"

definition demo_people_tables :: tables where
  "demo_people_tables = demo_signer_tables\<lparr>t_api := no_api_rows\<lparr>a_users := [lit ''u1'' \<mapsto> demo_person], a_links := [lit ''l1'' \<mapsto> demo_link]\<rparr>\<rparr>"

definition demo_pairing :: register_console_key_input where
  "demo_pairing = \<lparr>rco_vaamUserId = lit ''p'', rco_displayName = None, rco_publicKey = lit ''ec'', rco_possessionProof = lit ''sig'', rco_issuedAt = 0\<rparr>"

definition demo_paired :: console_key where
  "demo_paired = new_console_key (lit ''ck1'') (new_key_input (lit ''u1'') \<lparr>pk_bytes = replicate 65 4, pk_thumbprint = [4, 4]\<rparr> None 5)"

lemma demo_people_rows:
  "a_users (t_api demo_people_tables) = [lit ''u1'' \<mapsto> demo_person]" "a_links (t_api demo_people_tables) = [lit ''l1'' \<mapsto> demo_link]"
  "a_console_keys (t_api demo_people_tables) = (\<lambda>_. None)" "usr_id demo_person = lit ''u1''" "usr_active demo_person" "usr_roleKey demo_person = lit ''admin''"
  "fl_id demo_link = lit ''l1''" "fl_issuer demo_link = lit ''vaam''" "fl_subject demo_link = lit ''p''" "fl_userId demo_link = lit ''u1''"
  by (simp_all add: demo_people_tables_def no_api_rows_def demo_person_def demo_link_def del: lit_Cons)

lemma replicate_two: "replicate 2 x = [x, x]"
  by (simp add: numeral_2_eq_2)

lemma demo_pairs:
  "\<exists>U. solo lawful_answer None demo_people_tables (register_console_key demo_key_lib (\<lambda>_. []) demo_pairer demo_pairing) U (Inr demo_paired)"
proof -
  let ?T = demo_people_tables and ?key = "\<lparr>pk_bytes = replicate 65 4, pk_thumbprint = [4, 4]\<rparr> :: parsed_key"
  let ?A = "(t_api ?T)\<lparr>a_console_keys := (a_console_keys (t_api ?T))(lit ''ck1'' \<mapsto> demo_paired)\<rparr>"
  have scope: "require_pair_scope demo_pairer = Inr ()"
    by (simp add: require_pair_scope_def demo_pairer_def context_for_def into_context_granting_def lit_inject PAIR_SCOPE_def del: lit_Cons)
      (simp add: contains_def unpack_def split_whitespace_def is_whitespace_def)
  have trims: "trim (lit ''ec'') = lit ''ec''" "trim (lit ''sig'') = lit ''sig''" by (simp_all add: trim_def is_whitespace_def)
  have "parse_console_key demo_key_lib (lit ''ec'') = Inr ?key"
    by (simp add: parse_console_key_def trims demo_key_lib_def P256_SEC1_LEN_def lit_inject replicate_two del: lit_Cons)
  moreover have "verify_possession demo_key_lib ?key msg (lit ''sig'') = Inr ()" for msg
    by (simp add: verify_possession_def trims demo_key_lib_def lit_inject del: lit_Cons)
  ultimately have checked: "check_proof demo_key_lib demo_pairing 5 = Inr ?key"
    by (simp add: check_proof_def demo_pairing_def PROOF_MAX_SKEW_SECS_def secs_def del: lit_Cons)
  have vaam: "clean_vaam_user_id (lit ''p'') = Inr (lit ''p'')"
    by (simp add: clean_vaam_user_id_def VAAM_USER_ID_MAX_CHARS_def)
  have fields: "rco_vaamUserId demo_pairing = lit ''p''" "rco_displayName demo_pairing = None" by (simp_all add: demo_pairing_def)
  have name: "display_name_for None (lit ''p'') = Inr (lit ''vaam p'')" by (simp add: display_name_for_def)
  have link: "alone lawful_answer ?T (find_first (find_links (\<lambda>l. fl_issuer l = FEDERATION_ISSUER \<and> fl_subject l = lit ''p'') (Some 1))) ?T (Inr (Some demo_link))"
    by (rule alone_find_firstI [where rows = "[demo_link]", unfolded list.case], rule alone_find_linksI, rule selects_one)
      (simp_all add: demo_people_rows FEDERATION_ISSUER_def del: lit_Cons)
  have none: "alone lawful_answer ?T (find_first (find_console_keys (\<lambda>k. coki_thumbprint (cok_input k) = [4, 4]) (Some 1))) ?T (Inr None)"
    by (rule alone_find_firstI [where rows = "[]", unfolded list.case], rule alone_find_console_keysI, rule selects_Nil) (simp_all add: demo_people_rows)
  have person: "alone lawful_answer ?T (first_or e (find_users (\<lambda>u. usr_id u = lit ''u1'' \<and> usr_active u) (Some 1))) ?T (Inr demo_person)" for e
    by (rule alone_first_orI, rule alone_find_usersI, rule selects_one) (simp_all add: demo_people_rows del: lit_Cons)
  have admin: "usr_roleKey demo_person \<noteq> OWNER_ROLE_KEY" by (simp add: demo_people_rows OWNER_ROLE_KEY_def lit_inject del: lit_Cons)
  have user: "alone lawful_answer ?T (paired_user [] (lit ''p'') (lit ''vaam p'') (Some demo_link)) ?T (Inr (lit ''u1''))"
    unfolding paired_user_def option.case demo_people_rows(10)
    by (rule alone_tryI, rule person, unfold if_not_P [OF admin] demo_people_rows(4)) (rule alone_ret)
  have put: "alone lawful_answer ?T (create_console_key (new_key_input (lit ''u1'') ?key None 5)) (?T\<lparr>t_api := ?A\<rparr>) (Inr demo_paired)"
    unfolding create_console_key_def
    by (rule alone_apiI [where a = "ConsoleKeyRow (Inr demo_paired)" and A = ?A])
      (auto simp: lawful_api_def inserts_def demo_paired_def demo_people_rows simp del: lit_Cons)
  have "alone lawful_answer ?T (console_register_body [] (lit ''p'') (lit ''vaam p'') ?key 5) (?T\<lparr>t_api := ?A\<rparr>) (Inr demo_paired)"
    unfolding console_register_body_def parsed_key.select_convs
    by (rule alone_tryI, rule link, rule alone_tryI, rule none, unfold option.case, rule alone_tryI, rule user, rule put)
  from solo_retryI [OF this tx_free_bodies(5), of 0] show ?thesis
    unfolding register_console_key_def scope console_register_def
    by (intro exI [of _ "?T\<lparr>t_api := ?A\<rparr>"] solo_guardI solo_nowI [where t = 5])
      (simp add: checked fields vaam name solo_try_ret del: lit_Cons with_retry.simps)
qed

theorem console_pairing_witness:
  "\<exists>U now parsed. \<bar>now - rco_issuedAt demo_pairing\<bar> \<le> secs 300 \<and> length (pk_bytes parsed) = 65
    \<and> console_key_settled (lit ''p'') parsed now demo_people_tables demo_paired U"
proof -
  from demo_pairs obtain U where run: "solo lawful_answer None demo_people_tables
    (register_console_key demo_key_lib (\<lambda>_. []) demo_pairer demo_pairing) U (Inr demo_paired)" ..
  from console_pairing [OF lawful_permissive run] show ?thesis by (auto simp: demo_pairing_def simp del: lit_Cons)
qed

definition demo_revoked :: client_key where
  "demo_revoked = demo_client_key\<lparr>ck_revokedAt := Some 3\<rparr>"

definition demo_revoked_tables :: tables where
  "demo_revoked_tables = demo_signer_tables\<lparr>t_api := (t_api demo_signer_tables)\<lparr>a_client_keys := [lit ''k1'' \<mapsto> demo_revoked]\<rparr>\<rparr>"

definition demo_signed :: verified_signer where
  "demo_signed = \<lparr>vs_thumbprint_hex = lit ''ab'', vs_alg = Ed25519\<rparr>"

theorem revoked_key_never_signs_witness:
  "key_history lawful_answer demo_api_env demo_key_lib (\<lambda>_. []) demo_revoked_tables demo_revoked_tables
   \<and> (\<exists>r d'. alone lawful_answer demo_revoked_tables (standing_of directory_new demo_signed 5) demo_revoked_tables (r, d') \<and> isl r)"
proof -
  let ?T = demo_revoked_tables
  have keys: "a_client_keys (t_api ?T) = [lit ''k1'' \<mapsto> demo_revoked]" "a_console_keys (t_api ?T) = (\<lambda>_. None)"
    "client_print demo_revoked = lit ''ab''" "ck_revokedAt demo_revoked = Some 3" "ck_id demo_revoked = lit ''k1''"
    by (simp_all add: demo_revoked_tables_def demo_revoked_def client_print_def demo_signer_rows del: lit_Cons)
      (simp_all add: demo_signer_tables_def no_api_rows_def demo_send_tables_def demo_tables_def)
  have "alone lawful_answer ?T (client_revoke_body (lit ''k1'')) ?T (Inr demo_revoked)"
    unfolding client_revoke_body_def
    by (rule alone_tryI, rule alone_first_orI, rule alone_find_client_keysI, rule selects_one [where r = demo_revoked])
      (simp_all add: keys del: lit_Cons)
  from solo_txI [OF this tx_free_bodies(2)] have "key_step lawful_answer demo_api_env demo_key_lib (\<lambda>_. []) ?T ?T"
    unfolding client_revoke_def [symmetric] by (rule step_client_revoke)
  then have history: "key_history lawful_answer demo_api_env demo_key_lib (\<lambda>_. []) ?T ?T"
    unfolding key_history_def by (rule r_into_rtranclp)
  have "alone lawful_answer ?T (live_client_key (lit ''ab'')) ?T (Inr None)"
    unfolding live_client_key_def
    by (rule alone_tryI, rule alone_find_client_keysI [where rows = "[]"], rule selects_Nil)
      (auto simp: keys split: if_splits simp del: lit_Cons)
  then have run: "alone lawful_answer ?T (standing_of directory_new demo_signed 5) ?T (Inl unknown, directory_new)"
    unfolding standing_of_def demo_signed_def verified_signer.select_convs cose_alg.case
    by (rule alone_try_dirI) simp
  have "\<exists>e. (Inl unknown :: cratestack_error + standing) = Inl e"
    by (rule revoked_key_never_signs [OF lawful_permissive history _ _ _ _ run, of "lit ''k1''" demo_revoked])
      (auto simp: keys keys_distinct_def demo_signed_def dir_sound_def directory_new_def ttl_cache_new_def split: if_splits simp del: lit_Cons)
  with history run show ?thesis by auto
qed

subsection \<open>Key operations beside the workers\<close>

lemma obeys_retry: "(\<And>i. obeys P (p i)) \<Longrightarrow> obeys P (with_retry n again p)"
  by (induction n) (auto intro!: obeys_bind split: sum.split)

lemma obeys_find_first: "obeys P p \<Longrightarrow> obeys P (find_first p)"
  unfolding find_first_def by (rule obeys_try) simp_all

lemma obeys_key_bodies:
  "obeys worker_rules (provision_client_body client_id scopes parsed pc)" "obeys worker_rules (client_register_body who cid parsed label)"
  "obeys worker_rules (client_revoke_body i)" "obeys worker_rules (console_revoke_body i)" "obeys worker_rules (pair_attempt found parsed label now)"
  unfolding provision_client_body_def client_register_body_def client_revoke_body_def console_revoke_body_def pair_attempt_def
  by (auto intro!: obeys_intros obeys_find_first split: option.split)

lemma obeys_console_body: "obeys worker_rules (console_register_body uuid vaam name parsed now)"
proof -
  have "obeys worker_rules (paired_user uuid vaam name link)" for link
    unfolding paired_user_def create_user_and_link_def by (auto intro!: obeys_intros split: option.split)
  then show ?thesis
    unfolding console_register_body_def by (auto intro!: obeys_intros obeys_find_first split: option.split)
qed

lemma obeys_key_operations:
  "obeys worker_rules (provision_client E L ts uuid pc)" "obeys worker_rules (client_register L who rc)" "obeys worker_rules (client_revoke i)"
  "obeys worker_rules (register_console_key L uuids ctx rk)" "obeys worker_rules (pair_existing_user E L person key label now)"
  "obeys worker_rules (console_revoke i)"
  unfolding provision_client_def client_register_def client_revoke_def register_console_key_def console_register_def
    pair_existing_user_def console_revoke_def Let_def
  by (auto intro!: obeys_intros obeys_transaction obeys_retry obeys_key_bodies obeys_console_body simp: split_beta simp del: with_retry.simps)

end
