(* ===== verification/Simulator.thy ===== *)
theory Simulator
  imports Operations Worker_Routing
begin

text \<open>
  \<^verbatim>\<open>backends/crates/sms-api/src/route_simulator.rs\<close> and the procedure \<^verbatim>\<open>simulate\<close>: which
  route would a text take, and why, without sending it. The module has its own copies of the worker's conversions and
  renders a decision of \<^verbatim>\<open>sms-routing\<close> for the wire. The theorems compare it with
  \<^verbatim>\<open>decide\<close> of the worker: they agree when no circuit is open, and disagree when one is.
\<close>

subsection \<open>Conversions\<close>

fun sim_convert_operator :: "schema_operator \<Rightarrow> operator_code" where
  "sim_convert_operator mtn = Mtn"
| "sim_convert_operator orange = Orange"
| "sim_convert_operator camtel = Camtel"
| "sim_convert_operator nexttel = Nexttel"
| "sim_convert_operator unknown_operator = UnknownOperator"

fun sim_convert_class :: "schema_class \<Rightarrow> message_class" where
  "sim_convert_class otp = Otp"
| "sim_convert_class transactional = Transactional"
| "sim_convert_class notification = Notification"
| "sim_convert_class marketing = Marketing"

fun operator_str :: "operator_code \<Rightarrow> ustring" where
  "operator_str Mtn = lit ''mtn''"
| "operator_str Orange = lit ''orange''"
| "operator_str Camtel = lit ''camtel''"
| "operator_str Nexttel = lit ''nexttel''"
| "operator_str UnknownOperator = lit ''unknown''"

fun class_str :: "message_class \<Rightarrow> ustring" where
  "class_str Otp = lit ''otp''"
| "class_str Transactional = lit ''transactional''"
| "class_str Notification = lit ''notification''"
| "class_str Marketing = lit ''marketing''"

definition sim_convert_route :: "route \<Rightarrow> route_row" where
  "sim_convert_route row = \<lparr>rt_id = route_id row, rt_name = route_name row, rt_priority = route_priority row,
     rt_weight = route_weight row, rt_enabled = route_enabled row,
     match_operator = map_option sim_convert_operator (route_matchOperator row),
     match_class = map_option sim_convert_class (route_matchClass row),
     match_app_id = route_matchAppId row, match_prefix = route_matchPrefix row,
     rt_provider_id = route_providerId row, rt_failover_route_id = route_failoverRouteId row\<rparr>"

definition sim_convert_provider :: "provider \<Rightarrow> provider_row" where
  "sim_convert_provider row =
     (let available = (prov_state row = Active);
          reason = (if \<not> available
            then Some (lit ''provider state is '' @ provider_state_debug (prov_state row) @ lit '', not active'') else None)
      in \<lparr>pr_id = prov_id row, pr_available = available, pr_reason = reason\<rparr>)"

text \<open>Collecting the pairs into a map, as in \<^verbatim>\<open>Worker_Routing\<close>.\<close>

definition sim_provider_map :: "provider list \<Rightarrow> ustring \<rightharpoonup> provider_row" where
  "sim_provider_map rows = map_of (rev (map (\<lambda>row. (prov_id row, sim_convert_provider row)) rows))"

definition fetch_routes_and_providers :: "(cratestack_error + (route_row list \<times> (ustring \<rightharpoonup> provider_row))) prog" where
  "fetch_routes_and_providers =
     try_prog (find_routes route_order) (\<lambda>routes.
       let provider_ids = remdups (map route_providerId routes)
       in try_prog
            (if provider_ids = [] then Ret (Inr [])
             else find_providers (\<lambda>p. prov_id p \<in> set provider_ids) [] None) (\<lambda>rows.
            Ret (Inr (map sim_convert_route routes, sim_provider_map rows))))"

subsection \<open>The decision on the wire\<close>

datatype route_outcome_kind = KExcluded | KDisabled | KPredicateFailed | KProviderUnavailable | KEligible

datatype predicate_kind = POperator | PClass | PAppId | PPrefix

record route_evaluation_info =
  re_routeId :: ustring
  re_routeName :: ustring
  re_priority :: int
  re_weight :: int
  re_providerId :: ustring
  re_outcome :: route_outcome_kind
  re_winningBand :: bool
  re_predicateKind :: "predicate_kind option"
  re_predicateExpected :: "ustring option"
  re_predicateActual :: "ustring option"
  re_unavailableReason :: "ustring option"

record tie_break_range_info =
  ri_routeId :: ustring
  ri_weight :: int
  ri_low :: f64
  ri_high :: f64

record tie_break_info =
  ti_priority :: int
  ti_draw :: f64
  ti_ranges :: "tie_break_range_info list"
  ti_winnerRouteId :: ustring

record route_winner_info =
  rw_routeId :: ustring
  rw_providerId :: ustring
  rw_failoverRouteId :: "ustring option"

record simulate_result =
  sim_operator :: schema_operator
  sim_msisdnNational :: ustring
  sim_noRoutesConfigured :: bool
  sim_evaluations :: "route_evaluation_info list"
  sim_tieBreak :: "tie_break_info option"
  sim_winner :: "route_winner_info option"

fun predicate_kind_of :: "predicate_failure \<Rightarrow> predicate_kind" where
  "predicate_kind_of (OperatorFailure e a) = POperator"
| "predicate_kind_of (ClassFailure e a) = PClass"
| "predicate_kind_of (AppIdFailure e a) = PAppId"
| "predicate_kind_of (PrefixFailure e a) = PPrefix"

fun predicate_expected_actual :: "predicate_failure \<Rightarrow> ustring \<times> ustring" where
  "predicate_expected_actual (OperatorFailure e a) = (operator_str e, operator_str a)"
| "predicate_expected_actual (ClassFailure e a) = (class_str e, class_str a)"
| "predicate_expected_actual (AppIdFailure e a) = (e, a)"
| "predicate_expected_actual (PrefixFailure e a) = (e, a)"

definition evaluation_to_wire :: "route_evaluation \<Rightarrow> route_evaluation_info" where
  "evaluation_to_wire ev =
     (let (kind, band, pk, expected, actual, reason) = (case ev_outcome ev of
        Excluded \<Rightarrow> (KExcluded, False, None, None, None, None)
      | Disabled \<Rightarrow> (KDisabled, False, None, None, None, None)
      | PredicateFailed f \<Rightarrow> (case predicate_expected_actual f of (e, a) \<Rightarrow>
          (KPredicateFailed, False, Some (predicate_kind_of f), Some e, Some a, None))
      | ProviderUnavailable r \<Rightarrow> (KProviderUnavailable, False, None, None, None, Some r)
      | Eligible b \<Rightarrow> (KEligible, b, None, None, None, None))
      in \<lparr>re_routeId = ev_route_id ev, re_routeName = ev_route_name ev, re_priority = ev_priority ev,
          re_weight = ev_weight ev, re_providerId = ev_provider_id ev, re_outcome = kind, re_winningBand = band,
          re_predicateKind = pk, re_predicateExpected = expected, re_predicateActual = actual,
          re_unavailableReason = reason\<rparr>)"

definition decision_to_wire :: "decision \<Rightarrow> schema_operator \<Rightarrow> ustring \<Rightarrow> bool \<Rightarrow> simulate_result" where
  "decision_to_wire d op msisdn_national no_routes_configured =
     \<lparr>sim_operator = op, sim_msisdnNational = msisdn_national, sim_noRoutesConfigured = no_routes_configured,
      sim_evaluations = map evaluation_to_wire (evaluations d),
      sim_tieBreak = map_option (\<lambda>tb. \<lparr>ti_priority = tb_priority tb, ti_draw = tb_draw tb,
        ti_ranges = map (\<lambda>range. \<lparr>ri_routeId = tr_route_id range, ri_weight = tr_weight range, ri_low = tr_low range,
          ri_high = tr_high range\<rparr>) (tb_ranges tb), ti_winnerRouteId = tb_winner_route_id tb\<rparr>) (dc_tie_break d),
      sim_winner = map_option (\<lambda>w. \<lparr>rw_routeId = wn_route_id w, rw_providerId = wn_provider_id w,
        rw_failoverRouteId = wn_failover_route_id w\<rparr>) (winner d)\<rparr>"

subsection \<open>simulate\<close>

record simulate_input =
  si_msisdn :: ustring
  si_class :: schema_class
  si_appId :: ustring
  si_draw :: "f64 option"

definition simulate ::
    "api_env \<Rightarrow> caches \<Rightarrow> cs_context \<Rightarrow> simulate_input \<Rightarrow> ((cratestack_error + simulate_result) \<times> caches) prog" where
  "simulate E st ctx args =
     try_dir (Ret (require_permission (ae_debug E) ctx (lit ''route:read''))) st (\<lambda>_.
     try_dir (Ret (valid_mobile E (si_msisdn args))) st (\<lambda>m.
     bind_prog (classify_operator st m) (\<lambda>(r, st1). try_dir (Ret r) st1 (\<lambda>op.
     try_dir fetch_routes_and_providers st1 (\<lambda>(routes, providers).
     bind_prog (case si_draw args of Some d \<Rightarrow> Ret d | None \<Rightarrow> random_f64) (\<lambda>draw.
     case select_route routes providers
            \<lparr>rc_operator = sim_convert_operator op, rc_class = sim_convert_class (si_class args),
             rc_app_id = si_appId args, rc_msisdn_national = national m\<rparr> {} draw of
       None \<Rightarrow> Panic
     | Some d \<Rightarrow> Ret (Inr (decision_to_wire d op (national m) (routes = [])), st1)))))))"

subsection \<open>The copies agree\<close>

lemma sim_conversions: "sim_convert_operator = convert_operator" "sim_convert_class = convert_class" "sim_convert_route = convert_route"
proof -
  show op: "sim_convert_operator = convert_operator"
  proof
    show "sim_convert_operator x = convert_operator x" for x by (cases x) simp_all
  qed
  show cl: "sim_convert_class = convert_class"
  proof
    show "sim_convert_class x = convert_class x" for x by (cases x) simp_all
  qed
  show "sim_convert_route = convert_route"
    by (rule ext) (simp add: sim_convert_route_def convert_route_def op cl)
qed

definition circuit_closed :: "instant \<Rightarrow> provider \<Rightarrow> bool" where
  "circuit_closed now p \<longleftrightarrow> (\<forall>until. prov_circuitOpenUntil p = Some until \<longrightarrow> until \<le> now)"

lemma sim_convert_closed: "circuit_closed now p \<Longrightarrow> sim_convert_provider p = convert_provider p now"
  by (auto simp: sim_convert_provider_def convert_provider_def circuit_closed_def Let_def split: option.split)

lemma sim_map_closed: "\<forall>p \<in> set rows. circuit_closed now p \<Longrightarrow> sim_provider_map rows = provider_map now rows"
  unfolding sim_provider_map_def provider_map_def
  by (rule arg_cong [where f = "\<lambda>xs. map_of (rev xs)"]) (simp add: sim_convert_closed)

subsection \<open>A simulation and a dispatch\<close>

text \<open>What a simulation reads and decides.\<close>

definition simulated ::
    "tables \<Rightarrow> simulate_input \<Rightarrow> schema_operator \<Rightarrow> ustring \<Rightarrow> route list \<Rightarrow> provider list \<Rightarrow> f64 \<Rightarrow> decision \<Rightarrow> bool" where
  "simulated T args op num routes rows draw d \<longleftrightarrow>
     in_order route_order routes \<and> (\<forall>y \<in> set routes. t_routes T (route_id y) = Some y)
     \<and> (if routes = [] then rows = []
        else \<forall>p \<in> set rows. prov_id p \<in> route_providerId ` set routes \<and> t_providers T (prov_id p) = Some p)
     \<and> (\<forall>x. si_draw args = Some x \<longrightarrow> draw = x)
     \<and> select_route (map convert_route routes) (sim_provider_map rows)
         \<lparr>rc_operator = convert_operator op, rc_class = convert_class (si_class args), rc_app_id = si_appId args,
          rc_msisdn_national = num\<rparr> {} draw = Some d"

lemma alone_find_routes:
  assumes "lawful answers" "alone answers T (find_routes ord) U (Inr rows)"
  shows "U = T \<and> in_order ord rows \<and> (\<forall>y \<in> set rows. t_routes T (route_id y) = Some y)"
  using assms unfolding find_routes_def
  by (rule alone_lawful) (auto simp: lawful_answer_def split: response.splits)

lemma alone_found_providers:
  assumes "lawful answers" "alone answers T (find_providers f ord l) U (Inr rows)"
  shows "U = T \<and> (\<forall>p \<in> set rows. f p \<and> t_providers T (prov_id p) = Some p)"
  using assms unfolding find_providers_def
  by (rule alone_lawful) (auto simp: lawful_answer_def split: response.splits)

lemma alone_fetch:
  assumes "alone lawful_answer T fetch_routes_and_providers U (Inr (rs, ps))"
  shows "U = T \<and> (\<exists>routes rows. rs = map convert_route routes \<and> ps = sim_provider_map rows \<and> in_order route_order routes
    \<and> (\<forall>y \<in> set routes. t_routes T (route_id y) = Some y)
    \<and> (if routes = [] then rows = []
       else \<forall>p \<in> set rows. prov_id p \<in> route_providerId ` set routes \<and> t_providers T (prov_id p) = Some p))"
  using assms unfolding fetch_routes_and_providers_def
proof (rule alone_tryE)
  fix V routes
  assume read: "alone lawful_answer T (find_routes route_order) V (Inr routes)"
    and go: "alone lawful_answer V (let provider_ids = remdups (map route_providerId routes)
       in try_prog (if provider_ids = [] then Ret (Inr []) else find_providers (\<lambda>p. prov_id p \<in> set provider_ids) [] None)
            (\<lambda>rows. Ret (Inr (map sim_convert_route routes, sim_provider_map rows)))) U (Inr (rs, ps))"
  note routes = alone_find_routes [OF lawful_self read]
  show ?thesis
  proof (cases "routes = []")
    case True
    with go routes show ?thesis by (auto simp: sim_conversions try_prog_def)
  next
    case False
    then have ne: "remdups (map route_providerId routes) \<noteq> []" by simp
    from go [unfolded Let_def if_not_P [OF ne]] show ?thesis
    proof (rule alone_tryE)
      fix W rows
      assume "alone lawful_answer V (find_providers (\<lambda>p. prov_id p \<in> set (remdups (map route_providerId routes))) [] None) W (Inr rows)"
        and "alone lawful_answer W (Ret (Inr (map sim_convert_route routes, sim_provider_map rows))) U (Inr (rs, ps))"
      with alone_found_providers [OF lawful_self] routes False show ?thesis
        by (intro conjI exI [of _ routes] exI [of _ rows]) (fastforce simp: sim_conversions)+
    qed auto
  qed
qed auto

lemma alone_random: "alone lawful_answer T random_f64 U x \<Longrightarrow> U = T"
  unfolding random_f64_def by (rule alone_lawful [OF lawful_self]) (auto simp: lawful_answer_def split: response.splits)

lemma alone_try_dir_InrE:
  assumes "alone answers T (try_dir p d f) U (Inr y, d')"
  obtains V x where "alone answers T p V (Inr x)" "alone answers V (f x) U (Inr y, d')"
  using assms that by (rule alone_try_dirE) simp_all

lemma alone_try_dir_retE:
  assumes "alone answers T (try_dir (Ret r) d f) U (Inr y, d')"
  obtains x where "r = Inr x" "alone answers T (f x) U (Inr y, d')"
  using assms that by (cases r) (simp_all add: try_dir_def)

lemma alone_simulate:
  assumes "alone lawful_answer T (simulate E st ctx args) U (Inr res, st')"
  shows "\<exists>m op routes rows draw d. U = T \<and> require_permission (ae_debug E) ctx (lit ''route:read'') = Inr ()
    \<and> valid_mobile E (si_msisdn args) = Inr m \<and> simulated T args op (national m) routes rows draw d
    \<and> res = decision_to_wire d op (national m) (routes = [])"
proof -
  let ?rc = "\<lambda>op m. \<lparr>rc_operator = sim_convert_operator op, rc_class = sim_convert_class (si_class args),
    rc_app_id = si_appId args, rc_msisdn_national = national m\<rparr>"
  let ?say = "\<lambda>m st1 op routes providers draw. case select_route routes providers (?rc op m) {} draw of
    None \<Rightarrow> Panic | Some d \<Rightarrow> Ret (Inr (decision_to_wire d op (national m) (routes = [])) :: cratestack_error + simulate_result, st1)"
  let ?decide = "\<lambda>m st1 op (routes, providers). bind_prog (case si_draw args of Some d \<Rightarrow> Ret d | None \<Rightarrow> random_f64)
    (?say m st1 op routes providers)"
  let ?fetch = "\<lambda>m st1 op. try_dir fetch_routes_and_providers st1 (?decide m st1 op)"
  let ?valid = "\<lambda>_ :: unit. try_dir (Ret (valid_mobile E (si_msisdn args))) st (\<lambda>m.
    bind_prog (classify_operator st m) (\<lambda>(r, st1). try_dir (Ret r) st1 (?fetch m st1)))"
  obtain perm: "require_permission (ae_debug E) ctx (lit ''route:read'') = Inr ()"
    and go: "alone lawful_answer T (?valid ()) U (Inr res :: cratestack_error + simulate_result, st')"
    using assms unfolding simulate_def by (rule alone_try_dir_retE) simp
  from go obtain m where m: "valid_mobile E (si_msisdn args) = Inr m"
    and go: "alone lawful_answer T (bind_prog (classify_operator st m) (\<lambda>(r, st1). try_dir (Ret r) st1 (?fetch m st1))) U (Inr res :: cratestack_error + simulate_result, st')"
    by (rule alone_try_dir_retE)
  from go obtain V r st1 where hint: "alone lawful_answer T (classify_operator st m) V (r, st1)"
    and go: "alone lawful_answer V (try_dir (Ret r) st1 (?fetch m st1)) U (Inr res :: cratestack_error + simulate_result, st')" by auto
  from go obtain op where go: "alone lawful_answer V (?fetch m st1 op) U (Inr res :: cratestack_error + simulate_result, st')"
    by (rule alone_try_dir_retE)
  from go obtain W y where "alone lawful_answer V fetch_routes_and_providers W (Inr y)"
    and "alone lawful_answer W (?decide m st1 op y) U (Inr res :: cratestack_error + simulate_result, st')"
    by (rule alone_try_dir_InrE)
  moreover obtain rs ps where "y = (rs, ps)" by (cases y)
  ultimately have fetched: "alone lawful_answer V fetch_routes_and_providers W (Inr (rs, ps))"
    and go: "alone lawful_answer W (?decide m st1 op (rs, ps)) U (Inr res :: cratestack_error + simulate_result, st')" by (simp_all only:)
  have V: "V = T" by (rule alone_classify [OF hint])
  from alone_fetch [OF fetched] V obtain routes rows where W: "W = T" and rs: "rs = map convert_route routes" "ps = sim_provider_map rows"
    and read: "in_order route_order routes" "\<forall>y \<in> set routes. t_routes T (route_id y) = Some y"
      "if routes = [] then rows = []
       else \<forall>p \<in> set rows. prov_id p \<in> route_providerId ` set routes \<and> t_providers T (prov_id p) = Some p" by blast
  from go obtain X draw where draw: "alone lawful_answer W (case si_draw args of Some d \<Rightarrow> Ret d | None \<Rightarrow> random_f64) X draw"
    and last: "alone lawful_answer X (?say m st1 op rs ps draw) U (Inr res, st')" by auto
  from draw have X: "X = T" "\<forall>x. si_draw args = Some x \<longrightarrow> draw = x"
    using W alone_random by (auto split: option.splits)
  from last obtain d where d: "select_route rs ps (?rc op m) {} draw = Some d" "U = T"
    "res = decision_to_wire d op (national m) (rs = [])" using X(1) by (auto split: option.splits)
  have "simulated T args op (national m) routes rows draw d"
    using read X(2) d(1) unfolding simulated_def rs sim_conversions by blast
  then show ?thesis
    by (intro exI conjI) (use perm m d(2,3) rs(1) in \<open>simp_all del: lit_Cons\<close>)
qed

text \<open>A world in which the clock shows one time.\<close>

definition clocked :: "instant \<Rightarrow> world \<Rightarrow> world" where
  "clocked now answers = (\<lambda>T req r T'. answers T req r T' \<and> (req = ReqNow \<longrightarrow> r = Time now))"

lemma clocked_answers: "lawful_answer T req r T' \<Longrightarrow> req \<noteq> ReqNow \<Longrightarrow> clocked now lawful_answer T req r T'"
  by (simp add: clocked_def)

lemma clocked_nowI: "alone (clocked now lawful_answer) T utc_now T now"
  unfolding utc_now_def by (rule alone_call [where r = "Time now" and T' = T]) (simp_all add: clocked_def lawful_answer_def)

text \<open>The rows of a simulation are rows a dispatch can read.\<close>

lemma decide_same_rows:
  assumes sim: "simulated T args op num routes rows draw d" and closed: "\<forall>p \<in> set rows. circuit_closed now p"
    and c: "cand_operator c = op" "cand_class c = si_class args" "cand_app_id c = si_appId args"
      "msisdn_national_of L (cand_msisdn c) = num"
  shows "alone (clocked now lawful_answer) T (decide L c {}) T (Inr d)"
proof -
  let ?ids = "remdups (map route_providerId routes)"
  have routes: "alone (clocked now lawful_answer) T (find_routes route_order) T (Inr routes)"
    unfolding find_routes_def
    by (rule alone_call [where r = "Routes (Inr routes)" and T' = T])
      (use sim in \<open>simp_all add: clocked_def lawful_answer_def simulated_def\<close>)
  have provs: "alone (clocked now lawful_answer) T (if ?ids = [] then Ret (Inr [])
      else find_providers (\<lambda>p. prov_id p \<in> set ?ids) [] None) T (Inr rows)"
  proof (cases "routes = []")
    case True
    with sim show ?thesis by (simp add: simulated_def)
  next
    case False
    then have ids: "?ids \<noteq> []" by simp
    show ?thesis
      unfolding if_not_P [OF ids] find_providers_def
      by (rule alone_call [where r = "Providers (Inr rows)" and T' = T])
        (use sim False in \<open>auto simp: clocked_def lawful_answer_def simulated_def in_limit_def\<close>)
  qed
  have draws: "alone (clocked now lawful_answer) T random_f64 T draw"
    unfolding random_f64_def
    by (rule alone_call [where r = "Draw draw" and T' = T]) (simp_all add: clocked_def lawful_answer_def)
  have "select_route (map convert_route routes) (provider_map now rows)
      \<lparr>rc_operator = convert_operator (cand_operator c), rc_class = convert_class (cand_class c),
       rc_app_id = cand_app_id c, rc_msisdn_national = msisdn_national_of L (cand_msisdn c)\<rparr> {} draw = Some d"
    using sim c sim_map_closed [OF closed] by (simp add: simulated_def)
  then show ?thesis
    unfolding decide_def Let_def
    by (intro alone_tryI [OF routes] alone_bindI [OF clocked_nowI] alone_tryI [OF provs] alone_bindI [OF draws]) simp
qed

lemma select_route_covers: "select_route routes providers c exclude draw = Some d \<Longrightarrow> length (evaluations d) = length routes"
  using select_route_cases [of routes providers c exclude draw] by (auto simp: marked_def)

text \<open>C17: What the simulator shows is what a dispatch can decide. While no circuit is open, a simulation of a text changes
  nothing and its result, with every evaluation, the draw and the winner, is the rendering of a decision the worker's
  \<^verbatim>\<open>decide\<close> can reach at that time for a message of the same class, application, operator and number.\<close>

theorem simulate_replays_dispatch:
  assumes "alone lawful_answer T (simulate E st ctx args) U (Inr res, st')"
    and "\<forall>i p. t_providers T i = Some p \<longrightarrow> circuit_closed now p"
    and "cand_operator c = sim_operator res" "cand_class c = si_class args" "cand_app_id c = si_appId args"
      "msisdn_national_of L (cand_msisdn c) = sim_msisdnNational res"
  shows "U = T \<and> (\<exists>d. alone (clocked now lawful_answer) T (decide L c {}) T (Inr d)
    \<and> res = decision_to_wire d (cand_operator c) (msisdn_national_of L (cand_msisdn c)) (evaluations d = []))"
proof -
  from alone_simulate [OF assms(1)] obtain m op routes rows draw d where U: "U = T"
    and sim: "simulated T args op (national m) routes rows draw d"
    and res: "res = decision_to_wire d op (national m) (routes = [])" by blast
  have c: "cand_operator c = op" "msisdn_national_of L (cand_msisdn c) = national m"
    using assms(3,6) res by (simp_all add: decision_to_wire_def)
  have closed: "\<forall>p \<in> set rows. circuit_closed now p"
    using sim assms(2) unfolding simulated_def by (metis empty_iff list.set(1))
  have "routes = [] \<longleftrightarrow> evaluations d = []"
    using sim select_route_covers unfolding simulated_def by (metis length_0_conv length_map)
  with decide_same_rows [OF sim closed c(1) assms(4,5) c(2)] U res c show ?thesis by auto
qed

lemma sim_map_Some: "sim_provider_map rows i = Some pr \<Longrightarrow> \<exists>p \<in> set rows. prov_id p = i \<and> pr = sim_convert_provider p"
  by (auto simp: sim_provider_map_def dest!: map_of_SomeD)

lemma lawful_clocked: "lawful (clocked now lawful_answer)"
  by (simp add: lawful_def clocked_def)

lemma clocked_now: "alone (clocked now lawful_answer) T utc_now U t \<Longrightarrow> U = T \<and> t = now"
  unfolding utc_now_def alone_Call clocked_def by (auto simp: lawful_answer_def)

lemma alone_decide:
  assumes "alone (clocked now lawful_answer) T (decide L c exclude) U (Inr d)" "winner d = Some w"
  shows "\<exists>p. t_providers T (wn_provider_id w) = Some p \<and> usable now p"
  using assms(1) unfolding decide_def Let_def
proof (rule alone_tryE)
  let ?rc = "\<lparr>rc_operator = convert_operator (cand_operator c), rc_class = convert_class (cand_class c),
    rc_app_id = cand_app_id c, rc_msisdn_national = msisdn_national_of L (cand_msisdn c)\<rparr>"
  let ?say = "\<lambda>routes now rows draw. case select_route (map convert_route routes) (provider_map now rows) ?rc exclude draw of
    None \<Rightarrow> Panic | Some d \<Rightarrow> Ret (Inr d :: cratestack_error + decision)"
  let ?ask = "\<lambda>routes. if remdups (map route_providerId routes) = [] then Ret (Inr [])
    else find_providers (\<lambda>p. prov_id p \<in> set (remdups (map route_providerId routes))) [] None"
  fix V routes
  assume read: "alone (clocked now lawful_answer) T (find_routes route_order) V (Inr routes)"
    and go: "alone (clocked now lawful_answer) V (bind_prog utc_now (\<lambda>now. try_prog (?ask routes)
      (\<lambda>rows. bind_prog random_f64 (?say routes now rows)))) U (Inr d)"
  have V: "V = T" using alone_find_routes [OF lawful_clocked read] by blast
  from go obtain W t where "alone (clocked now lawful_answer) V utc_now W t"
    and go: "alone (clocked now lawful_answer) W (try_prog (?ask routes) (\<lambda>rows. bind_prog random_f64 (?say routes t rows))) U (Inr d)"
    by auto
  with clocked_now V have W: "W = T" "t = now" by blast+
  from go show ?thesis
  proof (rule alone_tryE)
    fix X rows
    assume rows: "alone (clocked now lawful_answer) W (?ask routes) X (Inr rows)"
      and last: "alone (clocked now lawful_answer) X (bind_prog random_f64 (?say routes t rows)) U (Inr d)"
    from last obtain draw where d: "select_route (map convert_route routes) (provider_map now rows) ?rc exclude draw = Some d"
      unfolding W by (auto split: option.splits)
    from rows W have "\<forall>p \<in> set rows. t_providers T (prov_id p) = Some p"
      using alone_found_providers [OF lawful_clocked] by (auto split: if_splits)
    with select_winner [OF d assms(2)] show ?thesis by metis
  qed auto
qed auto

lemma chosen_eligible:
  assumes "select_route routes providers rc exclude draw = Some d" "winner d = Some w"
  shows "\<exists>r \<in> set routes. eligible providers rc exclude r \<and> wn_route_id w = rt_id r \<and> wn_provider_id w = rt_provider_id r"
  using select_route_cases [of routes providers rc exclude draw] assms by (auto simp: band_of_def)


subsection \<open>Two routes, the better one behind a circuit\<close>

definition demo_route1 :: route where
  "demo_route1 = \<lparr>route_id = lit ''r1'', route_name = lit ''first'', route_priority = 10, route_weight = 1, route_enabled = True,
     route_matchOperator = None, route_matchClass = None, route_matchAppId = None, route_matchPrefix = None,
     route_providerId = lit ''p1'', route_failoverRouteId = None\<rparr>"

definition demo_route2 :: route where
  "demo_route2 = demo_route1\<lparr>route_id := lit ''r2'', route_name := lit ''second'', route_priority := 5, route_providerId := lit ''p2''\<rparr>"

definition demo_open :: provider where
  "demo_open = \<lparr>prov_id = lit ''p1'', prov_key = lit ''orange'', prov_state = Active, prov_consecutiveFailures = 5,
     prov_circuitOpenUntil = Some 9, prov_costPerSegmentXaf = (25, 0), prov_version = 1\<rparr>"

definition demo_closed :: provider where
  "demo_closed = demo_open\<lparr>prov_id := lit ''p2'', prov_key := lit ''mtn'', prov_consecutiveFailures := 0, prov_circuitOpenUntil := None\<rparr>"

definition demo_view_tables :: tables where
  "demo_view_tables = demo_send_tables\<lparr>t_routes := [lit ''r1'' \<mapsto> demo_route1, lit ''r2'' \<mapsto> demo_route2],
     t_providers := [lit ''p1'' \<mapsto> demo_open, lit ''p2'' \<mapsto> demo_closed]\<rparr>"

definition demo_planner :: cs_context where
  "demo_planner = context_for (AppStanding (demo_standing\<lparr>as_scopes := lit '' route:read ''\<rparr>))"

definition demo_question :: simulate_input where
  "demo_question = \<lparr>si_msisdn = sm_to demo_send, si_class = otp, si_appId = lit ''a1'', si_draw = None\<rparr>"

definition demo_asked :: candidate where
  "demo_asked = \<lparr>cand_operator = unknown_operator, cand_class = otp, cand_app_id = lit ''a1'', cand_msisdn = sm_to demo_send,
     cand_message_id = lit ''m9''\<rparr>"

lemma demo_select:
  assumes "ps (lit ''p1'') = Some pr1" "ps (lit ''p2'') = Some pr2" "pr_available pr2"
    and "select_route (map convert_route [demo_route1, demo_route2]) ps rc {} draw = Some d"
  shows "winner d = Some (if pr_available pr1
    then \<lparr>wn_route_id = lit ''r1'', wn_provider_id = lit ''p1'', wn_failover_route_id = None\<rparr>
    else \<lparr>wn_route_id = lit ''r2'', wn_provider_id = lit ''p2'', wn_failover_route_id = None\<rparr>)"
proof -
  let ?rs = "map convert_route [demo_route1, demo_route2]"
  have el: "eligible ps rc {} (convert_route demo_route1) \<longleftrightarrow> pr_available pr1" "eligible ps rc {} (convert_route demo_route2)"
    using assms(1-3) by (simp_all add: eligible_def predicates_match_def convert_route_def demo_route1_def demo_route2_def del: lit_Cons)
  have prio: "rt_priority (convert_route demo_route1) = 10" "rt_priority (convert_route demo_route2) = 5"
    by (simp_all add: convert_route_def demo_route1_def demo_route2_def del: lit_Cons)
  have max: "max_opt (map rt_priority (filter (eligible ps rc {}) ?rs)) = Some (if pr_available pr1 then 10 else 5)"
    by (simp add: el prio)
  from select_route_cases [of ?rs ps rc "{}" draw] assms(4) obtain r where
    r: "r \<in> set (band_of ps rc {} (if pr_available pr1 then 10 else 5) ?rs)"
    and w: "winner d = Some \<lparr>wn_route_id = rt_id r, wn_provider_id = rt_provider_id r, wn_failover_route_id = rt_failover_route_id r\<rparr>"
    unfolding max using el by (auto simp del: list.map simp add: filter_empty_conv)
  from r have "r = convert_route (if pr_available pr1 then demo_route1 else demo_route2)"
    by (auto simp: band_of_def el prio split: if_splits)
  with w show ?thesis by (simp add: convert_route_def demo_route1_def demo_route2_def del: lit_Cons)
qed

lemma demo_planner_may: "require_permission d demo_planner (lit ''route:read'') = Inr ()"
proof -
  have "context_scope demo_planner = Some (lit '' route:read '')"
    by (simp add: context_scope_def demo_planner_def context_for_def into_context_granting_def lit_inject del: lit_Cons)
  moreover have "contains (lit '' route:read '') (lit ''route:read'')"
    by (simp add: contains_def unpack_def split_whitespace_def is_whitespace_def)
  ultimately show ?thesis by (simp add: require_permission_def holds_def del: lit_Cons)
qed

lemma demo_hint:
  "\<exists>st. alone lawful_answer demo_view_tables (classify_operator procedures_new demo_number) demo_view_tables (Inr unknown_operator, st)"
proof -
  have "a_prefix_rules (t_api demo_view_tables) = (\<lambda>_. None)"
    by (simp add: demo_view_tables_def demo_send_rows)
  then have fetch: "alone lawful_answer demo_view_tables (fetch_operators ()) demo_view_tables (Inr (prefix_table_new []))"
    unfolding fetch_operators_def
    by (intro alone_tryI [OF alone_find_prefix_rulesI [where rows = "[]"]])
      (simp_all add: selects_def in_limit_def below_limit_def)
  have miss: "tc_entries (ca_operators procedures_new) () = None" by (simp add: procedures_new_def ttl_cache_new_def)
  let ?c = "(ca_operators procedures_new)\<lparr>tc_entries := (tc_entries (ca_operators procedures_new))(() \<mapsto> (prefix_table_new [], 5))\<rparr>"
  have "alone lawful_answer demo_view_tables (operator_table procedures_new) demo_view_tables
      (Inr (prefix_table_new []), procedures_new\<lparr>ca_operators := ?c\<rparr>)"
    unfolding operator_table_def by (rule alone_bindI, rule alone_missI, rule miss, rule fetch) simp
  then have "alone lawful_answer demo_view_tables (classify_operator procedures_new demo_number) demo_view_tables
      (Inr unknown_operator, procedures_new\<lparr>ca_operators := ?c\<rparr>)"
    unfolding classify_operator_def
    by (rule alone_bindI) (simp add: lookup_operator_def lookup_national_def prefix_table_new_def split: if_splits option.splits)
  then show ?thesis ..
qed

lemma demo_view_rows:
  "t_routes demo_view_tables = [lit ''r1'' \<mapsto> demo_route1, lit ''r2'' \<mapsto> demo_route2]"
  "t_providers demo_view_tables = [lit ''p1'' \<mapsto> demo_open, lit ''p2'' \<mapsto> demo_closed]"
  "route_id demo_route1 = lit ''r1''" "route_id demo_route2 = lit ''r2''"
  "route_providerId demo_route1 = lit ''p1''" "route_providerId demo_route2 = lit ''p2''"
  "prov_id demo_open = lit ''p1''" "prov_id demo_closed = lit ''p2''"
  by (simp_all add: demo_view_tables_def demo_route1_def demo_route2_def demo_open_def demo_closed_def del: lit_Cons)

lemma demo_in_order: "in_order route_order [demo_route1, demo_route2]"
  by (simp add: route_order_def demo_route1_def demo_route2_def del: lit_Cons)

lemma demo_fetched:
  "alone lawful_answer demo_view_tables fetch_routes_and_providers demo_view_tables
     (Inr (map convert_route [demo_route1, demo_route2], sim_provider_map [demo_open, demo_closed]))"
proof -
  let ?T = demo_view_tables and ?rs = "[demo_route1, demo_route2]" and ?ps = "[demo_open, demo_closed]"
  have routes: "alone lawful_answer ?T (find_routes route_order) ?T (Inr ?rs)"
    unfolding find_routes_def
    by (rule alone_call [where r = "Routes (Inr ?rs)" and T' = ?T])
      (auto simp: lawful_answer_def demo_in_order demo_view_rows lit_inject simp del: lit_Cons)
  have ids: "remdups (map route_providerId ?rs) = [lit ''p1'', lit ''p2'']"
    by (simp add: demo_view_rows lit_inject del: lit_Cons)
  have provs: "alone lawful_answer ?T (find_providers (\<lambda>p. prov_id p \<in> set [lit ''p1'', lit ''p2'']) [] None) ?T (Inr ?ps)"
    unfolding find_providers_def
    by (rule alone_call [where r = "Providers (Inr ?ps)" and T' = ?T])
      (auto simp: lawful_answer_def demo_view_rows in_limit_def lit_inject simp del: lit_Cons)
  show ?thesis
    unfolding fetch_routes_and_providers_def Let_def
    by (rule alone_tryI, rule routes, unfold ids, simp only: list.distinct(2) if_False, rule alone_tryI, rule provs)
      (simp add: sim_conversions)
qed

lemma demo_simulated:
  "\<exists>d st. alone lawful_answer demo_view_tables (simulate demo_api_env procedures_new demo_planner demo_question) demo_view_tables
     (Inr (decision_to_wire d unknown_operator (national demo_number) False), st)
   \<and> winner d = Some \<lparr>wn_route_id = lit ''r1'', wn_provider_id = lit ''p1'', wn_failover_route_id = None\<rparr>"
proof -
  let ?rc = "\<lparr>rc_operator = sim_convert_operator unknown_operator, rc_class = sim_convert_class (si_class demo_question),
    rc_app_id = si_appId demo_question, rc_msisdn_national = national demo_number\<rparr>"
  let ?rs = "map convert_route [demo_route1, demo_route2]" and ?ps = "sim_provider_map [demo_open, demo_closed]"
  from select_route_cases obtain d where d: "select_route ?rs ?ps ?rc {} (Fin 0) = Some d" by blast
  have ps: "?ps (lit ''p1'') = Some (sim_convert_provider demo_open)" "?ps (lit ''p2'') = Some (sim_convert_provider demo_closed)"
    "pr_available (sim_convert_provider demo_open)" "pr_available (sim_convert_provider demo_closed)"
    by (simp_all add: sim_provider_map_def demo_view_rows lit_inject sim_convert_provider_def Let_def del: lit_Cons)
      (simp_all add: demo_open_def demo_closed_def)
  note w = demo_select [OF ps(1,2,4) d, unfolded if_P [OF ps(3)]]
  from demo_hint obtain st where hint: "alone lawful_answer demo_view_tables (classify_operator procedures_new demo_number)
    demo_view_tables (Inr unknown_operator, st)" ..
  have num: "valid_mobile demo_api_env (si_msisdn demo_question) = Inr demo_number"
    using demo_valid by (simp add: demo_question_def)
  have draw: "si_draw demo_question = None" by (simp add: demo_question_def)
  have draws: "alone lawful_answer demo_view_tables random_f64 demo_view_tables (Fin 0)"
    unfolding random_f64_def
    by (rule alone_call [where r = "Draw (Fin 0)" and T' = demo_view_tables]) (simp_all add: lawful_answer_def)
  have "alone lawful_answer demo_view_tables (simulate demo_api_env procedures_new demo_planner demo_question) demo_view_tables
     (Inr (decision_to_wire d unknown_operator (national demo_number) False), st)"
    unfolding simulate_def demo_planner_may num draw option.case
    by (rule alone_try_dirI, rule alone_ret, rule alone_try_dirI, rule alone_ret, rule alone_bindI, rule hint, unfold prod.case,
        rule alone_try_dirI, rule alone_ret, rule alone_try_dirI, rule demo_fetched, unfold prod.case, rule alone_bindI, rule draws)
      (simp add: d [simplified])
  with w show ?thesis by blast
qed

lemma demo_decides:
  obtains d where "alone (clocked 5 lawful_answer) demo_view_tables (decide cm_lib demo_asked {}) demo_view_tables (Inr d)"
    "winner d = Some \<lparr>wn_route_id = lit ''r2'', wn_provider_id = lit ''p2'', wn_failover_route_id = None\<rparr>"
proof -
  let ?T = demo_view_tables and ?rs = "[demo_route1, demo_route2]" and ?ps = "[demo_open, demo_closed]"
  let ?rc = "\<lparr>rc_operator = convert_operator (cand_operator demo_asked), rc_class = convert_class (cand_class demo_asked),
    rc_app_id = cand_app_id demo_asked, rc_msisdn_national = msisdn_national_of cm_lib (cand_msisdn demo_asked)\<rparr>"
  from select_route_cases obtain d where d: "select_route (map convert_route ?rs) (provider_map 5 ?ps) ?rc {} (Fin 0) = Some d" by blast
  have ps: "provider_map 5 ?ps (lit ''p1'') = Some (convert_provider demo_open 5)"
    "provider_map 5 ?ps (lit ''p2'') = Some (convert_provider demo_closed 5)"
    "\<not> pr_available (convert_provider demo_open 5)" "pr_available (convert_provider demo_closed 5)"
    by (simp_all add: provider_map_def demo_view_rows lit_inject convert_provider_available del: lit_Cons)
      (simp_all add: demo_open_def demo_closed_def usable_def)
  note w = demo_select [OF ps(1,2,4) d, unfolded if_not_P [OF ps(3)]]
  have routes: "alone (clocked 5 lawful_answer) ?T (find_routes route_order) ?T (Inr ?rs)"
    unfolding find_routes_def
    by (rule alone_call [where r = "Routes (Inr ?rs)" and T' = ?T])
      (auto simp: clocked_def lawful_answer_def demo_in_order demo_view_rows lit_inject simp del: lit_Cons)
  have ids: "remdups (map route_providerId ?rs) = [lit ''p1'', lit ''p2'']"
    by (simp add: demo_view_rows lit_inject del: lit_Cons)
  have provs: "alone (clocked 5 lawful_answer) ?T (find_providers (\<lambda>p. prov_id p \<in> set [lit ''p1'', lit ''p2'']) [] None) ?T (Inr ?ps)"
    unfolding find_providers_def
    by (rule alone_call [where r = "Providers (Inr ?ps)" and T' = ?T])
      (auto simp: clocked_def lawful_answer_def demo_view_rows in_limit_def lit_inject simp del: lit_Cons)
  have draws: "alone (clocked 5 lawful_answer) ?T random_f64 ?T (Fin 0)"
    unfolding random_f64_def
    by (rule alone_call [where r = "Draw (Fin 0)" and T' = ?T]) (simp_all add: clocked_def lawful_answer_def)
  have "alone (clocked 5 lawful_answer) ?T (decide cm_lib demo_asked {}) ?T (Inr d)"
    unfolding decide_def Let_def
    by (rule alone_tryI, rule routes, unfold ids, rule alone_bindI, rule clocked_nowI, simp only: list.distinct(2) if_False,
        rule alone_tryI, rule provs, rule alone_bindI, rule draws) (simp add: d [simplified])
  from that [OF this w] show ?thesis .
qed

theorem simulate_replays_dispatch_witness:
  "\<exists>d. alone (clocked 9 lawful_answer) demo_view_tables (decide cm_lib demo_asked {}) demo_view_tables (Inr d)
    \<and> winner d = Some \<lparr>wn_route_id = lit ''r1'', wn_provider_id = lit ''p1'', wn_failover_route_id = None\<rparr>"
proof -
  from demo_simulated obtain e st where run: "alone lawful_answer demo_view_tables
      (simulate demo_api_env procedures_new demo_planner demo_question) demo_view_tables
      (Inr (decision_to_wire e unknown_operator (national demo_number) False), st)"
    and w: "winner e = Some \<lparr>wn_route_id = lit ''r1'', wn_provider_id = lit ''p1'', wn_failover_route_id = None\<rparr>" by blast
  have num: "msisdn_national_of cm_lib (cand_msisdn demo_asked) = national demo_number"
    using cm_lib_example by (simp add: msisdn_national_of_def msisdn_parse_def demo_asked_def demo_send_def demo_number_def del: lit_Cons)
  have "\<forall>i p. t_providers demo_view_tables i = Some p \<longrightarrow> circuit_closed 9 p"
    by (auto simp: demo_view_rows circuit_closed_def demo_open_def demo_closed_def split: if_splits simp del: lit_Cons)
  from simulate_replays_dispatch [OF run this, of demo_asked cm_lib] num obtain d where
    d: "alone (clocked 9 lawful_answer) demo_view_tables (decide cm_lib demo_asked {}) demo_view_tables (Inr d)"
    and same: "sim_winner (decision_to_wire e unknown_operator (national demo_number) False)
      = sim_winner (decision_to_wire d unknown_operator (national demo_number) (evaluations d = []))"
    by (auto simp: demo_asked_def demo_question_def decision_to_wire_def simp del: lit_Cons)
  from same w have "winner d = Some \<lparr>wn_route_id = lit ''r1'', wn_provider_id = lit ''p1'', wn_failover_route_id = None\<rparr>"
    by (cases "winner d") (simp_all add: decision_to_wire_def del: lit_Cons)
  with d show ?thesis by blast
qed


lemma obeys_simulate: "obeys worker_rules (simulate E st ctx args)"
proof -
  have "obeys worker_rules (case select_route routes providers rc exclude draw of None \<Rightarrow> Panic | Some d \<Rightarrow> Ret (f d))"
    for routes providers rc exclude draw and f :: "decision \<Rightarrow> 'x"
    using select_route_cases [of routes providers rc exclude draw] by auto
  moreover have "obeys worker_rules (case si_draw args of Some d \<Rightarrow> Ret d | None \<Rightarrow> random_f64)" by (simp split: option.split)
  ultimately show ?thesis
    unfolding simulate_def fetch_routes_and_providers_def Let_def classify_operator_def operator_table_def fetch_operators_def
    by (auto intro!: obeys_intros simp: split_beta)
qed

end
