(* ===== verification/Delivery_Status.thy ===== *)
theory Delivery_Status
  imports Simulator Retention
begin

text \<open>
  The delivery lookup, from \<^verbatim>\<open>backends/crates/sms-api/src/delivery_status.rs\<close>: who is asking, the plan a
  query stands for, the filter over the messages, the trail of lookups with its hourly budget, and the answer. Shown: an
  answer holds messages of the caller's own application only, at most as many as were asked for, and was written to the
  trail before it left; and however many lookups of a caller run at once, no more of them are answered in an hour than
  its budget, which needs no lock.
\<close>

definition BUDGETED_LOOKUPS_PER_HOUR :: int where "BUDGETED_LOOKUPS_PER_HOUR = 60"
definition DEFAULT_LIMIT :: int where "DEFAULT_LIMIT = 10"
definition MAX_LIMIT :: int where "MAX_LIMIT = 50"
definition DEFAULT_WINDOW_DAYS :: int where "DEFAULT_WINDOW_DAYS = 7"
definition MAX_WINDOW_DAYS :: int where "MAX_WINDOW_DAYS = 90"

definition is_cuid :: "ustring \<Rightarrow> bool" where
  "is_cuid s \<longleftrightarrow> 2 \<le> byte_len s \<and> byte_len s \<le> 32 \<and> list_all (\<lambda>b. 97 \<le> b \<and> b \<le> 122 \<or> 48 \<le> b \<and> b \<le> 57) s"

definition lookup_invalid :: "ustring \<Rightarrow> cratestack_error" where
  "lookup_invalid why = Validation why"

subsection \<open>The plan of a lookup\<close>

datatype asker = Person | AppKey ustring

datatype lookup_key = ByMessageId ustring | ByClientRef ustring | ByMsisdn ustring

fun lookup_kind :: "lookup_key \<Rightarrow> lookup_key_kind" where
  "lookup_kind (ByMessageId _) = message_id_key"
| "lookup_kind (ByClientRef _) = client_ref_key"
| "lookup_kind (ByMsisdn _) = msisdn_key"

record lookup_plan =
  lp_key :: lookup_key
  lp_app_id :: "ustring option"
  lp_since :: "instant option"
  lp_until :: "instant option"
  lp_limit :: int

record status_query =
  dq_messageId :: "ustring option"
  dq_appId :: "ustring option"
  dq_clientRef :: "ustring option"
  dq_msisdn :: "ustring option"
  dq_since :: "instant option"
  dq_until :: "instant option"
  dq_limit :: "int option"

text \<open>The parts of \<^verbatim>\<open>LookupPlan::from_args\<close>: the application, the key, the window. A subtraction of
  a duration from a time panics when it overflows (\<open>None\<close>); the default of the window's start is computed
  whether it is used or not.\<close>

definition planned_app :: "asker \<Rightarrow> ustring option \<Rightarrow> cratestack_error + ustring option" where
  "planned_app who named =
     bind_res
       (case who of
          AppKey a \<Rightarrow> (case named of None \<Rightarrow> Inr (Some a) | Some n \<Rightarrow>
             if n = a then Inr (Some a) else Inl (lookup_invalid (lit ''an app key looks up its own app's messages only'')))
        | Person \<Rightarrow> Inr named)
       (\<lambda>a. case a of
          Some i \<Rightarrow> if is_cuid i then Inr a else Inl (lookup_invalid (lit ''appId is not an id''))
        | None \<Rightarrow> Inr a)"

definition planned_key :: "api_env \<Rightarrow> status_query \<Rightarrow> ustring option \<Rightarrow> cratestack_error + lookup_key" where
  "planned_key E args app = (case dq_messageId args of
     Some i \<Rightarrow> if is_cuid i then Inr (ByMessageId i) else Inl (lookup_invalid (lit ''messageId is not an id''))
   | None \<Rightarrow> (case dq_clientRef args of
       Some ref \<Rightarrow>
         if trim ref = [] then Inl (lookup_invalid (lit ''clientRef must not be blank''))
         else if app = None then Inl (lookup_invalid (lit ''a clientRef belongs to one app: name it with appId''))
         else Inr (ByClientRef ref)
     | None \<Rightarrow>
         bind_res (map_err (\<lambda>_. lookup_invalid (lit ''msisdn is not a valid mobile number''))
             (parse_mobile (ae_phone E) (case dq_msisdn args of Some raw \<Rightarrow> raw | None \<Rightarrow> [])))
           (\<lambda>number. Inr (ByMsisdn (e164 number)))))"

definition planned_window ::
    "api_env \<Rightarrow> lookup_key \<Rightarrow> instant option \<Rightarrow> instant option \<Rightarrow> instant \<Rightarrow> (instant option \<times> instant option) option" where
  "planned_window E key since until now = (case key of
     ByMessageId _ \<Rightarrow> Some (since, until)
   | _ \<Rightarrow> (let u = (case until of Some t \<Rightarrow> t | None \<Rightarrow> now)
          in map_option (\<lambda>dflt. (Some (case since of Some t \<Rightarrow> t | None \<Rightarrow> dflt), Some u)) (ae_add E u (- days DEFAULT_WINDOW_DAYS))))"

definition check_window ::
    "api_env \<Rightarrow> lookup_key \<Rightarrow> instant option \<Rightarrow> instant option \<Rightarrow> instant \<Rightarrow> (cratestack_error + unit) option" where
  "check_window E key since until now = (case (since, until) of
     (Some s, Some u) \<Rightarrow>
       if u < s then Some (Inl (lookup_invalid (lit ''since is after until'')))
       else if days MAX_WINDOW_DAYS < u - s
       then Some (Inl (lookup_invalid (lit ''the window may not be wider than '' @ show_int MAX_WINDOW_DAYS @ lit '' days'')))
       else (case key of
           ByMsisdn _ \<Rightarrow> map_option (\<lambda>earliest.
             if s < earliest
             then Inl (lookup_invalid (lit ''a lookup by number may not start more than '' @ show_int MAX_WINDOW_DAYS @ lit '' days ago''))
             else Inr ()) (ae_add E now (- days MAX_WINDOW_DAYS))
         | _ \<Rightarrow> Some (Inr ()))
   | _ \<Rightarrow> Some (Inr ()))"

definition planned_limit :: "status_query \<Rightarrow> int" where
  "planned_limit args = (case dq_limit args of Some n \<Rightarrow> n | None \<Rightarrow> DEFAULT_LIMIT)"

definition from_args :: "api_env \<Rightarrow> status_query \<Rightarrow> asker \<Rightarrow> instant \<Rightarrow> (cratestack_error + lookup_plan) option" where
  "from_args E args who now =
     (if length (filter id [dq_messageId args \<noteq> None, dq_clientRef args \<noteq> None, dq_msisdn args \<noteq> None]) \<noteq> 1
      then Some (Inl (lookup_invalid (lit ''name exactly one of messageId, clientRef or msisdn'')))
      else case planned_app who (dq_appId args) of Inl e \<Rightarrow> Some (Inl e) | Inr app \<Rightarrow>
      (case planned_key E args app of Inl e \<Rightarrow> Some (Inl e) | Inr key \<Rightarrow>
      (let limit = planned_limit args in
      if \<not> (1 \<le> limit \<and> limit \<le> MAX_LIMIT)
      then Some (Inl (lookup_invalid (lit ''limit must be between 1 and '' @ show_int MAX_LIMIT)))
      else case planned_window E key (dq_since args) (dq_until args) now of None \<Rightarrow> None | Some (since, until) \<Rightarrow>
      (case check_window E key since until now of
         None \<Rightarrow> None
       | Some (Inl e) \<Rightarrow> Some (Inl e)
       | Some (Inr _) \<Rightarrow>
           Some (Inr \<lparr>lp_key = key, lp_app_id = app, lp_since = since, lp_until = until, lp_limit = limit\<rparr>)))))"

subsection \<open>The caller\<close>

record lookup_caller =
  lc_sub :: ustring
  lc_role :: ustring
  lc_asker :: asker

definition nonempty_field :: "cs_context \<Rightarrow> ustring \<Rightarrow> ustring \<Rightarrow> cratestack_error + ustring" where
  "nonempty_field ctx name why = (case text_field ctx name of
     Some s \<Rightarrow> if s = [] then Inl (Forbidden why) else Inr s
   | None \<Rightarrow> Inl (Forbidden why))"

definition field_or_default :: "cs_context \<Rightarrow> ustring \<Rightarrow> ustring" where
  "field_or_default ctx name = (case text_field ctx name of Some s \<Rightarrow> s | None \<Rightarrow> [])"

definition caller_of :: "cs_context \<Rightarrow> cratestack_error + lookup_caller" where
  "caller_of ctx =
     bind_res (nonempty_field ctx (lit ''sub'') (lit ''a delivery lookup needs a caller identity'')) (\<lambda>sub.
     (let role = field_or_default ctx (lit ''role''); kind = field_or_default ctx (lit ''kind'') in
     bind_res
       (if kind = kind_as_str AppKind
        then bind_res (nonempty_field ctx (lit ''appId'') (lit ''an app key without an app cannot look up messages''))
          (\<lambda>a. Inr (AppKey a))
        else if kind = kind_as_str UserKind then Inr Person
        else Inl (Forbidden (lit ''a delivery lookup needs a person or an app key'')))
       (\<lambda>who. Inr \<lparr>lc_sub = sub, lc_role = role, lc_asker = who\<rparr>)))"

definition caller_kind :: "lookup_caller \<Rightarrow> ustring" where
  "caller_kind c = (case lc_asker c of Person \<Rightarrow> lit ''user'' | AppKey _ \<Rightarrow> lit ''app'')"

definition budgeted :: "lookup_caller \<Rightarrow> lookup_key \<Rightarrow> bool" where
  "budgeted c key \<longleftrightarrow> (case key of ByMsisdn _ \<Rightarrow> True | ByClientRef _ \<Rightarrow> lc_asker c = Person | ByMessageId _ \<Rightarrow> False)"

definition budgeted_kinds :: "lookup_caller \<Rightarrow> lookup_key_kind list" where
  "budgeted_kinds c = (case lc_asker c of Person \<Rightarrow> [msisdn_key, client_ref_key] | AppKey _ \<Rightarrow> [msisdn_key])"

subsection \<open>The filter, the answer and the trail\<close>

definition message_filter :: "api_env \<Rightarrow> lookup_plan \<Rightarrow> message \<Rightarrow> bool" where
  "message_filter E plan m \<longleftrightarrow>
     (case lp_key plan of
        ByMessageId i \<Rightarrow> msg_id m = i
      | ByClientRef ref \<Rightarrow> msg_idempotencyKey m = Some ref
      | ByMsisdn number \<Rightarrow> msg_msisdnHash m = keyed_hash_hex E number \<and> msg_purgedAt m = None)
     \<and> (case lp_app_id plan of Some a \<Rightarrow> msg_appId m = a | None \<Rightarrow> True)
     \<and> (case lp_since plan of Some t \<Rightarrow> t \<le> msg_createdAt m | None \<Rightarrow> True)
     \<and> (case lp_until plan of Some t \<Rightarrow> msg_createdAt m \<le> t | None \<Rightarrow> True)"

fun audited_key :: "api_env \<Rightarrow> lookup_key \<Rightarrow> ustring" where
  "audited_key E (ByMessageId i) = i"
| "audited_key E (ByMsisdn number) = keyed_hash_hex E number"
| "audited_key E (ByClientRef ref) = keyed_hash_hex E (lit ''delivery-lookup:client_ref:'' @ ref)"

definition recipient :: "api_env \<Rightarrow> message \<Rightarrow> ustring option" where
  "recipient E row =
     (if msg_purgedAt row \<noteq> None then None
      else case msisdn_parse (ae_phone E) (msg_msisdn row) of Inr number \<Rightarrow> Some (masked number) | Inl _ \<Rightarrow> None)"

record delivery_status_info =
  ds_messageId :: ustring
  ds_appId :: ustring
  ds_recipient :: "ustring option"
  ds_operator :: schema_operator
  ds_senderIdValue :: ustring
  ds_class :: schema_class
  ds_encoding :: schema_encoding
  ds_segments :: int
  ds_state :: message_state
  ds_attempts :: int
  ds_acceptedAt :: instant
  ds_scheduledAt :: "instant option"
  ds_submittedAt :: "instant option"
  ds_finalizedAt :: "instant option"
  ds_expiresAt :: instant
  ds_purged :: bool
  ds_lastReceipt :: "receipt_summary option"

definition status_of :: "api_env \<Rightarrow> message \<Rightarrow> receipt_summary option \<Rightarrow> delivery_status_info" where
  "status_of E row last_receipt =
     \<lparr>ds_messageId = msg_id row, ds_appId = msg_appId row, ds_recipient = recipient E row, ds_operator = msg_operator row,
      ds_senderIdValue = msg_senderIdValue row, ds_class = msg_class row, ds_encoding = msg_encoding row,
      ds_segments = msg_segments row, ds_state = msg_state row, ds_attempts = msg_attempts row, ds_acceptedAt = msg_createdAt row,
      ds_scheduledAt = msg_scheduledAt row, ds_submittedAt = msg_submittedAt row, ds_finalizedAt = msg_finalizedAt row,
      ds_expiresAt = msg_expiresAt row, ds_purged = (msg_purgedAt row \<noteq> None), ds_lastReceipt = last_receipt\<rparr>"

text \<open>Each message takes its receipt out of the map.\<close>

fun statuses_of :: "api_env \<Rightarrow> message list \<Rightarrow> (ustring \<rightharpoonup> receipt_summary) \<Rightarrow> delivery_status_info list" where
  "statuses_of E [] receipts = []"
| "statuses_of E (row # rows) receipts =
     status_of E row (receipts (msg_id row)) # statuses_of E rows (receipts(msg_id row := None))"

definition account :: "api_env \<Rightarrow> lookup_caller \<Rightarrow> lookup_plan \<Rightarrow> lookup_outcome \<Rightarrow> int option \<Rightarrow> lookup_input" where
  "account E c plan outcome result_count =
     \<lparr>li_actorSub = lc_sub c, li_actorKind = caller_kind c, li_actorRole = (if lc_role c = [] then lit ''none'' else lc_role c),
      li_actorAppId = (case lc_asker c of AppKey a \<Rightarrow> Some a | Person \<Rightarrow> None), li_keyKind = lookup_kind (lp_key plan),
      li_keyValue = audited_key E (lp_key plan), li_appIdFilter = lp_app_id plan, li_outcome = outcome,
      li_resultCount = result_count\<rparr>"

definition settle :: "ustring \<Rightarrow> lookup_outcome \<Rightarrow> int option \<Rightarrow> (cratestack_error + unit) prog" where
  "settle i outcome result_count = try_prog (settle_lookup i outcome result_count) (\<lambda>_. Ret (Inr ()))"

text \<open>What the budget counts.\<close>

definition counted :: "lookup_caller \<Rightarrow> instant \<Rightarrow> delivery_lookup \<Rightarrow> bool" where
  "counted c since row \<longleftrightarrow> (let i = dl_input row in
     li_actorSub i = lc_sub c \<and> li_actorKind i = caller_kind c \<and> li_keyKind i \<in> set (budgeted_kinds c)
     \<and> li_outcome i \<noteq> lookup_over_budget \<and> since \<le> dl_createdAt row)"

definition claim_budget ::
    "api_env \<Rightarrow> lookup_caller \<Rightarrow> lookup_plan \<Rightarrow> instant \<Rightarrow> (cratestack_error + ustring) prog" where
  "claim_budget E c plan now =
     try_prog (create_lookup (account E c plan lookup_pending None)) (\<lambda>own.
     case ae_add E now (- hours 1) of None \<Rightarrow> Panic | Some since \<Rightarrow>
     try_prog (count_lookups (counted c since)) (\<lambda>used.
     if BUDGETED_LOOKUPS_PER_HOUR < used
     then try_prog (settle (dl_id own) lookup_over_budget None) (\<lambda>_.
       Ret (Inl (Forbidden (lit ''delivery lookup budget exhausted: '' @ show_int BUDGETED_LOOKUPS_PER_HOUR
         @ lit '' lookups by number or reference per hour''))))
     else Ret (Inr (dl_id own))))"

text \<open>The rows come newest first, so the first of each message is kept.\<close>

fun keep_newest :: "(ustring \<rightharpoonup> receipt_summary) \<Rightarrow> stored_receipt list \<Rightarrow> (ustring \<rightharpoonup> receipt_summary)" where
  "keep_newest acc [] = acc"
| "keep_newest acc (row # rows) = (let m = rec_messageId (sr_input row) in
     keep_newest (case acc m of Some _ \<Rightarrow> acc | None \<Rightarrow> acc(m \<mapsto> receipt_summary_of row)) rows)"

definition newest_receipts :: "ustring list \<Rightarrow> (cratestack_error + (ustring \<rightharpoonup> receipt_summary)) prog" where
  "newest_receipts ids =
     (if ids = [] then Ret (Inr (\<lambda>_. None))
      else try_prog (find_receipts (\<lambda>row. rec_messageId (sr_input row) \<in> set ids)
          [Desc (\<lambda>row. Some (KInt (sr_receivedAt row)))] None)
        (\<lambda>rows. Ret (Inr (keep_newest (\<lambda>_. None) rows))))"

record status_result =
  dr_statuses :: "delivery_status_info list"
  dr_truncated :: bool

definition usize_or_max :: "int \<Rightarrow> nat" where
  "usize_or_max n = (if n < 0 then 2 ^ 64 - 1 else nat n)"

text \<open>The parts of \<^verbatim>\<open>lookup\<close>: the claim, the read, the record of the answer, and their sequence.\<close>

definition claim_place :: "api_env \<Rightarrow> lookup_caller \<Rightarrow> lookup_plan \<Rightarrow> instant \<Rightarrow> (cratestack_error + ustring option) prog" where
  "claim_place E c plan now =
     (if budgeted c (lp_key plan) then try_prog (claim_budget E c plan now) (\<lambda>i. Ret (Inr (Some i))) else Ret (Inr None))"

definition read_statuses :: "api_env \<Rightarrow> lookup_plan \<Rightarrow> (cratestack_error + status_result) prog" where
  "read_statuses E plan =
     (let limit = usize_or_max (lp_limit plan) in
      try_prog (find_messages (message_filter E plan) [Desc (\<lambda>m. Some (KInt (msg_createdAt m)))] (Some (lp_limit plan + 1))) (\<lambda>found.
      (let rows = take limit found in
      try_prog (newest_receipts (map msg_id rows)) (\<lambda>receipts.
      Ret (Inr \<lparr>dr_statuses = statuses_of E rows receipts, dr_truncated = (limit < length found)\<rparr>)))))"

definition record_answer ::
    "api_env \<Rightarrow> lookup_caller \<Rightarrow> lookup_plan \<Rightarrow> ustring option \<Rightarrow> int \<Rightarrow> (cratestack_error + unit) prog" where
  "record_answer E c plan claimed result_count = (case claimed of
     Some i \<Rightarrow> settle i lookup_answered (Some result_count)
   | None \<Rightarrow> try_prog (create_lookup (account E c plan lookup_answered (Some result_count))) (\<lambda>_. Ret (Inr ())))"

definition answer_plan :: "api_env \<Rightarrow> lookup_caller \<Rightarrow> lookup_plan \<Rightarrow> instant \<Rightarrow> (cratestack_error + status_result) prog" where
  "answer_plan E c plan now =
     try_prog (claim_place E c plan now) (\<lambda>claimed.
     try_prog (read_statuses E plan) (\<lambda>res.
     try_prog (record_answer E c plan claimed (i64_of (length (dr_statuses res)))) (\<lambda>_.
     Ret (Inr res))))"

definition lookup_statuses ::
    "api_env \<Rightarrow> cs_context \<Rightarrow> status_query \<Rightarrow> instant \<Rightarrow> (cratestack_error + status_result) prog" where
  "lookup_statuses E ctx args now =
     try_prog (Ret (caller_of ctx)) (\<lambda>c.
     case from_args E args (lc_asker c) now of None \<Rightarrow> Panic | Some planned \<Rightarrow>
     try_prog (Ret planned) (\<lambda>plan. answer_plan E c plan now))"

definition lookup_delivery_status :: "api_env \<Rightarrow> cs_context \<Rightarrow> status_query \<Rightarrow> (cratestack_error + status_result) prog" where
  "lookup_delivery_status E ctx args =
     try_prog (Ret (require_permission (ae_debug E) ctx (lit ''delivery:read''))) (\<lambda>_.
     bind_prog utc_now (lookup_statuses E ctx args))"

subsection \<open>What a plan allows\<close>

lemma planned_app_own: "planned_app (AppKey a) named = Inr app \<Longrightarrow> app = Some a"
  by (auto simp: planned_app_def split: option.splits if_splits)

lemma check_window_number:
  assumes "planned_window E (ByMsisdn n) s0 u0 now = Some (since, until)" "check_window E (ByMsisdn n) since until now = Some (Inr y)"
  shows "\<exists>s earliest. since = Some s \<and> ae_add E now (- days MAX_WINDOW_DAYS) = Some earliest \<and> earliest \<le> s"
  using assms by (auto simp: planned_window_def check_window_def Let_def split: if_splits)

lemma from_args_plan:
  assumes "from_args E args who now = Some (Inr plan)"
  shows "1 \<le> lp_limit plan \<and> lp_limit plan \<le> MAX_LIMIT" "who = AppKey a \<Longrightarrow> lp_app_id plan = Some a"
    and "lp_key plan = ByMsisdn n \<Longrightarrow>
      \<exists>s earliest. lp_since plan = Some s \<and> ae_add E now (- days MAX_WINDOW_DAYS) = Some earliest \<and> earliest \<le> s"
proof -
  from assms have "\<exists>app key since until y. plan = \<lparr>lp_key = key, lp_app_id = app, lp_since = since, lp_until = until, lp_limit = planned_limit args\<rparr>
    \<and> planned_app who (dq_appId args) = Inr app \<and> 1 \<le> planned_limit args \<and> planned_limit args \<le> MAX_LIMIT
    \<and> planned_window E key (dq_since args) (dq_until args) now = Some (since, until) \<and> check_window E key since until now = Some (Inr y)"
    unfolding from_args_def Let_def by (auto split: if_splits sum.splits option.splits prod.splits)
  then obtain app key since until y where
    plan: "plan = \<lparr>lp_key = key, lp_app_id = app, lp_since = since, lp_until = until, lp_limit = planned_limit args\<rparr>"
    and app: "planned_app who (dq_appId args) = Inr app" and limit: "1 \<le> planned_limit args" "planned_limit args \<le> MAX_LIMIT"
    and win: "planned_window E key (dq_since args) (dq_until args) now = Some (since, until)" "check_window E key since until now = Some (Inr y)"
    by blast
  show "1 \<le> lp_limit plan \<and> lp_limit plan \<le> MAX_LIMIT" using limit plan by simp
  show "lp_app_id plan = Some a" if "who = AppKey a" using app that plan by (simp add: planned_app_own)
  show "\<exists>s earliest. lp_since plan = Some s \<and> ae_add E now (- days MAX_WINDOW_DAYS) = Some earliest \<and> earliest \<le> s"
    if "lp_key plan = ByMsisdn n" using check_window_number win that plan by simp
qed

subsection \<open>The calls of a lookup, alone\<close>

abbreviation with_lookup :: "tables \<Rightarrow> ustring \<Rightarrow> delivery_lookup \<Rightarrow> tables" where
  "with_lookup T i row \<equiv> T\<lparr>t_api := (t_api T)\<lparr>a_lookups := (a_lookups (t_api T))(i \<mapsto> row)\<rparr>\<rparr>"

lemma alone_create_lookup:
  assumes "lawful answers" "alone answers T (create_lookup x) U (Inr row)"
  shows "\<exists>i now. row = new_lookup i now x \<and> a_lookups (t_api T) i = None \<and> U = with_lookup T i row"
proof -
  from assms obtain a A where "lawful_api (t_api T) (CreateLookup x) a A"
    and "alone answers (T\<lparr>t_api := A\<rparr>) (case ApiAnswer a of ApiAnswer (LookupRow x) \<Rightarrow> Ret x | _ \<Rightarrow> Panic) U (Inr row)"
    unfolding create_lookup_def by (rule alone_api)
  then show ?thesis by (auto simp: lawful_api_def inserts_def) blast
qed

lemma alone_settle:
  assumes "lawful answers" "alone answers T (settle i out n) U (Inr y)" "a_lookups (t_api T) i = Some row"
  shows "U = with_lookup T i (settle_lookup_row out n row)"
  using assms(2) unfolding settle_def
  by (rule alone_tryE) (use assms(1,3) in \<open>auto simp: settle_lookup_def lawful_api_def elim!: alone_api\<close>)

lemma alone_claim_budget:
  assumes "lawful answers" "alone answers T (claim_budget E c plan now) U (Inr i)"
  shows "\<exists>t. a_lookups (t_api T) i = None \<and> U = with_lookup T i (new_lookup i t (account E c plan lookup_pending None))
    \<and> (\<exists>since n. ae_add E now (- hours 1) = Some since \<and> counts (a_lookups (t_api U)) (counted c since) n \<and> n \<le> BUDGETED_LOOKUPS_PER_HOUR)"
  using assms(2) unfolding claim_budget_def
proof (rule alone_tryE)
  fix V own
  assume "alone answers T (create_lookup (account E c plan lookup_pending None)) V (Inr own)"
    and rest: "alone answers V (case ae_add E now (- hours 1) of None \<Rightarrow> Panic | Some since \<Rightarrow>
      try_prog (count_lookups (counted c since)) (\<lambda>used. if BUDGETED_LOOKUPS_PER_HOUR < used
        then try_prog (settle (dl_id own) lookup_over_budget None) (\<lambda>_. Ret (Inl (Forbidden
          (lit ''delivery lookup budget exhausted: '' @ show_int BUDGETED_LOOKUPS_PER_HOUR @ lit '' lookups by number or reference per hour''))))
        else Ret (Inr (dl_id own)))) U (Inr i)"
  then obtain j t where own: "own = new_lookup j t (account E c plan lookup_pending None)" "a_lookups (t_api T) j = None" "V = with_lookup T j own"
    using alone_create_lookup [OF assms(1)] by blast
  from rest obtain since where since: "ae_add E now (- hours 1) = Some since" by (auto split: option.splits)
  with rest have "alone answers V (try_prog (count_lookups (counted c since)) (\<lambda>used. if BUDGETED_LOOKUPS_PER_HOUR < used
        then try_prog (settle (dl_id own) lookup_over_budget None) (\<lambda>_. Ret (Inl (Forbidden
          (lit ''delivery lookup budget exhausted: '' @ show_int BUDGETED_LOOKUPS_PER_HOUR @ lit '' lookups by number or reference per hour''))))
        else Ret (Inr (dl_id own)))) U (Inr i)" by simp
  then show ?thesis
  proof (rule alone_tryE)
    fix W used
    assume count: "alone answers V (count_lookups (counted c since)) W (Inr used)"
      and last: "alone answers W (if BUDGETED_LOOKUPS_PER_HOUR < used
        then try_prog (settle (dl_id own) lookup_over_budget None) (\<lambda>_. Ret (Inl (Forbidden
          (lit ''delivery lookup budget exhausted: '' @ show_int BUDGETED_LOOKUPS_PER_HOUR @ lit '' lookups by number or reference per hour''))))
        else Ret (Inr (dl_id own))) U (Inr i)"
    from last have le: "used \<le> BUDGETED_LOOKUPS_PER_HOUR" "U = W" "i = dl_id own"
      by (auto split: if_splits elim!: alone_tryE)
    from alone_count_lookups [OF assms(1) count] have "W = V" "counts (a_lookups (t_api V)) (counted c since) used" by auto
    with own le since show ?thesis by (auto simp: new_lookup_def)
  qed simp
qed simp

lemma alone_newest_receipts:
  assumes "lawful answers" "alone answers T (newest_receipts ids) U x"
  shows "U = T"
  using assms(2) unfolding newest_receipts_def
  by (auto split: if_splits elim!: alone_tryE dest!: alone_find_receipts [OF assms(1)])

lemma statuses_of_rows:
  "length (statuses_of E rows receipts) = length rows"
  "s \<in> set (statuses_of E rows receipts) \<Longrightarrow> \<exists>m \<in> set rows. \<exists>last. s = status_of E m last"
  by (induction rows arbitrary: receipts) auto

lemma alone_read_statuses:
  assumes "lawful answers" "alone answers T (read_statuses E plan) U (Inr res)" "0 \<le> lp_limit plan"
  shows "U = T \<and> int (length (dr_statuses res)) \<le> lp_limit plan
    \<and> (\<forall>s \<in> set (dr_statuses res). \<exists>m last. t_messages T (msg_id m) = Some m \<and> message_filter E plan m \<and> s = status_of E m last)"
  using assms(2) unfolding read_statuses_def Let_def
proof (rule alone_tryE)
  fix V found
  assume found: "alone answers T (find_messages (message_filter E plan) [Desc (\<lambda>m. Some (KInt (msg_createdAt m)))] (Some (lp_limit plan + 1))) V (Inr found)"
    and rest: "alone answers V (try_prog (newest_receipts (map msg_id (take (usize_or_max (lp_limit plan)) found))) (\<lambda>receipts.
      Ret (Inr \<lparr>dr_statuses = statuses_of E (take (usize_or_max (lp_limit plan)) found) receipts,
        dr_truncated = (usize_or_max (lp_limit plan) < length found)\<rparr>))) U (Inr res)"
  from alone_find_messages [OF assms(1) found] have V: "V = T" and rows: "\<forall>m \<in> set found. message_filter E plan m \<and> t_messages T (msg_id m) = Some m"
    by auto
  from rest obtain receipts where res: "U = V" "dr_statuses res = statuses_of E (take (usize_or_max (lp_limit plan)) found) receipts"
    by (elim alone_tryE) (auto dest: alone_newest_receipts [OF assms(1)])
  have "\<exists>m last. t_messages T (msg_id m) = Some m \<and> message_filter E plan m \<and> s = status_of E m last" if "s \<in> set (dr_statuses res)" for s
    using statuses_of_rows(2) [OF that [unfolded res(2)]] rows by (metis in_set_takeD)
  then show ?thesis
    using res V assms(3) by (simp add: statuses_of_rows(1) usize_or_max_def)
qed simp

lemma message_filter_own:
  assumes "from_args E args who now = Some (Inr plan)" "message_filter E plan m"
  shows "who = AppKey a \<Longrightarrow> msg_appId m = a"
    and "lp_key plan = ByMsisdn n \<Longrightarrow> msg_purgedAt m = None \<and> msg_msisdnHash m = keyed_hash_hex E n
      \<and> (\<exists>earliest. ae_add E now (- days MAX_WINDOW_DAYS) = Some earliest \<and> earliest \<le> msg_createdAt m)"
proof -
  show "msg_appId m = a" if "who = AppKey a"
    using from_args_plan(2) [OF assms(1) that] assms(2) by (simp add: message_filter_def)
  show "msg_purgedAt m = None \<and> msg_msisdnHash m = keyed_hash_hex E n
      \<and> (\<exists>earliest. ae_add E now (- days MAX_WINDOW_DAYS) = Some earliest \<and> earliest \<le> msg_createdAt m)"
    if "lp_key plan = ByMsisdn n"
    using from_args_plan(3) [OF assms(1) that] assms(2) that by (auto simp: message_filter_def)
qed

lemma settle_account: "settle_lookup_row out n (new_lookup i t (account E c plan out' n')) = new_lookup i t (account E c plan out n)"
  by (simp add: settle_lookup_row_def new_lookup_def account_def)

text \<open>The trail of an answer: the place that was claimed is settled, or the answer is written at once.\<close>

lemma alone_record_answer:
  assumes "lawful answers" "alone answers T (claim_place E c plan now) V (Inr claimed)"
    and "alone answers V (record_answer E c plan claimed n) U (Inr y)"
  shows "\<exists>i t. a_lookups (t_api T) i = None \<and> U = with_lookup T i (new_lookup i t (account E c plan lookup_answered (Some n)))"
proof (cases "budgeted c (lp_key plan)")
  case True
  with assms(2) obtain i where claim: "alone answers T (claim_budget E c plan now) V (Inr i)" "claimed = Some i"
    by (auto simp: claim_place_def elim!: alone_tryE)
  from alone_claim_budget [OF assms(1) claim(1)] obtain t where
    V: "a_lookups (t_api T) i = None" "V = with_lookup T i (new_lookup i t (account E c plan lookup_pending None))" by blast
  have "U = with_lookup V i (settle_lookup_row lookup_answered (Some n) (new_lookup i t (account E c plan lookup_pending None)))"
    by (rule alone_settle [OF assms(1)]) (use assms(3) claim(2) V in \<open>simp_all add: record_answer_def\<close>)
  then show ?thesis using V unfolding settle_account by auto
next
  case False
  with assms(2,3) have "alone answers T (try_prog (create_lookup (account E c plan lookup_answered (Some n))) (\<lambda>_. Ret (Inr ()))) U (Inr y)"
    by (simp add: claim_place_def record_answer_def)
  then obtain row where "alone answers T (create_lookup (account E c plan lookup_answered (Some n))) U (Inr row)"
    by (elim alone_tryE) auto
  then show ?thesis using alone_create_lookup [OF assms(1)] by blast
qed

lemma claim_place_messages:
  assumes "lawful answers" "alone answers T (claim_place E c plan now) V (Inr claimed)"
  shows "t_messages V = t_messages T"
  using assms(2) unfolding claim_place_def
  by (auto split: if_splits elim!: alone_tryE dest!: alone_claim_budget [OF assms(1)])

lemma alone_tryD: "alone answers T (try_prog p f) U (Inr y) \<Longrightarrow> \<exists>V x. alone answers T p V (Inr x) \<and> alone answers V (f x) U (Inr y)"
  by (erule alone_tryE) auto

lemma alone_tryRetD: "alone answers T (try_prog (Ret r) f) U (Inr y) \<Longrightarrow> \<exists>x. r = Inr x \<and> alone answers T (f x) U (Inr y)"
  by (drule alone_tryD) auto

lemma alone_answer_plan:
  assumes "lawful answers" "alone answers T (answer_plan E c plan now) U (Inr res)" "0 \<le> lp_limit plan"
  shows "int (length (dr_statuses res)) \<le> lp_limit plan"
    and "\<forall>s \<in> set (dr_statuses res). \<exists>m last. t_messages T (msg_id m) = Some m \<and> message_filter E plan m \<and> s = status_of E m last"
    and "\<exists>i t. a_lookups (t_api T) i = None \<and> U = with_lookup T i
      (new_lookup i t (account E c plan lookup_answered (Some (i64_of (length (dr_statuses res))))))"
proof -
  from alone_tryD [OF assms(2) [unfolded answer_plan_def]] obtain V claimed where
    claim: "alone answers T (claim_place E c plan now) V (Inr claimed)"
    and "alone answers V (try_prog (read_statuses E plan) (\<lambda>res.
        try_prog (record_answer E c plan claimed (i64_of (length (dr_statuses res)))) (\<lambda>_. Ret (Inr res)))) U (Inr res)" by blast
  from alone_tryD [OF this(2)] obtain W res' where reads: "alone answers V (read_statuses E plan) W (Inr res')"
    and "alone answers W (try_prog (record_answer E c plan claimed (i64_of (length (dr_statuses res')))) (\<lambda>_. Ret (Inr res'))) U (Inr res)"
    by blast
  from alone_tryD [OF this(2)] obtain y where res: "res' = res"
    and written: "alone answers W (record_answer E c plan claimed (i64_of (length (dr_statuses res)))) U (Inr y)" by auto
  note found = alone_read_statuses [OF assms(1) reads [unfolded res] assms(3)]
  then show "int (length (dr_statuses res)) \<le> lp_limit plan"
    and "\<forall>s \<in> set (dr_statuses res). \<exists>m last. t_messages T (msg_id m) = Some m \<and> message_filter E plan m \<and> s = status_of E m last"
    by (simp_all add: claim_place_messages [OF assms(1) claim])
  from found have "W = V" by simp
  then show "\<exists>i t. a_lookups (t_api T) i = None \<and> U = with_lookup T i
      (new_lookup i t (account E c plan lookup_answered (Some (i64_of (length (dr_statuses res))))))"
    using alone_record_answer [OF assms(1) claim] written by blast
qed

subsection \<open>Lookups at the same time\<close>

text \<open>
  Each process of the system has a place with respect to the budget of one caller: outside, holding a row of somebody
  else, holding a row of the caller's that is not counted yet, or admitted. \<open>tracks\<close> says that a program moves
  between places the way \<open>claim_budget\<close> does, whatever the answers, as long as the clock has not passed the end
  of the hour.
\<close>

datatype place = Outside | Foreign ustring | Claimed ustring | Admitted ustring

definition ours :: "lookup_caller \<Rightarrow> lookup_input \<Rightarrow> bool" where
  "ours c x \<longleftrightarrow> li_actorSub x = lc_sub c \<and> li_actorKind x = caller_kind c \<and> li_keyKind x \<in> set (budgeted_kinds c)"

lemma counted_ours: "counted c since row \<longleftrightarrow> ours c (dl_input row) \<and> li_outcome (dl_input row) \<noteq> lookup_over_budget \<and> since \<le> dl_createdAt row"
  by (auto simp: counted_def ours_def Let_def)

definition may_ask :: "lookup_caller \<Rightarrow> instant \<Rightarrow> place \<Rightarrow> request \<Rightarrow> bool" where
  "may_ask c t0 pl req \<longleftrightarrow> (case req of
     Api (CreateLookup x) \<Rightarrow> pl = Outside \<and> (ours c x \<longrightarrow> li_outcome x = lookup_pending)
   | Api (SettleLookup i out n) \<Rightarrow> pl = Foreign i \<or> pl = Claimed i \<and> out = lookup_over_budget \<or> pl = Admitted i \<and> out = lookup_answered
   | Api (CountLookups f) \<Rightarrow> (\<forall>i. pl = Claimed i \<longrightarrow> (\<forall>row. counted c t0 row \<longrightarrow> f row))
   | _ \<Rightarrow> True)"

definition heard :: "instant \<Rightarrow> request \<Rightarrow> response \<Rightarrow> bool" where
  "heard t0 req r \<longleftrightarrow> (case req of
     ReqNow \<Rightarrow> (\<exists>t. r = Time t \<and> t \<le> t0 + hours 1)
   | Api (CreateLookup x) \<Rightarrow> (\<exists>e. r = ApiAnswer (LookupRow (Inl e))) \<or> (\<exists>i now. r = ApiAnswer (LookupRow (Inr (new_lookup i now x))))
   | _ \<Rightarrow> True)"

definition next_place :: "lookup_caller \<Rightarrow> place \<Rightarrow> request \<Rightarrow> response \<Rightarrow> place" where
  "next_place c pl req r = (case req of
     Api (CreateLookup x) \<Rightarrow> (case r of
         ApiAnswer (LookupRow (Inr row)) \<Rightarrow> if ours c x then Claimed (dl_id row) else Foreign (dl_id row)
       | _ \<Rightarrow> Outside)
   | Api (SettleLookup i out n) \<Rightarrow> Outside
   | Api (CountLookups f) \<Rightarrow> (case (pl, r) of
         (Claimed i, ApiAnswer (LookupCount (Inr n))) \<Rightarrow> if n \<le> BUDGETED_LOOKUPS_PER_HOUR then Admitted i else pl
       | _ \<Rightarrow> pl)
   | _ \<Rightarrow> pl)"

primrec tracks :: "lookup_caller \<Rightarrow> instant \<Rightarrow> 'a prog \<Rightarrow> (place \<Rightarrow> 'a \<Rightarrow> bool) \<Rightarrow> place \<Rightarrow> bool" where
  "tracks c t0 (Ret x) Q pl = Q pl x"
| "tracks c t0 Panic Q pl = True"
| "tracks c t0 (Call req k) Q pl = (may_ask c t0 pl req \<and> (\<forall>r. heard t0 req r \<longrightarrow> tracks c t0 (k r) Q (next_place c pl req r)))"

lemma tracks_bind [simp]: "tracks c t0 (bind_prog p f) Q pl = tracks c t0 p (\<lambda>pl x. tracks c t0 (f x) Q pl) pl"
  by (induction p arbitrary: pl) simp_all

lemma tracks_mono: "tracks c t0 p Q pl \<Longrightarrow> (\<And>pl x. Q pl x \<Longrightarrow> R pl x) \<Longrightarrow> tracks c t0 p R pl"
  by (induction p arbitrary: pl) auto

lemma tracks_try: "tracks c t0 p (\<lambda>pl r. case r of Inl e \<Rightarrow> Q pl (Inl e) | Inr x \<Rightarrow> tracks c t0 (f x) Q pl) pl \<Longrightarrow> tracks c t0 (try_prog p f) Q pl"
  unfolding try_prog_def tracks_bind by (erule tracks_mono) (auto split: sum.splits)

lemma tracks_calls:
  "(\<And>x. Q pl x) \<Longrightarrow> tracks c t0 (find_messages f o_by l) Q pl"
  "(\<And>x. Q' pl x) \<Longrightarrow> tracks c t0 (find_receipts f' o' l') Q' pl"
  "(\<And>t. t \<le> t0 + hours 1 \<Longrightarrow> Qt pl t) \<Longrightarrow> tracks c t0 utc_now Qt pl"
  by (auto simp: find_messages_def find_receipts_def utc_now_def may_ask_def heard_def next_place_def split: response.splits)

lemma tracks_create_lookup:
  assumes "ours c x \<Longrightarrow> li_outcome x = lookup_pending"
    and "\<And>e. Q Outside (Inl e)" "\<And>i now. Q (if ours c x then Claimed i else Foreign i) (Inr (new_lookup i now x))"
  shows "tracks c t0 (create_lookup x) Q Outside"
proof -
  have "dl_id (new_lookup i now x) = i" for i now by (simp add: new_lookup_def)
  then show ?thesis
    using assms by (auto simp: create_lookup_def may_ask_def heard_def next_place_def)
qed

lemma tracks_count_lookups:
  assumes "\<And>i row. pl = Claimed i \<Longrightarrow> counted c t0 row \<Longrightarrow> f row"
    and "\<And>e. Q pl (Inl e)" "\<And>n. \<not> n \<le> BUDGETED_LOOKUPS_PER_HOUR \<Longrightarrow> Q pl (Inr n)"
    and "\<And>n. n \<le> BUDGETED_LOOKUPS_PER_HOUR \<Longrightarrow> Q (case pl of Claimed i \<Rightarrow> Admitted i | _ \<Rightarrow> pl) (Inr n)"
  shows "tracks c t0 (count_lookups f) Q pl"
proof -
  have "Q (next_place c pl (Api (CountLookups f)) (ApiAnswer (LookupCount x))) x" for x
  proof (cases x)
    case (Inl e)
    then show ?thesis using assms(2) by (cases pl) (simp_all add: next_place_def)
  next
    case (Inr n)
    then show ?thesis using assms(3,4) [of n] by (cases pl) (auto simp: next_place_def)
  qed
  then show ?thesis
    using assms(1) by (auto simp: count_lookups_def may_ask_def split: response.split api_answer.split)
qed

lemma tracks_settle:
  assumes "pl = Foreign i \<or> pl = Claimed i \<and> out = lookup_over_budget \<or> pl = Admitted i \<and> out = lookup_answered" "\<And>x. Q Outside x"
  shows "tracks c t0 (settle i out n) Q pl"
proof -
  have "tracks c t0 (settle_lookup i out n) (\<lambda>pl _. pl = Outside) pl"
    using assms(1) by (auto simp: settle_lookup_def may_ask_def next_place_def split: response.split api_answer.split)
  then show ?thesis
    unfolding settle_def by (rule tracks_try [OF tracks_mono]) (auto simp: assms(2) split: sum.split)
qed

text \<open>Adding a duration to a time, where it does not overflow, is addition.\<close>

definition add_lawful :: "api_env \<Rightarrow> bool" where
  "add_lawful E \<longleftrightarrow> (\<forall>t d r. ae_add E t d = Some r \<longrightarrow> r = t + d)"

lemma same_budget:
  assumes "lc_sub c' = lc_sub c" "caller_kind c' = caller_kind c"
  shows "ours c' = ours c" "counted c' since row = counted c since row" "budgeted_kinds c' = budgeted_kinds c"
proof -
  show "budgeted_kinds c' = budgeted_kinds c"
    using assms(2) by (auto simp: caller_kind_def budgeted_kinds_def lit_inject split: asker.splits simp del: lit_Cons)
  with assms show "ours c' = ours c" "counted c' since row = counted c since row" by (simp_all add: ours_def [abs_def] counted_def)
qed

lemma ours_account: "ours c (account E c' plan out n) \<longleftrightarrow>
    lc_sub c' = lc_sub c \<and> caller_kind c' = caller_kind c \<and> budgeted c' (lp_key plan)"
proof -
  have "lookup_kind (lp_key plan) \<in> set (budgeted_kinds c') \<longleftrightarrow> budgeted c' (lp_key plan)"
    by (cases "lp_key plan"; cases "lc_asker c'") (simp_all add: budgeted_kinds_def budgeted_def)
  then show ?thesis
    using same_budget(3) [of c' c] by (auto simp: ours_def account_def)
qed

lemma tracks_claim_budget:
  assumes "add_lawful E" "now \<le> t0 + hours 1"
  shows "tracks c t0 (claim_budget E c' plan now) (\<lambda>pl r. \<forall>i. r = Inr i \<longrightarrow> pl = Admitted i \<or> pl = Foreign i) Outside"
  unfolding claim_budget_def
proof (intro tracks_try tracks_create_lookup, goal_cases)
  case (3 i t)
  let ?x = "account E c' plan lookup_pending None" and ?pl = "if ours c (account E c' plan lookup_pending None) then Claimed i else Foreign i"
  have i: "dl_id (new_lookup i t ?x) = i" by (simp add: new_lookup_def)
  show ?case
  proof (cases "ae_add E now (- hours 1)")
    case (Some since)
    with assms have "since \<le> t0" by (force simp: add_lawful_def)
    then have "counted c' since row" if "?pl = Claimed j" "counted c t0 row" for j row
      using that same_budget(2) [of c' c since row] by (auto simp: ours_account counted_ours split: if_splits)
    then show ?thesis
      unfolding Some i sum.case option.case
      by (intro tracks_try tracks_count_lookups) (auto simp: not_le intro!: tracks_try tracks_settle split: if_splits sum.split)
  qed simp
qed (simp_all add: account_def)

lemma tracks_read_statuses: "(\<And>x. Q pl x) \<Longrightarrow> tracks c t0 (read_statuses E plan) Q pl"
  unfolding read_statuses_def newest_receipts_def Let_def
  by (auto intro!: tracks_try tracks_calls split: sum.split)

lemma tracks_delivery_status:
  assumes "add_lawful E"
  shows "tracks c t0 (lookup_delivery_status E ctx args) (\<lambda>_ _. True) Outside"
proof -
  have "tracks c t0 (answer_plan E c' plan now) (\<lambda>_ _. True) Outside" if now: "now \<le> t0 + hours 1" for c' plan now
  proof -
    let ?held = "\<lambda>pl r. \<forall>claimed. r = Inr claimed \<longrightarrow>
      (case claimed of Some i \<Rightarrow> pl = Admitted i \<or> pl = Foreign i | None \<Rightarrow> pl = Outside \<and> \<not> budgeted c' (lp_key plan))"
    have "tracks c t0 (claim_place E c' plan now) ?held Outside"
    proof (cases "budgeted c' (lp_key plan)")
      case True
      then show ?thesis
        unfolding claim_place_def
        by (auto intro!: tracks_try tracks_mono [OF tracks_claim_budget [OF assms now]] split: sum.split)
    qed (simp add: claim_place_def)
    moreover have "tracks c t0 (record_answer E c' plan claimed n) (\<lambda>_ _. True) pl" if "?held pl (Inr claimed)" for pl claimed n
      using that unfolding record_answer_def
      by (auto simp: ours_account intro!: tracks_settle tracks_try tracks_create_lookup split: option.splits sum.split)
    ultimately show ?thesis
      unfolding answer_plan_def
      by (intro tracks_try) (erule tracks_mono, auto intro!: tracks_try tracks_read_statuses
          elim!: tracks_mono split: sum.split)
  qed
  then show ?thesis
    unfolding lookup_delivery_status_def lookup_statuses_def
    by (auto intro!: tracks_try tracks_calls split: sum.split option.split)
qed

text \<open>What the places say about the table, and how a call moves a place and the table together.\<close>

fun holding :: "place \<Rightarrow> ustring list" where
  "holding Outside = []"
| "holding (Foreign i) = [i]"
| "holding (Claimed i) = [i]"
| "holding (Admitted i) = [i]"

definition pending_ours :: "lookup_caller \<Rightarrow> (ustring \<rightharpoonup> delivery_lookup) \<Rightarrow> ustring \<Rightarrow> bool" where
  "pending_ours c L i \<longleftrightarrow> (\<exists>row. L i = Some row \<and> ours c (dl_input row) \<and> li_outcome (dl_input row) = lookup_pending)"

fun place_ok :: "lookup_caller \<Rightarrow> (ustring \<rightharpoonup> delivery_lookup) \<Rightarrow> place \<Rightarrow> bool" where
  "place_ok c L Outside = True"
| "place_ok c L (Foreign i) = (\<exists>row. L i = Some row \<and> \<not> ours c (dl_input row))"
| "place_ok c L (Claimed i) = pending_ours c L i"
| "place_ok c L (Admitted i) = pending_ours c L i"

lemma place_ok_update: "place_ok c L pl \<Longrightarrow> i \<notin> set (holding pl) \<Longrightarrow> place_ok c (L(i := x)) pl"
  by (cases pl) (auto simp: pending_ours_def)

lemma place_ok_holding: "place_ok c L pl \<Longrightarrow> i \<in> set (holding pl) \<Longrightarrow> L i \<noteq> None"
  by (cases pl) (auto simp: pending_ours_def)

inductive place_step ::
    "lookup_caller \<Rightarrow> instant \<Rightarrow> (ustring \<rightharpoonup> delivery_lookup) \<Rightarrow> place \<Rightarrow> (ustring \<rightharpoonup> delivery_lookup) \<Rightarrow> place \<Rightarrow> bool"
  for c t0 where
  stay: "pl' = pl \<or> pl' = Outside \<Longrightarrow> place_step c t0 L pl L pl'"
| enter: "L i = None \<Longrightarrow> (if ours c (dl_input row) then li_outcome (dl_input row) = lookup_pending \<and> pl = Claimed i else pl = Foreign i)
    \<Longrightarrow> place_step c t0 L Outside (L(i \<mapsto> row)) pl"
| admit: "int (card {i. \<exists>row. L i = Some row \<and> counted c t0 row}) \<le> BUDGETED_LOOKUPS_PER_HOUR
    \<Longrightarrow> place_step c t0 L (Claimed i) L (Admitted i)"
| finish: "L i = Some row \<Longrightarrow> pl = Foreign i \<or> pl = Claimed i \<and> out = lookup_over_budget \<or> pl = Admitted i \<and> out = lookup_answered
    \<Longrightarrow> place_step c t0 L pl (L(i \<mapsto> settle_lookup_row out n row)) Outside"

lemma lookups_only:
  assumes "lawful_answer T req r T'" "\<And>x. req \<noteq> Api (CreateLookup x)" "\<And>i out n. req \<noteq> Api (SettleLookup i out n)"
  shows "a_lookups (t_api T') = a_lookups (t_api T)"
proof (cases req)
  case (Api q)
  with assms obtain a A where "lawful_api (t_api T) q a A" "T' = T\<lparr>t_api := A\<rparr>" by (auto simp: lawful_answer_def)
  with Api assms(2,3) show ?thesis by (cases q) (auto simp: lawful_api_def)
qed (use assms(1) in \<open>auto simp: lawful_answer_def\<close>)

lemma next_place_other:
  assumes "\<And>x. req \<noteq> Api (CreateLookup x)" "\<And>i out n. req \<noteq> Api (SettleLookup i out n)" "\<And>f. req \<noteq> Api (CountLookups f)"
  shows "next_place c pl req r = pl"
proof (cases req)
  case (Api q)
  with assms show ?thesis by (cases q) (simp_all add: next_place_def, blast+)
qed (simp_all add: next_place_def)

lemma next_place_count:
  "next_place c pl (Api (CountLookups f)) (ApiAnswer (LookupCount x)) =
     (case (pl, x) of (Claimed i, Inr n) \<Rightarrow> if n \<le> BUDGETED_LOOKUPS_PER_HOUR then Admitted i else pl | _ \<Rightarrow> pl)"
  by (cases pl; cases x) (simp_all add: next_place_def)

lemma create_moves_place:
  assumes "lawful_answer T (Api (CreateLookup x)) r T'" "ours c x \<Longrightarrow> li_outcome x = lookup_pending"
  shows "place_step c t0 (a_lookups (t_api T)) Outside (a_lookups (t_api T')) (next_place c Outside (Api (CreateLookup x)) r)"
proof -
  let ?L = "a_lookups (t_api T)"
  from assms(1) consider (refused) e where "r = ApiAnswer (LookupRow (Inl e))" "a_lookups (t_api T') = ?L"
    | (stored) i now where "r = ApiAnswer (LookupRow (Inr (new_lookup i now x)))" "?L i = None"
        "a_lookups (t_api T') = ?L(i \<mapsto> new_lookup i now x)"
    by (auto simp: lawful_answer_def lawful_api_def inserts_def)
  then show ?thesis
  proof cases
    case refused
    then show ?thesis by (simp add: next_place_def stay)
  next
    case stored
    have "dl_input (new_lookup i now x) = x" "dl_id (new_lookup i now x) = i" by (simp_all add: new_lookup_def)
    with stored show ?thesis by (auto simp: next_place_def assms(2) intro!: enter)
  qed
qed

lemma settle_moves_place:
  assumes "lawful_answer T (Api (SettleLookup i out n)) r T'"
    and "pl = Foreign i \<or> pl = Claimed i \<and> out = lookup_over_budget \<or> pl = Admitted i \<and> out = lookup_answered"
  shows "place_step c t0 (a_lookups (t_api T)) pl (a_lookups (t_api T')) Outside"
proof -
  let ?L = "a_lookups (t_api T)"
  from assms(1) consider "a_lookups (t_api T') = ?L"
    | row where "?L i = Some row" "a_lookups (t_api T') = ?L(i \<mapsto> settle_lookup_row out n row)"
    by (auto simp: lawful_answer_def lawful_api_def)
  then show ?thesis
    by cases (simp add: stay, simp only: finish [OF _ assms(2)])
qed

lemma count_moves_place:
  assumes "lawful_answer T (Api (CountLookups f)) r T'" "finite (dom (a_lookups (t_api T)))"
    and covers: "\<And>i row. pl = Claimed i \<Longrightarrow> counted c t0 row \<Longrightarrow> f row"
  shows "place_step c t0 (a_lookups (t_api T)) pl (a_lookups (t_api T')) (next_place c pl (Api (CountLookups f)) r)"
proof -
  let ?L = "a_lookups (t_api T)"
  from assms(1) obtain x where r: "r = ApiAnswer (LookupCount x)" "a_lookups (t_api T') = ?L" and n: "\<And>n. x = Inr n \<Longrightarrow> counts ?L f n"
    by (auto simp: lawful_answer_def lawful_api_def)
  have "int (card {i. \<exists>row. ?L i = Some row \<and> counted c t0 row}) \<le> BUDGETED_LOOKUPS_PER_HOUR"
    if "pl = Claimed i" "x = Inr n" "n \<le> BUDGETED_LOOKUPS_PER_HOUR" for i n
  proof -
    have "{i. \<exists>row. ?L i = Some row \<and> counted c t0 row} \<subseteq> {i. \<exists>row. ?L i = Some row \<and> f row}"
      using covers [OF that(1)] by auto
    moreover have "finite {i. \<exists>row. ?L i = Some row \<and> f row}" by (rule finite_subset [OF _ assms(2)]) auto
    ultimately have "card {i. \<exists>row. ?L i = Some row \<and> counted c t0 row} \<le> card {i. \<exists>row. ?L i = Some row \<and> f row}"
      by (rule card_mono [rotated])
    with n [OF that(2)] that(3) show ?thesis by (simp add: counts_def)
  qed
  then show ?thesis
    unfolding r next_place_count by (cases pl; cases x) (simp_all add: stay admit)
qed

lemma call_moves_place:
  assumes law: "lawful_answer T req r T'" and may: "may_ask c t0 pl req" and fin: "finite (dom (a_lookups (t_api T)))"
  shows "place_step c t0 (a_lookups (t_api T)) pl (a_lookups (t_api T')) (next_place c pl req r)"
proof -
  consider (create) x where "req = Api (CreateLookup x)" | (settle) i out n where "req = Api (SettleLookup i out n)"
    | (count) f where "req = Api (CountLookups f)"
    | (other) "\<And>x. req \<noteq> Api (CreateLookup x)" "\<And>i out n. req \<noteq> Api (SettleLookup i out n)" "\<And>f. req \<noteq> Api (CountLookups f)"
    by metis
  then show ?thesis
  proof cases
    case create
    then have "pl = Outside" "ours c x \<Longrightarrow> li_outcome x = lookup_pending" using may by (simp_all add: may_ask_def)
    then show ?thesis using create_moves_place law unfolding create by blast
  next
    case settle
    then have "next_place c pl req r = Outside" by (simp add: next_place_def)
    then show ?thesis using may settle_moves_place law unfolding settle by (simp add: may_ask_def)
  next
    case count
    then show ?thesis using may count_moves_place [OF _ fin] law by (simp add: may_ask_def)
  next
    case other
    then show ?thesis using lookups_only [OF law other(1,2)] next_place_other [OF other] by (simp add: stay)
  qed
qed

text \<open>The lookups of the caller since \<open>t0\<close> that are answered or admitted; and the invariant of the whole system.\<close>

definition within_hour :: "lookup_caller \<Rightarrow> instant \<Rightarrow> (ustring \<rightharpoonup> delivery_lookup) \<Rightarrow> place list \<Rightarrow> ustring set" where
  "within_hour c t0 L pls = {i. \<exists>row. L i = Some row \<and> ours c (dl_input row) \<and> t0 \<le> dl_createdAt row
     \<and> (li_outcome (dl_input row) = lookup_answered \<or> Admitted i \<in> set pls)}"

definition budget_inv :: "lookup_caller \<Rightarrow> instant \<Rightarrow> (ustring \<rightharpoonup> delivery_lookup) \<Rightarrow> place list \<Rightarrow> bool" where
  "budget_inv c t0 L pls \<longleftrightarrow> finite (dom L) \<and> (\<forall>pl \<in> set pls. place_ok c L pl) \<and> distinct (concat (map holding pls))
     \<and> int (card (within_hour c t0 L pls)) \<le> BUDGETED_LOOKUPS_PER_HOUR"

lemma budget_inv_shrink:
  assumes "finite (dom L)" "int (card (within_hour c t0 L pls)) \<le> BUDGETED_LOOKUPS_PER_HOUR" "within_hour c t0 L' pls' \<subseteq> within_hour c t0 L pls"
  shows "int (card (within_hour c t0 L' pls')) \<le> BUDGETED_LOOKUPS_PER_HOUR"
proof -
  have "finite (within_hour c t0 L pls)" by (rule finite_subset [OF _ assms(1)]) (auto simp: within_hour_def)
  from card_mono [OF this assms(3)] assms(2) show ?thesis by simp
qed

lemma distinct_holding [simp]: "distinct (holding pl)"
  by (cases pl) simp_all

lemma budget_inv_insert:
  "budget_inv c t0 L (as @ pl # bs) \<longleftrightarrow> finite (dom L) \<and> place_ok c L pl \<and> (\<forall>q \<in> set (as @ bs). place_ok c L q)
     \<and> distinct (concat (map holding (as @ bs))) \<and> (\<forall>q \<in> set (as @ bs). \<forall>i \<in> set (holding pl). i \<notin> set (holding q))
     \<and> int (card (within_hour c t0 L (as @ pl # bs))) \<le> BUDGETED_LOOKUPS_PER_HOUR"
  unfolding budget_inv_def by auto

lemma budget_inv_drop:
  assumes "budget_inv c t0 L (as @ pl # bs)"
  shows "budget_inv c t0 L (as @ bs)"
proof -
  have "within_hour c t0 L (as @ bs) \<subseteq> within_hour c t0 L (as @ pl # bs)" by (auto simp: within_hour_def)
  then have "int (card (within_hour c t0 L (as @ bs))) \<le> BUDGETED_LOOKUPS_PER_HOUR"
    using assms unfolding budget_inv_insert by (blast intro: budget_inv_shrink)
  with assms show ?thesis unfolding budget_inv_insert by (simp add: budget_inv_def)
qed

lemma budget_inv_outside: "budget_inv c t0 L (as @ bs) \<Longrightarrow> budget_inv c t0 L (as @ Outside # bs)"
  unfolding budget_inv_def within_hour_def by simp

text \<open>A write to one row that none of the other processes holds.\<close>

lemma budget_inv_write:
  assumes inv: "budget_inv c t0 L (as @ pl # bs)" and L': "L' = L(i \<mapsto> row)"
    and apart: "\<And>q. q \<in> set (as @ bs) \<Longrightarrow> i \<notin> set (holding q)"
    and ok: "place_ok c L' pl'" "set (holding pl') \<subseteq> {i}" "pl' \<noteq> Admitted i"
    and shrinks: "ours c (dl_input row) \<Longrightarrow> t0 \<le> dl_createdAt row \<Longrightarrow> li_outcome (dl_input row) = lookup_answered
      \<Longrightarrow> i \<in> within_hour c t0 L (as @ pl # bs)"
  shows "budget_inv c t0 L' (as @ pl' # bs)"
proof -
  note old = inv [unfolded budget_inv_insert]
  have others: "\<forall>q \<in> set (as @ bs). place_ok c L' q"
    using old apart unfolding L' by (blast intro: place_ok_update)
  have sub: "within_hour c t0 L' (as @ pl' # bs) \<subseteq> within_hour c t0 L (as @ pl # bs)"
  proof
    fix j
    assume j: "j \<in> within_hour c t0 L' (as @ pl' # bs)"
    show "j \<in> within_hour c t0 L (as @ pl # bs)"
    proof (cases "j = i")
      case True
      have "Admitted i \<notin> set (as @ pl' # bs)" using apart ok(3) by fastforce
      with j True shrinks show ?thesis unfolding within_hour_def L' by auto
    next
      case False
      then have "Admitted j \<noteq> pl'" using ok(2) by auto
      with j False show ?thesis unfolding within_hour_def L' by auto
    qed
  qed
  then have "int (card (within_hour c t0 L' (as @ pl' # bs))) \<le> BUDGETED_LOOKUPS_PER_HOUR"
    using old by (blast intro: budget_inv_shrink)
  moreover have "finite (dom L')" using old by (simp add: L')
  ultimately show ?thesis
    using old ok(1,2) others apart unfolding budget_inv_insert by blast
qed

lemma settled_input: "dl_input (settle_lookup_row out n row) = (dl_input row)\<lparr>li_outcome := out, li_resultCount := n\<rparr>"
  "dl_createdAt (settle_lookup_row out n row) = dl_createdAt row"
  "ours c (x\<lparr>li_outcome := out, li_resultCount := n\<rparr>) = ours c x"
  by (simp_all add: settle_lookup_row_def ours_def)

lemma budget_inv_admit:
  assumes "budget_inv c t0 L (as @ Claimed i # bs)"
    and "int (card {i. \<exists>row. L i = Some row \<and> counted c t0 row}) \<le> BUDGETED_LOOKUPS_PER_HOUR"
  shows "budget_inv c t0 L (as @ Admitted i # bs)"
proof -
  note old = assms(1) [unfolded budget_inv_insert]
  let ?C = "{i. \<exists>row. L i = Some row \<and> counted c t0 row}"
  have held: "pending_ours c L j" if "Admitted j \<in> set (as @ Admitted i # bs)" for j
  proof (cases "Admitted j \<in> set (as @ bs)")
    case True
    with old have "place_ok c L (Admitted j)" by blast
    then show ?thesis by simp
  next
    case False
    with that have "j = i" by simp
    with old show ?thesis by simp
  qed
  have "within_hour c t0 L (as @ Admitted i # bs) \<subseteq> ?C"
  proof
    fix j
    assume "j \<in> within_hour c t0 L (as @ Admitted i # bs)"
    then obtain row where "L j = Some row" "ours c (dl_input row)" "t0 \<le> dl_createdAt row"
      "li_outcome (dl_input row) = lookup_answered \<or> Admitted j \<in> set (as @ Admitted i # bs)"
      unfolding within_hour_def by blast
    with held [of j] show "j \<in> ?C" by (auto simp: counted_ours pending_ours_def simp del: set_append)
  qed
  moreover have "finite ?C" by (rule finite_subset [where B = "dom L"]) (use old in auto)
  ultimately have "card (within_hour c t0 L (as @ Admitted i # bs)) \<le> card ?C" by (rule card_mono [rotated])
  then have "int (card (within_hour c t0 L (as @ Admitted i # bs))) \<le> BUDGETED_LOOKUPS_PER_HOUR" using assms(2) by simp
  with old show ?thesis unfolding budget_inv_insert by simp
qed

lemma budget_inv_step:
  assumes "place_step c t0 L pl L' pl'" "budget_inv c t0 L (as @ pl # bs)"
  shows "budget_inv c t0 L' (as @ pl' # bs)"
  using assms(1)
proof cases
  case stay
  then show ?thesis using assms(2) budget_inv_outside [OF budget_inv_drop [OF assms(2)]] by auto
next
  case (enter i row)
  have "i \<notin> set (holding q)" if "q \<in> set (as @ bs)" for q
    using place_ok_holding enter(3) that assms(2) unfolding budget_inv_insert by blast
  moreover have "place_ok c L' pl'" "set (holding pl') \<subseteq> {i}" "pl' \<noteq> Admitted i"
    "ours c (dl_input row) \<Longrightarrow> li_outcome (dl_input row) \<noteq> lookup_answered"
    using enter(2,4) by (auto simp: pending_ours_def split: if_splits)
  ultimately show ?thesis using budget_inv_write [OF assms(2) enter(2)] by blast
next
  case (admit i)
  then show ?thesis using budget_inv_admit assms(2) by simp
next
  case (finish i row out n)
  have i: "i \<in> set (holding pl)" using finish(4) by auto
  then have apart: "j \<noteq> i" if "q \<in> set (as @ bs)" "j \<in> set (holding q)" for q j
    using assms(2) that unfolding budget_inv_insert by blast
  have foreign: "\<not> ours c (dl_input row)" if "pl = Foreign i" using that assms(2) finish(3) by (auto simp: budget_inv_insert)
  have "i \<in> within_hour c t0 L (as @ pl # bs)"
    if "ours c (dl_input (settle_lookup_row out n row))" "t0 \<le> dl_createdAt (settle_lookup_row out n row)"
      "li_outcome (dl_input (settle_lookup_row out n row)) = lookup_answered"
    using that finish(3,4) foreign by (auto simp: within_hour_def settled_input)
  then show ?thesis using budget_inv_write [OF assms(2) finish(1)] apart unfolding finish(2) by fastforce
qed

text \<open>Calls of the procedure, by anybody with any question.\<close>

inductive_set lookup_calls :: "api_env \<Rightarrow> unit prog set" for E where
  lookup_call: "bind_prog (lookup_delivery_status E ctx args) (\<lambda>_. Ret ()) \<in> lookup_calls E"

lemma heardI:
  assumes "lawful_answer T req r T'" "\<And>t. req = ReqNow \<Longrightarrow> r = Time t \<Longrightarrow> t \<le> t0 + hours 1"
  shows "heard t0 req r"
proof (cases req)
  case ReqNow
  with assms show ?thesis by (auto simp: heard_def lawful_answer_def)
next
  case (Api q)
  show ?thesis
  proof (cases q)
    case (CreateLookup x)
    with Api assms(1) show ?thesis by (auto simp: heard_def lawful_answer_def lawful_api_def)
  qed (simp_all add: heard_def Api)
qed (simp_all add: heard_def)

lemma lookups_keep_budget:
  assumes "lawful answers" "add_lawful E" "\<forall>T t T'. answers T ReqNow (Time t) T' \<longrightarrow> t \<le> t0 + hours 1"
    and "budget_inv c t0 (a_lookups (t_api T0)) []" "reachable answers (lookup_calls E) T0 (T, ps)"
  shows "\<exists>ts. ps = map fst ts \<and> (\<forall>(p, pl) \<in> set ts. tracks c t0 p (\<lambda>_ _. True) pl) \<and> budget_inv c t0 (a_lookups (t_api T)) (map snd ts)"
  using assms(5) unfolding reachable_def
proof (induction "(T, ps)" arbitrary: T ps rule: rtranclp_induct)
  case base
  then show ?case using assms(4) by (intro exI [of _ "[]"]) simp
next
  case (step cfg)
  obtain U us where cfg: "cfg = (U, us)" by (cases cfg)
  from step.hyps(3) [OF cfg] obtain ts where us: "us = map fst ts" and tr: "\<forall>(p, pl) \<in> set ts. tracks c t0 p (\<lambda>_ _. True) pl"
    and inv: "budget_inv c t0 (a_lookups (t_api U)) (map snd ts)" by blast
  from step.hyps(2) [unfolded cfg] show ?case
  proof (cases rule: sys_step.cases)
    case (spawn p)
    then have "tracks c t0 p (\<lambda>_ _. True) Outside" using tracks_delivery_status [OF assms(2)] by (auto elim!: lookup_calls.cases)
    then show ?thesis
      using spawn us tr inv budget_inv_outside [of c t0 _ "[]"] by (intro exI [of _ "(p, Outside) # ts"]) auto
  next
    case (crash as p bs)
    with us obtain ts1 q ts2 where "ts = ts1 @ q # ts2" "as = map fst ts1" "bs = map fst ts2"
      by (auto simp: map_eq_append_conv append_eq_map_conv map_eq_Cons_conv Cons_eq_map_conv)
    then show ?thesis
      using crash tr inv budget_inv_drop [of c t0 _ "map snd ts1" "snd q"] by (intro exI [of _ "ts1 @ ts2"]) auto
  next
    case (call req r as k bs)
    with us obtain ts1 pl ts2 where ts: "ts = ts1 @ (Call req k, pl) # ts2" and rest: "as = map fst ts1" "bs = map fst ts2"
      by (auto simp: map_eq_append_conv append_eq_map_conv map_eq_Cons_conv Cons_eq_map_conv)
    from call(3) assms(1) have law: "lawful_answer U req r T" by (simp add: lawful_def)
    from tr ts have may: "may_ask c t0 pl req" and next_tracks: "heard t0 req r \<Longrightarrow> tracks c t0 (k r) (\<lambda>_ _. True) (next_place c pl req r)"
      by auto
    have "heard t0 req r"
      by (rule heardI [OF law]) (use call(3) assms(3) in blast)
    moreover have "budget_inv c t0 (a_lookups (t_api T)) (map snd ts1 @ next_place c pl req r # map snd ts2)"
    proof (rule budget_inv_step [OF call_moves_place [OF law may]])
      show "finite (dom (a_lookups (t_api U)))" using inv by (simp add: budget_inv_def)
      show "budget_inv c t0 (a_lookups (t_api U)) (map snd ts1 @ pl # map snd ts2)" using inv ts by simp
    qed
    ultimately show ?thesis
      using call rest tr ts next_tracks by (intro exI [of _ "ts1 @ (k r, next_place c pl req r) # ts2"]) auto
  qed
qed

subsection \<open>Properties\<close>


text \<open>C12: The budget holds under any race, without a lock. Any number of lookups by anybody run interleaved, killed
  at will, while the clock stays within the hour after \<open>t0\<close>. If at most sixty budgeted lookups of a caller
  created since \<open>t0\<close> are answered at the beginning, then at most sixty are answered at every later moment.\<close>

theorem budget_holds_under_races:
  assumes "lawful answers" "add_lawful E" "\<forall>T t T'. answers T ReqNow (Time t) T' \<longrightarrow> t \<le> t0 + hours 1"
    and "finite (dom (a_lookups (t_api T0)))" "card (within_hour c t0 (a_lookups (t_api T0)) []) \<le> 60"
    and "reachable answers (lookup_calls E) T0 (T, ps)"
  shows "card {i. \<exists>row. a_lookups (t_api T) i = Some row \<and> t0 \<le> dl_createdAt row
      \<and> li_actorSub (dl_input row) = lc_sub c \<and> li_actorKind (dl_input row) = caller_kind c
      \<and> li_keyKind (dl_input row) \<in> set (budgeted_kinds c) \<and> li_outcome (dl_input row) = lookup_answered} \<le> 60"
proof -
  have "budget_inv c t0 (a_lookups (t_api T0)) []"
    using assms(4,5) by (simp add: budget_inv_def BUDGETED_LOOKUPS_PER_HOUR_def)
  from lookups_keep_budget [OF assms(1-3) this assms(6)] obtain pls where inv: "budget_inv c t0 (a_lookups (t_api T)) pls" by blast
  let ?A = "{i. \<exists>row. a_lookups (t_api T) i = Some row \<and> t0 \<le> dl_createdAt row
      \<and> li_actorSub (dl_input row) = lc_sub c \<and> li_actorKind (dl_input row) = caller_kind c
      \<and> li_keyKind (dl_input row) \<in> set (budgeted_kinds c) \<and> li_outcome (dl_input row) = lookup_answered}"
  have "finite (within_hour c t0 (a_lookups (t_api T)) pls)"
    by (rule finite_subset [where B = "dom (a_lookups (t_api T))"]) (use inv in \<open>auto simp: within_hour_def budget_inv_def\<close>)
  moreover have "?A \<subseteq> within_hour c t0 (a_lookups (t_api T)) pls" by (auto simp: within_hour_def ours_def)
  ultimately have "card ?A \<le> card (within_hour c t0 (a_lookups (t_api T)) pls)" by (rule card_mono)
  with inv show ?thesis by (simp add: budget_inv_def BUDGETED_LOOKUPS_PER_HOUR_def)
qed

subsection \<open>Witnesses\<close>

definition demo_enquirer :: cs_context where
  "demo_enquirer = context_for (AppStanding (demo_standing\<lparr>as_scopes := lit '' delivery:read ''\<rparr>))"

definition demo_enquiry :: status_query where
  "demo_enquiry = \<lparr>dq_messageId = None, dq_appId = None, dq_clientRef = None, dq_msisdn = Some (lit ''+237 677 12 34 56''),
     dq_since = None, dq_until = None, dq_limit = None\<rparr>"

definition demo_asker :: lookup_caller where
  "demo_asker = \<lparr>lc_sub = lit ''appc_1'', lc_role = lit ''app'', lc_asker = AppKey (lit ''a1'')\<rparr>"

definition demo_plan :: lookup_plan where
  "demo_plan = \<lparr>lp_key = ByMsisdn (e164 demo_number), lp_app_id = Some (lit ''a1''), lp_since = Some (5 - days 7), lp_until = Some 5, lp_limit = 10\<rparr>"

definition demo_found :: message where
  "demo_found = demo_message\<lparr>msg_msisdnHash := keyed_hash_hex demo_api_env (e164 demo_number)\<rparr>"

definition demo_trail_tables :: tables where
  "demo_trail_tables = demo_send_tables\<lparr>t_messages := [lit ''m1'' \<mapsto> demo_found]\<rparr>"

lemma demo_enquirer_may: "require_permission d demo_enquirer (lit ''delivery:read'') = Inr ()"
proof -
  have "context_scope demo_enquirer = Some (lit '' delivery:read '')"
    by (simp add: context_scope_def demo_enquirer_def context_for_def into_context_granting_def lit_inject del: lit_Cons)
  moreover have "contains (lit '' delivery:read '') (lit ''delivery:read'')"
    by (simp add: contains_def unpack_def split_whitespace_def is_whitespace_def)
  ultimately show ?thesis by (simp add: require_permission_def holds_def del: lit_Cons)
qed

lemma demo_enquirer_caller: "caller_of demo_enquirer = Inr demo_asker"
proof -
  have "text_field demo_enquirer (lit ''sub'') = Some (lit ''appc_1'')" "text_field demo_enquirer (lit ''role'') = Some (lit ''app'')"
    "text_field demo_enquirer (lit ''kind'') = Some (lit ''app'')" "text_field demo_enquirer (lit ''appId'') = Some (lit ''a1'')"
    by (simp_all add: text_field_def demo_enquirer_def context_for_def into_context_granting_def demo_standing_def lit_inject del: lit_Cons)
  moreover have "lit ''appc_1'' \<noteq> []" "lit ''a1'' \<noteq> []" by simp_all
  ultimately show ?thesis
    by (simp add: caller_of_def nonempty_field_def field_or_default_def demo_asker_def Let_def del: lit_Cons)
qed

lemma demo_enquiry_plan: "from_args demo_api_env demo_enquiry (AppKey (lit ''a1'')) 5 = Some (Inr demo_plan)"
proof -
  have "is_cuid (lit ''a1'')" by (simp add: is_cuid_def byte_len_def len_utf8_def)
  then have app: "planned_app (AppKey (lit ''a1'')) None = Inr (Some (lit ''a1''))" by (simp add: planned_app_def del: lit_Cons)
  have key: "planned_key demo_api_env demo_enquiry (Some (lit ''a1'')) = Inr (ByMsisdn (e164 demo_number))"
    using demo_number_parsed by (simp add: planned_key_def demo_enquiry_def map_err_def del: lit_Cons)
  have win: "planned_window demo_api_env (ByMsisdn n) None None 5 = Some (Some (5 - days 7), Some 5)" for n
    by (simp add: planned_window_def demo_api_env_def DEFAULT_WINDOW_DAYS_def)
  have "check_window demo_api_env (ByMsisdn n) (Some (5 - days 7)) (Some 5) 5 = Some (Inr ())" for n
    by (simp add: check_window_def demo_api_env_def MAX_WINDOW_DAYS_def days_def hours_def minutes_def secs_def)
  moreover have "planned_limit demo_enquiry = 10" by (simp add: planned_limit_def demo_enquiry_def DEFAULT_LIMIT_def)
  moreover have "dq_appId demo_enquiry = None" "dq_since demo_enquiry = None" "dq_until demo_enquiry = None"
    "dq_messageId demo_enquiry = None" "dq_clientRef demo_enquiry = None" "dq_msisdn demo_enquiry \<noteq> None" by (simp_all add: demo_enquiry_def)
  ultimately show ?thesis
    by (simp add: from_args_def app key win demo_plan_def MAX_LIMIT_def del: lit_Cons)
qed

definition demo_trail :: "lookup_outcome \<Rightarrow> int option \<Rightarrow> delivery_lookup" where
  "demo_trail out n = new_lookup (lit ''dl1'') 5 (account demo_api_env demo_asker demo_plan out n)"

definition demo_statuses :: status_result where
  "demo_statuses = \<lparr>dr_statuses = [status_of demo_api_env demo_found None], dr_truncated = False\<rparr>"

definition demo_answered_tables :: tables where
  "demo_answered_tables = with_lookup demo_trail_tables (lit ''dl1'') (demo_trail lookup_answered (Some 1))"

lemma demo_trail_rows:
  "t_messages demo_trail_tables = [lit ''m1'' \<mapsto> demo_found]" "a_lookups (t_api demo_trail_tables) = (\<lambda>_. None)"
  "msg_id demo_found = lit ''m1''" "message_filter demo_api_env demo_plan demo_found"
  by (simp_all add: demo_trail_tables_def demo_send_tables_def no_api_rows_def demo_found_def demo_message_def
      message_filter_def demo_plan_def days_def hours_def minutes_def secs_def del: lit_Cons)

lemma demo_claims:
  assumes "\<And>T req r T'. lawful_answer T req r T' \<Longrightarrow> req \<noteq> ReqNow \<Longrightarrow> answers T req r T'"
  shows "alone answers demo_trail_tables (claim_place demo_api_env demo_asker demo_plan 5)
    (with_lookup demo_trail_tables (lit ''dl1'') (demo_trail lookup_pending None)) (Inr (Some (lit ''dl1'')))"
proof -
  let ?V = "with_lookup demo_trail_tables (lit ''dl1'') (demo_trail lookup_pending None)" and ?x = "account demo_api_env demo_asker demo_plan lookup_pending None"
  let ?f = "counted demo_asker (5 + - hours 1)"
  define n where "n = int (card {i. \<exists>r. a_lookups (t_api ?V) i = Some r \<and> ?f r})"
  have "lawful_answer demo_trail_tables (Api (CreateLookup ?x)) (ApiAnswer (LookupRow (Inr (demo_trail lookup_pending None)))) ?V"
    unfolding lawful_answer_def request.case lawful_api_def api_request.case
    by (intro exI conjI refl disjI2) (simp_all add: inserts_def demo_trail_rows demo_trail_def)
  from assms [OF this] have create: "alone answers demo_trail_tables (create_lookup ?x) ?V (Inr (demo_trail lookup_pending None))"
    unfolding create_lookup_def by (rule alone_call [OF meta_mp]) simp_all
  have "lawful_answer ?V (Api (CountLookups ?f)) (ApiAnswer (LookupCount (Inr n))) ?V"
    by (simp add: lawful_answer_def lawful_api_def counts_def n_def)
  from assms [OF this] have count: "alone answers ?V (count_lookups ?f) ?V (Inr n)"
    unfolding count_lookups_def by (rule alone_call [OF meta_mp]) simp_all
  have "n \<le> int (card {lit ''dl1''})" unfolding n_def
    by (intro of_nat_mono card_mono) (auto simp: demo_trail_rows split: if_splits simp del: lit_Cons)
  then have le: "\<not> BUDGETED_LOOKUPS_PER_HOUR < n" by (simp add: BUDGETED_LOOKUPS_PER_HOUR_def)
  have hour: "ae_add demo_api_env 5 (- hours 1) = Some (5 + - hours 1)" by (simp add: demo_api_env_def)
  have own: "dl_id (demo_trail lookup_pending None) = lit ''dl1''" by (simp add: demo_trail_def new_lookup_def del: lit_Cons)
  have "alone answers demo_trail_tables (claim_budget demo_api_env demo_asker demo_plan 5) ?V (Inr (lit ''dl1''))"
    unfolding claim_budget_def hour option.case
    by (rule alone_tryI, rule create, rule alone_tryI, rule count) (simp only: le if_False own alone_Ret simp_thms)
  moreover have "budgeted demo_asker (lp_key demo_plan)" by (simp add: budgeted_def demo_plan_def)
  ultimately show ?thesis
    unfolding claim_place_def by (simp only: if_True) (erule alone_tryI, simp only: alone_Ret simp_thms)
qed

lemma demo_reads:
  assumes "\<And>T req r T'. lawful_answer T req r T' \<Longrightarrow> req \<noteq> ReqNow \<Longrightarrow> answers T req r T'" "t_messages T = [lit ''m1'' \<mapsto> demo_found]"
  shows "alone answers T (read_statuses demo_api_env demo_plan) T (Inr demo_statuses)"
proof -
  have limit: "lp_limit demo_plan = 10" "usize_or_max 10 = 10" by (simp_all add: demo_plan_def usize_or_max_def)
  have "lawful_answer T (FindMessages (message_filter demo_api_env demo_plan) [Desc (\<lambda>m. Some (KInt (msg_createdAt m)))] (Some 11))
      (Messages (Inr [demo_found])) T"
    using assms(2) by (simp add: lawful_answer_def in_limit_def demo_trail_rows del: lit_Cons)
  from assms(1) [OF this] have found: "alone answers T (find_messages (message_filter demo_api_env demo_plan)
      [Desc (\<lambda>m. Some (KInt (msg_createdAt m)))] (Some 11)) T (Inr [demo_found])"
    unfolding find_messages_def by (rule alone_call [OF meta_mp]) simp_all
  have "lawful_answer T (FindReceipts (\<lambda>row. rec_messageId (sr_input row) \<in> set [msg_id demo_found])
      [Desc (\<lambda>row. Some (KInt (sr_receivedAt row)))] None) (Receipts (Inr [])) T"
    by (simp add: lawful_answer_def in_limit_def)
  from assms(1) [OF this] have "alone answers T (find_receipts (\<lambda>row. rec_messageId (sr_input row) \<in> set [msg_id demo_found])
      [Desc (\<lambda>row. Some (KInt (sr_receivedAt row)))] None) T (Inr [])"
    unfolding find_receipts_def by (rule alone_call [OF meta_mp]) simp_all
  then have "alone answers T (newest_receipts [msg_id demo_found]) T (Inr (\<lambda>_. None))"
    unfolding newest_receipts_def by (simp only: list.distinct if_False) (erule alone_tryI, simp)
  moreover have "(10 :: int) + 1 = 11" "take 10 [demo_found] = [demo_found]" by simp_all
  ultimately show ?thesis
    unfolding read_statuses_def limit Let_def
    by (simp only:) (rule alone_tryI [OF found], simp only: list.map \<open>take 10 [demo_found] = [demo_found]\<close>, erule alone_tryI,
        simp add: demo_statuses_def)
qed

lemma demo_lookup_run:
  assumes "\<And>T req r T'. lawful_answer T req r T' \<Longrightarrow> req \<noteq> ReqNow \<Longrightarrow> answers T req r T'"
    and "alone answers demo_trail_tables utc_now demo_trail_tables 5"
  shows "alone answers demo_trail_tables (lookup_delivery_status demo_api_env demo_enquirer demo_enquiry) demo_answered_tables (Inr demo_statuses)"
proof -
  let ?V = "with_lookup demo_trail_tables (lit ''dl1'') (demo_trail lookup_pending None)"
  have count: "i64_of (length (dr_statuses demo_statuses)) = 1" by (simp add: demo_statuses_def i64_of_def)
  have settled: "settle_lookup_row lookup_answered (Some 1) (demo_trail lookup_pending None) = demo_trail lookup_answered (Some 1)"
    by (simp add: demo_trail_def settle_account del: lit_Cons)
  have "lawful_answer ?V (Api (SettleLookup (lit ''dl1'') lookup_answered (Some 1)))
      (ApiAnswer (LookupRow (Inr (demo_trail lookup_answered (Some 1))))) demo_answered_tables"
    by (simp add: lawful_answer_def lawful_api_def settled demo_answered_tables_def del: lit_Cons)
  from assms(1) [OF this] have "alone answers ?V (settle_lookup (lit ''dl1'') lookup_answered (Some 1)) demo_answered_tables
      (Inr (demo_trail lookup_answered (Some 1)))"
    unfolding settle_lookup_def by (rule alone_call [OF meta_mp]) simp_all
  then have written: "alone answers ?V (record_answer demo_api_env demo_asker demo_plan (Some (lit ''dl1'')) 1) demo_answered_tables (Inr ())"
    unfolding record_answer_def settle_def option.case by (rule alone_tryI) simp
  have claims: "alone answers demo_trail_tables (claim_place demo_api_env demo_asker demo_plan 5) ?V (Inr (Some (lit ''dl1'')))"
    by (rule demo_claims) (rule assms(1))
  have reads: "alone answers ?V (read_statuses demo_api_env demo_plan) ?V (Inr demo_statuses)"
    by (rule demo_reads, rule assms(1)) (simp_all add: demo_trail_rows del: lit_Cons)
  have "alone answers demo_trail_tables (answer_plan demo_api_env demo_asker demo_plan 5) demo_answered_tables (Inr demo_statuses)"
    unfolding answer_plan_def
    by (rule alone_tryI [OF claims], rule alone_tryI [OF reads]) (simp only: count, rule alone_tryI [OF written], rule alone_ret)
  moreover have "lc_asker demo_asker = AppKey (lit ''a1'')" by (simp add: demo_asker_def)
  ultimately have "alone answers demo_trail_tables (lookup_statuses demo_api_env demo_enquirer demo_enquiry 5) demo_answered_tables (Inr demo_statuses)"
    unfolding lookup_statuses_def demo_enquirer_caller
    by (intro alone_tryI [OF alone_ret]) (simp only: demo_enquiry_plan option.case, rule alone_tryI [OF alone_ret])
  then show ?thesis
    unfolding lookup_delivery_status_def demo_enquirer_may by (intro alone_tryI [OF alone_ret] alone_bindI [OF assms(2)])
qed


text \<open>A program that runs alone, as the only process of a system.\<close>

lemma run_alone:
  "alone answers T p V x \<Longrightarrow> (sys_step answers Start)\<^sup>*\<^sup>* (T, [bind_prog p f]) (V, [f x])"
proof (induction rule: alone.induct)
  case (alone_call T req r T' k U x)
  have "sys_step answers Start (T, [Call req (\<lambda>r. bind_prog (k r) f)]) (T', [bind_prog (k r) f])"
    using sys_step.call [of answers T req r T' Start "[]" "\<lambda>r. bind_prog (k r) f" "[]"] alone_call.hyps(1) by simp
  then show ?case
    using alone_call.IH by (simp add: converse_rtranclp_into_rtranclp)
qed simp

theorem budget_holds_under_races_witness:
  "\<exists>ps. reachable (clocked 5 lawful_answer) (lookup_calls demo_api_env) demo_trail_tables (demo_answered_tables, ps)
    \<and> card {i. \<exists>row. a_lookups (t_api demo_answered_tables) i = Some row \<and> 0 \<le> dl_createdAt row
      \<and> li_actorSub (dl_input row) = lc_sub demo_asker \<and> li_actorKind (dl_input row) = caller_kind demo_asker
      \<and> li_keyKind (dl_input row) \<in> set (budgeted_kinds demo_asker) \<and> li_outcome (dl_input row) = lookup_answered} \<le> 60"
proof -
  let ?W = "clocked 5 lawful_answer" and ?S = "lookup_calls demo_api_env"
  have run: "alone ?W demo_trail_tables (lookup_delivery_status demo_api_env demo_enquirer demo_enquiry) demo_answered_tables (Inr demo_statuses)"
    by (rule demo_lookup_run) (simp_all add: clocked_answers clocked_nowI)
  have "sys_step ?W ?S (demo_trail_tables, [])
      (demo_trail_tables, [bind_prog (lookup_delivery_status demo_api_env demo_enquirer demo_enquiry) (\<lambda>_. Ret ())])"
    by (intro sys_step.spawn lookup_calls.lookup_call)
  from this run_alone [OF run] have reach: "reachable ?W ?S demo_trail_tables (demo_answered_tables, [Ret ()])"
    unfolding reachable_def by (rule converse_rtranclp_into_rtranclp)
  have add: "add_lawful demo_api_env" by (simp add: add_lawful_def demo_api_env_def)
  have clock: "\<forall>T t T'. ?W T ReqNow (Time t) T' \<longrightarrow> t \<le> 0 + hours 1" by (simp add: clocked_def hours_def minutes_def secs_def)
  have empty: "finite (dom (a_lookups (t_api demo_trail_tables)))" "card (within_hour demo_asker 0 (a_lookups (t_api demo_trail_tables)) []) \<le> 60"
    by (simp_all add: demo_trail_rows within_hour_def)
  from budget_holds_under_races [OF lawful_clocked add clock empty reach] reach show ?thesis by blast
qed

lemma obeys_Panic: "obeys api_rules Panic"
  by (simp add: obeys_def)

lemma obeys_delivery_status: "obeys api_rules (lookup_delivery_status E ctx args)"
  unfolding lookup_delivery_status_def lookup_statuses_def answer_plan_def claim_place_def claim_budget_def read_statuses_def record_answer_def
    newest_receipts_def settle_def Let_def
  by (auto intro!: obeys_intros obeys_Panic split: option.split)

end
