(* ===== verification/Gateway.thy ===== *)
theory Gateway
  imports Dispatch Dlr Hooks Scheduler Retention Keys Delivery_Status
begin

text \<open>
  The system as a whole: any number of dispatch, job, webhook and scheduler polls, provider callbacks and calls of the
  API's procedures (a panic of \<^verbatim>\<open>send\<close> or of a delivery lookup ends its own request only), run interleaved over the shared
  tables, started at any time and killed between any two calls. Every program of the system keeps the rules of
  \<^verbatim>\<open>Claim\<close>, so the locale \<open>protocol\<close> applies, and the properties of every interleaving follow.
\<close>

subsection \<open>What runs\<close>

text \<open>\<^verbatim>\<open>jobs::default_registry\<close>. The handlers of \<^verbatim>\<open>reap_outbox\<close>,
  \<^verbatim>\<open>anchor_audit\<close> and \<^verbatim>\<open>grey_route_watch\<close> are parameters.\<close>

definition default_registry ::
    "env \<Rightarrow> ustring \<times> job_handler \<Rightarrow> ustring \<times> job_handler \<Rightarrow> ustring \<times> job_handler \<Rightarrow> registry" where
  "default_registry E ReapOutbox AnchorAudit GreyRouteWatch =
     register SweepEnvelopeNonces (register GreyRouteWatch (register AnchorAudit (register PurgeRetention
       (register ReapOutbox (register (ExpireStale E) registry_new)))))"

lemma safe_default_registry:
  assumes "\<And>h j K. h \<in> {R, A, G} \<Longrightarrow> wp worker_rules (snd h j) K (\<lambda>_ _. True)"
  shows "safe_registry (default_registry E R A G)"
  unfolding default_registry_def
  by (intro safe_register safe_registry_new safe_ExpireStale safe_PurgeRetention safe_SweepEnvelopeNonces assms) simp_all

definition as_process :: "'a prog \<Rightarrow> unit prog" where
  "as_process p = bind_prog p (\<lambda>_. Ret ())"

text \<open>Polls of the roles, for any worker name, adapters, keys and registry of safe handlers, the scheduler's with any
  times it remembers, and callbacks of any provider with any adapter's parser.\<close>

inductive_set gateway :: "unit prog set" where
  dispatch_poll: "as_process (dispatch_tick E ctx worker) \<in> gateway"
| jobs_poll: "safe_registry R \<Longrightarrow> as_process (jobs_tick E R worker) \<in> gateway"
| hooks_poll: "as_process (hooks_tick H hctx worker) \<in> gateway"
| sealed_watch: "as_process (fst (sealed_backlog_report hctx thr now)) \<in> gateway"
| hmac_watch: "as_process (fst (hmac_backlog_report hctx thr now)) \<in> gateway"
| scheduler_start: "as_process (seed_last_enqueued specs seen) \<in> gateway"
| scheduler_poll: "as_process (scheduler_tick specs seen) \<in> gateway"
| callback: "as_process (ingest E parse provider_row_id raw) \<in> gateway"
| sends: "contain (send_message A st caller text) \<in> gateway"
| requeues: "as_process (requeue A ts caller job_key) \<in> gateway"
| replays: "as_process (replay_attempt A ts h caller attempt_key) \<in> gateway"
| rotates: "as_process (rotate_secret A h bytes caller endpoint_key) \<in> gateway"
| switches: "as_process (switch_mode A ts h sealable url_parse bytes caller change) \<in> gateway"
| opts_out: "as_process (create_opt_out_entry A ts caller opt) \<in> gateway"
| searches: "as_process (search_opt_out A caller number) \<in> gateway"
| provisions: "as_process (provision_console_user A ts uuid caller person) \<in> gateway"
| lists_receipts: "as_process (message_receipts A caller message_key) \<in> gateway"
| shows_dashboard: "as_process (dashboard_snapshot A pol cache caller) \<in> gateway"
| looks_up: "contain (lookup_delivery_status A caller query) \<in> gateway"
| simulates: "as_process (simulate A st caller question) \<in> gateway"
| provisions_client: "as_process (provision_client A KL ts uuid new_client) \<in> gateway"
| registers_key: "as_process (client_register KL who new_key) \<in> gateway"
| revokes_key: "as_process (client_revoke key_id) \<in> gateway"
| pairs_console: "as_process (register_console_key KL uuids caller pairing) \<in> gateway"
| pairs_owner: "as_process (pair_existing_user A KL subject key_text label now) \<in> gateway"
| revokes_console: "as_process (console_revoke key_id) \<in> gateway"

lemma wp_as_process: "wp P p K (\<lambda>_ _. True) \<Longrightarrow> wp P (as_process p) K (\<lambda>_ _. True)"
  by (simp add: as_process_def)

interpretation system: protocol worker_rules lawful_answer gateway
proof
  show "lawful lawful_answer" by (rule lawful_permissive)
  show "wp worker_rules p no_snaps (\<lambda>_ _. True)" if "p \<in> gateway" for p
    using that
    by cases (auto intro!: wp_as_process wp_dispatch_tick wp_jobs_tick wp_hooks_tick wp_backlog_reports wp_seed
        wp_scheduler_tick wp_ingest wp_contain [OF obeysD [OF obeys_send]]
        wp_contain [OF obeysD [OF obeys_delivery_status]]
        obeysD [OF obeys_requeue] obeysD [OF obeys_replay] obeysD [OF obeys_endpoint_operations(1)]
        obeysD [OF obeys_endpoint_operations(2)] obeys_other_operations [THEN obeysD]
        obeysD [OF obeys_simulate] obeys_key_operations [THEN obeysD])
qed

text \<open>A lawful world can do no more than the most permissive one.\<close>

lemma sys_step_mono:
  assumes "lawful answers" "sys_step answers Start c c'"
  shows "sys_step lawful_answer Start c c'"
  using assms(2)
proof (cases rule: sys_step.cases)
  case (call T req r T' ps k qs)
  then show ?thesis using assms(1) by (auto simp: lawful_def intro!: sys_step.call)
qed (auto intro: sys_step.intros)

lemma reachable_permissive:
  assumes "lawful answers" "reachable answers Start T0 c"
  shows "reachable lawful_answer Start T0 c"
  using assms(2) unfolding reachable_def
  by (induction rule: rtranclp_induct) (auto intro: rtranclp.rtrancl_into_rtrancl sys_step_mono [OF assms(1)])

subsection \<open>Properties\<close>

text \<open>C1: No write of the system is ever refused by a state-machine trigger. Whenever a process is about to
  write a message, a job or a webhook attempt whose stored row still has the version the process asks for, the
  guard lets the transition through: the only refusals a process meets are lost races and failures of the
  database itself, never an illegal transition.\<close>

theorem no_illegal_transition:
  assumes "lawful answers" "inv_tables worker_rules T0" "reachable answers gateway T0 (T, ps)"
  shows "(\<forall>i p v k m now. Call (UpdateMessage i p v) k \<in> set ps \<longrightarrow> t_messages T i = Some m \<longrightarrow> msg_version m = v
        \<longrightarrow> (\<exists>m'. write_message now p m = Some m'))
    \<and> (\<forall>i p v k j now. Call (UpdateJob i p v) k \<in> set ps \<longrightarrow> t_jobs T i = Some j \<longrightarrow> job_version j = v
        \<longrightarrow> (\<exists>j'. write_job now p j = Some j'))
    \<and> (\<forall>i p v k a now. Call (UpdateAttempt i p v) k \<in> set ps \<longrightarrow> t_attempts T i = Some a \<longrightarrow> att_version a = v
        \<longrightarrow> (\<exists>a'. write_attempt now p a = Some a'))"
  using system.no_illegal_message_write [OF assms(2) reachable_permissive [OF assms(1,3)]]
    system.no_illegal_job_write [OF assms(2) reachable_permissive [OF assms(1,3)]]
    system.no_illegal_attempt_write [OF assms(2) reachable_permissive [OF assms(1,3)]]
  by blast


text \<open>C2: Every submission is accounted for. Whenever a process is about to hand a message to a provider, the
  process has read a row of that message in the state routed, with the same destination and text and with the
  attempt already counted against the limit; the stored row is that one or a later version of it.\<close>

theorem submissions_are_accounted:
  assumes "lawful answers" "inv_tables worker_rules T0" "reachable answers gateway T0 (T, ps)"
    and "Call (Submit key req) k \<in> set ps"
  shows "\<exists>m cur. msg_id m = sub_reference req \<and> msg_state m = Routed \<and> msg_msisdn m = sub_to req
    \<and> msg_body m = Some (sub_body req) \<and> 1 \<le> msg_attempts m \<and> msg_attempts m \<le> msg_maxAttempts m
    \<and> t_messages T (msg_id m) = Some cur \<and> msg_version m \<le> msg_version cur
    \<and> (msg_version m = msg_version cur \<longrightarrow> cur = m)"
proof -
  from system.submissions_justified [OF assms(2) reachable_permissive [OF assms(1,3)] assms(4)]
  obtain m cur where m: "message_submit m req" "message_inv m" "t_messages T (msg_id m) = Some cur"
    "msg_version m \<le> msg_version cur" "msg_version m = msg_version cur \<longrightarrow> cur = m"
    by auto
  moreover have "1 \<le> msg_attempts m" "msg_attempts m \<le> msg_maxAttempts m"
    using m(1,2) by (auto simp: message_submit_def message_inv_def tried_def)
  ultimately show ?thesis
    by (intro exI [of _ m] exI [of _ cur]) (simp add: message_submit_def)
qed


text \<open>C5: A finished message stays finished: once a message is delivered, failed, expired, rejected or cancelled,
  no step of the system changes its state again.\<close>

theorem finished_messages_stay:
  assumes "lawful answers" "(sys_step answers gateway)\<^sup>*\<^sup>* (T, ps) (U, qs)"
    and "t_messages T i = Some m" "message_terminal (msg_state m)"
  shows "\<exists>m'. t_messages U i = Some m' \<and> msg_state m' = msg_state m"
proof -
  from version_run_row [OF conjunct1 [OF run_version_steps [OF assms(1,2)]] assms(3)]
  obtain m' where "t_messages U i = Some m'" "(guard_allows message_state_transitions)\<^sup>*\<^sup>* (msg_state m) (msg_state m')"
    by blast
  with message_machine.path_from_terminal assms(4) show ?thesis by blast
qed


subsection \<open>Witnesses\<close>

text \<open>A reachable state with a dispatch poll about to take the lease on the queued message.\<close>

definition demo_tick :: "unit prog" where
  "demo_tick = as_process (dispatch_tick demo_env [] (lit ''w''))"

lemma demo_reachable: "reachable lawful_answer gateway demo_tables (demo_tables, [demo_tick])"
  unfolding reachable_def demo_tick_def
  by (intro r_into_rtranclp sys_step.spawn gateway.dispatch_poll)

lemma demo_start: "reachable lawful_answer gateway demo_tables (demo_tables, [])"
  by (simp add: reachable_def)

definition demo_provider :: provider where
  "demo_provider = \<lparr>prov_id = lit ''p1'', prov_key = lit ''orange'', prov_state = Active, prov_consecutiveFailures = 0,
     prov_circuitOpenUntil = None, prov_costPerSegmentXaf = (25, 0), prov_version = 1\<rparr>"

definition demo_adapters :: provider_registry where
  "demo_adapters = [(lit ''orange'', \<lparr>ad_key = lit ''orange'', ad_tps_ceiling = Fin 5\<rparr>)]"

definition demo_world :: tables where
  "demo_world = demo_tables\<lparr>t_providers := [lit ''p1'' \<mapsto> demo_provider]\<rparr>"

definition demo_world_after :: tables where
  "demo_world_after = demo_after\<lparr>t_providers := [lit ''p1'' \<mapsto> demo_provider]\<rparr>"

lemma demo_world_inv: "inv_tables worker_rules demo_world"
  using demo_tables_inv by (simp add: inv_tables_def demo_world_def)

definition demo_lease_patch :: message_patch where
  "demo_lease_patch = no_message_patch\<lparr>mp_state := Some Routed, mp_attempts := Some 1,
     mp_leaseOwner := Some (Some (lit ''w'')), mp_leaseUntil := Some (Some (5 + DISPATCH_LEASE))\<rparr>"

lemma demo_budget: "budget_for (total_tps_ceiling demo_adapters) = 5"
proof -
  have "rnd 5 = (5 :: rat)" using rnd_of_int [of 5] by simp
  then show ?thesis by (simp add: budget_for_def total_tps_ceiling_def demo_adapters_def POLL_INTERVAL_secs_def to_f64_small)
qed

lemma demo_find:
  "alone lawful_answer demo_world (bind_prog utc_now (\<lambda>now. bind_prog (message_candidates now 5) (\<lambda>cs. Ret (now, cs))))
     demo_world (5, Inr [demo_message])"
proof -
  have "message_claimable 5 demo_message" by (simp add: message_claimable_def demo_message_def)
  then have "lawful_answer demo_world (FindMessages (message_claimable 5)
      [Desc (\<lambda>m. Some (KInt (msg_priority m))), Asc (\<lambda>m. Some (KInt (msg_createdAt m)))] (Some 5))
      (Messages (Inr [demo_message])) demo_world"
    by (simp add: lawful_answer_def in_limit_def demo_world_def demo_tables_def) (simp add: demo_message_def)
  then have "alone lawful_answer demo_world (message_candidates 5 5) demo_world (Inr [demo_message])"
    unfolding message_candidates_def find_messages_def by (rule alone_call) simp
  moreover have "alone lawful_answer demo_world utc_now demo_world 5"
    unfolding utc_now_def by (rule alone_call, rule lawful_now) simp
  ultimately show ?thesis by (intro alone_bindI) simp_all
qed



theorem finished_messages_stay_witness:
  "\<exists>T m'. t_messages T (lit ''m1'') = Some demo_expired \<and> (sys_step lawful_answer gateway)\<^sup>*\<^sup>* (T, []) (T, [demo_tick])
    \<and> t_messages T (lit ''m1'') = Some m' \<and> msg_state m' = Expired"
proof -
  let ?T = "demo_tables\<lparr>t_messages := [lit ''m1'' \<mapsto> demo_expired]\<rparr>"
  have run: "(sys_step lawful_answer gateway)\<^sup>*\<^sup>* (?T, []) (?T, [demo_tick])"
    unfolding demo_tick_def by (intro r_into_rtranclp sys_step.spawn gateway.dispatch_poll)
  have row: "t_messages ?T (lit ''m1'') = Some demo_expired" "msg_state demo_expired = Expired"
    by (simp_all add: demo_expired_def)
  from finished_messages_stay [OF lawful_permissive run row(1)] row run show ?thesis
    by (intro exI [of _ ?T]) (simp del: lit_Cons)
qed


text \<open>One poll, up to the moment it writes the lease and up to the moment it submits.\<close>

definition demo_poll :: "unit prog" where
  "demo_poll = as_process (dispatch_tick demo_env demo_adapters (lit ''w''))"

definition demo_submitting :: "cratestack_error + message list \<Rightarrow> unit prog" where
  "demo_submitting r = bind_prog (case r of Inl e \<Rightarrow> Ret (Inl e)
     | Inr claimed \<Rightarrow> submit_claimed demo_env demo_adapters claimed) (\<lambda>_. Ret ())"

definition demo_leasing_from :: "instant \<times> (cratestack_error + message list) \<Rightarrow> unit prog" where
  "demo_leasing_from = (\<lambda>(now, r). bind_prog (case r of Inl e \<Rightarrow> Ret (Inl e)
     | Inr cs \<Rightarrow> lease_candidates (env_err demo_env) (\<lambda>c. message_take_lease demo_env c (lit ''w'') now) [] cs)
     demo_submitting)"

definition demo_leasing :: "unit prog" where
  "demo_leasing = bind_prog (lease_candidates (env_err demo_env) (\<lambda>c. message_take_lease demo_env c (lit ''w'') 5) [] [demo_message])
     demo_submitting"

lemma demo_poll_unfold:
  "demo_poll = bind_prog (bind_prog utc_now (\<lambda>now. bind_prog (message_candidates now 5) (\<lambda>cs. Ret (now, cs))))
     demo_leasing_from"
  by (simp add: demo_poll_def as_process_def dispatch_tick_def claim_batch_def try_prog_def bind_prog_assoc demo_budget
      demo_leasing_from_def demo_submitting_def [abs_def] del: lit_Cons)

lemma demo_reaches_lease: "reachable lawful_answer gateway demo_world (demo_world, [demo_leasing])"
proof -
  have "sys_step lawful_answer gateway (demo_world, []) (demo_world, [demo_poll])"
    unfolding demo_poll_def by (intro sys_step.spawn gateway.dispatch_poll)
  moreover have "demo_leasing = demo_leasing_from (5, Inr [demo_message])"
    unfolding demo_leasing_def demo_leasing_from_def prod.case sum.case by (rule refl)
  then have "(sys_step lawful_answer gateway)\<^sup>*\<^sup>* (demo_world, [demo_poll]) (demo_world, [demo_leasing])"
    using run_alone [OF demo_find, of gateway demo_leasing_from] unfolding demo_poll_unfold by (simp only:)
  ultimately show ?thesis
    unfolding reachable_def by (rule converse_rtranclp_into_rtranclp)
qed

lemma demo_leasing_call: "\<exists>k. demo_leasing = Call (UpdateMessage (lit ''m1'') demo_lease_patch 7) k"
  by (simp add: demo_leasing_def demo_lease update_message_def demo_lease_patch_def del: lit_Cons)

theorem no_illegal_transition_witness:
  "\<exists>k. reachable lawful_answer gateway demo_world (demo_world, [Call (UpdateMessage (lit ''m1'') demo_lease_patch 7) k])
    \<and> t_messages demo_world (lit ''m1'') = Some demo_message
    \<and> (\<exists>m'. write_message 5 demo_lease_patch demo_message = Some m')"
proof -
  from demo_leasing_call obtain k where k: "demo_leasing = Call (UpdateMessage (lit ''m1'') demo_lease_patch 7) k" by blast
  note reach = demo_reaches_lease [unfolded k]
  have row: "t_messages demo_world (lit ''m1'') = Some demo_message" "msg_version demo_message = 7"
    by (simp_all add: demo_world_def demo_tables_def, simp add: demo_message_def)
  have "\<exists>m'. write_message 5 demo_lease_patch demo_message = Some m'"
    using conjunct1 [OF no_illegal_transition [OF lawful_permissive demo_world_inv reach]] row by fastforce
  with reach row show ?thesis by blast
qed

lemma demo_lease_alone:
  "alone lawful_answer demo_world (lease_candidates (env_err demo_env) (\<lambda>c. message_take_lease demo_env c (lit ''w'') 5) [] [demo_message])
     demo_world_after (Inr [demo_routed])"
proof -
  have "lawful_answer demo_world (UpdateMessage (lit ''m1'') demo_lease_patch 7) (MessageRow (Inr demo_routed)) demo_world_after"
    unfolding lawful_answer_def request.case demo_lease_patch_def
    by (intro disjI2 exI [of _ demo_routed] exI [of _ 5] exI [of _ demo_message] conjI refl demo_write)
      (simp_all add: demo_world_def demo_tables_def demo_world_after_def demo_after_def, simp add: demo_message_def)
  then have "alone lawful_answer demo_world (update_message (lit ''m1'') demo_lease_patch 7) demo_world_after (Inr demo_routed)"
    unfolding update_message_def by (rule alone_call) simp
  then show ?thesis
    unfolding lease_candidates.simps demo_lease demo_lease_patch_def [symmetric] by (rule alone_bindI) simp
qed

definition demo_request :: submit_request where
  "demo_request = \<lparr>sub_to = lit ''+237690000000'', sub_sender_id = lit ''VAAM'', sub_body = lit ''hi'',
     sub_encoding = Gsm7, sub_reference = lit ''m1''\<rparr>"

lemma demo_resolve:
  "alone lawful_answer demo_world_after (resolve_provider demo_env demo_adapters demo_routed) demo_world_after
     (Inr (demo_provider, \<lparr>ad_key = lit ''orange'', ad_tps_ceiling = Fin 5\<rparr>))"
proof -
  have "lawful_answer demo_world_after (FindProviders (\<lambda>p. prov_id p = lit ''p1'') [] (Some 1))
      (Providers (Inr [demo_provider])) demo_world_after"
    by (simp add: lawful_answer_def in_limit_def demo_world_after_def demo_provider_def)
  then have "alone lawful_answer demo_world_after (find_providers (\<lambda>p. prov_id p = lit ''p1'') [] (Some 1)) demo_world_after (Inr [demo_provider])"
    unfolding find_providers_def by (rule alone_call) simp
  moreover have "msg_providerId demo_routed = Some (lit ''p1'')" by (simp add: demo_routed_def demo_message_def)
  moreover have "map_of demo_adapters (prov_key demo_provider) = Some \<lparr>ad_key = lit ''orange'', ad_tps_ceiling = Fin 5\<rparr>"
    by (simp add: demo_adapters_def demo_provider_def)
  ultimately show ?thesis
    by (simp add: resolve_provider_def del: lit_Cons alone_bind) (erule alone_bindI, simp del: lit_Cons)
qed

definition demo_rest :: "ustring + provider \<times> adapter \<Rightarrow> unit prog" where
  "demo_rest r = bind_prog (case r of
        Inl reason \<Rightarrow> handle_submit_error demo_env demo_routed None (Unavailable reason None)
      | Inr (row, adapter) \<Rightarrow> bind_prog (submit (ad_key adapter) demo_request) (\<lambda>result.
          case result of
            Inr ack \<Rightarrow> bind_prog (write_submitted demo_routed (provider_ref ack) (provider_ref_alt ack)) (\<lambda>_.
              reset_provider_failures row)
          | Inl err \<Rightarrow> handle_submit_error demo_env demo_routed (Some row) err))
      (\<lambda>_. bind_prog (submit_claimed demo_env demo_adapters []) (\<lambda>_. Ret ()))"

lemma demo_submitting_unfold:
  "demo_submitting (Inr [demo_routed]) = bind_prog (resolve_provider demo_env demo_adapters demo_routed) demo_rest"
proof -
  have st: "msg_state demo_routed = Routed" by (simp add: demo_routed_def)
  have body: "msg_body demo_routed = Some (lit ''hi'')" by (simp add: demo_routed_def demo_message_def)
  have req: "\<lparr>sub_to = msg_msisdn demo_routed, sub_sender_id = msg_senderIdValue demo_routed, sub_body = lit ''hi'',
           sub_encoding = decode_encoding (msg_encoding demo_routed), sub_reference = msg_id demo_routed\<rparr> = demo_request"
    by (simp add: demo_routed_def demo_message_def demo_request_def)
  show ?thesis
    unfolding demo_submitting_def sum.case submit_claimed.simps(2) st if_P [OF refl] submit_one_def body option.case
      bind_prog_assoc req demo_rest_def [abs_def] ..
qed

lemma demo_rest_call:
  "\<exists>k. demo_rest (Inr (demo_provider, \<lparr>ad_key = lit ''orange'', ad_tps_ceiling = Fin 5\<rparr>)) =
     Call (Submit (lit ''orange'') demo_request) k"
  unfolding demo_rest_def sum.case prod.case adapter.select_convs submit_def bind_prog.simps by blast

theorem submissions_are_accounted_witness:
  "\<exists>k. reachable lawful_answer gateway demo_world (demo_world_after, [Call (Submit (lit ''orange'') demo_request) k])
    \<and> (\<exists>(m :: message) cur. msg_id m = lit ''m1'' \<and> msg_state m = Routed \<and> 1 \<le> msg_attempts m \<and> msg_attempts m \<le> msg_maxAttempts m
      \<and> t_messages demo_world_after (msg_id m) = Some cur \<and> msg_version m \<le> msg_version cur)"
proof -
  let ?r = "Inr (demo_provider, \<lparr>ad_key = lit ''orange'', ad_tps_ceiling = Fin 5\<rparr>)"
  obtain k where k: "demo_rest ?r = Call (Submit (lit ''orange'') demo_request) k"
    using demo_rest_call by blast
  have "(sys_step lawful_answer gateway)\<^sup>*\<^sup>* (demo_world, [demo_leasing]) (demo_world_after, [demo_submitting (Inr [demo_routed])])"
    unfolding demo_leasing_def by (rule run_alone [OF demo_lease_alone])
  moreover have "(sys_step lawful_answer gateway)\<^sup>*\<^sup>* (demo_world_after, [demo_submitting (Inr [demo_routed])])
      (demo_world_after, [demo_rest ?r])"
    unfolding demo_submitting_unfold by (rule run_alone [OF demo_resolve])
  ultimately have run: "reachable lawful_answer gateway demo_world (demo_world_after, [Call (Submit (lit ''orange'') demo_request) k])"
    using demo_reaches_lease unfolding reachable_def k by (meson rtranclp_trans)
  have ref: "sub_reference demo_request = lit ''m1''" by (simp add: demo_request_def)
  have pending: "Call (Submit (lit ''orange'') demo_request) k \<in> set [Call (Submit (lit ''orange'') demo_request) k]"
    by (rule list.set_intros(1))
  from submissions_are_accounted [OF lawful_permissive demo_world_inv run pending] obtain m :: message and cur where
    "msg_id m = lit ''m1''" "msg_state m = Routed" "1 \<le> msg_attempts m" "msg_attempts m \<le> msg_maxAttempts m"
    "t_messages demo_world_after (msg_id m) = Some cur" "msg_version m \<le> msg_version cur"
    unfolding ref by blast
  with run show ?thesis by (intro exI [of _ k] exI [of _ m] exI [of _ cur] conjI)
qed

end
