(* ===== verification/Spec2Isabelle.thy ===== *)
theory Spec2Isabelle
  imports Gateway
begin

text \<open>
  \<^bold>\<open>vsms, an SMS gateway: a verification development of its Rust back end.\<close>

  \<^bold>\<open>The program.\<close> A caller submits a message through the API; the row goes through a state machine held by
  a database trigger. Workers poll the database. The dispatch role claims messages under a lease, chooses a route,
  hands the text to a provider's adapter and writes the outcome back; a provider reports the delivery later by
  a callback, which becomes a receipt and a transition. The jobs role runs background jobs, which the scheduler role
  enqueues, and the hooks role posts events to the applications' webhooks. Any number of workers run at the same time
  and any of them can stop between two calls: what they share is the database, and what keeps them apart is
  optimistic locking (\<^verbatim>\<open>if_match\<close> on a version column), leases and the triggers.

  \<^bold>\<open>How it is modelled.\<close> Strings are lists of Unicode scalar values (\<open>ustring\<close>), instants and
  durations are integers (microseconds), Rust's \<^verbatim>\<open>i64\<close> is \<open>int\<close> with \<open>wrap_i64\<close> where it can
  overflow, \<^verbatim>\<open>f64\<close> is binary64 with rounding written out. Pure functions are HOL functions. Code with
  effects is a program tree (\<open>'a prog\<close>): a request to the database, the clock, the random source, a provider or
  an HTTP client, and a continuation for every answer, so a \<^verbatim>\<open>?\<close> or an early return is a branch of the
  tree. Errors are the left side of a sum. Loops over rows are recursion on the list, so nothing needs fuel; the one
  loop with a bound in the code (\<^verbatim>\<open>sweep_envelope_nonces\<close>, forty batches) recurses on that bound. Endless
  poll loops are modelled by one iteration that can be started any number of times.

  \<^bold>\<open>Theories, in the order they build on each other.\<close>
  \<^item> \<^verbatim>\<open>Prelude\<close>: strings, decimal numerals, results, lists and the collections of rewrite rules.
  \<^item> \<^verbatim>\<open>Packed_Column\<close>: \<^verbatim>\<open>sms-core/src/lib.rs\<close>, lists of ids packed in one text column;
    round trip, and the substring search that decides membership.
  \<^item> \<^verbatim>\<open>Gsm7\<close>, \<^verbatim>\<open>Segment\<close>, \<^verbatim>\<open>Encoding\<close>: \<^verbatim>\<open>sms-encoding\<close>, the GSM-7
    alphabet, the packing of characters into segments (as few as any packing, against a declarative reference), and
    the analysis, normalisation and transliteration of a text.
  \<^item> \<^verbatim>\<open>Msisdn\<close>: \<^verbatim>\<open>sms-msisdn\<close>, parsing and classifying phone numbers and the longest-prefix
    operator table. The \<^verbatim>\<open>phonenumber\<close> crate is the parameter \<open>phonelib\<close>.
  \<^item> \<^verbatim>\<open>F64\<close>, \<^verbatim>\<open>Routing\<close>: \<^verbatim>\<open>sms-routing\<close>, \<^verbatim>\<open>select_route\<close> with its
    weighted draw; the winner is the best eligible route, every other route is explained, and the draw is fair up to
    rounding.
  \<^item> \<^verbatim>\<open>Provider\<close>: \<^verbatim>\<open>sms-provider\<close>, \<^verbatim>\<open>sms-provider-http\<close> and the receipt parsers
    of the Orange and MTN adapters, from decoded JSON on.
  \<^item> \<^verbatim>\<open>Breaker\<close>: \<^verbatim>\<open>breaker.rs\<close> and \<^verbatim>\<open>throttle.rs\<close>. \<^verbatim>\<open>Errors\<close>:
    \<^verbatim>\<open>sms-api/src/errors.rs\<close>.
  \<^item> \<^verbatim>\<open>Store\<close>: the rows (\<^verbatim>\<open>schemas/vsms.cstack\<close>, the columns that are read or written), the
    patches, the three transition tables and guard triggers and the unique index on jobs
    (\<^verbatim>\<open>migrations/postgres/0002_bootstrap/up.sql\<close>); the locale \<open>guarded_machine\<close>.
  \<^item> \<^verbatim>\<open>Program\<close>: program trees, what a lawful database answers (\<open>lawful_answer\<close>), one program alone
    (\<open>alone\<close>), interleaved processes (\<open>sys_step\<close>, \<open>reachable\<close>) and the verification condition
    \<open>wp\<close>: under it a program only ever writes what its rules permit of rows it has read. The locales
    \<open>row_rules\<close> and \<open>protocol\<close> carry this over to every interleaving.
  \<^item> \<^verbatim>\<open>Worker_Routing\<close>, \<^verbatim>\<open>Claim\<close>, \<^verbatim>\<open>Dispatch\<close>: \<^verbatim>\<open>sms-worker\<close>'s
    \<^verbatim>\<open>routing.rs\<close>, \<^verbatim>\<open>claim.rs\<close> and \<^verbatim>\<open>dispatch.rs\<close>; the locale \<open>claimable\<close>
    is the trait of the three kinds of claimable rows, interpreted for each. \<^verbatim>\<open>Claim\<close> also states the
    worker's rules and the message invariant.
  \<^item> \<^verbatim>\<open>Dlr\<close>: \<^verbatim>\<open>sms-api/src/dlr.rs\<close>, from a provider's callback to receipt and transition.
  \<^item> \<^verbatim>\<open>Jobs\<close>, \<^verbatim>\<open>Scheduler\<close>, \<^verbatim>\<open>Retention\<close>: \<^verbatim>\<open>jobs.rs\<close> with
    \<^verbatim>\<open>expire_stale\<close>, \<^verbatim>\<open>scheduler.rs\<close>, and the handlers \<^verbatim>\<open>purge_retention\<close> and
    \<^verbatim>\<open>sweep_envelope_nonces\<close>.
  \<^item> \<^verbatim>\<open>Webhook\<close>, \<^verbatim>\<open>Hooks\<close>: \<^verbatim>\<open>sms-webhook\<close> (signatures and the checks before
    sealing) and \<^verbatim>\<open>hooks.rs\<close> (delivery).
  \<^item> \<^verbatim>\<open>Api_Store\<close>: the rows the procedures of \<^verbatim>\<open>sms-api\<close> read and write
    (applications, clients, keys, users, roles, sender ids, consent, opt-outs) and how a new row is made from its input.
  \<^item> \<^verbatim>\<open>Transactions\<close>: the runs of a transaction, in which only its own requests touch the tables and an
    error rolls every write back.
  \<^item> \<^verbatim>\<open>Access\<close>: \<^verbatim>\<open>rbac.rs\<close>, \<^verbatim>\<open>pair_scope.rs\<close>,
    \<^verbatim>\<open>owner_grant.rs\<close>, \<^verbatim>\<open>hmac_gate.rs\<close>, \<^verbatim>\<open>keypair_gate.rs\<close> and the
    stack of guards \<^verbatim>\<open>router.rs\<close> puts in front of the generated routes.
  \<^item> \<^verbatim>\<open>Auth\<close>: \<^verbatim>\<open>auth.rs\<close>, \<^verbatim>\<open>signers.rs\<close>, \<^verbatim>\<open>cache.rs\<close>
    and \<^verbatim>\<open>bearer.rs\<close>: from a bearer token to a caller's standing, its cache and its context; the locale \<open>fetcher\<close> is
    the contract between a cache and the query behind it, interpreted for each cached query.
  \<^item> \<^verbatim>\<open>Procedures\<close>: \<^verbatim>\<open>procedures.rs\<close>, sending and previewing a text with the controls of
    \<^verbatim>\<open>consent.rs\<close>, and \<^verbatim>\<open>composition.rs\<close>, \<^verbatim>\<open>pepper.rs\<close>.
  \<^item> \<^verbatim>\<open>Operations\<close>: the other procedures of \<^verbatim>\<open>procedures.rs\<close>: requeueing a job, replaying a
    webhook delivery, rotating a secret, switching the delivery mode, console users, opt-outs, receipts and the
    dashboard; the locale \<open>keyed_read\<close> is the read of one row by its key.
  \<^item> \<^verbatim>\<open>Simulator\<close>: \<^verbatim>\<open>route_simulator.rs\<close> and \<^verbatim>\<open>simulate\<close>, against what
    dispatch decides on the same rows.
  \<^item> \<^verbatim>\<open>Keys\<close>: \<^verbatim>\<open>client_keys.rs\<close>, \<^verbatim>\<open>console_keys.rs\<close> and
    \<^verbatim>\<open>provision_client\<close>: registering, pairing and revoking the keys that sign requests; the locale
    \<open>key_store\<close> is the contract of a table of keys, interpreted for both tables.
  \<^item> \<^verbatim>\<open>Delivery_Status\<close>: \<^verbatim>\<open>delivery_status.rs\<close>, the delivery lookup with its trail and
    its hourly budget, alone and with any number of lookups at the same time.
  \<^item> \<^verbatim>\<open>Gateway\<close>: all of them running together.

  \<^bold>\<open>What is shown.\<close> Of every interleaving of any number of polls, callbacks and procedure calls, with crashes: no write is ever
  refused by a state-machine trigger, every submission is of a routed message with an attempt counted for it, the
  message invariant holds of every stored row, a version of a row is superseded by one write only, and a finished
  message keeps its state. Of one role at a time: what a claim returns, at most one submission and at most one webhook
  request per claim, the outcome of a delivery, of a failed job and of a scheduler poll on every branch, and that
  expiring, purging and sweeping touch only what they may. Of the API: a request that passes the guards holds the
  permission of its route, none of them can grant the pairing scope, only an owner grants the owner role; an admitted
  caller's standing is that of an active row and its scopes are never wider than the registration; a text that is
  accepted passed every control (opt-out, quiet hours, consent, quota, sender) and the preview agrees with it; the
  operator's procedures change exactly the rows they name; a key is registered once, to one client or person, and a
  revoked key never signs again; pairing needs the scope and a proof of possession and never reaches an owner; the
  simulator names the route dispatch would choose when no circuit is open; a delivery lookup answers with the caller's own
  messages, leaves its row on the trail, and keeps to its budget under any interleaving of lookups. Of the pure components: round trips, optimality of the
  packing, exactness of the classifications and the best-route property.

  \<^bold>\<open>What is assumed.\<close> A database answers as \<open>lawful_answer\<close> says (reads return stored rows that pass the
  filter and respect the limit; a conditional update succeeds only at the given version and through the trigger; it
  may always fail); third-party code is a parameter, with its documented behaviour as a named hypothesis where a
  property needs it (\<open>lib_digits\<close>, \<open>lib_canonical\<close>, \<open>hex_lawful\<close>, \<open>add_lawful\<close>). The clock and the random source
  are unconstrained. Properties of one program by itself are about the runs in which nobody
  else writes between its calls (\<open>alone\<close>; inside a transaction, \<open>solo\<close>); those of every interleaving do
  not need this. Decoding of requests, verification of tokens and the row policies the framework generates from the
  schema are outside the model: a procedure reads with the system's context wherever the code does.

  \<^bold>\<open>Not modelled.\<close> The HTTP clients of the adapters, logging, metrics and process supervision; the jobs
  \<^verbatim>\<open>reap_outbox\<close>, \<^verbatim>\<open>anchor_audit\<close> and \<^verbatim>\<open>grey_route_watch\<close> (parameters of the
  default registry), which are raw SQL over tables no other part reads; of the API, the envelope door
  (\<^verbatim>\<open>envelope.rs\<close>), the worker locks, the webhook event bodies and the audit log; the token server, the configuration files, the command line and the build tools.
\<close>

end
